(* ===== verification/Prelude.thy ===== *)
theory Prelude
  imports Main "HOL-Library.Word"
begin

text \<open>
  Shared vocabulary of the development: the kernel's error codes, the outcome type of a
  C function, fixed-size byte arrays with \<open>memcpy\<close>-style writes, C strings, and the
  outcomes of \<open>copy_to_user\<close> and \<open>copy_from_user\<close>.
  Logging (\<open>printk\<close>, \<open>LOG\<close>, \<open>ERR\<close>) has no effect on any state modelled here and is
  left out everywhere.
\<close>

named_theorems buf_simps \<open>facts on fixed-size buffers\<close>
named_theorems inv_intros \<open>introduction rules for the components' invariants\<close>

section \<open>Outcomes\<close>

text \<open>
  The error codes the sources return. \<open>Kern e\<close> is a code that a kernel function
  returned and that the source passes on unchanged.
\<close>

datatype errno =
    EPERM | ENOENT | EIO | ENXIO | EAGAIN | ENOMEM | EFAULT | EBUSY | ENODEV | EINVAL
  | ENOTTY | ELNRNG | EBADRQC | ECANCELED | EACCES | ENOSYS | EOPNOTSUPP | Kern int

text \<open>
  What C leaves undefined is a fault of its own: a dereferenced null pointer, an access
  outside an object, a use of released memory, a division by zero.
\<close>

datatype fault = NullDeref | OutOfBounds | UseAfterFree | DoubleFree | DivZero

datatype stop = Errno errno | Fault fault

type_synonym 'a res = "stop + 'a"

abbreviation fail :: "errno \<Rightarrow> 'a res" where
  "fail e \<equiv> Inl (Errno e)"

abbreviation crash :: "fault \<Rightarrow> 'a res" where
  "crash f \<equiv> Inl (Fault f)"

text \<open>A result that is not undefined behaviour: a value or an error code.\<close>

definition defined :: "'a res \<Rightarrow> bool" where
  "defined r \<longleftrightarrow> (\<forall>f. r \<noteq> crash f)"

lemma defined_simps [simp]:
  "defined (Inr x)" "defined (fail e)" "\<not> defined (crash f)"
  by (simp_all add: defined_def)

section \<open>Arrays\<close>

text \<open>\<open>chunk off n b\<close> reads \<open>n\<close> elements from offset \<open>off\<close>; \<open>blit b off src\<close> is the
  array \<open>b\<close> after \<open>memcpy(b + off, src, length src)\<close>.\<close>

definition chunk :: "nat \<Rightarrow> nat \<Rightarrow> 'a list \<Rightarrow> 'a list" where
  "chunk off n b = take n (drop off b)"

definition blit :: "'a list \<Rightarrow> nat \<Rightarrow> 'a list \<Rightarrow> 'a list" where
  "blit b off src = take off b @ src @ drop (off + length src) b"

lemma length_chunk [simp]: "length (chunk off n b) = min n (length b - off)"
  by (simp add: chunk_def min.commute)

lemma chunk_0 [simp]: "chunk off 0 b = []"
  by (simp add: chunk_def)

lemma chunk_append:
  "chunk off m b @ chunk (off + m) n b = chunk off (m + n) b"
  by (simp add: chunk_def take_add drop_drop add.commute)

lemma take_chunk: "take m (chunk off n b) = chunk off (min m n) b"
  by (simp add: chunk_def)

lemma drop_chunk: "drop m (chunk off n b) = chunk (off + m) (n - m) b"
  by (simp add: chunk_def drop_take add.commute)

lemma length_blit [simp]:
  "off + length src \<le> length b \<Longrightarrow> length (blit b off src) = length b"
  by (simp add: blit_def)

lemma blit_Nil [simp]: "blit b off [] = b"
  by (simp add: blit_def)

lemma chunk_blit_same [buf_simps]:
  "off + length src \<le> length b \<Longrightarrow> chunk off (length src) (blit b off src) = src"
  by (simp add: chunk_def blit_def)

lemma chunk_blit_before [buf_simps]:
  assumes "o' + n \<le> off" "off \<le> length b"
  shows "chunk o' n (blit b off src) = chunk o' n b"
proof -
  have "drop o' (take off b) = take (off - o') (drop o' b)"
    by (simp add: drop_take)
  then show ?thesis
    using assms by (simp add: chunk_def blit_def)
qed

lemma chunk_blit_after [buf_simps]:
  assumes "off + length src \<le> o'" "o' \<le> length b"
  shows "chunk o' n (blit b off src) = chunk o' n b"
proof -
  have l: "length (take off b) = off"
    using assms by simp
  have "drop o' (blit b off src) = drop (o' - off - length src) (drop (off + length src) b)"
    using assms l by (simp add: blit_def)
  also have "\<dots> = drop o' b"
    using assms by simp
  finally show ?thesis by (simp add: chunk_def)
qed

lemma chunk_blit_extend [buf_simps]:
  assumes "r \<le> w" "w + length src \<le> length b"
  shows "chunk r (w + length src - r) (blit b w src) = chunk r (w - r) b @ src"
proof -
  have "chunk r (w + length src - r) (blit b w src)
      = chunk r (w - r) (blit b w src) @ chunk w (length src) (blit b w src)"
    using assms chunk_append [of r "w - r" "blit b w src" "length src"] by simp
  also have "\<dots> = chunk r (w - r) b @ src"
    using assms by (simp add: chunk_blit_before chunk_blit_same)
  finally show ?thesis .
qed

lemma blit_full: "length src = length b \<Longrightarrow> blit b 0 src = src"
  by (simp add: blit_def)

lemma chunk_blit_inside [buf_simps]:
  assumes "off \<le> o'" "o' + n \<le> off + length src" "off + length src \<le> length b"
  shows "chunk o' n (blit b off src) = chunk (o' - off) n src"
proof -
  have "drop o' (blit b off src) = drop (o' - off) src @ drop (off + length src) b"
    using assms by (simp add: blit_def)
  then show ?thesis using assms by (simp add: chunk_def)
qed

lemma nth_blit:
  assumes "off + length src \<le> length b" "i < length b"
  shows "blit b off src ! i
    = (if off \<le> i \<and> i < off + length src then src ! (i - off) else b ! i)"
  using assms by (auto simp: blit_def nth_append min_def)

section \<open>C strings\<close>

abbreviation NUL :: char where
  "NUL \<equiv> CHR 0x00"

abbreviation NL :: char where
  "NL \<equiv> CHR 0x0A"

abbreviation TAB :: char where
  "TAB \<equiv> CHR 0x09"

text \<open>The string an array holds: the characters before its first zero byte.\<close>

definition cstr :: "char list \<Rightarrow> char list" where
  "cstr b = takeWhile (\<lambda>c. c \<noteq> NUL) b"

definition strlen :: "char list \<Rightarrow> nat" where
  "strlen b = length (cstr b)"

lemma cstr_simps [simp]:
  "cstr [] = []" "cstr (c # b) = (if c = NUL then [] else c # cstr b)"
  by (simp_all add: cstr_def)

lemma cstr_replicate_NUL [simp]: "cstr (replicate n NUL) = []"
  by (cases n) simp_all

lemma nth_last_take: "0 < n \<Longrightarrow> n \<le> length b \<Longrightarrow> b ! (n - 1) = last (take n b)"
  by (subst last_conv_nth) auto

lemma strlen_le [simp]: "strlen b \<le> length b"
  by (simp add: strlen_def cstr_def length_takeWhile_le)

lemma strlen_less: "NUL \<in> set b \<Longrightarrow> strlen b < length b"
  by (induction b) (auto simp: strlen_def cstr_def)

lemma cstr_terminated: "NUL \<notin> set s \<Longrightarrow> cstr (s @ NUL # rest) = s"
  by (induction s) auto

lemma cstr_append_NUL: "cstr (s @ NUL # rest) = cstr s"
  by (induction s) auto

lemma cstr_noNUL: "NUL \<notin> set (cstr b)"
  by (auto simp: cstr_def dest: set_takeWhileD)

lemma cstr_eq_take: "cstr b = take (strlen b) b"
  by (induction b) (auto simp: strlen_def)

lemma cstr_id: "NUL \<notin> set s \<Longrightarrow> cstr s = s"
  by (induction s) auto

text \<open>
  The idiom with which the drivers turn \<open>len > 0\<close> received bytes into a string: a final
  newline is replaced by the terminator, otherwise the terminator follows the bytes.
\<close>

definition terminate :: "char list \<Rightarrow> nat \<Rightarrow> char list" where
  "terminate b len = (if b ! (len - 1) = NL then b[len - 1 := NUL] else b[len := NUL])"

definition chomp :: "char list \<Rightarrow> char list" where
  "chomp s = (if s \<noteq> [] \<and> last s = NL then butlast s else s)"

lemma length_terminate [simp]: "length (terminate b len) = length b"
  by (simp add: terminate_def)

lemma terminate_has_NUL: "len < length b \<Longrightarrow> NUL \<in> set (terminate b len)"
  by (auto simp: terminate_def set_update_memI)

lemma cstr_update: "i < length b \<Longrightarrow> NUL \<notin> set (take i b) \<Longrightarrow> cstr (b[i := NUL]) = take i b"
  by (simp add: upd_conv_take_nth_drop cstr_terminated)

lemma cstr_terminate:
  assumes "take len b = m" "len < length b" "m \<noteq> []" "NUL \<notin> set m"
  shows "cstr (terminate b len) = chomp m"
proof -
  have len: "0 < len" "length m = len" using assms by auto
  have nth: "b ! (len - 1) = last m"
    using assms(1) len nth_take [of "len - 1" len b] by (simp add: last_conv_nth assms(3))
  have bl: "take (len - 1) b = butlast m"
    using assms(1,2) by (metis butlast_take less_imp_le)
  have "NUL \<notin> set (butlast m)" using assms(4) by (auto dest: in_set_butlastD)
  then show ?thesis
    using cstr_update [of "len - 1" b] cstr_update [of len b] assms bl nth
    by (auto simp: terminate_def chomp_def)
qed

lemma chomp_noNUL: "NUL \<notin> set m \<Longrightarrow> NUL \<notin> set (chomp m)"
  by (auto simp: chomp_def dest: in_set_butlastD)

section \<open>User memory\<close>

text \<open>
  \<open>copy_to_user\<close> and \<open>copy_from_user\<close> belong to the kernel. What the sources rely on is
  the number they return, the number of bytes that were \<^emph>\<open>not\<close> copied. It is a parameter:
  \<open>uc off n\<close> is that number for \<open>n\<close> bytes at offset \<open>off\<close> of the caller's buffer.
  \<open>copy_ok\<close> is the environment in which every copy succeeds.
\<close>

type_synonym ucopy = "nat \<Rightarrow> nat \<Rightarrow> nat"

definition copy_ok :: ucopy where
  "copy_ok = (\<lambda>_ _. 0)"

lemma copy_ok_simp [simp]: "copy_ok off n = 0"
  by (simp add: copy_ok_def)

definition copy_fails :: "ucopy \<Rightarrow> bool" where
  "copy_fails uc \<longleftrightarrow> (\<exists>off n. uc off n \<noteq> 0)"

lemma copy_failsI: "uc off n \<noteq> 0 \<Longrightarrow> copy_fails uc"
  by (auto simp: copy_fails_def)

lemma copy_ok_not_fails [simp]: "\<not> copy_fails copy_ok"
  by (simp add: copy_fails_def)

text \<open>A user buffer of \<open>cap\<close> accessible bytes: only what lies beyond it is not copied.\<close>

definition user_cap :: "nat \<Rightarrow> ucopy" where
  "user_cap cap off n = off + n - max off (min cap (off + n))"

lemma user_cap_ok [simp]: "off + n \<le> cap \<Longrightarrow> user_cap cap off n = 0"
  by (simp add: user_cap_def)

text \<open>What arrives in the destination: \<open>copy_to_user\<close> delivers the prefix it could copy,
  \<open>copy_from_user\<close> pads what it could not read with zero bytes.\<close>

definition to_user :: "ucopy \<Rightarrow> nat \<Rightarrow> char list \<Rightarrow> char list" where
  "to_user uc off src = take (length src - uc off (length src)) src"

definition from_user :: "ucopy \<Rightarrow> nat \<Rightarrow> char list \<Rightarrow> char list" where
  "from_user uc off src = (let nf = min (uc off (length src)) (length src) in
     take (length src - nf) src @ replicate nf NUL)"

lemma length_from_user [simp]: "length (from_user uc off src) = length src"
  by (simp add: from_user_def Let_def)

lemma from_user_ok [simp]: "uc off (length src) = 0 \<Longrightarrow> from_user uc off src = src"
  by (simp add: from_user_def)

lemma to_user_ok [simp]: "uc off (length src) = 0 \<Longrightarrow> to_user uc off src = src"
  by (simp add: to_user_def)

lemma copy_ok_user [simp]:
  "from_user copy_ok off src = src" "to_user copy_ok off src = src"
  by simp_all

section \<open>Memory allocation\<close>

text \<open>
  \<open>vmalloc\<close> and \<open>kmalloc\<close> are the kernel's: the \<open>k\<close>-th allocation either fails or yields
  memory with arbitrary contents.
\<close>

type_synonym allocator = "nat \<Rightarrow> (nat \<Rightarrow> char) option"

definition always_alloc :: "(nat \<Rightarrow> nat \<Rightarrow> char) \<Rightarrow> allocator" where
  "always_alloc junk = (\<lambda>k. Some (junk k))"

definition alloc_fails :: "allocator \<Rightarrow> bool" where
  "alloc_fails vm \<longleftrightarrow> (\<exists>k. vm k = None)"

lemma alloc_failsI: "vm k = None \<Longrightarrow> alloc_fails vm"
  by (auto simp: alloc_fails_def)

lemma always_alloc_not_fails [simp]: "\<not> alloc_fails (always_alloc junk)"
  by (simp add: alloc_fails_def always_alloc_def)

lemma always_alloc_simp [simp]: "always_alloc junk k = Some (junk k)"
  by (simp add: always_alloc_def)

end
