(* ===== verification/Interfaces.thy ===== *)
theory Interfaces
  imports Prelude
begin

text \<open>
  The contracts that several drivers share, as locales. A component that provides one
  interprets it on its own definitions; what every client of the contract may rely on is
  proved here once.
\<close>

section \<open>Byte streams\<close>

text \<open>
  A device written to at one end and read from at the other. \<open>content\<close> is the abstract
  value, the bytes written and not yet read.
\<close>

datatype stream_op = Put "char list" | Get nat

text \<open>A client's sequence of writes and reads, and what it has written in all.\<close>

fun stream_run :: "(char list \<Rightarrow> 's \<Rightarrow> 's) \<Rightarrow> (nat \<Rightarrow> 's \<Rightarrow> char list \<times> 's)
    \<Rightarrow> stream_op list \<Rightarrow> 's \<Rightarrow> char list \<times> 's" where
  "stream_run put get [] s = ([], s)"
| "stream_run put get (Put xs # ops) s = stream_run put get ops (put xs s)"
| "stream_run put get (Get n # ops) s =
     (let (out, s1) = get n s; (out', s2) = stream_run put get ops s1 in (out @ out', s2))"

fun written :: "stream_op list \<Rightarrow> char list" where
  "written [] = []"
| "written (Put xs # ops) = xs @ written ops"
| "written (Get n # ops) = written ops"

lemma stream_run_Get:
  "stream_run put get (Get n # ops) s
    = (fst (get n s) @ fst (stream_run put get ops (snd (get n s))),
       snd (stream_run put get ops (snd (get n s))))"
  by (simp add: Let_def split_beta)

locale byte_stream =
  fixes content :: "'s \<Rightarrow> char list"
    and inv :: "'s \<Rightarrow> bool"
    and put :: "char list \<Rightarrow> 's \<Rightarrow> 's"
    and get :: "nat \<Rightarrow> 's \<Rightarrow> char list \<times> 's"
  assumes inv_put: "inv s \<Longrightarrow> inv (put xs s)"
    and content_put: "inv s \<Longrightarrow> content (put xs s) = content s @ xs"
    and inv_get: "inv s \<Longrightarrow> inv (snd (get n s))"
    and get_out: "inv s \<Longrightarrow> fst (get n s) = take n (content s)"
    and content_get: "inv s \<Longrightarrow> content (snd (get n s)) = drop n (content s)"
begin

lemma run_inv: "inv s \<Longrightarrow> inv (snd (stream_run put get ops s))"
proof (induction ops arbitrary: s)
  case (Cons a ops)
  then show ?case
    by (cases a) (simp_all add: inv_put inv_get stream_run_Get del: stream_run.simps(3))
qed simp

text \<open>Whatever the interleaving of reads and writes, what was read followed by what is
  still in the device is what was there followed by what was written.\<close>

lemma run_fifo:
  "inv s \<Longrightarrow> fst (stream_run put get ops s) @ content (snd (stream_run put get ops s))
    = content s @ written ops"
proof (induction ops arbitrary: s)
  case (Cons a ops)
  then show ?case
    by (cases a) (simp_all add: inv_put inv_get content_put content_get get_out stream_run_Get
        del: stream_run.simps(3))
qed simp

end

section \<open>Reading to end of file\<close>

text \<open>
  A device that hands out a message: each read returns the number of bytes delivered, and
  zero marks the end. \<open>remaining\<close> is what the reader has still to receive.
\<close>

text \<open>The loop of \<open>cat\<close>: read until a read returns nothing, at most \<open>fuel\<close> times.\<close>

fun cat :: "(nat \<Rightarrow> 's \<Rightarrow> char list \<times> 's) \<Rightarrow> nat \<Rightarrow> nat \<Rightarrow> 's \<Rightarrow> (char list \<times> 's) option" where
  "cat rd 0 n s = None"
| "cat rd (Suc fuel) n s =
     (let (xs, s') = rd n s in
      if xs = [] then Some ([], s')
      else map_option (\<lambda>(ys, s''). (xs @ ys, s'')) (cat rd fuel n s'))"

locale eof_reader =
  fixes remaining :: "'s \<Rightarrow> char list"
    and rd :: "nat \<Rightarrow> 's \<Rightarrow> char list \<times> 's"
    and ok_count :: "nat \<Rightarrow> 's \<Rightarrow> bool"
    and final :: "'s \<Rightarrow> 's"
  assumes rd_prefix: "ok_count n s \<Longrightarrow> remaining s \<noteq> [] \<Longrightarrow>
      fst (rd n s) \<noteq> [] \<and> fst (rd n s) @ remaining (snd (rd n s)) = remaining s"
    and rd_final: "ok_count n s \<Longrightarrow> remaining s \<noteq> [] \<Longrightarrow> final (snd (rd n s)) = final s"
    and rd_count: "ok_count n s \<Longrightarrow> remaining s \<noteq> [] \<Longrightarrow> ok_count n (snd (rd n s))"
    and rd_eof: "ok_count n s \<Longrightarrow> remaining s = [] \<Longrightarrow> rd n s = ([], final s)"
begin

lemma cat_complete:
  "ok_count n s \<Longrightarrow> length (remaining s) < fuel \<Longrightarrow>
    cat rd fuel n s = Some (remaining s, final s)"
proof (induction fuel arbitrary: s)
  case 0
  then show ?case by simp
next
  case (Suc fuel)
  obtain xs s' where r: "rd n s = (xs, s')" by fastforce
  show ?case
  proof (cases "remaining s = []")
    case True
    then show ?thesis using rd_eof [OF Suc.prems(1) True] by simp
  next
    case False
    then have x: "xs \<noteq> []" and a: "xs @ remaining s' = remaining s"
      using rd_prefix [OF Suc.prems(1) False] r by auto
    have "length (remaining s') < length (remaining s)"
      using x arg_cong [OF a, of length] by (cases xs) auto
    then have "cat rd fuel n s' = Some (remaining s', final s')"
      using Suc.IH [of s'] Suc.prems rd_count [OF Suc.prems(1) False] r by simp
    then show ?thesis using r x a rd_final [OF Suc.prems(1) False] by simp
  qed
qed

end

section \<open>Sector stores\<close>

text \<open>
  A block device as its clients see it: \<open>wr sec xs\<close> stores bytes from a sector on,
  \<open>rd sec n\<close> reads \<open>n\<close> sectors, \<open>cap\<close> is the capacity in sectors.
\<close>

locale sector_store =
  fixes cap :: "'s \<Rightarrow> nat"
    and inv :: "'s \<Rightarrow> bool"
    and wr :: "nat \<Rightarrow> 'b list \<Rightarrow> 's \<Rightarrow> 's"
    and rd :: "nat \<Rightarrow> nat \<Rightarrow> 's \<Rightarrow> 'b list"
    and ssz :: nat
  assumes wr_inv: "inv s \<Longrightarrow> length xs = n * ssz \<Longrightarrow> sec + n \<le> cap s \<Longrightarrow> inv (wr sec xs s)"
    and wr_cap: "inv s \<Longrightarrow> length xs = n * ssz \<Longrightarrow> sec + n \<le> cap s \<Longrightarrow> cap (wr sec xs s) = cap s"
    and rd_wr_same: "inv s \<Longrightarrow> length xs = n * ssz \<Longrightarrow> sec + n \<le> cap s \<Longrightarrow>
      rd sec n (wr sec xs s) = xs"
    and rd_wr_other: "inv s \<Longrightarrow> length xs = n * ssz \<Longrightarrow> sec + n \<le> cap s \<Longrightarrow>
      sec' + m \<le> cap s \<Longrightarrow> sec + n \<le> sec' \<or> sec' + m \<le> sec \<Longrightarrow>
      rd sec' m (wr sec xs s) = rd sec' m s"
begin

lemma wr_both:
  assumes "inv s" "length xs = n * ssz" "length ys = m * ssz"
    and "sec + n \<le> cap s" "sec' + m \<le> cap s" "sec + n \<le> sec' \<or> sec' + m \<le> sec"
  shows "rd sec n (wr sec' ys (wr sec xs s)) = xs"
    and "rd sec' m (wr sec' ys (wr sec xs s)) = ys"
proof -
  have i: "inv (wr sec xs s)" by (rule wr_inv [OF assms(1,2,4)])
  have c: "cap (wr sec xs s) = cap s" by (rule wr_cap [OF assms(1,2,4)])
  have "rd sec n (wr sec' ys (wr sec xs s)) = rd sec n (wr sec xs s)"
    by (rule rd_wr_other [OF i assms(3)]) (use assms c in auto)
  then show "rd sec n (wr sec' ys (wr sec xs s)) = xs"
    using rd_wr_same [OF assms(1,2,4)] by simp
  show "rd sec' m (wr sec' ys (wr sec xs s)) = ys"
    by (rule rd_wr_same [OF i assms(3)]) (use assms c in auto)
qed

end

section \<open>Loading and unloading a module\<close>

text \<open>
  What \<open>insmod\<close> and \<open>rmmod\<close> do with a module: its init function runs with the outcomes \<open>e\<close>
  of the kernel calls it makes and may fail; while it is loaded its operations run; its
  exit function runs once.
\<close>

datatype ('e, 'o) mod_event = Load 'e | Op 'o | Unload

fun mod_step :: "('e \<Rightarrow> 's \<Rightarrow> int \<times> 's) \<Rightarrow> ('o \<Rightarrow> 's \<Rightarrow> 's) \<Rightarrow> ('s \<Rightarrow> 's)
    \<Rightarrow> ('e, 'o) mod_event \<Rightarrow> bool \<times> 's \<Rightarrow> bool \<times> 's" where
  "mod_step ini opn ext (Load e) (loaded, s) =
     (if loaded then (True, s) else (let (r, s') = ini e s in (r \<ge> 0, s')))"
| "mod_step ini opn ext (Op x) (loaded, s) = (loaded, if loaded then opn x s else s)"
| "mod_step ini opn ext Unload (loaded, s) = (False, if loaded then ext s else s)"

definition mod_run :: "('e \<Rightarrow> 's \<Rightarrow> int \<times> 's) \<Rightarrow> ('o \<Rightarrow> 's \<Rightarrow> 's) \<Rightarrow> ('s \<Rightarrow> 's)
    \<Rightarrow> ('e, 'o) mod_event list \<Rightarrow> bool \<times> 's \<Rightarrow> bool \<times> 's" where
  "mod_run ini opn ext evs st = fold (mod_step ini opn ext) evs st"

lemma mod_run_unload: "\<exists>s'. mod_run ini opn ext (evs @ [Unload]) st = (False, s')"
  by (cases "mod_run ini opn ext evs st") (simp add: mod_run_def)

text \<open>
  The contract of a well-behaved module: \<open>res\<close> is what it holds of the kernel's
  (registrations, memory). A failed init gives everything back, and so does exit.
\<close>

locale lifecycle =
  fixes ini :: "'e \<Rightarrow> 's \<Rightarrow> int \<times> 's"
    and opn :: "'o \<Rightarrow> 's \<Rightarrow> 's"
    and ext :: "'s \<Rightarrow> 's"
    and res :: "'s \<Rightarrow> 'r"
  assumes ini_fail: "ini e s = (r, s') \<Longrightarrow> r < 0 \<Longrightarrow> res s' = res s"
    and ini_ext: "ini e s = (r, s') \<Longrightarrow> r \<ge> 0 \<Longrightarrow> res (ext s') = res s"
    and opn_ext: "res (ext (opn x s)) = res (ext s)"
begin

lemma run_balance:
  "\<not> loaded \<and> res s = r0 \<or> loaded \<and> res (ext s) = r0 \<Longrightarrow>
    mod_run ini opn ext evs (loaded, s) = (loaded', s') \<Longrightarrow>
    \<not> loaded' \<and> res s' = r0 \<or> loaded' \<and> res (ext s') = r0"
proof (induction evs arbitrary: loaded s)
  case Nil
  then show ?case by (simp add: mod_run_def)
next
  case (Cons ev evs)
  obtain l1 s1 where st: "mod_step ini opn ext ev (loaded, s) = (l1, s1)" by fastforce
  have "\<not> l1 \<and> res s1 = r0 \<or> l1 \<and> res (ext s1) = r0"
    using Cons.prems(1) st
    by (cases ev)
      (auto simp: opn_ext split: if_splits prod.splits dest: ini_fail ini_ext)
  then show ?case
    using Cons.IH [of l1 s1] Cons.prems(2) st by (simp add: mod_run_def)
qed

text \<open>After any history of loads, failed loads, operations and unloads, a module that is
  not loaded holds nothing.\<close>

lemma no_leak:
  "mod_run ini opn ext evs (False, s) = (False, s') \<Longrightarrow> res s' = res s"
  using run_balance [of False s "res s" evs False s'] by simp

end

section \<open>Exclusive open\<close>

text \<open>
  Handles on a device, as the VFS counts them: a successful open adds one, a refused open
  adds none and is never released.
\<close>

inductive session :: "('s \<Rightarrow> 's option) \<Rightarrow> ('s \<Rightarrow> 's) \<Rightarrow> 's \<Rightarrow> 's \<times> nat \<Rightarrow> bool"
  for opn rel s0 where
  start: "session opn rel s0 (s0, 0)"
| opened: "session opn rel s0 (s, n) \<Longrightarrow> opn s = Some s' \<Longrightarrow> session opn rel s0 (s', Suc n)"
| released: "session opn rel s0 (s, Suc n) \<Longrightarrow> session opn rel s0 (rel s, n)"

locale exclusive =
  fixes opn :: "'s \<Rightarrow> 's option"
    and rel :: "'s \<Rightarrow> 's"
    and busy :: "'s \<Rightarrow> int"
    and inv :: "'s \<Rightarrow> bool"
  assumes opn_free: "inv s \<Longrightarrow> busy s = 0 \<Longrightarrow> \<exists>s'. opn s = Some s'"
    and opn_busy: "inv s \<Longrightarrow> busy s \<noteq> 0 \<Longrightarrow> opn s = None"
    and opn_count: "inv s \<Longrightarrow> opn s = Some s' \<Longrightarrow> busy s' = busy s + 1"
    and opn_inv: "inv s \<Longrightarrow> opn s = Some s' \<Longrightarrow> inv s'"
    and rel_count: "inv s \<Longrightarrow> busy s \<noteq> 0 \<Longrightarrow> busy (rel s) = busy s - 1"
    and rel_inv: "inv s \<Longrightarrow> inv (rel s)"
begin

lemma session_inv: "session opn rel s0 sn \<Longrightarrow> inv s0 \<Longrightarrow> inv (fst sn)"
  by (induction rule: session.induct) (auto intro: opn_inv rel_inv)

lemma at_most_one:
  assumes "session opn rel s0 sn" "inv s0" "busy s0 = 0"
  shows "busy (fst sn) = int (snd sn) \<and> snd sn \<le> 1"
  using assms
proof (induction rule: session.induct)
  case (opened s n s')
  have i: "inv s" using session_inv [OF opened.hyps(1)] opened.prems by simp
  then have "busy s = 0" using opn_busy [OF i] opened.hyps(2) by fastforce
  then show ?case using opened opn_count [OF i] by fastforce
next
  case (released s n)
  have "inv s" using session_inv [OF released.hyps(1)] released.prems by simp
  then show ?case using released rel_count by simp
qed simp_all

lemma reopen:
  assumes "session opn rel s0 (s, 0)" "inv s0" "busy s0 = 0"
  shows "\<exists>s'. opn s = Some s'"
  using at_most_one [OF assms] opn_free session_inv [OF assms(1,2)] by simp

end

end
