(* ===== verification/Queue_Device.thy ===== *)
theory Queue_Device
  imports Interfaces
begin

text \<open>
  \<open>Tasks/+TASKS/queue\<close>: the misc device \<open>/dev/queue\<close> in its two variants. \<open>queues.c\<close>
  keeps one static buffer and returns the last message written; \<open>queuel.c\<close> keeps an
  unbounded queue as a linked list of blocks of \<open>SIZE\<close> bytes, each with a write and a
  read position. Both share the registration of \<open>common.c\<close>.
\<close>

section \<open>Registration (common.c)\<close>

text \<open>\<open>misc_register\<close> is the kernel's: from the minor asked for it gives the code it
  returns and the minor it assigns.\<close>

type_synonym misc_reg = "int \<Rightarrow> int \<times> int"

record misc_dev =
  mminor :: int
  mregistered :: bool

definition queue_dev :: "int \<Rightarrow> misc_dev" where
  "queue_dev MISC_DYNAMIC_MINOR = \<lparr>mminor = MISC_DYNAMIC_MINOR, mregistered = False\<rparr>"

definition misc_register :: "misc_reg \<Rightarrow> misc_dev \<Rightarrow> int \<times> misc_dev" where
  "misc_register mr d = (let (ret, m) = mr (mminor d) in
     (ret, if ret = 0 then d\<lparr>mminor := m, mregistered := True\<rparr> else d))"

definition misc_deregister :: "misc_dev \<Rightarrow> misc_dev" where
  "misc_deregister d = d\<lparr>mregistered := False\<rparr>"

section \<open>The static buffer (queues.c)\<close>

definition SIZE_S :: nat where
  "SIZE_S = 1024"

record squeue =
  sbuffer :: "char list"
  sdev :: misc_dev

definition squeue_buffer :: "char list" where
  "squeue_buffer = NL # replicate SIZE_S NUL"

definition squeue_read ::
  "ucopy \<Rightarrow> nat \<Rightarrow> nat \<Rightarrow> squeue \<Rightarrow> nat res \<times> char list \<times> nat" where
  "squeue_read uc count pos q =
     (let len = strlen (sbuffer q) in
      if count < len then (fail EINVAL, [], pos)
      else if pos \<noteq> 0 then (Inr 0, [], pos)
      else if uc 0 len \<noteq> 0 then (fail EINVAL, to_user uc 0 (take len (sbuffer q)), pos)
      else (Inr len, take len (sbuffer q), len))"

definition squeue_write :: "ucopy \<Rightarrow> char list \<Rightarrow> squeue \<Rightarrow> nat res \<times> squeue" where
  "squeue_write uc buf q =
     (let count = length buf; len = (if count < SIZE_S then count else SIZE_S);
          b = blit (sbuffer q) 0 (from_user uc 0 (take len buf)) in
      if uc 0 len \<noteq> 0 then (fail EINVAL, q\<lparr>sbuffer := b\<rparr>)
      else (Inr len, q\<lparr>sbuffer := b[len := NUL]\<rparr>))"

definition squeue_init :: "misc_reg \<Rightarrow> int \<Rightarrow> squeue \<Rightarrow> int \<times> squeue" where
  "squeue_init mr minor q =
     (let d = (if minor \<noteq> 0 then (sdev q)\<lparr>mminor := minor\<rparr> else sdev q);
          (ret, d') = misc_register mr d in (ret, q\<lparr>sdev := d'\<rparr>))"

definition squeue_exit :: "squeue \<Rightarrow> squeue" where
  "squeue_exit q = q\<lparr>sdev := misc_deregister (sdev q)\<rparr>"

definition squeue_inv :: "squeue \<Rightarrow> bool" where
  "squeue_inv q \<longleftrightarrow> length (sbuffer q) = SIZE_S + 1 \<and> sbuffer q ! SIZE_S = NUL"

lemma squeue_buffer_inv: "squeue_inv \<lparr>sbuffer = squeue_buffer, sdev = d\<rparr>"
  by (simp add: squeue_inv_def squeue_buffer_def SIZE_S_def)

lemma squeue_write_inv:
  assumes "squeue_inv q"
  shows "squeue_inv (snd (squeue_write uc buf q))"
proof -
  let ?l = "if length buf < SIZE_S then length buf else SIZE_S"
  have "length (blit (sbuffer q) 0 (from_user uc 0 (take ?l buf))) = SIZE_S + 1"
    using assms by (subst length_blit) (auto simp: squeue_inv_def)
  moreover have "blit (sbuffer q) 0 (from_user uc 0 (take ?l buf)) ! SIZE_S = NUL"
    using assms by (subst nth_blit) (auto simp: squeue_inv_def)
  ultimately show ?thesis
    by (auto simp: squeue_write_def Let_def squeue_inv_def nth_list_update)
qed

section \<open>The linked queue (queuel.c)\<close>

definition SIZE :: nat where
  "SIZE = 7"

lemma SIZE_pos [simp]: "0 < SIZE" "SIZE \<noteq> 0"
  by (simp_all add: SIZE_def)

record data_t =
  wpos :: nat
  rpos :: nat
  bdata :: "char list"

text \<open>\<open>nalloc\<close> counts the calls of \<open>vmalloc\<close>, so that the allocator can be asked for the
  next outcome.\<close>

record queue =
  blocks :: "data_t list"
  nalloc :: nat

definition new_block :: "allocator \<Rightarrow> queue \<Rightarrow> queue res" where
  "new_block vm q = (case vm (nalloc q) of
     None \<Rightarrow> crash NullDeref
   | Some junk \<Rightarrow> Inr (q\<lparr>
       blocks := blocks q @ [\<lparr>wpos = 0, rpos = 0, bdata = map junk [0..<SIZE]\<rparr>],
       nalloc := Suc (nalloc q)\<rparr>))"

definition erase :: "queue \<Rightarrow> queue" where
  "erase q = (case blocks q of [] \<Rightarrow> q | _ # bs \<Rightarrow> q\<lparr>blocks := bs\<rparr>)"

definition len :: "queue \<Rightarrow> nat" where
  "len q = (if blocks q = [] then 0 else fold (\<lambda>_ num. num + 1) (blocks q) 0)"

lemma len_blocks: "len q = length (blocks q)"
proof -
  have "fold (\<lambda>_ num. num + 1) bs n = n + length bs" for bs :: "data_t list" and n :: nat
    by (induction bs arbitrary: n) auto
  then show ?thesis by (simp add: len_def)
qed

text \<open>
  The loop of \<open>queue_read\<close>. \<open>out\<close> is what has been copied to the user so far, so its
  length is both \<open>sumlen\<close> and the offset in the user's buffer. The subtraction
  \<open>wpos - rpos\<close> is unsigned: a read position beyond the write position (which the
  invariant below excludes) would not bound the copy.
\<close>

definition read_len :: "nat \<Rightarrow> data_t \<Rightarrow> nat" where
  "read_len count b = (if rpos b \<le> wpos b then min count (wpos b - rpos b) else count)"

function read_loop :: "ucopy \<Rightarrow> nat \<Rightarrow> char list \<Rightarrow> nat \<Rightarrow> queue
    \<Rightarrow> nat res \<times> char list \<times> nat \<times> queue" where
  "read_loop uc count out pos q =
     (case blocks q of
        [] \<Rightarrow> (crash OutOfBounds, out, pos, q)
      | b # bs \<Rightarrow>
          (let l = read_len count b; src = chunk (rpos b) l (bdata b) in
           if uc (length out) l \<noteq> 0
           then (fail EINVAL, out @ to_user uc (length out) src, pos, q)
           else
             (let b' = b\<lparr>rpos := rpos b + l\<rparr>; q1 = q\<lparr>blocks := b' # bs\<rparr>;
                  out' = out @ src; pos' = pos + l in
              if rpos b' \<ge> wpos b' then
                if rpos b' \<ge> SIZE then
                  if blocks (erase q1) = [] then (Inr (length out'), out', pos', erase q1)
                  else if count \<le> l then (Inr (length out'), out', pos', erase q1)
                  else read_loop uc (count - l) out' pos' (erase q1)
                else (Inr (length out'), out', pos', q1)
              else if count \<le> l then (Inr (length out'), out', pos', q1)
              else read_loop uc (count - l) out' pos' q1)))"
  by pat_completeness auto
termination
  by (relation "measure (\<lambda>(uc, count, out, pos, q). length (blocks q))")
    (auto simp: erase_def read_len_def split: if_splits)

declare read_loop.simps [simp del]

definition queue_read ::
  "ucopy \<Rightarrow> nat \<Rightarrow> nat \<Rightarrow> queue \<Rightarrow> nat res \<times> char list \<times> nat \<times> queue" where
  "queue_read uc count pos q =
     (case blocks q of
        [] \<Rightarrow> (Inr 0, [], pos, q)
      | b # _ \<Rightarrow> if rpos b \<ge> wpos b then (Inr 0, [], pos, q)
                 else read_loop uc count [] pos q)"
text \<open>The loop of \<open>queue_write\<close>; \<open>wblock\<close> is always the last block of the list.\<close>

definition write_len :: "nat \<Rightarrow> data_t \<Rightarrow> nat" where
  "write_len count b = (if wpos b \<le> SIZE then min count (SIZE - wpos b) else count)"

function write_loop :: "ucopy \<Rightarrow> allocator \<Rightarrow> char list \<Rightarrow> nat \<Rightarrow> nat \<Rightarrow> queue
    \<Rightarrow> nat res \<times> nat \<times> queue" where
  "write_loop uc vm buf sumlen pos q =
     (if blocks q = [] then (crash OutOfBounds, pos, q)
      else
        (let b = last (blocks q); count = length buf; l = write_len count b;
             d = blit (bdata b) (wpos b) (from_user uc sumlen (take l buf)) in
         if uc sumlen l \<noteq> 0
         then (fail EINVAL, pos, q\<lparr>blocks := butlast (blocks q) @ [b\<lparr>bdata := d\<rparr>]\<rparr>)
         else
           (let b' = b\<lparr>wpos := wpos b + l, bdata := d\<rparr>;
                q1 = q\<lparr>blocks := butlast (blocks q) @ [b']\<rparr> in
            if wpos b' \<ge> SIZE then
              (case new_block vm q1 of
                 Inl e \<Rightarrow> (Inl e, pos + l, q1)
               | Inr q2 \<Rightarrow>
                   if count - l \<noteq> 0
                   then write_loop uc vm (drop l buf) (sumlen + l) (pos + l) q2
                   else (Inr (sumlen + l), pos + l, q2))
            else if count - l \<noteq> 0
            then write_loop uc vm (drop l buf) (sumlen + l) (pos + l) q1
            else (Inr (sumlen + l), pos + l, q1))))"
  by pat_completeness auto
termination
  by (relation "measures [\<lambda>(uc, vm, buf, s, p, q). length buf,
        \<lambda>(uc, vm, buf, s, p, q). if wpos (last (blocks q)) = SIZE then 1 else 0]")
    (auto simp: new_block_def write_len_def split: if_splits option.splits)

declare write_loop.simps [simp del]

definition queue_write :: "ucopy \<Rightarrow> allocator \<Rightarrow> char list \<Rightarrow> nat \<Rightarrow> queue
    \<Rightarrow> nat res \<times> nat \<times> queue" where
  "queue_write uc vm buf pos q =
     (if blocks q = []
      then (case new_block vm q of
              Inl e \<Rightarrow> (Inl e, pos, q)
            | Inr q1 \<Rightarrow> write_loop uc vm buf 0 pos q1)
      else write_loop uc vm buf 0 pos q)"

text \<open>\<open>while( !list_empty( &queue ) ) erase();\<close>\<close>

function erase_all :: "queue \<Rightarrow> queue" where
  "erase_all q = (if blocks q = [] then q else erase_all (erase q))"
  by pat_completeness auto
termination
  by (relation "measure (\<lambda>q. length (blocks q))") (auto simp: erase_def split: list.splits)

declare erase_all.simps [simp del]

definition queue_init :: "misc_reg \<Rightarrow> int \<Rightarrow> misc_dev \<Rightarrow> int \<times> misc_dev" where
  "queue_init mr minor d = misc_register mr (if minor \<noteq> 0 then d\<lparr>mminor := minor\<rparr> else d)"

definition queue_exit :: "queue \<times> misc_dev \<Rightarrow> queue \<times> misc_dev" where
  "queue_exit = (\<lambda>(q, d). (erase_all q, misc_deregister d))"

section \<open>The queue as a sequence of bytes\<close>

text \<open>What a block still holds, and the whole queue's content.\<close>

definition pending :: "data_t \<Rightarrow> char list" where
  "pending b = chunk (rpos b) (wpos b - rpos b) (bdata b)"

definition content :: "queue \<Rightarrow> char list" where
  "content q = concat (map pending (blocks q))"

text \<open>
  The invariant: every block but the last is completely written, the last has room, and
  only the first has been read from, and not to its end if it is full.
\<close>

definition block_ok :: "data_t \<Rightarrow> bool" where
  "block_ok b \<longleftrightarrow> length (bdata b) = SIZE \<and> rpos b \<le> wpos b \<and> wpos b \<le> SIZE"

fun chain_ok :: "data_t list \<Rightarrow> bool" where
  "chain_ok [] = True"
| "chain_ok [b] = (block_ok b \<and> wpos b < SIZE)"
| "chain_ok (b # b' # bs) =
     (block_ok b \<and> wpos b = SIZE \<and> rpos b < SIZE \<and> rpos b' = 0 \<and> chain_ok (b' # bs))"

definition queue_inv :: "queue \<Rightarrow> bool" where
  "queue_inv q \<longleftrightarrow> chain_ok (blocks q)"

lemma queue_inv_empty [inv_intros]: "queue_inv \<lparr>blocks = [], nalloc = n\<rparr>"
  by (simp add: queue_inv_def)

lemma chain_ok_tl: "chain_ok (b # bs) \<Longrightarrow> chain_ok bs"
  by (cases bs) auto

lemma chain_ok_hd: "chain_ok (b # bs) \<Longrightarrow> block_ok b \<and> rpos b < SIZE"
  by (cases bs) (auto simp: block_ok_def)

lemma chain_ok_snoc:
  "chain_ok (bs @ [b]) \<longleftrightarrow>
     block_ok b \<and> wpos b < SIZE
     \<and> (\<forall>x \<in> set bs. block_ok x \<and> wpos x = SIZE \<and> rpos x < SIZE)
     \<and> (\<forall>x \<in> set (tl (bs @ [b])). rpos x = 0)"
proof (induction bs)
  case Nil
  then show ?case by simp
next
  case (Cons a bs)
  then show ?case by (cases bs) auto
qed

lemma length_pending [simp]: "block_ok b \<Longrightarrow> length (pending b) = wpos b - rpos b"
  by (auto simp: pending_def block_ok_def min_def)

lemma content_simps:
  "blocks q = [] \<Longrightarrow> content q = []"
  "blocks q = b # bs \<Longrightarrow> content q = pending b @ concat (map pending bs)"
  by (simp_all add: content_def)

text \<open>A read from the middle of a block splits its pending bytes.\<close>

lemma pending_split:
  "rpos b + l \<le> wpos b \<Longrightarrow>
     pending b = chunk (rpos b) l (bdata b) @ pending (b\<lparr>rpos := rpos b + l\<rparr>)"
  using chunk_append [of "rpos b" l "bdata b" "wpos b - (rpos b + l)"]
  by (simp add: pending_def)

lemma chain_ok_advance:
  assumes "chain_ok (b # bs)" "rpos b + l \<le> wpos b" "rpos b + l < SIZE"
  shows "chain_ok (b\<lparr>rpos := rpos b + l\<rparr> # bs)"
  using assms by (cases bs) (auto simp: block_ok_def)

section \<open>Reading\<close>

text \<open>
  What a pass through the read loop achieves, whatever the copies do: \<open>k\<close> bytes leave the
  queue and \<open>k\<close> bytes, followed by what a failed copy still delivered, reach the user.
\<close>

definition read_post :: "ucopy \<Rightarrow> nat \<Rightarrow> char list \<Rightarrow> nat \<Rightarrow> queue
    \<Rightarrow> nat res \<times> char list \<times> nat \<times> queue \<Rightarrow> bool" where
  "read_post uc count out pos q = (\<lambda>(r, out', pos', q').
     queue_inv q' \<and> nalloc q' = nalloc q \<and>
     (\<exists>k x. k \<le> min count (length (content q)) \<and> content q' = drop k (content q)
        \<and> pos' = pos + k \<and> out' = out @ take k (content q) @ x
        \<and> (r = Inr (length out') \<and> x = [] \<and> k = min count (length (content q))
           \<or> r = fail EINVAL \<and> copy_fails uc)))"

lemma read_postI:
  assumes "r = Inr (length out')" "pos' = pos + k" "queue_inv q'" "nalloc q' = nalloc q"
    and "k = min count (length (content q))"
    and "content q' = drop k (content q)" "out' = out @ take k (content q)"
  shows "read_post uc count out pos q (r, out', pos', q')"
  using assms by (auto simp: read_post_def intro!: exI [of _ k])

lemma read_post_step:
  assumes "read_post uc (count - l) (out @ src) (pos + l) q1 res"
    and "content q = src @ content q1" "length src = l" "l \<le> count" "nalloc q1 = nalloc q"
  shows "read_post uc count out pos q res"
proof -
  obtain r out' pos' q' where res: "res = (r, out', pos', q')" by (cases res)
  from assms(1) obtain k x where k: "k \<le> min (count - l) (length (content q1))"
    "content q' = drop k (content q1)" "pos' = pos + l + k"
    "out' = (out @ src) @ take k (content q1) @ x"
    "r = Inr (length out') \<and> x = [] \<and> k = min (count - l) (length (content q1))
      \<or> r = fail EINVAL \<and> copy_fails uc"
    and inv: "queue_inv q'" "nalloc q' = nalloc q1"
    unfolding read_post_def res by auto
  have "content q' = drop (l + k) (content q)" "out' = out @ take (l + k) (content q) @ x"
    using k assms by auto
  moreover have "l + k \<le> min count (length (content q))"
    using k assms by auto
  moreover have "r = Inr (length out') \<and> x = [] \<and> l + k = min count (length (content q))
      \<or> r = fail EINVAL \<and> copy_fails uc"
    using k assms by (auto simp: min_def split: if_splits)
  ultimately show ?thesis
    unfolding read_post_def res prod.case using k inv assms by (metis add.assoc)
qed

text \<open>One block's share of a read: \<open>l\<close> bytes, \<open>src\<close>, leave the first block.\<close>

definition advance :: "nat \<Rightarrow> queue \<Rightarrow> queue" where
  "advance l q = (case blocks q of
     [] \<Rightarrow> q | b # bs \<Rightarrow> q\<lparr>blocks := b\<lparr>rpos := rpos b + l\<rparr> # bs\<rparr>)"

lemma advance_nalloc [simp]: "nalloc (advance l q) = nalloc q"
  by (simp add: advance_def split: list.splits)

lemma erase_nalloc [simp]: "nalloc (erase q) = nalloc q"
  by (simp add: erase_def split: list.splits)

lemma erase_advance [simp]: "blocks q = b # bs \<Longrightarrow> blocks (erase (advance l q)) = bs"
  by (simp add: erase_def advance_def)

lemma first_block:
  assumes "queue_inv q" "blocks q = b # bs" "l = read_len count b"
    and "src = chunk (rpos b) l (bdata b)"
  shows "length src = l" "l = min count (wpos b - rpos b)" "rpos b + l \<le> wpos b"
    and "content q = src @ content (advance l q)"
proof -
  have ok: "block_ok b" using assms by (simp add: queue_inv_def chain_ok_hd)
  then show l: "l = min count (wpos b - rpos b)" "rpos b + l \<le> wpos b"
    by (auto simp: assms read_len_def block_ok_def)
  then show "length src = l" using ok by (auto simp: assms(4) block_ok_def)
  show "content q = src @ content (advance l q)"
    using pending_split [OF l(2)] by (simp add: content_def assms(2,4) advance_def)
qed

lemma advance_inv:
  assumes "queue_inv q" "blocks q = b # bs" "rpos b + l \<le> wpos b" "rpos b + l < SIZE"
  shows "queue_inv (advance l q)"
  using assms chain_ok_advance [of b bs l] by (simp add: queue_inv_def advance_def)

lemma erase_full:
  assumes "queue_inv q" "blocks q = b # bs" "rpos b + l = wpos b"
  shows "queue_inv (erase (advance l q))"
    and "content (erase (advance l q)) = content (advance l q)"
  using assms chain_ok_tl [of b bs]
  by (simp_all add: queue_inv_def erase_def advance_def content_def pending_def)

lemma read_loop_fault:
  assumes "blocks q = b # bs" "uc (length out) (read_len count b) \<noteq> 0"
  shows "read_loop uc count out pos q = (fail EINVAL,
    out @ to_user uc (length out) (chunk (rpos b) (read_len count b) (bdata b)), pos, q)"
  using assms by (simp add: read_loop.simps [of uc count out pos q] Let_def)

lemma read_loop_stay:
  assumes "blocks q = b # bs" "l = read_len count b" "src = chunk (rpos b) l (bdata b)" "uc (length out) l = 0"
    and "rpos b + l < wpos b \<and> count \<le> l \<or> wpos b \<le> rpos b + l \<and> rpos b + l < SIZE"
  shows "read_loop uc count out pos q
    = (Inr (length (out @ src)), out @ src, pos + l, advance l q)"
  using assms
  by (auto simp: read_loop.simps [of uc count out pos q] Let_def advance_def)

lemma read_loop_erase:
  assumes "blocks q = b # bs" "l = read_len count b" "src = chunk (rpos b) l (bdata b)" "uc (length out) l = 0" "bs \<noteq> []"
    and "wpos b \<le> rpos b + l" "SIZE \<le> rpos b + l"
  shows "read_loop uc count out pos q
    = (if count \<le> l
       then (Inr (length (out @ src)), out @ src, pos + l, erase (advance l q))
       else read_loop uc (count - l) (out @ src) (pos + l) (erase (advance l q)))"
  using assms
  by (simp add: read_loop.simps [of uc count out pos q] Let_def advance_def erase_def)

lemma read_loop_post:
  "queue_inv q \<Longrightarrow> blocks q \<noteq> [] \<Longrightarrow> read_post uc count out pos q (read_loop uc count out pos q)"
proof (induction "length (blocks q)" arbitrary: q count out pos rule: less_induct)
  case less
  obtain b bs where bl: "blocks q = b # bs" using less.prems(2) by (cases "blocks q") auto
  define l where "l = read_len count b"
  define src where "src = chunk (rpos b) l (bdata b)"
  note fb = first_block [OF less.prems(1) bl l_def src_def]
  have ok: "block_ok b" "bs = [] \<Longrightarrow> wpos b < SIZE" "bs \<noteq> [] \<Longrightarrow> wpos b = SIZE"
    using less.prems(1) bl by (cases bs; simp add: queue_inv_def)+
  consider (fault) "uc (length out) l \<noteq> 0" | (stay) "uc (length out) l = 0" "rpos b + l < wpos b"
    | (last) "uc (length out) l = 0" "rpos b + l = wpos b" "bs = []"
    | (full) "uc (length out) l = 0" "rpos b + l = wpos b" "bs \<noteq> []"
    using fb(3) by fastforce
  then show ?case
  proof cases
    case fault
    have "\<exists>k x. k \<le> min count (length (content q)) \<and> content q = drop k (content q)
        \<and> pos = pos + k \<and> out @ to_user uc (length out) src = out @ take k (content q) @ x"
      by (rule exI [of _ 0]) simp
    then show ?thesis
      using copy_failsI [of uc, OF fault] fault less.prems read_loop_fault [of q b bs uc out count pos] bl
      unfolding read_post_def by (auto simp: l_def src_def)
  next
    case stay
    then have "rpos b + l < SIZE" "l = count" using ok fb by (auto simp: block_ok_def)
    then show ?thesis
      using stay fb advance_inv [OF less.prems(1) bl fb(3)]
      by (subst read_loop_stay [OF bl l_def src_def]) (auto intro!: read_postI)
  next
    case last
    then have "content (advance l q) = []"
      by (simp add: content_def advance_def bl pending_def)
    then show ?thesis
      using last fb ok advance_inv [OF less.prems(1) bl fb(3)]
      by (subst read_loop_stay [OF bl l_def src_def]) (auto intro!: read_postI)
  next
    case full
    note e = erase_full [OF less.prems(1) bl full(2)]
    have "read_post uc (count - l) (out @ src) (pos + l) (erase (advance l q))
        (read_loop uc (count - l) (out @ src) (pos + l) (erase (advance l q)))"
      by (rule less.hyps) (use e bl full in simp_all)
    from read_post_step [OF this] show ?thesis
      using e fb full ok
      by (subst read_loop_erase [OF bl l_def src_def]) (auto intro!: read_postI)
  qed
qed

lemma queue_read_post:
  assumes "queue_inv q"
  shows "read_post uc count [] pos q (queue_read uc count pos q)"
proof (cases "blocks q")
  case Nil
  then show ?thesis
    using assms by (auto simp: queue_read_def content_simps intro!: read_postI)
next
  case (Cons b bs)
  show ?thesis
  proof (cases "rpos b \<ge> wpos b")
    case True
    then have "bs = []" "pending b = []"
      using assms Cons by (cases bs; simp add: queue_inv_def pending_def)+
    then have "content q = []" using Cons by (simp add: content_def)
    then show ?thesis
      using True assms Cons by (auto simp: queue_read_def intro!: read_postI)
  next
    case False
    then show ?thesis
      using assms Cons read_loop_post [of q] by (simp add: queue_read_def)
  qed
qed

section \<open>Writing\<close>

text \<open>One block's share of a write: the last block takes \<open>l\<close> bytes.\<close>

definition fill :: "nat \<Rightarrow> char list \<Rightarrow> queue \<Rightarrow> queue" where
  "fill l d q = q\<lparr>blocks := butlast (blocks q)
     @ [(last (blocks q))\<lparr>wpos := wpos (last (blocks q)) + l, bdata := d\<rparr>]\<rparr>"

lemma last_block:
  assumes "queue_inv q" "blocks q = bs @ [b]"
  shows "block_ok b" "wpos b < SIZE" "\<forall>x \<in> set bs. block_ok x \<and> wpos x = SIZE \<and> rpos x < SIZE"
    and "\<forall>x \<in> set (tl (bs @ [b])). rpos x = 0"
  using assms by (simp_all add: queue_inv_def chain_ok_snoc)

lemma rpos_tl_snoc:
  "\<forall>x \<in> set (tl (bs @ [b])). rpos x = 0 \<Longrightarrow> rpos b' = rpos b \<Longrightarrow>
    \<forall>x \<in> set (tl (bs @ [b'])). rpos x = 0"
  by (cases bs) auto

lemma fill_blocks:
  "blocks q = bs @ [b] \<Longrightarrow> blocks (fill l d q) = bs @ [b\<lparr>wpos := wpos b + l, bdata := d\<rparr>]"
  by (simp add: fill_def)

lemma pending_blit:
  assumes "block_ok b" "wpos b + length src \<le> SIZE" "l \<le> length src"
  shows "pending (b\<lparr>wpos := wpos b + l, bdata := blit (bdata b) (wpos b) src\<rparr>)
    = pending b @ take l src"
proof -
  let ?d = "blit (bdata b) (wpos b) src"
  have "chunk (rpos b) (wpos b + l - rpos b) ?d
      = chunk (rpos b) (wpos b - rpos b) ?d @ chunk (wpos b) l ?d"
    using assms chunk_append [of "rpos b" "wpos b - rpos b" ?d l] by (simp add: block_ok_def)
  also have "chunk (rpos b) (wpos b - rpos b) ?d = pending b"
    using assms by (simp add: pending_def block_ok_def chunk_blit_before)
  also have "chunk (wpos b) l ?d = take l src"
    using assms take_chunk [of l "wpos b" "length src" ?d]
    by (simp add: chunk_blit_same block_ok_def)
  finally show ?thesis by (simp add: pending_def)
qed

lemma content_fill:
  assumes "queue_inv q" "blocks q = bs @ [b]" "wpos b + length src \<le> SIZE" "l \<le> length src"
  shows "content (fill l (blit (bdata b) (wpos b) src) q) = content q @ take l src"
  using assms last_block(1) [OF assms(1,2)]
  by (simp add: content_def fill_blocks pending_blit)

lemma fill_inv:
  assumes "queue_inv q" "blocks q = bs @ [b]" "wpos b + l < SIZE" "wpos b + length src \<le> SIZE"
  shows "queue_inv (fill l (blit (bdata b) (wpos b) src) q)"
proof -
  let ?b' = "b\<lparr>wpos := wpos b + l, bdata := blit (bdata b) (wpos b) src\<rparr>"
  note lb = last_block [OF assms(1,2)]
  have "block_ok ?b'" using lb(1) assms(3,4) by (simp add: block_ok_def)
  moreover have "\<forall>x \<in> set (tl (bs @ [?b'])). rpos x = 0"
    by (rule rpos_tl_snoc [OF lb(4)]) simp
  ultimately show ?thesis
    using lb(3) assms(3) unfolding queue_inv_def fill_blocks [OF assms(2)] chain_ok_snoc by simp
qed

lemma fill_new:
  assumes "queue_inv q" "blocks q = bs @ [b]" "wpos b + length src = SIZE"
    and "new_block vm (fill (length src) (blit (bdata b) (wpos b) src) q) = Inr q2"
  shows "queue_inv q2" "content q2 = content q @ src"
    and "\<exists>bs' b'. blocks q2 = bs' @ [b'] \<and> wpos b' = 0"
proof -
  let ?b' = "b\<lparr>wpos := SIZE, bdata := blit (bdata b) (wpos b) src\<rparr>"
  note lb = last_block [OF assms(1,2)]
  from assms obtain n where n: "blocks q2 = (bs @ [?b']) @ [n]"
    "n = \<lparr>wpos = 0, rpos = 0, bdata = bdata n\<rparr>" "length (bdata n) = SIZE"
    by (auto simp: new_block_def fill_blocks split: option.splits)
  have t: "\<forall>x \<in> set (tl (bs @ [?b'])). rpos x = 0"
    by (rule rpos_tl_snoc [OF lb(4)]) simp
  have r: "rpos b < SIZE" "wpos n = 0" "rpos n = 0"
    using lb(1,2) n(2) by (auto simp: block_ok_def) (metis data_t.select_convs(1,2))+
  then have "\<forall>x \<in> set (tl ((bs @ [?b']) @ [n])). rpos x = 0"
    using t by (cases bs) auto
  moreover have "block_ok ?b'" "block_ok n"
    using lb(1) r n(3) assms(3) by (simp_all add: block_ok_def)
  ultimately show "queue_inv q2"
    using lb(3) r unfolding queue_inv_def n(1) chain_ok_snoc by simp
  show "\<exists>bs' b'. blocks q2 = bs' @ [b'] \<and> wpos b' = 0" using n(1) r by blast
  have "content q2 = content (fill (length src) (blit (bdata b) (wpos b) src) q)"
    using r assms(3) by (simp add: content_def n(1) fill_blocks [OF assms(2)] pending_def)
  then show "content q2 = content q @ src"
    using content_fill [OF assms(1,2)] assms(3) by simp
qed

lemma write_loop_fault:
  assumes "blocks q = bs @ [b]" "l = write_len (length buf) b" "src = from_user uc sumlen (take l buf)"
    and "uc sumlen l \<noteq> 0"
  shows "write_loop uc vm buf sumlen pos q
    = (fail EINVAL, pos, fill 0 (blit (bdata b) (wpos b) src) q)"
  using assms by (simp add: write_loop.simps [of uc vm buf sumlen pos q] Let_def fill_def)

lemma write_loop_step:
  assumes "blocks q = bs @ [b]" "l = write_len (length buf) b" "src = from_user uc sumlen (take l buf)"
    and "uc sumlen l = 0" "q1 = fill l (blit (bdata b) (wpos b) src) q"
  shows "write_loop uc vm buf sumlen pos q
    = (if SIZE \<le> wpos b + l then
         (case new_block vm q1 of
            Inl e \<Rightarrow> (Inl e, pos + l, q1)
          | Inr q2 \<Rightarrow> if length buf \<noteq> l
                then write_loop uc vm (drop l buf) (sumlen + l) (pos + l) q2
                else (Inr (sumlen + l), pos + l, q2))
       else if length buf \<noteq> l then write_loop uc vm (drop l buf) (sumlen + l) (pos + l) q1
       else (Inr (sumlen + l), pos + l, q1))"
proof -
  have "l \<le> length buf" using assms(2) by (simp add: write_len_def)
  then have "(length buf - l \<noteq> 0) = (length buf \<noteq> l)" by simp
  then show ?thesis
    using assms
    by (subst write_loop.simps [of uc vm buf sumlen pos q])
      (simp add: Let_def fill_def split: sum.splits)
qed

definition write_post :: "ucopy \<Rightarrow> allocator \<Rightarrow> char list \<Rightarrow> nat \<Rightarrow> nat \<Rightarrow> queue
    \<Rightarrow> nat res \<times> nat \<times> queue \<Rightarrow> bool" where
  "write_post uc vm buf sumlen pos q = (\<lambda>(r, pos', q').
     \<exists>k. k \<le> length buf \<and> content q' = content q @ take k buf \<and> pos' = pos + k
       \<and> (queue_inv q' \<and> r = Inr (sumlen + k) \<and> k = length buf
          \<or> queue_inv q' \<and> r = fail EINVAL \<and> copy_fails uc
          \<or> r = crash NullDeref \<and> alloc_fails vm))"

lemma write_post_ok:
  "queue_inv q' \<Longrightarrow> content q' = content q @ buf \<Longrightarrow> pos' = pos + length buf \<Longrightarrow>
    r = Inr (sumlen + length buf) \<Longrightarrow> write_post uc vm buf sumlen pos q (r, pos', q')"
  by (auto simp: write_post_def intro!: exI [of _ "length buf"])

lemma write_post_fault:
  "queue_inv q' \<Longrightarrow> content q' = content q \<Longrightarrow> copy_fails uc \<Longrightarrow>
    write_post uc vm buf sumlen pos q (fail EINVAL, pos, q')"
  by (auto simp: write_post_def intro!: exI [of _ 0])

lemma write_post_crash:
  "content q' = content q @ take k buf \<Longrightarrow> k \<le> length buf \<Longrightarrow> alloc_fails vm \<Longrightarrow>
    write_post uc vm buf sumlen pos q (crash NullDeref, pos + k, q')"
  by (auto simp: write_post_def intro!: exI [of _ k])

lemma write_post_step:
  assumes "write_post uc vm (drop l buf) (sumlen + l) (pos + l) q1 res"
    and "content q1 = content q @ take l buf" "l \<le> length buf"
  shows "write_post uc vm buf sumlen pos q res"
proof -
  obtain r pos' q' where res: "res = (r, pos', q')" by (cases res)
  from assms(1) obtain k where k: "k \<le> length (drop l buf)"
    "content q' = content q1 @ take k (drop l buf)" "pos' = pos + l + k"
    "queue_inv q' \<and> r = Inr (sumlen + l + k) \<and> k = length (drop l buf)
     \<or> queue_inv q' \<and> r = fail EINVAL \<and> copy_fails uc
     \<or> r = crash NullDeref \<and> alloc_fails vm"
    unfolding write_post_def res by auto
  have "content q' = content q @ take (l + k) buf"
    using k(2) assms(2) by (simp add: take_add)
  then show ?thesis
    using k assms(3) unfolding write_post_def res
    by (auto intro!: exI [of _ "l + k"])
qed

lemma new_block_crash: "new_block vm q = Inl e \<Longrightarrow> e = Fault NullDeref \<and> alloc_fails vm"
  by (auto simp: new_block_def split: option.splits intro: alloc_failsI)

lemma write_loop_post:
  assumes "queue_inv q" "blocks q = bs @ [b]"
  shows "write_post uc vm buf sumlen pos q (write_loop uc vm buf sumlen pos q)"
  using assms
proof (induction "length buf" arbitrary: q bs b buf sumlen pos rule: less_induct)
  case less
  note lb = last_block [OF less.prems]
  define l where "l = write_len (length buf) b"
  define src where "src = from_user uc sumlen (take l buf)"
  define q1 where "q1 = fill l (blit (bdata b) (wpos b) src) q"
  have l: "l = min (length buf) (SIZE - wpos b)" "l \<le> length buf" "wpos b + l \<le> SIZE"
    using lb(2) by (simp_all add: l_def write_len_def)
  then have ls: "length src = l" by (simp add: src_def)
  show ?case
  proof (cases "uc sumlen l = 0")
    case False
    have "content (fill 0 (blit (bdata b) (wpos b) src) q) = content q"
      using content_fill [OF less.prems, of src 0] ls l by simp
    moreover have "queue_inv (fill 0 (blit (bdata b) (wpos b) src) q)"
      using fill_inv [OF less.prems, of 0 src] ls l lb(2) by simp
    ultimately show ?thesis
      using copy_failsI [of uc, OF False] False write_loop_fault [OF less.prems(2) l_def src_def]
      by (simp add: write_post_fault)
  next
    case True
    then have se: "src = take l buf" using l by (simp add: src_def)
    have c1: "content q1 = content q @ take l buf"
      using content_fill [OF less.prems, of src l] ls l se by (simp add: q1_def)
    have rec: "write_post uc vm buf sumlen pos q
        (if length buf \<noteq> l then write_loop uc vm (drop l buf) (sumlen + l) (pos + l) q'
         else (Inr (sumlen + l), pos + l, q'))"
      if "queue_inv q'" "content q' = content q @ take l buf" "blocks q' = bs' @ [b']" for q' bs' b'
    proof (cases "length buf = l")
      case True
      then show ?thesis using that by (auto intro: write_post_ok)
    next
      case False
      then have "length (drop l buf) < length buf" using l lb(2) by auto
      from write_post_step [OF less.hyps [OF this that(1,3)] that(2) l(2)] show ?thesis
        using False by simp
    qed
    show ?thesis
    proof (cases "SIZE \<le> wpos b + l")
      case False
      then have "queue_inv q1" using fill_inv [OF less.prems, of l src] ls l by (simp add: q1_def)
      moreover obtain b1 where "blocks q1 = bs @ [b1]"
        using fill_blocks [OF less.prems(2)] by (simp add: q1_def)
      ultimately show ?thesis
        using rec [OF _ c1] False write_loop_step [OF less.prems(2) l_def src_def True q1_def]
        by simp
    next
      case full: True
      then have eq: "wpos b + length src = SIZE" using l ls by simp
      note st = write_loop_step [OF less.prems(2) l_def src_def True q1_def]
      show ?thesis
      proof (cases "new_block vm q1")
        case (Inl e)
        then show ?thesis
          using full c1 l(2) new_block_crash [OF Inl] st by (auto intro: write_post_crash)
      next
        case (Inr q2)
        note fn = fill_new [OF less.prems eq, of vm q2]
        have "queue_inv q2" "content q2 = content q @ take l buf" "\<exists>bs' b'. blocks q2 = bs' @ [b']"
          using fn Inr ls se unfolding q1_def by auto
        then have "write_post uc vm buf sumlen pos q
          (if length buf \<noteq> l then write_loop uc vm (drop l buf) (sumlen + l) (pos + l) q2
           else (Inr (sumlen + l), pos + l, q2))"
          using rec [of q2] by blast
        then show ?thesis
          using full st Inr by simp
      qed
    qed
  qed
qed

lemma queue_write_post:
  assumes "queue_inv q"
  shows "write_post uc vm buf 0 pos q (queue_write uc vm buf pos q)"
proof (cases "blocks q = []")
  case False
  then obtain bs b where "blocks q = bs @ [b]" by (metis rev_exhaust)
  with assms False show ?thesis by (simp add: queue_write_def write_loop_post)
next
  case True
  show ?thesis
  proof (cases "new_block vm q")
    case (Inl e)
    then show ?thesis
      using True new_block_crash [OF Inl] write_post_crash [of q q 0 buf vm uc 0 pos]
      by (auto simp: queue_write_def)
  next
    case (Inr q1)
    then obtain b where b: "blocks q1 = [] @ [b]" "block_ok b" "wpos b = 0" "rpos b = 0"
      using True by (auto simp: new_block_def block_ok_def split: option.splits)
    then have "queue_inv q1" by (simp add: queue_inv_def)
    from write_loop_post [OF this b(1), of uc vm buf 0 pos]
    have "write_post uc vm buf 0 pos q1 (queue_write uc vm buf pos q)"
      using True Inr by (simp add: queue_write_def)
    moreover have "content q1 = content q"
      using b True by (simp add: content_def pending_def)
    ultimately show ?thesis by (simp add: write_post_def)
  qed
qed

section \<open>The queue as a byte stream\<close>

definition queue_put :: "(nat \<Rightarrow> nat \<Rightarrow> char) \<Rightarrow> char list \<Rightarrow> queue \<Rightarrow> queue" where
  "queue_put junk buf q = snd (snd (queue_write copy_ok (always_alloc junk) buf 0 q))"

definition queue_get :: "nat \<Rightarrow> queue \<Rightarrow> char list \<times> queue" where
  "queue_get count q = (case queue_read copy_ok count 0 q of (r, out, pos, q') \<Rightarrow> (out, q'))"

lemma queue_read_ok:
  assumes "queue_inv q" "queue_read copy_ok count pos q = (r, out, pos', q')"
  shows "queue_inv q'" "out = take count (content q)" "content q' = drop count (content q)"
    and "r = Inr (length out)" "pos' = pos + length out"
proof -
  obtain k where k: "k = min count (length (content q))" "content q' = drop k (content q)"
    "out = take k (content q)" "pos' = pos + k" "r = Inr (length out)" "queue_inv q'"
    using queue_read_post [OF assms(1), of copy_ok count pos] assms(2) by (auto simp: read_post_def)
  then show "queue_inv q'" "out = take count (content q)" "content q' = drop count (content q)"
    "r = Inr (length out)" "pos' = pos + length out"
    by (auto simp: min_def)
qed

lemma queue_write_ok:
  assumes "queue_inv q" "queue_write copy_ok (always_alloc junk) buf pos q = (r, pos', q')"
  shows "queue_inv q'" "content q' = content q @ buf" "r = Inr (length buf)"
    and "pos' = pos + length buf"
  using queue_write_post [OF assms(1), of copy_ok "always_alloc junk" buf pos] assms(2)
  by (auto simp: write_post_def)

interpretation lq: byte_stream content queue_inv "queue_put junk" queue_get for junk
proof unfold_locales
  fix q :: queue and xs :: "char list" and n :: nat
  assume q: "queue_inv q"
  obtain r p q' where w: "queue_write copy_ok (always_alloc junk) xs 0 q = (r, p, q')"
    by (metis prod.collapse)
  then show "queue_inv (queue_put junk xs q)" "content (queue_put junk xs q) = content q @ xs"
    using queue_write_ok [OF q w] by (simp_all add: queue_put_def)
  obtain r p q' out where g: "queue_read copy_ok n 0 q = (r, out, p, q')"
    by (metis prod.collapse)
  then show "queue_inv (snd (queue_get n q))" "fst (queue_get n q) = take n (content q)"
    "content (snd (queue_get n q)) = drop n (content q)"
    using queue_read_ok [OF q g] by (simp_all add: queue_get_def)
qed

lemma erase_all_blocks: "blocks (erase_all q) = []"
proof (induction q rule: erase_all.induct)
  case (1 q)
  then show ?case by (cases "blocks q = []") (auto simp: erase_all.simps [of q])
qed

section \<open>Properties\<close>

definition empty_queue :: queue where
  "empty_queue = \<lparr>blocks = [], nalloc = 0\<rparr>"

lemma empty_queue_inv [simp]: "queue_inv empty_queue"
  by (simp add: queue_inv_def empty_queue_def)

lemma empty_queue_content [simp]: "content empty_queue = []"
  by (simp add: content_def empty_queue_def)

text \<open>C1: the linked-block queue is a FIFO of bytes: over any interleaving of writes and
  reads of any sizes, the bytes read, in order, followed by those still queued, are the
  bytes that were queued followed by the bytes written.\<close>

theorem queue_fifo:
  "queue_inv q \<Longrightarrow>
    fst (stream_run (queue_put junk) queue_get ops q)
      @ content (snd (stream_run (queue_put junk) queue_get ops q))
    = content q @ written ops"
  by (rule lq.run_fifo)

theorem queue_fifo_witness:
  "fst (stream_run (queue_put (\<lambda>_ _. NUL)) queue_get
      [Put ''abcdefgh'', Get 3, Put ''xy'', Get 6] empty_queue)
    @ content (snd (stream_run (queue_put (\<lambda>_ _. NUL)) queue_get
      [Put ''abcdefgh'', Get 3, Put ''xy'', Get 6] empty_queue))
   = ''abcdefghxy''"
  using queue_fifo [OF empty_queue_inv, of "\<lambda>_ _. NUL"
      "[Put ''abcdefgh'', Get 3, Put ''xy'', Get 6]"] by simp



text \<open>A write to the queue under any behaviour of \<open>copy_from_user\<close> and \<open>vmalloc\<close>:
  a prefix of the caller's buffer is appended; on success it is all of it and its length
  is returned; a failing copy gives \<open>-EINVAL\<close> with the invariant kept; the one undefined
  outcome, a null dereference in \<open>new\<close>, needs a failing allocation.\<close>

theorem queue_write_outcome:
  "queue_inv q \<Longrightarrow> queue_write uc vm buf pos q = (r, pos', q') \<Longrightarrow>
    \<exists>k. k \<le> length buf \<and> content q' = content q @ take k buf \<and> pos' = pos + k
      \<and> (r = Inr (length buf) \<and> k = length buf \<and> queue_inv q'
         \<or> r = fail EINVAL \<and> copy_fails uc \<and> queue_inv q'
         \<or> r = crash NullDeref \<and> alloc_fails vm)"
  using queue_write_post [of q uc vm buf pos] by (fastforce simp: write_post_def)

theorem queue_write_outcome_witness:
  "queue_write copy_ok (\<lambda>_. None) ''a'' 0 empty_queue = (crash NullDeref, 0, empty_queue)
   \<and> (\<exists>k. k \<le> 1 \<and> content empty_queue = content empty_queue @ take k ''a'')"
proof -
  have w: "queue_write copy_ok (\<lambda>_. None) ''a'' 0 empty_queue = (crash NullDeref, 0, empty_queue)"
    by (simp add: queue_write_def empty_queue_def new_block_def)
  show ?thesis using w queue_write_outcome [OF empty_queue_inv w] by auto
qed

text \<open>Bytes copied out before the copy of a later block fails are gone although the read
  reports an error.\<close>

lemma queue_read_fault_loses:
  "\<exists>q out pos q'. queue_inv q \<and> content q = ''abcdefgh''
    \<and> queue_read (user_cap 7) 8 0 q = (fail EINVAL, out, pos, q') \<and> content q' = ''h''"
proof -
  define q where "q = \<lparr>blocks = [\<lparr>wpos = 7, rpos = 0, bdata = ''abcdefg''\<rparr>,
      \<lparr>wpos = 1, rpos = 0, bdata = ''hxxxxxx''\<rparr>], nalloc = 2\<rparr>"
  have "queue_inv q" "content q = ''abcdefgh''"
    by (simp_all add: q_def queue_inv_def block_ok_def SIZE_def content_def pending_def chunk_def)
  moreover have "queue_read (user_cap 7) 8 0 q
      = (fail EINVAL, ''abcdefg'', 7, q\<lparr>blocks := tl (blocks q)\<rparr>)"
    by (simp add: q_def queue_read_def read_loop.simps read_len_def chunk_def SIZE_def erase_def
        user_cap_def to_user_def)
  moreover have "content (q\<lparr>blocks := tl (blocks q)\<rparr>) = ''h''"
    by (simp add: q_def content_def pending_def chunk_def)
  ultimately show ?thesis by blast
qed
end
