(* ===== verification/Decimal.thy ===== *)
theory Decimal
  imports Prelude
begin

text \<open>
  Decimal text as \<open>printf\<close>'s \<open>%d\<close>, \<open>%u\<close>, \<open>%ld\<close> write it and as the C library's
  \<open>strtol\<close>, \<open>atol\<close> read it, and \<open>long\<close> arithmetic. The kernel's own \<open>simple_strtol\<close> is a
  parameter of the components that call it; \<open>strtol_ok\<close> is what they rely on.
\<close>

section \<open>Integers of C\<close>

text \<open>The value a 64-bit \<open>long\<close> holds after an operation whose exact result is \<open>x\<close>.\<close>

definition wrap_long :: "int \<Rightarrow> int" where
  "wrap_long x = (x + 2 ^ 63) mod 2 ^ 64 - 2 ^ 63"

lemma wrap_long_id: "- (2 ^ 63) \<le> x \<Longrightarrow> x < 2 ^ 63 \<Longrightarrow> wrap_long x = x"
  by (simp add: wrap_long_def)

lemma wrap_long_abs: "\<bar>x\<bar> < 2 ^ 63 \<Longrightarrow> wrap_long x = x"
  by (rule wrap_long_id) linarith+

text \<open>Division of C, towards zero.\<close>

definition cdiv :: "int \<Rightarrow> int \<Rightarrow> int" where
  "cdiv a b = sgn a * sgn b * (\<bar>a\<bar> div \<bar>b\<bar>)"

lemma cdiv_nonneg: "0 \<le> a \<Longrightarrow> 0 < b \<Longrightarrow> cdiv a b = a div b"
  by (cases "a = 0") (simp_all add: cdiv_def)

lemma cdiv_neg: "cdiv (- a) b = - cdiv a b"
  by (simp add: cdiv_def sgn_minus)

lemma cdiv_exact: "b \<noteq> 0 \<Longrightarrow> cdiv (a * b) b = a"
proof -
  assume b: "b \<noteq> 0"
  have "\<bar>a * b\<bar> div \<bar>b\<bar> = \<bar>a\<bar>" using b by (simp add: abs_mult)
  moreover have "sgn (a * b) * sgn b = sgn a" using b by (simp add: sgn_mult mult.assoc sgn_mult_self_eq)
  ultimately show ?thesis by (simp add: cdiv_def sgn_mult_abs)
qed

section \<open>Digits\<close>

definition digit :: "nat \<Rightarrow> char" where
  "digit d = ''0123456789'' ! d"

definition digit_val :: "char \<Rightarrow> nat option" where
  "digit_val c = map_of (zip ''0123456789'' [0..<10]) c"

lemma less_10_cases:
  "d < (10::nat) \<Longrightarrow> d = 0 \<or> d = 1 \<or> d = 2 \<or> d = 3 \<or> d = 4 \<or> d = 5 \<or> d = 6 \<or> d = 7 \<or> d = 8 \<or> d = 9"
  by presburger

lemma digit_val_digit [simp]: "d < 10 \<Longrightarrow> digit_val (digit d) = Some d"
  by (drule less_10_cases) (auto simp: digit_def digit_val_def upt_rec)

lemma digit_not [simp]:
  "d < 10 \<Longrightarrow> digit d \<noteq> CHR ''-''" "d < 10 \<Longrightarrow> digit d \<noteq> NUL" "d < 10 \<Longrightarrow> digit d \<noteq> NL"
  "d < 10 \<Longrightarrow> digit d \<noteq> CHR '' ''"
  by (drule less_10_cases, auto simp: digit_def)+

fun show_nat :: "nat \<Rightarrow> char list" where
  "show_nat n = (if n < 10 then [digit n] else show_nat (n div 10) @ [digit (n mod 10)])"

declare show_nat.simps [simp del]

definition show_int :: "int \<Rightarrow> char list" where
  "show_int i = (if i < 0 then CHR ''-'' # show_nat (nat (- i)) else show_nat (nat i))"

text \<open>Reading: the value of the leading digits and how many there are.\<close>

fun scan_digits :: "nat \<Rightarrow> char list \<Rightarrow> nat \<times> nat" where
  "scan_digits acc [] = (acc, 0)"
| "scan_digits acc (c # s) = (case digit_val c of
     None \<Rightarrow> (acc, 0)
   | Some d \<Rightarrow> (let (v, k) = scan_digits (acc * 10 + d) s in (v, Suc k)))"

definition scan_int :: "char list \<Rightarrow> int \<times> nat" where
  "scan_int s = (if s \<noteq> [] \<and> hd s = CHR ''-''
     then (let (v, k) = scan_digits 0 (tl s) in (- int v, Suc k))
     else (let (v, k) = scan_digits 0 s in (int v, k)))"

lemma show_nat_nonempty [simp]: "show_nat n \<noteq> []"
  by (subst show_nat.simps) simp

lemma set_show_nat: "c \<in> set (show_nat n) \<Longrightarrow> \<exists>d<10. c = digit d"
proof (induction n rule: show_nat.induct)
  case (1 n)
  then show ?case
    by (cases "n < 10") (auto simp: show_nat.simps [of n] intro: exI [of _ "n mod 10"])
qed

lemma digit_notin_show_nat: "(\<And>d. d < 10 \<Longrightarrow> digit d \<noteq> c) \<Longrightarrow> c \<notin> set (show_nat n)"
  using set_show_nat by blast

lemma set_show_int:
  "NUL \<notin> set (show_int i)" "NL \<notin> set (show_int i)" "show_int i \<noteq> []"
  by (auto simp: show_int_def digit_notin_show_nat)

lemma scan_digits_snoc:
  "scan_digits acc s = (v, length s) \<Longrightarrow> digit_val c = Some d \<Longrightarrow>
    scan_digits acc (s @ c # t) = (let (w, k) = scan_digits (v * 10 + d) t in (w, length s + 1 + k))"
proof (induction s arbitrary: acc v)
  case Nil
  then show ?case by (simp split: prod.splits)
next
  case (Cons a s)
  then show ?case
    by (cases "digit_val a") (auto split: prod.splits)
qed

lemma scan_show_nat: "scan_digits 0 (show_nat n) = (n, length (show_nat n))"
proof (induction n rule: show_nat.induct)
  case (1 n)
  show ?case
  proof (cases "n < 10")
    case True
    then show ?thesis by (simp add: show_nat.simps [of n])
  next
    case False
    have e: "n div 10 * 10 + n mod 10 = n" by (rule div_mult_mod_eq)
    have "scan_digits 0 (show_nat (n div 10) @ [digit (n mod 10)])
      = (let (w, k) = scan_digits (n div 10 * 10 + n mod 10) []
         in (w, length (show_nat (n div 10)) + 1 + k))"
      by (rule scan_digits_snoc [OF "1.IH" [OF False]]) simp
    then show ?thesis using False unfolding e by (simp add: show_nat.simps [of n])
  qed
qed

lemma scan_digits_stop:
  "scan_digits acc s = (v, length s) \<Longrightarrow> digit_val c = None \<Longrightarrow> scan_digits acc (s @ c # t) = (v, length s)"
proof (induction s arbitrary: acc v)
  case (Cons a s)
  then show ?case by (cases "digit_val a") (auto split: prod.splits)
qed simp

lemma show_nat_hd: "\<exists>d<10. \<exists>s. show_nat n = digit d # s"
proof -
  obtain c s where s: "show_nat n = c # s" by (cases "show_nat n") auto
  then have "c \<in> set (show_nat n)" by simp
  then show ?thesis using set_show_nat s by blast
qed

lemma scan_show_int: "scan_int (show_int i) = (i, length (show_int i))"
proof (cases "i < 0")
  case True
  then show ?thesis by (simp add: scan_int_def show_int_def scan_show_nat)
next
  case False
  obtain d s where d: "d < 10" "show_nat (nat i) = digit d # s" using show_nat_hd by blast
  have "hd (show_nat (nat i)) \<noteq> CHR ''-''" using d by simp
  then have "scan_int (show_nat (nat i)) = (int (nat i), length (show_nat (nat i)))"
    using scan_show_nat [of "nat i"] by (simp add: scan_int_def)
  then show ?thesis using False by (simp add: show_int_def)
qed

text \<open>Text behind the number does not matter.\<close>

lemma scan_int_stop:
  assumes "digit_val c = None"
  shows "scan_int (show_int i @ c # t) = (i, length (show_int i))"
proof (cases "i < 0")
  case True
  then show ?thesis
    using scan_digits_stop [OF scan_show_nat assms] by (simp add: scan_int_def show_int_def)
next
  case False
  obtain d s where d: "d < 10" "show_nat (nat i) = digit d # s" using show_nat_hd by blast
  have "hd (show_nat (nat i) @ c # t) \<noteq> CHR ''-''" using d by simp
  then have "scan_int (show_nat (nat i) @ c # t) = (int (nat i), length (show_nat (nat i)))"
    using scan_digits_stop [OF scan_show_nat assms, of "nat i" t] by (simp add: scan_int_def)
  then show ?thesis using False by (simp add: show_int_def)
qed

text \<open>The range of a \<open>long\<close>.\<close>

definition in_long :: "int \<Rightarrow> bool" where
  "in_long x \<longleftrightarrow> - (2 ^ 63) \<le> x \<and> x < 2 ^ 63"

text \<open>What the components need of \<open>simple_strtol( s, &endp, 10 )\<close>: the value and the number
  of characters consumed, right on the text \<open>%ld\<close> writes.\<close>

type_synonym strtol = "char list \<Rightarrow> int \<times> nat"

definition strtol_ok :: "strtol \<Rightarrow> bool" where
  "strtol_ok st \<longleftrightarrow> (\<forall>i. in_long i \<longrightarrow> st (show_int i) = (i, length (show_int i)))"

lemma strtol_ok_scan_int: "strtol_ok scan_int"
  by (simp add: strtol_ok_def scan_show_int)

section \<open>The C library's readers\<close>

text \<open>The value a 32-bit \<open>int\<close> holds after a conversion of \<open>x\<close>.\<close>

definition wrap_int :: "int \<Rightarrow> int" where
  "wrap_int x = (x + 2 ^ 31) mod 2 ^ 32 - 2 ^ 31"

lemma wrap_int_id: "\<bar>x\<bar> < 2 ^ 31 \<Longrightarrow> wrap_int x = x"
proof -
  assume "\<bar>x\<bar> < 2 ^ 31"
  then have "0 \<le> x + 2 ^ 31" "x + 2 ^ 31 < 2 ^ 32" by (auto simp: abs_if split: if_splits)
  then show ?thesis by (simp add: wrap_int_def)
qed

definition is_space :: "char \<Rightarrow> bool" where
  "is_space c \<longleftrightarrow> c = CHR '' '' \<or> c = TAB \<or> c = NL \<or> c = CHR 0x0B \<or> c = CHR 0x0C \<or> c = CHR 0x0D"

text \<open>\<open>atol\<close>, and \<open>sscanf\<close>'s \<open>%ld\<close> into a variable that holds 0: leading white space, a
  sign, digits.\<close>

definition atol :: "char list \<Rightarrow> int" where
  "atol s = (let t = dropWhile is_space s in
     wrap_long (if t \<noteq> [] \<and> hd t = CHR ''+'' then int (fst (scan_digits 0 (tl t)))
                else fst (scan_int t)))"

lemma digit_not_space [simp]: "d < 10 \<Longrightarrow> \<not> is_space (digit d)" "d < 10 \<Longrightarrow> digit d \<noteq> CHR ''+''"
  by (drule less_10_cases, auto simp: is_space_def digit_def)+

lemma show_int_hd:
  "\<not> is_space (hd (show_int i))" "hd (show_int i) \<noteq> CHR ''+''"
proof -
  obtain d s where d: "d < 10" "show_nat (nat i) = digit d # s" using show_nat_hd by blast
  then show "\<not> is_space (hd (show_int i))" "hd (show_int i) \<noteq> CHR ''+''"
    by (simp_all add: show_int_def) (simp_all add: is_space_def)
qed

lemma atol_show_int: "atol (show_int i) = wrap_long i"
proof -
  have "dropWhile is_space (show_int i) = show_int i"
    using show_int_hd(1) [of i] by (cases "show_int i") auto
  then show ?thesis using show_int_hd(2) [of i] by (simp add: atol_def scan_show_int)
qed

lemma length_show_nat: "n < 10 ^ k \<Longrightarrow> 0 < k \<Longrightarrow> length (show_nat n) \<le> k"
proof (induction n arbitrary: k rule: show_nat.induct)
  case (1 n)
  show ?case
  proof (cases "n < 10")
    case True
    then show ?thesis using 1(3) by (simp add: show_nat.simps [of n])
  next
    case False
    then have "k \<noteq> 1" using 1(2) by auto
    then obtain j where k: "k = Suc j" "0 < j" using 1(3) by (cases k) auto
    then have "n div 10 < 10 ^ j" using 1(2) by (simp add: less_mult_imp_div_less mult.commute)
    then show ?thesis using 1(1) [OF False, of j] False k by (simp add: show_nat.simps [of n])
  qed
qed

lemma in_long_wrap [simp]: "in_long (wrap_long x)"
proof -
  have "0 \<le> (x + 2 ^ 63) mod 2 ^ 64" "(x + 2 ^ 63) mod 2 ^ 64 < 2 ^ 64" by simp_all
  then show ?thesis by (simp add: in_long_def wrap_long_def)
qed

lemma wrap_long_in [simp]: "in_long x \<Longrightarrow> wrap_long x = x"
  by (simp add: in_long_def wrap_long_id)

lemma in_long_wrap_int [simp]: "in_long (wrap_int x)"
proof -
  have "0 \<le> (x + 2 ^ 31) mod 2 ^ 32" "(x + 2 ^ 31) mod 2 ^ 32 < 2 ^ 32" by simp_all
  then show ?thesis by (simp add: in_long_def wrap_int_def)
qed

lemma length_show_int: "in_long i \<Longrightarrow> length (show_int i) \<le> 20"
proof -
  assume "in_long i"
  then have "\<bar>i\<bar> \<le> 2 ^ 63" by (simp add: in_long_def abs_if)
  then have "nat \<bar>i\<bar> < 10 ^ 19" by simp
  then have "length (show_nat (nat \<bar>i\<bar>)) \<le> 19" by (rule length_show_nat) simp
  then show ?thesis by (auto simp: show_int_def)
qed

section \<open>Searching characters, and numbers in any base\<close>

text \<open>\<open>strchr\<close> also finds the terminating zero byte. \<open>strrchr\<close> is used for characters other than that.\<close>

fun strchr :: "char list \<Rightarrow> char \<Rightarrow> nat option" where
  "strchr [] c = (if c = NUL then Some 0 else None)"
| "strchr (d # ds) c = (if d = c then Some 0 else map_option Suc (strchr ds c))"

fun strrchr :: "char list \<Rightarrow> char \<Rightarrow> nat option" where
  "strrchr [] c = None"
| "strrchr (d # ds) c = (case strrchr ds c of Some i \<Rightarrow> Some (Suc i) | None \<Rightarrow> if d = c then Some 0 else None)"

lemma strchr_nth: "distinct dig \<Longrightarrow> d < length dig \<Longrightarrow> strchr dig (dig ! d) = Some d"
proof (induction dig arbitrary: d)
  case (Cons x xs)
  then show ?case by (cases d) auto
qed simp

lemma strchr_None: "c \<noteq> NUL \<Longrightarrow> strchr dig c = None \<longleftrightarrow> c \<notin> set dig"
  by (induction dig) auto

lemma strchr_NUL: "NUL \<notin> set dig \<Longrightarrow> strchr dig NUL = Some (length dig)"
  by (induction dig) auto

lemma strrchr_None: "strrchr s c = None \<longleftrightarrow> c \<notin> set s"
  by (induction s) (auto split: option.splits)

lemma strrchr_last: "c \<notin> set t \<Longrightarrow> strrchr (s @ c # t) c = Some (length s)"
  by (induction s) (auto simp: strrchr_None [symmetric] split: option.splits)

fun show_base :: "char list \<Rightarrow> nat \<Rightarrow> char list" where
  "show_base dig n = (if length dig < 2 then [] else if n < length dig then [dig ! n]
     else show_base dig (n div length dig) @ [dig ! (n mod length dig)])"

declare show_base.simps [simp del]

lemma show_base_set: "2 \<le> length dig \<Longrightarrow> set (show_base dig n) \<subseteq> set dig"
proof (induction dig n rule: show_base.induct)
  case (1 dig n)
  have "n mod length dig < length dig" by (rule mod_less_divisor) (use 1(2) in linarith)
  then show ?case using 1 by (subst show_base.simps) (auto simp: not_less)
qed

lemma show_base_hd:
  assumes "2 \<le> length dig"
  shows "\<exists>d r. show_base dig n = dig ! d # r \<and> d < length dig \<and> (0 < n \<longrightarrow> 0 < d)"
proof (induction n rule: less_induct)
  case (less n)
  show ?case
  proof (cases "n < length dig")
    case True
    then show ?thesis using assms by (subst show_base.simps) auto
  next
    case False
    then have "n div length dig < n" "0 < n div length dig"
      using assms by (auto intro!: div_less_dividend simp: div_greater_zero_iff)
    then show ?thesis using less.IH [of "n div length dig"] False assms
      by (subst show_base.simps) auto
  qed
qed

end
