(* ===== verification/Char_Device.thy ===== *)
theory Char_Device
  imports Interfaces Decimal
begin

text \<open>
  \<open>Tasks/dev\<close>: character devices that return one fixed message (\<open>dev.h\<close>), registered in
  three ways: as one cdev with exclusive open (\<open>cdev/fixdev.c\<close>), as a cdev with device
  nodes created for udev (\<open>cdev/dyndev.c\<close>) and as a misc device (\<open>misc/misc_dev.c\<close>); and
  the device with an ioctl (\<open>ioctl/ioctl_dev.c\<close>).
\<close>

section \<open>The message (dev.h)\<close>

definition hello_str :: "char list" where
  "hello_str = ''Hello, world!'' @ [NL]"

definition dev_read :: "ucopy \<Rightarrow> nat \<Rightarrow> nat \<Rightarrow> nat res \<times> char list \<times> nat" where
  "dev_read uc count pos =
     (let len = strlen hello_str in
      if count < len then (fail EINVAL, [], pos)
      else if pos \<noteq> 0 then (Inr 0, [], pos)
      else if uc 0 len \<noteq> 0 then (fail EINVAL, to_user uc 0 hello_str, pos)
      else (Inr len, hello_str, len))"

definition dev_get :: "nat \<Rightarrow> nat \<Rightarrow> char list \<times> nat" where
  "dev_get count pos = (case dev_read copy_ok count pos of (r, out, pos') \<Rightarrow> (out, pos'))"

lemma strlen_hello [simp]: "strlen hello_str = 14" "hello_str \<noteq> []"
  by (simp_all add: strlen_def hello_str_def)

interpretation hello: eof_reader "\<lambda>pos. if pos = 0 then hello_str else []" dev_get
  "\<lambda>count pos. 14 \<le> count" "\<lambda>pos. if pos = 0 then 14 else pos"
  by unfold_locales (auto simp: dev_get_def dev_read_def Let_def split: if_splits)

section \<open>A cdev with exclusive open (cdev/fixdev.c)\<close>

text \<open>
  The kernel's answers: the code of \<open>register_chrdev_region\<close>, the code of
  \<open>alloc_chrdev_region\<close> with the major number it stores (which is whatever \<open>dev\<close> held
  before when it fails), and the code of \<open>cdev_add\<close>.
\<close>

record cdev_env =
  ret_region :: int
  ret_alloc :: "int \<times> int"
  ret_cdev_add :: int

text \<open>A range of device numbers: major, first minor, count.\<close>

type_synonym dev_range = "int \<times> nat \<times> nat"

record cdev_mod =
  major :: int
  device_open :: int
  regions :: "dev_range list"
  cdevs :: "dev_range list"
  dnodes :: "(int \<times> nat \<times> char list) list"
  devclass :: bool

definition DEVICE_FIRST :: nat where
  "DEVICE_FIRST = 0"

definition DEVICE_COUNT :: nat where
  "DEVICE_COUNT = 3"

definition dev_open :: "cdev_mod \<Rightarrow> nat res \<times> cdev_mod" where
  "dev_open s = (if device_open s \<noteq> 0 then (fail EBUSY, s)
     else (Inr 0, s\<lparr>device_open := device_open s + 1\<rparr>))"

definition dev_release :: "cdev_mod \<Rightarrow> nat res \<times> cdev_mod" where
  "dev_release s = (Inr 0, s\<lparr>device_open := device_open s - 1\<rparr>)"

definition fixdev_init :: "cdev_env \<Rightarrow> cdev_mod \<Rightarrow> int \<times> cdev_mod" where
  "fixdev_init e s =
     (let (ret, dmajor, s1) =
        (if major s \<noteq> 0 then (ret_region e, major s, s)
         else (fst (ret_alloc e), snd (ret_alloc e), s\<lparr>major := snd (ret_alloc e)\<rparr>)) in
      if ret < 0 then (ret, s1)
      else
        (let s2 = s1\<lparr>regions := (dmajor, DEVICE_FIRST, DEVICE_COUNT) # regions s1\<rparr>;
             ret' = ret_cdev_add e in
         if ret' < 0
         then (ret', s2\<lparr>regions := remove1 (major s2, DEVICE_FIRST, DEVICE_COUNT) (regions s2)\<rparr>)
         else (ret', s2\<lparr>cdevs := (dmajor, DEVICE_FIRST, DEVICE_COUNT) # cdevs s2\<rparr>)))"

definition fixdev_exit :: "cdev_mod \<Rightarrow> cdev_mod" where
  "fixdev_exit s = s\<lparr>cdevs := tl (cdevs s),
     regions := remove1 (major s, DEVICE_FIRST, DEVICE_COUNT) (regions s)\<rparr>"

text \<open>What the module holds: the number ranges registered and the cdevs added.\<close>

definition cdev_res :: "cdev_mod \<Rightarrow> dev_range list \<times> dev_range list" where
  "cdev_res s = (regions s, cdevs s)"

datatype cdev_op = CdevOpen | CdevRelease

fun cdev_do :: "cdev_op \<Rightarrow> cdev_mod \<Rightarrow> cdev_mod" where
  "cdev_do CdevOpen s = snd (dev_open s)"
| "cdev_do CdevRelease s = snd (dev_release s)"

interpretation fixdev: lifecycle fixdev_init cdev_do fixdev_exit cdev_res
proof unfold_locales
  fix e s r s'
  assume "fixdev_init e s = (r, s')"
  then show "r < 0 \<Longrightarrow> cdev_res s' = cdev_res s" "r \<ge> 0 \<Longrightarrow> cdev_res (fixdev_exit s') = cdev_res s"
    by (auto simp: fixdev_init_def fixdev_exit_def cdev_res_def Let_def split: if_splits)
next
  fix x s
  show "cdev_res (fixdev_exit (cdev_do x s)) = cdev_res (fixdev_exit s)"
    by (cases x) (auto simp: fixdev_exit_def cdev_res_def dev_open_def dev_release_def)
qed

definition try_open :: "cdev_mod \<Rightarrow> cdev_mod option" where
  "try_open s = (case dev_open s of (Inr _, s') \<Rightarrow> Some s' | (Inl _, s') \<Rightarrow> None)"

definition do_release :: "cdev_mod \<Rightarrow> cdev_mod" where
  "do_release s = snd (dev_release s)"

interpretation fix_excl: exclusive try_open do_release device_open "\<lambda>_. True"
  by unfold_locales (auto simp: try_open_def dev_open_def do_release_def dev_release_def
      split: if_splits)

section \<open>A cdev with device nodes (cdev/dyndev.c)\<close>

text \<open>
  \<open>class_create\<close> gives a new class without nodes; the source does not look at its result,
  and it is taken to succeed here. \<open>dnodes\<close> are the nodes of that class.
\<close>

definition dyn_name :: "nat \<Rightarrow> char list" where
  "dyn_name i = ''dyn'' @ ''_'' @ show_nat i"

definition dyndev_init :: "cdev_env \<Rightarrow> cdev_mod \<Rightarrow> int \<times> cdev_mod" where
  "dyndev_init e s =
     (let (ret, dmajor, s1) =
        (if major s \<noteq> 0 then (ret_region e, major s, s)
         else (fst (ret_alloc e), snd (ret_alloc e), s\<lparr>major := snd (ret_alloc e)\<rparr>)) in
      if ret < 0 then (ret, s1)
      else
        (let s2 = s1\<lparr>regions := (dmajor, DEVICE_FIRST, DEVICE_COUNT) # regions s1\<rparr>;
             ret' = ret_cdev_add e in
         if ret' < 0
         then (ret', s2\<lparr>regions := remove1 (major s2, DEVICE_FIRST, DEVICE_COUNT) (regions s2)\<rparr>)
         else
           (let s3 = s2\<lparr>cdevs := (dmajor, DEVICE_FIRST, DEVICE_COUNT) # cdevs s2,
                      devclass := True, dnodes := []\<rparr>
            in (ret', fold (\<lambda>i s. s\<lparr>dnodes := dnodes s @ [(major s, DEVICE_FIRST + i, dyn_name i)]\<rparr>)
                  [0..<DEVICE_COUNT] s3))))"

definition dyndev_exit :: "cdev_mod \<Rightarrow> cdev_mod" where
  "dyndev_exit s =
     (let s1 = fold (\<lambda>i s. s\<lparr>dnodes := filter (\<lambda>(ma, mi, _). (ma, mi) \<noteq> (major s, DEVICE_FIRST + i))
                  (dnodes s)\<rparr>) [0..<DEVICE_COUNT] s in
      s1\<lparr>devclass := False, cdevs := tl (cdevs s1),
        regions := remove1 (major s1, DEVICE_FIRST, DEVICE_COUNT) (regions s1)\<rparr>)"

interpretation dyndev: lifecycle dyndev_init cdev_do dyndev_exit cdev_res
proof unfold_locales
  fix e s r s'
  assume "dyndev_init e s = (r, s')"
  then show "r < 0 \<Longrightarrow> cdev_res s' = cdev_res s" "r \<ge> 0 \<Longrightarrow> cdev_res (dyndev_exit s') = cdev_res s"
    by (auto simp: dyndev_init_def dyndev_exit_def cdev_res_def Let_def DEVICE_COUNT_def upt_rec
        split: if_splits)
next
  fix x s
  show "cdev_res (dyndev_exit (cdev_do x s)) = cdev_res (dyndev_exit s)"
    by (cases x) (auto simp: dyndev_exit_def cdev_res_def dev_open_def dev_release_def
        DEVICE_COUNT_def upt_rec Let_def)
qed

section \<open>The misc device (misc/misc_dev.c)\<close>

text \<open>\<open>misc_register\<close>, as in \<open>Queue_Device\<close>, is a parameter: minor asked for to returned
  code and minor assigned.\<close>

record misc_mod =
  misc_minor :: int
  misc_reg :: bool

definition misc_init :: "(int \<Rightarrow> int \<times> int) \<Rightarrow> int \<Rightarrow> misc_mod \<Rightarrow> int \<times> misc_mod" where
  "misc_init mr minor s =
     (let s1 = (if minor \<noteq> 0 then s\<lparr>misc_minor := minor\<rparr> else s);
          (ret, m) = mr (misc_minor s1) in
      (ret, if ret = 0 then s1\<lparr>misc_minor := m, misc_reg := True\<rparr> else s1))"

definition misc_exit :: "misc_mod \<Rightarrow> misc_mod" where
  "misc_exit s = s\<lparr>misc_reg := False\<rparr>"

section \<open>The ioctl (ioctl/ioctl_dev.c, .new.c, .old.c)\<close>

text \<open>
  How a command word splits into its magic and its size is the kernel's
  \<open><linux/ioctl.h>\<close>: \<open>ioc\<close> gives the type and size fields, \<open>cmd_get\<close> is the word
  \<open>IOCTL_GET_STRING\<close>. \<open>ioc_ok\<close> is what \<open>_IOR(type, nr, T)\<close> promises: the fields read back.
\<close>

definition IOC_MAGIC :: nat where
  "IOC_MAGIC = 104" \<comment> \<open>'h'\<close>

record ioc_abi =
  ioc_type :: "nat \<Rightarrow> nat"
  ioc_size :: "nat \<Rightarrow> nat"
  cmd_get :: nat

definition sizeof_RETURN_STRING :: nat where
  "sizeof_RETURN_STRING = 160"

definition ioc_ok :: "ioc_abi \<Rightarrow> bool" where
  "ioc_ok a \<longleftrightarrow> ioc_type a (cmd_get a) = IOC_MAGIC \<and> ioc_size a (cmd_get a) = sizeof_RETURN_STRING"

text \<open>The driver copies \<open>_IOC_SIZE( cmd )\<close> bytes out of the string literal; when the literal
  with its terminator is shorter than that, the copy leaves the object.\<close>

definition copy_literal :: "ucopy \<Rightarrow> nat \<Rightarrow> nat res \<times> char list" where
  "copy_literal uc n =
     (if length (hello_str @ [NUL]) < n then (crash OutOfBounds, [])
      else if uc 0 n \<noteq> 0 then (fail EFAULT, to_user uc 0 (take n (hello_str @ [NUL])))
      else (Inr 0, take n (hello_str @ [NUL])))"

definition dev_ioctl_new :: "ioc_abi \<Rightarrow> ucopy \<Rightarrow> nat \<Rightarrow> nat res \<times> char list" where
  "dev_ioctl_new a uc cmd =
     (if ioc_type a cmd \<noteq> IOC_MAGIC then (fail EINVAL, [])
      else if cmd = cmd_get a then copy_literal uc (ioc_size a cmd)
      else (fail ENOTTY, []))"

definition dev_ioctl_old :: "ioc_abi \<Rightarrow> ucopy \<Rightarrow> nat \<Rightarrow> nat res \<times> char list" where
  "dev_ioctl_old a uc cmd =
     (if ioc_type a cmd \<noteq> IOC_MAGIC then (fail ENOTTY, [])
      else if cmd = cmd_get a then copy_literal uc (ioc_size a cmd)
      else (fail ENOTTY, []))"

definition dev_ioctl :: "ioc_abi \<Rightarrow> ucopy \<Rightarrow> nat \<Rightarrow> nat res \<times> char list" where
  "dev_ioctl a uc cmd =
     (if ioc_type a cmd \<noteq> IOC_MAGIC then (fail EINVAL, [])
      else if cmd = cmd_get a then copy_literal uc (ioc_size a cmd)
      else (fail ENOTTY, []))"

record ioctl_mod =
  chr_reg :: "(int \<times> char list) list"

definition HELLO_MAJOR :: int where
  "HELLO_MAJOR = 200"

definition ioctl_init :: "int \<Rightarrow> ioctl_mod \<Rightarrow> int \<times> ioctl_mod" where
  "ioctl_init ret s = (ret, if ret < 0 then s
     else s\<lparr>chr_reg := (HELLO_MAJOR, ''my_ioctl_dev'') # chr_reg s\<rparr>)"

definition ioctl_exit :: "ioctl_mod \<Rightarrow> ioctl_mod" where
  "ioctl_exit s = s\<lparr>chr_reg := remove1 (HELLO_MAJOR, ''my_ioctl_dev'') (chr_reg s)\<rparr>"

interpretation ioctl: lifecycle ioctl_init "\<lambda>_ s. s" ioctl_exit chr_reg
  by unfold_locales (auto simp: ioctl_init_def ioctl_exit_def split: if_splits)

section \<open>Properties\<close>

text \<open>Loading and unloading the modules that register a cdev, in any order, with any
  failures of the kernel calls and any opens and releases in between: whenever the module
  is not loaded, it holds no number range and no cdev that it did not hold at the start.\<close>

theorem cdev_no_leak:
  "mod_run fixdev_init cdev_do fixdev_exit evs (False, s) = (False, s') \<Longrightarrow> cdev_res s' = cdev_res s"
  by (rule fixdev.no_leak)

theorem cdev_no_leak_witness:
  "\<exists>s'. mod_run fixdev_init cdev_do fixdev_exit
      [Load \<lparr>ret_region = 0, ret_alloc = (0, 250), ret_cdev_add = - 12\<rparr>,
       Load \<lparr>ret_region = 0, ret_alloc = (0, 250), ret_cdev_add = 0\<rparr>, Op CdevOpen, Unload]
      (False, \<lparr>major = 0, device_open = 0, regions = [], cdevs = [], dnodes = [], devclass = False\<rparr>)
    = (False, s') \<and> cdev_res s' = ([], [])"
proof -
  let ?s = "\<lparr>major = 0, device_open = 0, regions = [], cdevs = [], dnodes = [], devclass = False\<rparr>"
  let ?evs = "[Load \<lparr>ret_region = 0, ret_alloc = (0, 250), ret_cdev_add = - 12\<rparr>,
       Load \<lparr>ret_region = 0, ret_alloc = (0, 250), ret_cdev_add = 0\<rparr>, Op CdevOpen, Unload]"
  obtain s' where s': "mod_run fixdev_init cdev_do fixdev_exit ?evs (False, ?s) = (False, s')"
    using mod_run_unload [of fixdev_init cdev_do fixdev_exit "butlast ?evs" "(False, ?s)"] by auto
  show ?thesis using s' cdev_no_leak [OF s'] by (simp add: cdev_res_def)
qed

text \<open>The device with exclusive open: in every state reached by opens, refused opens and
  releases, at most one handle is open, the counter equals the number of handles, and once
  the handle is released the device can be opened again.\<close>

theorem fixdev_exclusive:
  "session try_open do_release s0 (s, n) \<Longrightarrow> device_open s0 = 0 \<Longrightarrow>
    device_open s = int n \<and> n \<le> 1 \<and> (n = 0 \<longrightarrow> (\<exists>s'. dev_open s = (Inr 0, s')))"
  using fix_excl.at_most_one [of s0 "(s, n)"] by (auto simp: dev_open_def)

theorem fixdev_exclusive_witness:
  "\<exists>s. session try_open do_release
      \<lparr>major = 0, device_open = 0, regions = [], cdevs = [], dnodes = [], devclass = False\<rparr> (s, 1)
    \<and> device_open s = 1"
proof -
  let ?s = "\<lparr>major = 0, device_open = 0, regions = [], cdevs = [], dnodes = [], devclass = False\<rparr>"
  have "session try_open do_release ?s (?s\<lparr>device_open := 1\<rparr>, Suc 0)"
    by (rule session.opened [OF session.start]) (simp add: try_open_def dev_open_def)
  then show ?thesis
    using fixdev_exclusive [of ?s "?s\<lparr>device_open := 1\<rparr>" 1] by (intro exI) auto
qed

text \<open>The ioctl that returns the message always reads outside it: with the command
  word's size field as \<open>_IOR\<close> encodes it, the copy takes 160 bytes from a literal of 15.\<close>

theorem ioctl_get_string_overreads:
  "ioc_ok a \<Longrightarrow> dev_ioctl a uc (cmd_get a) = (crash OutOfBounds, [])"
  by (simp add: dev_ioctl_def ioc_ok_def copy_literal_def hello_str_def sizeof_RETURN_STRING_def)

theorem ioctl_get_string_overreads_witness:
  "dev_ioctl \<lparr>ioc_type = (\<lambda>c. c div 256 mod 256), ioc_size = (\<lambda>c. c div 65536 mod 16384),
      cmd_get = 2 * 2 ^ 30 + 160 * 65536 + 104 * 256 + 1\<rparr> copy_ok
      (2 * 2 ^ 30 + 160 * 65536 + 104 * 256 + 1) = (crash OutOfBounds, [])"
  using ioctl_get_string_overreads [of "\<lparr>ioc_type = (\<lambda>c. c div 256 mod 256),
      ioc_size = (\<lambda>c. c div 65536 mod 16384),
      cmd_get = 2 * 2 ^ 30 + 160 * 65536 + 104 * 256 + 1\<rparr>" copy_ok]
  by (simp add: ioc_ok_def IOC_MAGIC_def sizeof_RETURN_STRING_def)

end
