(* ===== verification/Mopen.thy ===== *)
theory Mopen
  imports Interfaces
begin

text \<open>
  \<open>Tasks/dev/mopen\<close>: a misc device whose module parameter \<open>mode\<close> chooses how it may be
  opened: 0 any number of times on one shared buffer, 1 once at a time, 2 any number of
  times with a buffer per open file (\<open>mmopen.c\<close>); and the test client \<open>pmopen.c\<close>.
\<close>

section \<open>The driver's data\<close>

definition LEN_MSG :: nat where
  "LEN_MSG = 256"

record mopen_data =
  mbuf :: "char list"
  odd :: int

text \<open>\<open>priv f\<close> is the \<open>private_data\<close> of the open file \<open>f\<close>, None for a null pointer.\<close>

record mopen =
  mode :: int
  dev_open :: int
  static_buf :: mopen_data
  priv :: "nat \<Rightarrow> mopen_data option"

text \<open>\<open>strcpy\<close> into a buffer: the string and its terminator.\<close>

definition strcpy :: "char list \<Rightarrow> char list \<Rightarrow> char list" where
  "strcpy dst s = blit dst 0 (s @ [NUL])"

definition static_init :: mopen_data where
  "static_init = \<lparr>mbuf = ''static: not initialized!'' @ replicate (LEN_MSG + 1 - 24) NUL, odd = 0\<rparr>"

section \<open>Operations\<close>

text \<open>\<open>vm\<close> is the outcome of \<open>kmalloc\<close>: None, or a block with arbitrary contents.\<close>

definition mopen_open :: "(nat \<Rightarrow> char) option \<Rightarrow> nat \<Rightarrow> mopen \<Rightarrow> nat res \<times> mopen" where
  "mopen_open vm f s =
     (if dev_open s \<noteq> 0 then (fail EBUSY, s)
      else
        (let s1 = (if mode s = 1 then s\<lparr>dev_open := dev_open s + 1\<rparr> else s) in
         if mode s1 = 2 then
           (case vm of
              None \<Rightarrow> (fail ENOMEM, s1\<lparr>priv := (priv s1)(f := None)\<rparr>)
            | Some junk \<Rightarrow> (Inr 0, s1\<lparr>priv := (priv s1)(f := Some
                \<lparr>mbuf = strcpy (map junk [0..<LEN_MSG + 1]) ''dynamic: not initialized!'',
                 odd = 0\<rparr>)\<rparr>))
         else (Inr 0, s1)))"

definition mopen_release :: "nat \<Rightarrow> mopen \<Rightarrow> nat res \<times> mopen" where
  "mopen_release f s =
     (let s1 = (if mode s = 1 then s\<lparr>dev_open := dev_open s - 1\<rparr> else s) in
      (Inr 0, if mode s1 = 2 then s1\<lparr>priv := (priv s1)(f := None)\<rparr> else s1))"

definition get_buffer :: "nat \<Rightarrow> mopen \<Rightarrow> mopen_data option" where
  "get_buffer f s = (if mode s = 2 then priv s f else Some (static_buf s))"

definition set_buffer :: "nat \<Rightarrow> mopen_data \<Rightarrow> mopen \<Rightarrow> mopen" where
  "set_buffer f d s = (if mode s = 2 then s\<lparr>priv := (priv s)(f \<mapsto> d)\<rparr> else s\<lparr>static_buf := d\<rparr>)"

text \<open>
  \<open>mopen_read\<close> writes to the user's buffer whatever \<open>count\<close> is; the result lists the
  writes as pairs of an offset and the bytes written there. The outcomes of the copies are
  not looked at.
\<close>

definition mopen_read :: "ucopy \<Rightarrow> nat \<Rightarrow> nat \<Rightarrow> mopen
    \<Rightarrow> nat res \<times> (nat \<times> char list) list \<times> mopen" where
  "mopen_read uc f count s =
     (case get_buffer f s of
        None \<Rightarrow> (crash NullDeref, [], s)
      | Some d \<Rightarrow>
          (if odd d = 0 then
             (let msg = cstr (mbuf d) in
              (Inr (strlen (mbuf d) + 1),
               (0, to_user uc 0 msg) #
                 (if uc (strlen (mbuf d)) 1 = 0 then [(strlen (mbuf d), [NL])] else []),
               set_buffer f (d\<lparr>odd := 1\<rparr>) s))
           else (Inr 0, [], set_buffer f (d\<lparr>odd := 0\<rparr>) s)))"

text \<open>
  \<open>mopen_write\<close>: with an empty write, \<open>data->buf[ len - 1 ]\<close> is the byte before the buffer.
\<close>

definition mopen_write :: "ucopy \<Rightarrow> nat \<Rightarrow> char list \<Rightarrow> mopen \<Rightarrow> nat res \<times> mopen" where
  "mopen_write uc f buf s =
     (let count = length buf; len = (if count < LEN_MSG then count else LEN_MSG) in
      case get_buffer f s of
        None \<Rightarrow> (crash NullDeref, s)
      | Some d \<Rightarrow>
          (let b = blit (mbuf d) 0 (from_user uc 0 (take len buf)) in
           if len = 0 then (crash OutOfBounds, s)
           else (Inr len, set_buffer f (d\<lparr>mbuf := terminate b len\<rparr>) s)))"

definition mopen_init :: "int \<Rightarrow> bool \<Rightarrow> int \<times> bool" where
  "mopen_init ret registered = (ret, if ret = 0 then True else registered)"

definition mopen_exit :: "bool \<Rightarrow> bool" where
  "mopen_exit registered = False"

section \<open>Invariant: every buffer holds a terminated string\<close>

definition buf_ok :: "mopen_data \<Rightarrow> bool" where
  "buf_ok d \<longleftrightarrow> length (mbuf d) = LEN_MSG + 1 \<and> NUL \<in> set (mbuf d)"

definition mopen_inv :: "mopen \<Rightarrow> bool" where
  "mopen_inv s \<longleftrightarrow> buf_ok (static_buf s) \<and> (\<forall>f d. priv s f = Some d \<longrightarrow> buf_ok d)"

lemma strlen_buf_ok: "buf_ok d \<Longrightarrow> strlen (mbuf d) \<le> LEN_MSG"
proof -
  have "NUL \<in> set b \<Longrightarrow> strlen b < length b" for b :: "char list"
    by (induction b) (auto simp: strlen_def)
  then show "buf_ok d \<Longrightarrow> ?thesis" by (fastforce simp: buf_ok_def)
qed

lemma static_init_ok: "buf_ok static_init"
  by (simp add: buf_ok_def static_init_def LEN_MSG_def)

lemma get_buffer_ok: "mopen_inv s \<Longrightarrow> get_buffer f s = Some d \<Longrightarrow> buf_ok d"
  by (auto simp: mopen_inv_def get_buffer_def split: if_splits)

lemma set_buffer_inv: "mopen_inv s \<Longrightarrow> buf_ok d \<Longrightarrow> mopen_inv (set_buffer f d s)"
  by (simp add: mopen_inv_def set_buffer_def)

lemma mode_set_buffer [simp]: "mode (set_buffer f d s) = mode s"
  by (simp add: set_buffer_def)

lemma get_set_buffer_same [simp]: "get_buffer f (set_buffer f d s) = Some d"
  by (simp add: get_buffer_def set_buffer_def)

lemma get_set_buffer_other:
  "mode s = 2 \<Longrightarrow> f \<noteq> g \<Longrightarrow> get_buffer g (set_buffer f d s) = get_buffer g s"
  by (simp add: get_buffer_def set_buffer_def)

lemma get_set_buffer_shared:
  "mode s \<noteq> 2 \<Longrightarrow> get_buffer g (set_buffer f d s) = Some d"
  by (simp add: get_buffer_def set_buffer_def)

lemma mopen_open_inv:
  assumes "mopen_inv s"
  shows "mopen_inv (snd (mopen_open vm f s))"
proof -
  have "buf_ok \<lparr>mbuf = strcpy (map junk [0..<LEN_MSG + 1]) ''dynamic: not initialized!'', odd = 0\<rparr>"
    for junk
    by (simp add: buf_ok_def strcpy_def blit_def LEN_MSG_def)
  then show ?thesis
    using assms by (auto simp: mopen_open_def mopen_inv_def Let_def split: option.splits if_splits)
qed

lemma mopen_release_inv: "mopen_inv s \<Longrightarrow> mopen_inv (snd (mopen_release f s))"
  by (auto simp: mopen_release_def mopen_inv_def Let_def)

lemma mopen_read_inv: "mopen_inv s \<Longrightarrow> mopen_inv (snd (snd (mopen_read uc f count s)))"
  using get_buffer_ok
  by (fastforce simp: mopen_read_def Let_def buf_ok_def intro: set_buffer_inv split: option.splits)

lemma write_buf_ok:
  assumes "buf_ok d" "len \<le> LEN_MSG" "length src = len"
  shows "buf_ok (d\<lparr>mbuf := terminate (blit (mbuf d) 0 src) len\<rparr>)"
proof -
  have "length (blit (mbuf d) 0 src) = LEN_MSG + 1"
    using assms by (subst length_blit) (simp_all add: buf_ok_def)
  then show ?thesis using assms(2) by (simp add: buf_ok_def terminate_has_NUL)
qed

lemma mopen_write_inv:
  assumes "mopen_inv s"
  shows "mopen_inv (snd (mopen_write uc f buf s))"
proof (cases "get_buffer f s")
  case (Some d)
  let ?l = "if length buf < LEN_MSG then length buf else LEN_MSG"
  note ok = write_buf_ok [OF get_buffer_ok [OF assms Some], of ?l "from_user uc 0 (take ?l buf)"]
  then show ?thesis
    using assms Some
    by (auto simp: mopen_write_def Let_def intro!: set_buffer_inv split: if_splits)
qed (use assms in \<open>simp add: mopen_write_def\<close>)

section \<open>What a reader sees\<close>

text \<open>The message a write stores: at most \<open>LEN_MSG\<close> bytes, less a final newline.\<close>

definition stored :: "char list \<Rightarrow> char list" where
  "stored buf = chomp (take LEN_MSG buf)"

lemma mopen_write_stores:
  assumes "mopen_inv s" "get_buffer f s = Some d" "buf \<noteq> []" "NUL \<notin> set buf"
  shows "\<exists>d'. mopen_write copy_ok f buf s = (Inr (min (length buf) LEN_MSG), set_buffer f d' s)
    \<and> cstr (mbuf d') = stored buf \<and> odd d' = odd d"
proof -
  define len where "len = (if length buf < LEN_MSG then length buf else LEN_MSG)"
  define b where "b = blit (mbuf d) 0 (take len buf)"
  have d: "length (mbuf d) = LEN_MSG + 1"
    using get_buffer_ok [OF assms(1,2)] by (simp add: buf_ok_def)
  have len: "len \<noteq> 0" "len \<le> LEN_MSG" "len \<le> length buf" "take len buf = take LEN_MSG buf"
    "len = min (length buf) LEN_MSG"
    using assms(3) by (auto simp: len_def LEN_MSG_def)
  have tb: "take len b = take LEN_MSG buf" "length b = LEN_MSG + 1"
    using d len by (simp_all add: b_def blit_def)
  have "cstr (terminate b len) = stored buf"
    unfolding stored_def
    by (rule cstr_terminate [OF tb(1)]) (use len tb assms in \<open>auto dest: in_set_takeD\<close>)
  moreover have "mopen_write copy_ok f buf s
      = (Inr len, set_buffer f (d\<lparr>mbuf := terminate b len\<rparr>) s)"
    using assms(2) len(1) unfolding mopen_write_def len_def [symmetric] Let_def
    by (simp add: b_def)
  ultimately show ?thesis using len(5) by (intro exI [of _ "d\<lparr>mbuf := terminate b len\<rparr>"]) simp
qed
section \<open>Readers\<close>

definition mopen_get :: "nat \<Rightarrow> nat \<Rightarrow> mopen \<Rightarrow> char list \<times> mopen" where
  "mopen_get f count s = (case mopen_read copy_ok f count s of
     (r, ws, s') \<Rightarrow> (concat (map snd ws), s'))"

definition to_read :: "nat \<Rightarrow> mopen \<Rightarrow> char list" where
  "to_read f s = (case get_buffer f s of
     None \<Rightarrow> [] | Some d \<Rightarrow> if odd d = 0 then cstr (mbuf d) @ [NL] else [])"

definition rewound :: "nat \<Rightarrow> mopen \<Rightarrow> mopen" where
  "rewound f s = (case get_buffer f s of
     None \<Rightarrow> s | Some d \<Rightarrow> set_buffer f (d\<lparr>odd := 0\<rparr>) s)"

lemma set_buffer_twice [simp]: "set_buffer f d (set_buffer f e s) = set_buffer f d s"
  by (simp add: set_buffer_def)

interpretation mopen_rd: eof_reader "to_read f" "mopen_get f" "\<lambda>_ _. True" "rewound f" for f
proof unfold_locales
  fix n s
  show "to_read f s \<noteq> [] \<Longrightarrow> fst (mopen_get f n s) \<noteq> []
      \<and> fst (mopen_get f n s) @ to_read f (snd (mopen_get f n s)) = to_read f s"
    "to_read f s \<noteq> [] \<Longrightarrow> rewound f (snd (mopen_get f n s)) = rewound f s"
    "to_read f s = [] \<Longrightarrow> mopen_get f n s = ([], rewound f s)"
    by (auto simp: to_read_def mopen_get_def mopen_read_def rewound_def Let_def
        split: option.splits if_splits)
qed simp

definition open1 :: "mopen \<Rightarrow> mopen option" where
  "open1 s = (case mopen_open None 0 s of (Inr _, s') \<Rightarrow> Some s' | (Inl _, _) \<Rightarrow> None)"

definition release1 :: "mopen \<Rightarrow> mopen" where
  "release1 s = snd (mopen_release 0 s)"

interpretation mopen1: exclusive open1 release1 dev_open "\<lambda>s. mode s = 1"
  by unfold_locales (auto simp: open1_def mopen_open_def release1_def mopen_release_def Let_def
      split: if_splits)

section \<open>The client pmopen.c\<close>

text \<open>\<open>prepare\<close> writes a message through a new handle; \<open>test\<close> reads it to its end. The
  result of \<open>main\<close> is what the two calls of \<open>test\<close> print.\<close>

definition prepare :: "nat \<Rightarrow> char list \<Rightarrow> mopen \<Rightarrow> mopen" where
  "prepare f test s = snd (mopen_write copy_ok f test (snd (mopen_open (Some (\<lambda>_. NUL)) f s)))"

definition test :: "nat \<Rightarrow> mopen \<Rightarrow> (char list \<times> mopen) option" where
  "test f s = cat (mopen_get f) (LEN_MSG + 3) LEN_MSG s"

definition pmopen_main :: "mopen \<Rightarrow> (char list \<times> char list) option" where
  "pmopen_main s =
     (let s1 = prepare 1 ''1111111'' s; s2 = prepare 2 ''22222'' s1 in
      case test 1 s2 of None \<Rightarrow> None
      | Some (o1, s3) \<Rightarrow> (case test 2 s3 of None \<Rightarrow> None | Some (o2, _) \<Rightarrow> Some (o1, o2)))"

lemma test_returns: "mopen_inv s \<Longrightarrow> test f s = Some (to_read f s, rewound f s)"
proof -
  assume i: "mopen_inv s"
  have "length (to_read f s) \<le> LEN_MSG + 1"
    using get_buffer_ok [OF i, of f] strlen_buf_ok
    by (auto simp: to_read_def strlen_def split: option.splits)
  then show ?thesis unfolding test_def by (intro mopen_rd.cat_complete) auto
qed

definition mopen_start :: "int \<Rightarrow> mopen" where
  "mopen_start m = \<lparr>mode = m, dev_open = 0, static_buf = static_init, priv = (\<lambda>_. None)\<rparr>"

lemma mopen_start_inv [simp]: "mopen_inv (mopen_start m)"
  by (simp add: mopen_start_def mopen_inv_def static_init_ok)

section \<open>Properties\<close>



text \<open>In single-open mode the device has at most one open handle in every reachable
  state, and it can be opened again once that handle is released.\<close>

theorem mopen_single:
  "session open1 release1 s0 (s, n) \<Longrightarrow> mode s0 = 1 \<Longrightarrow> dev_open s0 = 0 \<Longrightarrow>
    dev_open s = int n \<and> n \<le> 1 \<and> (n = 0 \<longrightarrow> (\<exists>s'. open1 s = Some s'))"
  using mopen1.at_most_one [of s0 "(s, n)"] mopen1.reopen [of s0 s] by auto

theorem mopen_single_witness:
  "\<exists>s'. session open1 release1 (mopen_start 1) (s', 1) \<and> dev_open s' = 1"
proof -
  obtain s' where o: "open1 (mopen_start 1) = Some s'"
    by (simp add: open1_def mopen_open_def mopen_start_def)
  have "session open1 release1 (mopen_start 1) (s', Suc 0)"
    by (rule session.opened [OF session.start]) (rule o)
  then show ?thesis
    using mopen_single [of "mopen_start 1" s' 1] by (auto simp: mopen_start_def)
qed

text \<open>The test program \<open>pmopen\<close> tells the modes apart: with a buffer per handle each
  handle reads its own message, with the shared buffer both read the second one.\<close>

theorem pmopen_modes:
  "pmopen_main (mopen_start 2) = Some (''1111111'' @ [NL], ''22222'' @ [NL])
   \<and> pmopen_main (mopen_start 0) = Some (''22222'' @ [NL], ''22222'' @ [NL])"
  by (intro conjI; code_simp)

end
