(* ===== verification/Poll_Device.thy ===== *)
theory Poll_Device
  imports Interfaces Decimal
begin

text \<open>
  \<open>Tasks/dev/poll.le.3.14\<close>: a misc device with blocking and non-blocking reads and a
  \<open>poll\<close> method (\<open>poll.c\<close>), and the option parsing and time formatting its test programs
  share (\<open>user.h\<close>).
\<close>

section \<open>The driver (poll.c)\<close>

definition LEN_MSG :: nat where
  "LEN_MSG = 160"

record pdev =
  roff :: nat
  pbuf :: "char list"

definition devblock :: pdev where
  "devblock = \<lparr>roff = 0,
     pbuf = ''not initialized yet!'' @ NL # replicate (LEN_MSG + 2 - 21) NUL\<rparr>"

text \<open>
  A reader without data sleeps. \<open>wake\<close> is what happens to the device meanwhile: the writes
  of others, or nothing if the sleep ends by a signal. \<open>len\<close> is an \<open>int\<close> compared with the
  unsigned \<open>count\<close>: when the read position is past the end it is negative and does not
  bound the copy.
\<close>

definition poll_read_data :: "ucopy \<Rightarrow> nat \<Rightarrow> pdev \<Rightarrow> nat res \<times> char list \<times> pdev" where
  "poll_read_data uc count d =
     (let off = roff d in
      if off = strlen (pbuf d) then (Inr 0, [], d\<lparr>roff := off + 1\<rparr>)
      else
        (let len = (if strlen (pbuf d) < off then count
                    else if count < strlen (pbuf d) - off then count else strlen (pbuf d) - off) in
         if length (pbuf d) < off + len then (crash OutOfBounds, [], d)
         else if uc 0 len \<noteq> 0 then (fail EFAULT, to_user uc 0 (chunk off len (pbuf d)), d)
         else (Inr len, chunk off len (pbuf d), d\<lparr>roff := off + len\<rparr>)))"

definition poll_read :: "ucopy \<Rightarrow> (pdev \<Rightarrow> pdev) \<Rightarrow> bool \<Rightarrow> nat \<Rightarrow> pdev
    \<Rightarrow> nat res \<times> char list \<times> pdev" where
  "poll_read uc wake nonblock count d =
     (if roff d > strlen (pbuf d) then
        if nonblock then (fail EAGAIN, [], d) else poll_read_data uc count (wake d)
      else poll_read_data uc count d)"

text \<open>The string in the buffer, \<open>strcat( buf, "\n" )\<close> included.\<close>

definition strcat_nl :: "char list \<Rightarrow> char list" where
  "strcat_nl b = blit b (strlen b) [NL, NUL]"

definition poll_write :: "ucopy \<Rightarrow> char list \<Rightarrow> pdev \<Rightarrow> nat res \<times> pdev" where
  "poll_write uc buf d =
     (let count = length buf; len = (if count < LEN_MSG then count else LEN_MSG);
          b = (blit (pbuf d) 0 (from_user uc 0 (take len buf)))[len := NUL] in
      if len = 0 then (crash OutOfBounds, d)
      else (Inr len, d\<lparr>pbuf := (if b ! (len - 1) \<noteq> NL then strcat_nl b else b), roff := 0\<rparr>))"

datatype poll_flag = POLLOUT | POLLWRNORM | POLLIN | POLLRDNORM

text \<open>\<open>poll\<close> sleeps up to the timeout; \<open>wake\<close> as above.\<close>

definition poll :: "(pdev \<Rightarrow> pdev) \<Rightarrow> pdev \<Rightarrow> poll_flag set \<times> pdev" where
  "poll wake d = (let d' = wake d in
     ({POLLOUT, POLLWRNORM} \<union> (if roff d' \<le> strlen (pbuf d') then {POLLIN, POLLRDNORM} else {}), d'))"

definition poll_init :: "int \<Rightarrow> bool \<Rightarrow> int \<times> bool" where
  "poll_init ret registered = (ret, if ret = 0 then True else registered)"

definition poll_cleanup :: "bool \<Rightarrow> bool" where
  "poll_cleanup registered = False"

section \<open>Invariant\<close>

definition poll_inv :: "pdev \<Rightarrow> bool" where
  "poll_inv d \<longleftrightarrow> length (pbuf d) = LEN_MSG + 2 \<and> strlen (pbuf d) \<le> LEN_MSG + 1
     \<and> roff d \<le> strlen (pbuf d) + 1"

lemma devblock_inv: "poll_inv devblock"
  by (simp add: poll_inv_def devblock_def LEN_MSG_def strlen_def)

lemma poll_read_data_inv:
  assumes "poll_inv d" "roff d \<le> strlen (pbuf d)"
  shows "poll_inv (snd (snd (poll_read_data uc count d)))"
    and "defined (fst (poll_read_data uc count d))"
proof -
  have "strlen (pbuf d) < length (pbuf d)" using assms(1) by (simp add: poll_inv_def)
  then show "poll_inv (snd (snd (poll_read_data uc count d)))"
    "defined (fst (poll_read_data uc count d))"
    using assms by (auto simp: poll_read_data_def poll_inv_def Let_def)
qed

lemma strlen_lt: "NUL \<in> set (take n b) \<Longrightarrow> n \<le> length b \<Longrightarrow> strlen b < n"
proof (induction b arbitrary: n)
  case (Cons a b)
  then show ?case by (cases n) (auto simp: strlen_def)
qed simp

lemma strlen_terminated:
  assumes "len < length b"
  shows "strlen (b[len := NUL]) \<le> len"
proof -
  have "NUL \<in> set (take (Suc len) (b[len := NUL]))"
    using assms by (simp add: take_Suc_conv_app_nth)
  then show ?thesis using strlen_lt [of "Suc len" "b[len := NUL]"] assms by simp
qed

lemma strcat_nl:
  assumes "strlen b + 2 \<le> length b"
  shows "cstr (strcat_nl b) = cstr b @ [NL]" "length (strcat_nl b) = length b"
proof -
  have "strcat_nl b = (cstr b @ [NL]) @ NUL # drop (strlen b + 2) b"
    by (simp add: strcat_nl_def blit_def cstr_eq_take)
  moreover have "NUL \<notin> set (cstr b @ [NL])" using cstr_noNUL [of b] by simp
  ultimately show "cstr (strcat_nl b) = cstr b @ [NL]" by (metis cstr_terminated)
  show "length (strcat_nl b) = length b" using assms by (simp add: strcat_nl_def)
qed

text \<open>The message a write leaves in the buffer: up to \<open>LEN_MSG\<close> bytes, newline-terminated.\<close>

definition with_nl :: "char list \<Rightarrow> char list" where
  "with_nl m = (if last m = NL then m else m @ [NL])"

lemma poll_write_ok:
  assumes "poll_inv d" "buf \<noteq> []" "NUL \<notin> set buf" "poll_write copy_ok buf d = (r, d')"
  shows "r = Inr (min (length buf) LEN_MSG)" "roff d' = 0" "poll_inv d'"
    and "cstr (pbuf d') = with_nl (take LEN_MSG buf)"
proof -
  define len where "len = (if length buf < LEN_MSG then length buf else LEN_MSG)"
  define b where "b = (blit (pbuf d) 0 (take len buf))[len := NUL]"
  have len: "len \<noteq> 0" "len \<le> LEN_MSG" "take len buf = take LEN_MSG buf"
    "len = min (length buf) LEN_MSG" "len \<le> length buf"
    using assms(2) by (auto simp: len_def LEN_MSG_def)
  have b: "length b = LEN_MSG + 2" "take len b = take LEN_MSG buf"
    using assms(1) len by (simp_all add: b_def poll_inv_def blit_def)
  have nth: "b ! (len - 1) = last (take LEN_MSG buf)"
    using b len nth_last_take [of len b] by simp
  have c: "cstr b = take LEN_MSG buf"
  proof -
    let ?b = "blit (pbuf d) 0 (take len buf)"
    have l: "length ?b = LEN_MSG + 2" "take len ?b = take LEN_MSG buf"
      using assms(1) len by (simp_all add: poll_inv_def blit_def)
    have "NUL \<notin> set (take LEN_MSG buf)" using assms(3) by (auto dest: in_set_takeD)
    then show ?thesis using cstr_update [of len ?b] l len(2) by (simp add: b_def)
  qed
  then have s: "strlen b + 2 \<le> length b" using b len by (simp add: strlen_def)
  have eq: "r = Inr len" "d' = d\<lparr>pbuf := (if b ! (len - 1) \<noteq> NL then strcat_nl b else b), roff := 0\<rparr>"
    using assms(4) len(1) unfolding poll_write_def len_def [symmetric] Let_def
    by (auto simp: b_def)
  show "r = Inr (min (length buf) LEN_MSG)" "roff d' = 0" using eq len by simp_all
  show m: "cstr (pbuf d') = with_nl (take LEN_MSG buf)"
  proof (cases "last (take LEN_MSG buf) = NL")
    case True
    then show ?thesis using eq(2) nth c by (simp add: with_nl_def)
  next
    case False
    then show ?thesis using eq(2) nth c strcat_nl(1) [OF s] by (simp add: with_nl_def)
  qed
  have "strlen (pbuf d') \<le> LEN_MSG + 1" using m by (auto simp: strlen_def with_nl_def)
  then show "poll_inv d'" using eq strcat_nl [OF s] b by (simp add: poll_inv_def)
qed

section \<open>Reading a message\<close>

text \<open>A non-blocking reader.\<close>

definition poll_get :: "nat \<Rightarrow> pdev \<Rightarrow> char list \<times> pdev" where
  "poll_get count d = (case poll_read copy_ok id True count d of (r, out, d') \<Rightarrow> (out, d'))"

definition unread :: "pdev \<Rightarrow> char list" where
  "unread d = drop (roff d) (cstr (pbuf d))"

definition at_eof :: "pdev \<Rightarrow> pdev" where
  "at_eof d = (if roff d \<le> strlen (pbuf d) then d\<lparr>roff := strlen (pbuf d) + 1\<rparr> else d)"

lemma chunk_unread:
  "off + n \<le> strlen b \<Longrightarrow> chunk off n b = take n (drop off (cstr b))"
  by (subst cstr_eq_take) (simp add: chunk_def drop_take)

lemma unread_empty: "unread d = [] \<longleftrightarrow> strlen (pbuf d) \<le> roff d"
  by (simp add: unread_def strlen_def)

lemma poll_get_data:
  assumes "unread d \<noteq> []" "0 < n"
  shows "poll_get n d = (take n (unread d), d\<lparr>roff := roff d + min n (strlen (pbuf d) - roff d)\<rparr>)"
proof -
  have l: "roff d < strlen (pbuf d)" using assms(1) by (simp add: unread_empty)
  then have "\<not> length (pbuf d) < roff d + min n (strlen (pbuf d) - roff d)"
    using strlen_le [of "pbuf d"] by linarith
  moreover have "chunk (roff d) (min n (strlen (pbuf d) - roff d)) (pbuf d) = take n (unread d)"
    using l by (subst chunk_unread) (auto simp: unread_def strlen_def min_def)
  ultimately show ?thesis
    using l by (auto simp: poll_get_def poll_read_def poll_read_data_def Let_def min_def)
qed

lemma unread_advance: "unread (d\<lparr>roff := roff d + k\<rparr>) = drop k (unread d)"
  by (simp add: unread_def add.commute)

lemma take_drop_min: "take n u @ drop (min n (length u)) u = u"
  by (simp add: min_def)

lemma length_unread: "length (unread d) = strlen (pbuf d) - roff d"
  by (simp add: unread_def strlen_def)

interpretation poll_rd: eof_reader unread poll_get "\<lambda>n _. 0 < n" at_eof
proof unfold_locales
  fix n :: nat and d :: pdev
  assume n: "0 < n"
  show "unread d \<noteq> [] \<Longrightarrow> fst (poll_get n d) \<noteq> []
      \<and> fst (poll_get n d) @ unread (snd (poll_get n d)) = unread d"
    using n take_drop_min [of n "unread d"]
    by (simp add: poll_get_data unread_advance length_unread)
  show "unread d \<noteq> [] \<Longrightarrow> at_eof (snd (poll_get n d)) = at_eof d"
    using n by (auto simp: poll_get_data at_eof_def unread_empty)
  show "unread d = [] \<Longrightarrow> poll_get n d = ([], at_eof d)"
    by (auto simp: unread_empty poll_get_def poll_read_def poll_read_data_def at_eof_def)
qed (simp add: )

section \<open>Options and times of the test programs (user.h)\<close>

record parm =
  blk :: int
  vis :: int
  mlt :: int

text \<open>\<open>getopt\<close> with the option string \<open>bvm\<close> delivers the option letters one by one, and
  \<open>'?'\<close> for anything else; \<open>nrest\<close> is the number of remaining arguments and \<open>arg\<close> the
  value \<open>atoi\<close> gives the first of them. None is the exit through \<open>ERR\<close>.\<close>

fun parm_opts :: "char list \<Rightarrow> parm \<Rightarrow> parm option" where
  "parm_opts [] p = Some p"
| "parm_opts (c # cs) p =
     (if c = CHR ''b'' then parm_opts cs (p\<lparr>blk := 1\<rparr>)
      else if c = CHR ''m'' then parm_opts cs (p\<lparr>mlt := 1\<rparr>)
      else if c = CHR ''v'' then parm_opts cs (p\<lparr>vis := vis p + 1\<rparr>)
      else None)"

definition parms :: "char list \<Rightarrow> int \<Rightarrow> int \<Rightarrow> int \<Rightarrow> parm option" where
  "parms opts nrest arg par =
     (case parm_opts opts \<lparr>blk = 0, vis = 0, mlt = 0\<rparr> of
        None \<Rightarrow> None
      | Some p \<Rightarrow>
          if par \<noteq> 0 \<and> nrest \<noteq> \<bar>par\<bar> then None
          else if par < 0 \<and> arg \<le> 0 then None
          else Some p)"

text \<open>\<open>sprintf\<close>'s \<open>%02d\<close> and \<open>%03d\<close>.\<close>

definition pad0 :: "nat \<Rightarrow> int \<Rightarrow> char list" where
  "pad0 w i = (if i < 0
     then CHR ''-'' # replicate (w - 1 - length (show_nat (nat (- i)))) (CHR ''0'') @ show_nat (nat (- i))
     else replicate (w - length (show_nat (nat i))) (CHR ''0'') @ show_nat (nat i))"

definition cmod :: "int \<Rightarrow> int \<Rightarrow> int" where
  "cmod a b = a - cdiv a b * b"

definition interval_msec :: "int \<times> int \<Rightarrow> int \<times> int \<Rightarrow> int" where
  "interval_msec b a =
     (let msec = (fst a - fst b) * 1000 + cdiv (snd a - snd b) 1000 in
      if cmod (snd a - snd b) 1000 \<ge> 500 then msec + 1 else msec)"

definition interval :: "int \<times> int \<Rightarrow> int \<times> int \<Rightarrow> char list" where
  "interval b a = (let msec = interval_msec b a in
     pad0 2 (cdiv msec 1000) @ '':'' @ pad0 3 (cmod msec 1000))"

lemma cdiv_bounds: "0 < b \<Longrightarrow> \<bar>a - cdiv a b * b\<bar> < b"
proof (cases "0 \<le> a")
  case True
  assume "0 < b"
  then show ?thesis using True cdiv_nonneg [of a b]
    by (simp add: minus_div_mult_eq_mod)
next
  case False
  assume b: "0 < b"
  have "cdiv a b = - ((- a) div b)" using cdiv_neg [of "- a" b] cdiv_nonneg [of "- a" b] False b by simp
  then have "a - cdiv a b * b = - ((- a) - (- a) div b * b)" by simp
  then show ?thesis using b by (simp add: minus_div_mult_eq_mod)
qed

section \<open>Properties\<close>

text \<open>A message written to the device is read back completely: after a write a
  non-blocking reader with any positive block size gets the bytes written (at most 160), with
  a newline added if there was none, then end of file; after that the device has no data.\<close>

theorem poll_message_roundtrip:
  assumes "poll_inv d" "buf \<noteq> []" "NUL \<notin> set buf" "0 < n"
    and "poll_write copy_ok buf d = (r, d')"
  shows "cat poll_get (LEN_MSG + 2) n d'
      = Some (with_nl (take LEN_MSG buf), d'\<lparr>roff := length (with_nl (take LEN_MSG buf)) + 1\<rparr>)"
proof -
  note w = poll_write_ok [OF assms(1-3,5)]
  have u: "unread d' = with_nl (take LEN_MSG buf)" using w by (simp add: unread_def)
  moreover have "length (with_nl (take LEN_MSG buf)) < LEN_MSG + 2"
    by (auto simp: with_nl_def)
  ultimately have "cat poll_get (LEN_MSG + 2) n d' = Some (unread d', at_eof d')"
    by (intro poll_rd.cat_complete) (simp_all add: assms(4))
  then show ?thesis using u w by (simp add: at_eof_def strlen_def)
qed

theorem poll_message_roundtrip_witness:
  "\<exists>d'. cat poll_get (LEN_MSG + 2) 2 d' = Some (''abc'' @ [NL], d'\<lparr>roff := 5\<rparr>)"
proof -
  obtain r d' where w: "poll_write copy_ok ''abc'' devblock = (r, d')" by fastforce
  show ?thesis
    using poll_message_roundtrip [OF devblock_inv _ _ _ w, of 2]
    by (intro exI [of _ d']) (simp add: LEN_MSG_def with_nl_def)
qed

text \<open>\<open>poll\<close> reports the device readable exactly when a non-blocking read would not be
  refused with \<open>-EAGAIN\<close>, and always reports it writable.\<close>

theorem poll_readiness:
  "poll wake d = (fl, d') \<Longrightarrow>
    (POLLIN \<in> fl \<longleftrightarrow> fst (poll_read uc id True n d') \<noteq> fail EAGAIN) \<and> POLLOUT \<in> fl"
  by (auto simp: poll_def poll_read_def poll_read_data_def Let_def split: if_splits)

theorem poll_readiness_witness:
  "\<exists>fl d'. poll id devblock = (fl, d') \<and> (POLLIN \<in> fl \<longleftrightarrow>
     fst (poll_read copy_ok id True 1 d') \<noteq> fail EAGAIN)"
proof -
  obtain fl d' where p: "poll id devblock = (fl, d')" by fastforce
  show ?thesis using p poll_readiness [OF p, of copy_ok 1] by blast
qed

text \<open>The reads and writes of the device keep its invariant and never leave the buffer,
  as long as a sleeping reader is woken by a write and no write is empty.\<close>

theorem poll_safe:
  assumes "poll_inv d" "\<And>x. poll_inv x \<Longrightarrow> poll_inv (wake x) \<and> roff (wake x) \<le> strlen (pbuf (wake x))"
  shows "defined (fst (poll_read uc wake nb n d)) \<and> poll_inv (snd (snd (poll_read uc wake nb n d)))"
proof (cases "strlen (pbuf d) < roff d")
  case True
  then show ?thesis
    using assms poll_read_data_inv [of "wake d" uc n] by (simp add: poll_read_def)
next
  case False
  then show ?thesis using assms(1) poll_read_data_inv [of d uc n] by (simp add: poll_read_def)
qed

theorem poll_safe_witness:
  "defined (fst (poll_read copy_ok (\<lambda>_. devblock) False 200 (devblock\<lparr>roff := 22\<rparr>)))"
proof -
  have s: "strlen (pbuf devblock) = 21" by (simp add: devblock_def strlen_def)
  have i: "poll_inv (devblock\<lparr>roff := 22\<rparr>)"
    using devblock_inv s by (simp add: poll_inv_def)
  have "poll_inv ((\<lambda>_. devblock) x) \<and> roff ((\<lambda>_. devblock) x) \<le> strlen (pbuf ((\<lambda>_. devblock) x))" for x :: pdev
    using devblock_inv by (simp add: devblock_def)
  then show ?thesis using poll_safe [OF i, of "\<lambda>_. devblock" copy_ok False 200] by blast
qed

text \<open>A sleep ended by a signal instead of a write lets the read run past the message, here
  out of the buffer.\<close>

lemma poll_signal_overread:
  "fst (poll_read copy_ok id False 200 (devblock\<lparr>roff := 22\<rparr>)) = crash OutOfBounds"
  by (simp add: poll_read_def poll_read_data_def devblock_def strlen_def LEN_MSG_def)

lemma poll_empty_write: "poll_write uc [] d = (crash OutOfBounds, d)"
  by (simp add: poll_write_def LEN_MSG_def)

end
