(* ===== verification/Confm.thy ===== *)
theory Confm
  imports Queue_Device "HOL-Library.Multiset"
begin

text \<open>
  \<open>Tasks/+TASKS/confm/confm.c\<close>: a module that reads a configuration file and registers one
  misc device per \<open>chan\<close> line, each with its own block queue (the queue code is that of
  \<open>queuel.c\<close> with the queue as an argument, so its model is used here).
\<close>

section \<open>Channels\<close>

record chanel_t =
  cminor :: int
  cname :: "char list"
  cqueue :: queue

text \<open>\<open>misc\<close> are the minors registered with the kernel, \<open>lost\<close> counts the queue blocks that
  no pointer reaches any more.\<close>

record conf =
  dev_list :: "chanel_t list"
  misc :: "int multiset"
  lost :: nat

text \<open>\<open>conf_open\<close> looks the channel up by minor; with \<open>debug\<close> its log line reads the last
  channel inspected, which is a null pointer if there is none.\<close>

fun find_chan :: "int \<Rightarrow> nat \<Rightarrow> chanel_t list \<Rightarrow> nat option" where
  "find_chan minor i [] = None"
| "find_chan minor i (c # cs) = (if cminor c = minor then Some i else find_chan minor (Suc i) cs)"

definition conf_open :: "bool \<Rightarrow> int \<Rightarrow> conf \<Rightarrow> nat res \<times> nat option" where
  "conf_open debug minor c =
     (if debug \<and> dev_list c = [] then (crash NullDeref, None)
      else (Inr 0, find_chan minor 0 (dev_list c)))"

text \<open>Reads and writes go to the queue \<open>private_data\<close> points to.\<close>

definition set_queue :: "nat \<Rightarrow> queue \<Rightarrow> conf \<Rightarrow> conf" where
  "set_queue i q c = c\<lparr>dev_list := (dev_list c)[i := (dev_list c ! i)\<lparr>cqueue := q\<rparr>]\<rparr>"

definition conf_read :: "ucopy \<Rightarrow> nat \<Rightarrow> nat \<Rightarrow> nat option \<Rightarrow> conf
    \<Rightarrow> nat res \<times> char list \<times> nat \<times> conf" where
  "conf_read uc cnt pos pd c = (case pd of
     None \<Rightarrow> (crash NullDeref, [], pos, c)
   | Some i \<Rightarrow> (case queue_read uc cnt pos (cqueue (dev_list c ! i)) of
       (r, out, pos', q') \<Rightarrow> (r, out, pos', set_queue i q' c)))"

definition conf_write :: "ucopy \<Rightarrow> allocator \<Rightarrow> char list \<Rightarrow> nat \<Rightarrow> nat option \<Rightarrow> conf
    \<Rightarrow> nat res \<times> nat \<times> conf" where
  "conf_write uc vm buf pos pd c = (case pd of
     None \<Rightarrow> (crash NullDeref, pos, c)
   | Some i \<Rightarrow> (case queue_write uc vm buf pos (cqueue (dev_list c ! i)) of
       (r, pos', q') \<Rightarrow> (r, pos', set_queue i q' c)))"

section \<open>Creating and removing channels\<close>

text \<open>The outcomes of one \<open>next_dev\<close>: its two allocations, \<open>misc_register\<close>'s code and the
  minor it assigns.\<close>

record chan_env =
  elem_ok :: bool
  name_ok :: bool
  reg_ret :: int
  reg_minor :: int

definition next_dev :: "chan_env \<Rightarrow> char list option \<Rightarrow> conf \<Rightarrow> nat res \<times> conf" where
  "next_dev e name c =
     (if \<not> elem_ok e then (fail ENOMEM, c)
      else case name of
        None \<Rightarrow> (crash NullDeref, c)
      | Some nm \<Rightarrow>
          if \<not> name_ok e then (fail ENOMEM, c)
          else if reg_ret e \<noteq> 0 then (fail (Kern (reg_ret e)), c)
          else (Inr 0, c\<lparr>
            dev_list := dev_list c @
              [\<lparr>cminor = reg_minor e, cname = nm, cqueue = \<lparr>blocks = [], nalloc = 0\<rparr>\<rparr>],
            misc := add_mset (reg_minor e) (misc c)\<rparr>))"

definition erase_dev :: "conf \<Rightarrow> conf" where
  "erase_dev c = (case dev_list c of
     [] \<Rightarrow> c
   | h # t \<Rightarrow> c\<lparr>dev_list := t, misc := misc c - {#cminor h#},
                lost := lost c + length (blocks (cqueue h))\<rparr>)"

function erase_devs :: "conf \<Rightarrow> conf" where
  "erase_devs c = (if dev_list c = [] then c else erase_devs (erase_dev c))"
  by pat_completeness auto
termination
  by (relation "measure (\<lambda>c. length (dev_list c))") (auto simp: erase_dev_def split: list.splits)

declare erase_devs.simps [simp del]

section \<open>Parsing the configuration\<close>

definition delims :: "char list" where
  "delims = [CHR '' '', TAB, CHR ''='']"

text \<open>\<open>strsep\<close> of the kernel's string library: the token up to the first delimiter, and the
  rest after it or NULL.\<close>

definition strsep :: "char list \<Rightarrow> char list \<times> char list option" where
  "strsep s = (takeWhile (\<lambda>c. c \<notin> set delims) s,
     case dropWhile (\<lambda>c. c \<notin> set delims) s of [] \<Rightarrow> None | _ # r \<Rightarrow> Some r)"

lemma strsep_shorter: "strsep s = (t, Some r) \<Longrightarrow> length r < length s"
proof -
  assume "strsep s = (t, Some r)"
  then obtain d where "dropWhile (\<lambda>c. c \<notin> set delims) s = d # r"
    by (auto simp: strsep_def split: list.splits)
  then have "Suc (length r) \<le> length s"
    by (metis length_Cons length_dropWhile_le)
  then show ?thesis by simp
qed

text \<open>\<open>do token = strsep( &b, ... ) while( b != NULL )\<close>\<close>

function last_token :: "char list option \<Rightarrow> char list option" where
  "last_token None = None"
| "last_token (Some s) = (case strsep s of (t, None) \<Rightarrow> Some t | (t, Some r) \<Rightarrow> last_token (Some r))"
  by pat_completeness auto
termination
  by (relation "measure (\<lambda>b. case b of None \<Rightarrow> 0 | Some s \<Rightarrow> length s)")
    (auto dest: strsep_shorter [OF sym])

declare last_token.simps(2) [simp del]

lemma rest_shorter:
  assumes "NL \<in> set (dropWhile (\<lambda>x. x = CHR '' '') b)"
  shows "length (tl (dropWhile (\<lambda>x. x \<noteq> NL) (dropWhile (\<lambda>x. x = CHR '' '') b))) < length b"
proof -
  let ?b1 = "dropWhile (\<lambda>x. x = CHR '' '') b"
  have "dropWhile (\<lambda>x. x \<noteq> NL) ?b1 \<noteq> []" using assms by (auto simp: dropWhile_eq_Nil_conv)
  then have "length (tl (dropWhile (\<lambda>x. x \<noteq> NL) ?b1)) < length (dropWhile (\<lambda>x. x \<noteq> NL) ?b1)"
    by simp
  also have "\<dots> \<le> length ?b1" by (rule length_dropWhile_le)
  also have "\<dots> \<le> length b" by (rule length_dropWhile_le)
  finally show ?thesis .
qed

text \<open>The line loop of \<open>dev_init\<close>; \<open>e k\<close> are the outcomes of the \<open>k\<close>-th registration.\<close>

function parse_lines :: "(nat \<Rightarrow> chan_env) \<Rightarrow> nat \<Rightarrow> char list \<Rightarrow> conf \<Rightarrow> nat res \<times> conf" where
  "parse_lines e k b c =
     (let b1 = dropWhile (\<lambda>x. x = CHR '' '') b in
      if NL \<notin> set b1 then (Inr 0, c)
      else
        (let line = takeWhile (\<lambda>x. x \<noteq> NL) b1; rest = tl (dropWhile (\<lambda>x. x \<noteq> NL) b1) in
         if line = [] \<or> hd line = CHR ''#'' then parse_lines e k rest c
         else
           (case strsep line of (token, b2) \<Rightarrow>
              if token \<noteq> ''chan'' then (fail EINVAL, erase_devs c)
              else
                (case next_dev (e k) (last_token b2) c of
                   (Inl (Errno x), c') \<Rightarrow> (fail x, erase_devs c')
                 | (Inl (Fault x), c') \<Rightarrow> (crash x, c')
                 | (Inr _, c') \<Rightarrow> parse_lines e (Suc k) rest c'))))"
  by pat_completeness auto
termination
  by (relation "measure (\<lambda>(e, k, b, c). length b)") (auto dest: rest_shorter)

declare parse_lines.simps [simp del]

text \<open>
  \<open>dev_init\<close>: the name of the file is copied into the buffer, the file is opened and read
  as a whole. The count \<open>n\<close> is unsigned, so the test \<open>n < 0\<close> never holds and an error code
  of \<open>kernel_read\<close> becomes an index far outside the buffer.
\<close>

definition BUF_LEN :: nat where
  "BUF_LEN = 2048"

datatype read_result = ReadError | ReadData "char list"

definition conf_init :: "char list option \<Rightarrow> bool \<Rightarrow> read_result \<Rightarrow> (nat \<Rightarrow> chan_env) \<Rightarrow> conf
    \<Rightarrow> nat res \<times> conf" where
  "conf_init file open_ok rd e c =
     (if (case file of None \<Rightarrow> False | Some f \<Rightarrow> BUF_LEN < length f) then (crash OutOfBounds, c)
      else if \<not> open_ok then (fail ENXIO, c)
      else case rd of
        ReadError \<Rightarrow> (crash OutOfBounds, c)
      | ReadData d \<Rightarrow> parse_lines e 0 (cstr (take BUF_LEN d)) c)"

definition conf_exit :: "conf \<Rightarrow> conf" where
  "conf_exit c = erase_devs c"

section \<open>What the module holds\<close>

text \<open>The minors registered are those of the channels, beyond the ones (\<open>m0\<close>) other modules
  hold; every queue satisfies its invariant.\<close>

definition conf_inv :: "int multiset \<Rightarrow> conf \<Rightarrow> bool" where
  "conf_inv m0 c \<longleftrightarrow> misc c = m0 + mset (map cminor (dev_list c))
     \<and> (\<forall>x \<in> set (dev_list c). queue_inv (cqueue x))"

lemma erase_dev_inv: "conf_inv m0 c \<Longrightarrow> conf_inv m0 (erase_dev c)"
  by (auto simp: conf_inv_def erase_dev_def split: list.splits)

lemma erase_devs_inv: "conf_inv m0 c \<Longrightarrow> conf_inv m0 (erase_devs c)"
proof (induction c rule: erase_devs.induct)
  case (1 c)
  then show ?case by (cases "dev_list c = []") (simp_all add: erase_devs.simps [of c] erase_dev_inv)
qed

lemma erase_devs_empty: "dev_list (erase_devs c) = []"
proof (induction c rule: erase_devs.induct)
  case (1 c)
  then show ?case by (cases "dev_list c = []") (simp_all add: erase_devs.simps [of c])
qed

lemma erase_devs_lost:
  "lost (erase_devs c) = lost c + sum_list (map (\<lambda>x. length (blocks (cqueue x))) (dev_list c))"
proof (induction c rule: erase_devs.induct)
  case (1 c)
  show ?case
  proof (cases "dev_list c")
    case Nil
    then show ?thesis by (simp add: erase_devs.simps [of c])
  next
    case (Cons h t)
    then have "lost (erase_devs (erase_dev c))
        = lost (erase_dev c) + sum_list (map (\<lambda>x. length (blocks (cqueue x))) (dev_list (erase_dev c)))"
      using 1 by simp
    then show ?thesis using Cons by (simp add: erase_devs.simps [of c] erase_dev_def)
  qed
qed

lemma next_dev_inv: "conf_inv m0 c \<Longrightarrow> conf_inv m0 (snd (next_dev e nm c))"
  by (auto simp: next_dev_def conf_inv_def queue_inv_def split: option.splits)

lemma next_dev_Inr: "next_dev e nm c = (Inl x, c') \<Longrightarrow> c' = c"
  by (auto simp: next_dev_def split: option.splits if_splits)

lemma parse_lines_inv:
  "conf_inv m0 c \<Longrightarrow> parse_lines e k b c = (r, c') \<Longrightarrow>
    conf_inv m0 c' \<and> (\<forall>x. r = fail x \<longrightarrow> dev_list c' = [])"
proof (induction e k b c rule: parse_lines.induct)
  case (1 e k b c)
  define b1 where "b1 = dropWhile (\<lambda>x. x = CHR '' '') b"
  define line where "line = takeWhile (\<lambda>x. x \<noteq> NL) b1"
  define rest where "rest = tl (dropWhile (\<lambda>x. x \<noteq> NL) b1)"
  obtain token b2 where sp: "strsep line = (token, b2)" by fastforce
  obtain r1 c1 where nd: "next_dev (e k) (last_token b2) c = (r1, c1)" by fastforce
  have c1: "conf_inv m0 c1" using next_dev_inv [OF "1.prems"(1)] nd by (metis snd_conv)
  note eq = parse_lines.simps [of e k b c, unfolded Let_def, folded b1_def, folded line_def rest_def,
      unfolded sp prod.case nd]
  consider "NL \<notin> set b1" | "NL \<in> set b1" "line = [] \<or> hd line = CHR ''#''"
    | "NL \<in> set b1" "\<not> (line = [] \<or> hd line = CHR ''#'')" "token \<noteq> ''chan''"
    | "NL \<in> set b1" "\<not> (line = [] \<or> hd line = CHR ''#'')" "token = ''chan''" by blast
  then show ?case
  proof cases
    case 1
    then show ?thesis using "1.prems" eq by auto
  next
    case 2
    then show ?thesis
      using "1.IH"(1) [OF b1_def _ line_def rest_def] "1.prems" eq by (simp split: if_splits)
  next
    case 3
    then show ?thesis using "1.prems" eq erase_devs_inv erase_devs_empty by (auto split: if_splits)
  next
    case 4
    show ?thesis
    proof (cases r1)
      case (Inl x)
      then show ?thesis
        using 4 "1.prems" eq c1 erase_devs_inv erase_devs_empty by (cases x) (auto split: if_splits)
    next
      case (Inr x)
      then show ?thesis
        using "1.IH"(2) [OF b1_def _ line_def rest_def _ sp [symmetric] _ nd [symmetric] Inr]
          4 "1.prems"(2) eq c1 by simp
    qed
  qed
qed

section \<open>Well-formed configurations\<close>

text \<open>The lines of a configuration file: a channel (indented by \<open>i\<close> blanks, its key and name
  separated by any non-empty run of separators), a comment, an empty line.\<close>

datatype cfg_line = Chan nat "char list" "char list" | Comment nat "char list" | Blank nat

fun line_ok :: "cfg_line \<Rightarrow> bool" where
  "line_ok (Chan i sep nm) \<longleftrightarrow> sep \<noteq> [] \<and> set sep \<subseteq> set delims
     \<and> set nm \<inter> (set delims \<union> {NL, NUL}) = {}"
| "line_ok (Comment i t) \<longleftrightarrow> NL \<notin> set t \<and> NUL \<notin> set t"
| "line_ok (Blank i) \<longleftrightarrow> True"

fun show_line :: "cfg_line \<Rightarrow> char list" where
  "show_line (Chan i sep nm) = replicate i (CHR '' '') @ ''chan'' @ sep @ nm @ [NL]"
| "show_line (Comment i t) = replicate i (CHR '' '') @ ''#'' @ t @ [NL]"
| "show_line (Blank i) = replicate i (CHR '' '') @ [NL]"

fun cfg_names :: "cfg_line list \<Rightarrow> char list list" where
  "cfg_names [] = []"
| "cfg_names (Chan i sep nm # ls) = nm # cfg_names ls"
| "cfg_names (l # ls) = cfg_names ls"

definition show_cfg :: "cfg_line list \<Rightarrow> char list" where
  "show_cfg ls = concat (map show_line ls)"

lemma strsep_word: "set w \<inter> set delims = {} \<Longrightarrow> strsep w = (w, None)"
proof -
  assume "set w \<inter> set delims = {}"
  then have "takeWhile (\<lambda>c. c \<notin> set delims) w = w" "dropWhile (\<lambda>c. c \<notin> set delims) w = []"
    by (auto simp: takeWhile_eq_all_conv dropWhile_eq_Nil_conv)
  then show ?thesis by (simp only: strsep_def list.case)
qed

lemma strsep_token:
  assumes "set w \<inter> set delims = {}" "d \<in> set delims"
  shows "strsep (w @ d # r) = (w, Some r)"
proof -
  have "takeWhile (\<lambda>c. c \<notin> set delims) (w @ d # r) = w"
    "dropWhile (\<lambda>c. c \<notin> set delims) (w @ d # r) = d # r"
    using assms by (auto simp: takeWhile_append dropWhile_append)
  then show ?thesis unfolding strsep_def by simp
qed

lemma last_token_word:
  "set sep \<subseteq> set delims \<Longrightarrow> set nm \<inter> set delims = {} \<Longrightarrow> last_token (Some (sep @ nm)) = Some nm"
proof (induction sep)
  case Nil
  then show ?case by (simp add: strsep_word last_token.simps(2) [of nm])
next
  case (Cons d sep)
  then have "strsep ((d # sep) @ nm) = ([], Some (sep @ nm))"
    using strsep_token [of "[]" d "sep @ nm"] by simp
  then show ?case using Cons by (simp add: last_token.simps(2) [of "(d # sep) @ nm", simplified])
qed

lemma parse_line:
  assumes "NL \<notin> set line" "line = [] \<or> hd line \<noteq> CHR '' ''"
  shows "parse_lines e k (replicate i (CHR '' '') @ line @ NL # rest) c =
    (if line = [] \<or> hd line = CHR ''#'' then parse_lines e k rest c
     else (case strsep line of (token, b2) \<Rightarrow>
       if token \<noteq> ''chan'' then (fail EINVAL, erase_devs c)
       else (case next_dev (e k) (last_token b2) c of
               (Inl (Errno x), c') \<Rightarrow> (fail x, erase_devs c')
             | (Inl (Fault x), c') \<Rightarrow> (crash x, c')
             | (Inr _, c') \<Rightarrow> parse_lines e (Suc k) rest c')))"
proof -
  have b1: "dropWhile (\<lambda>x. x = CHR '' '') (replicate i (CHR '' '') @ line @ NL # rest) = line @ NL # rest"
    using assms(2) by (cases line) (simp_all add: dropWhile_append)
  have tw: "takeWhile (\<lambda>x. x \<noteq> NL) (line @ NL # rest) = line"
    "dropWhile (\<lambda>x. x \<noteq> NL) (line @ NL # rest) = NL # rest"
    using assms(1) by (induction line) auto
  show ?thesis
    by (simp only: parse_lines.simps [of e k "replicate i (CHR '' '') @ line @ NL # rest"]
        Let_def b1 tw list.sel(3)) simp
qed

text \<open>The channel that the \<open>j\<close>-th registration makes of a name.\<close>

definition all_ok :: "(nat \<Rightarrow> chan_env) \<Rightarrow> bool" where
  "all_ok e \<longleftrightarrow> (\<forall>j. elem_ok (e j) \<and> name_ok (e j) \<and> reg_ret (e j) = 0)"

definition chan_of :: "(nat \<Rightarrow> chan_env) \<Rightarrow> nat \<times> char list \<Rightarrow> chanel_t" where
  "chan_of e = (\<lambda>(j, nm).
     \<lparr>cminor = reg_minor (e j), cname = nm, cqueue = \<lparr>blocks = [], nalloc = 0\<rparr>\<rparr>)"

lemma next_dev_ok: "all_ok e \<Longrightarrow> next_dev (e j) (Some nm) c = (Inr 0, c\<lparr>
    dev_list := dev_list c @ [chan_of e (j, nm)], misc := add_mset (reg_minor (e j)) (misc c)\<rparr>)"
  by (simp add: next_dev_def all_ok_def chan_of_def)

lemma parse_show_line:
  assumes "line_ok l" "all_ok e"
  shows "parse_lines e k (show_line l @ rest) c =
    (case l of Chan i sep nm \<Rightarrow> parse_lines e (Suc k) rest (snd (next_dev (e k) (Some nm) c))
     | _ \<Rightarrow> parse_lines e k rest c)"
proof (cases l)
  case (Chan i sep nm)
  then obtain d sep' where sep: "sep = d # sep'" using assms(1) by (cases sep) auto
  let ?line = "''chan'' @ d # sep' @ nm"
  have d: "d \<in> set delims" "set sep' \<subseteq> set delims" "set nm \<inter> set delims = {}"
    using assms(1) Chan sep by auto
  have nl: "NL \<notin> set ?line" using assms(1) Chan sep by (auto simp: delims_def)
  have t: "strsep ?line = (''chan'', Some (sep' @ nm))"
    by (rule strsep_token) (use d in \<open>auto simp: delims_def\<close>)
  have "parse_lines e k (replicate i (CHR '' '') @ ?line @ NL # rest) c
      = parse_lines e (Suc k) rest (snd (next_dev (e k) (Some nm) c))"
    by (subst parse_line [OF nl])
      (simp_all only: t prod.case last_token_word [OF d(2,3)] next_dev_ok [OF assms(2)], simp_all)
  then show ?thesis using Chan sep by simp
next
  case (Comment i t)
  then have nl: "NL \<notin> set (''#'' @ t)" using assms(1) by simp
  then show ?thesis using Comment parse_line [OF nl, of e k i rest c] by simp
next
  case (Blank i)
  then show ?thesis using parse_line [of "[]" e k i rest c] by simp
qed

lemma parse_cfg:
  "\<forall>l \<in> set ls. line_ok l \<Longrightarrow> all_ok e \<Longrightarrow>
    fst (parse_lines e k (show_cfg ls) c) = Inr 0
    \<and> dev_list (snd (parse_lines e k (show_cfg ls) c))
      = dev_list c @ map (chan_of e) (enumerate k (cfg_names ls))"
proof (induction ls arbitrary: k c)
  case Nil
  then show ?case by (simp add: show_cfg_def parse_lines.simps [of e k "[]" c])
next
  case (Cons l ls)
  have "parse_lines e k (show_cfg (l # ls)) c = parse_lines e k (show_line l @ show_cfg ls) c"
    by (simp add: show_cfg_def)
  also note parse_show_line [OF _ Cons.prems(2)]
  finally have st: "parse_lines e k (show_cfg (l # ls)) c =
    (case l of Chan i sep nm \<Rightarrow> parse_lines e (Suc k) (show_cfg ls) (snd (next_dev (e k) (Some nm) c))
     | _ \<Rightarrow> parse_lines e k (show_cfg ls) c)" using Cons.prems(1) by simp
  then show ?case
    using Cons.IH [OF _ Cons.prems(2)] Cons.prems(1)
    by (cases l) (simp_all add: next_dev_ok [OF Cons.prems(2)])
qed

lemma show_line_noNUL: "line_ok l \<Longrightarrow> NUL \<notin> set (show_line l)"
  by (cases l) (auto simp: delims_def)

section \<open>Correctness\<close>

lemma conf_init_data:
  "length d \<le> BUF_LEN \<Longrightarrow> conf_init None True (ReadData d) e c = parse_lines e 0 (cstr d) c"
  by (simp add: conf_init_def)

abbreviation ex_env :: "nat \<Rightarrow> chan_env" where
  "ex_env \<equiv> \<lambda>j. \<lparr>elem_ok = True, name_ok = True, reg_ret = 0, reg_minor = int j + 56\<rparr>"

definition conf0 :: "int multiset \<Rightarrow> conf" where
  "conf0 m0 = \<lparr>dev_list = [], misc = m0, lost = 0\<rparr>"

lemma conf0_inv [simp]: "conf_inv m0 (conf0 m0)"
  by (simp add: conf_inv_def conf0_def)

text \<open>C4: loading the module with a well-formed configuration file of at most BUF_LEN bytes
  registers exactly the devices the file names, in its order, whatever comments, blank lines,
  indentation and separators it contains, and unloading it gives every registration back.\<close>

theorem conf_init_registers:
  assumes "\<forall>l \<in> set ls. line_ok l" "length (show_cfg ls) \<le> BUF_LEN" "all_ok e"
    and "conf_init None True (ReadData (show_cfg ls)) e (conf0 m0) = (r, c)"
  shows "r = Inr 0 \<and> dev_list c = map (chan_of e) (enumerate 0 (cfg_names ls))
    \<and> map cname (dev_list c) = cfg_names ls
    \<and> dev_list (conf_exit c) = [] \<and> misc (conf_exit c) = m0"
proof -
  have "NUL \<notin> set (show_cfg ls)" using assms(1) show_line_noNUL by (auto simp: show_cfg_def)
  then have p: "parse_lines e 0 (show_cfg ls) (conf0 m0) = (r, c)"
    using assms(2,4) by (simp add: conf_init_def cstr_id)
  then have r: "r = Inr 0" and d: "dev_list c = map (chan_of e) (enumerate 0 (cfg_names ls))"
    using parse_cfg [OF assms(1,3), of 0 "conf0 m0"] by (simp_all add: conf0_def)
  have n: "map cname (dev_list c) = cfg_names ls"
    by (simp add: d chan_of_def comp_def split_beta map_snd_enumerate [unfolded comp_def])
  have i: "conf_inv m0 c" using parse_lines_inv [OF conf0_inv p] by simp
  have e: "dev_list (conf_exit c) = []" by (simp add: conf_exit_def erase_devs_empty)
  have "misc (conf_exit c) = m0"
    using erase_devs_inv [OF i] e by (simp add: conf_inv_def conf_exit_def)
  then show ?thesis using r d n e by blast
qed

theorem conf_init_registers_witness:
  "\<exists>c. dev_list c = map (chan_of ex_env)
      [(0, ''com1''), (1, ''com2'')]
    \<and> map cname (dev_list c) = [''com1'', ''com2''] \<and> misc (conf_exit c) = {#3#}"
proof -
  let ?ls = "[Comment 1 '' channels'', Chan 2 '' = '' ''com1'', Blank 3, Chan 0 [TAB] ''com2'']"
  obtain r c where c: "conf_init None True (ReadData (show_cfg ?ls)) ex_env (conf0 {#3#}) = (r, c)"
    by fastforce
  have ok: "\<forall>l \<in> set ?ls. line_ok l" by (simp add: delims_def)
  have len: "length (show_cfg ?ls) \<le> BUF_LEN" by (simp add: show_cfg_def BUF_LEN_def)
  have e: "all_ok ex_env" by (simp add: all_ok_def)
  show ?thesis using conf_init_registers [OF ok len e c] by (intro exI [of _ c]) (simp add: chan_of_def)
qed

text \<open>When \<open>dev_init\<close> returns an error code, whatever the file and whatever the kernel
  calls returned, no channel is left and the registered minors are those from before.\<close>

theorem conf_init_fails_clean:
  assumes "conf_init file opn rd e (conf0 m0) = (fail x, c)"
  shows "dev_list c = [] \<and> misc c = m0"
proof -
  have "c = conf0 m0 \<or> (\<exists>b. parse_lines e 0 b (conf0 m0) = (fail x, c))"
    using assms by (auto simp: conf_init_def split: if_splits read_result.splits)
  then show ?thesis
    using parse_lines_inv [OF conf0_inv, of e 0 _ m0 "fail x" c]
    by (auto simp: conf_inv_def) (simp_all add: conf0_def)
qed

theorem conf_init_fails_clean_witness:
  "conf_init None True (ReadData (''chan a'' @ [NL] @ ''chanel b'' @ [NL])) ex_env (conf0 {#3#})
    = (fail EINVAL, conf0 {#3#})"
proof -
  let ?d = "''chan a'' @ [NL] @ ''chanel b'' @ [NL]"
  have t: "strsep ''chan a'' = (''chan'', Some ''a'')" "strsep ''a'' = (''a'', None)"
    "strsep ''chanel b'' = (''chanel'', Some ''b'')" by code_simp+
  have "conf_init None True (ReadData ?d) ex_env (conf0 {#3#}) = parse_lines ex_env 0 ?d (conf0 {#3#})"
    by (simp add: conf_init_def BUF_LEN_def)
  also have "\<dots> = (fail EINVAL, erase_devs (snd (next_dev (ex_env 0) (Some ''a'') (conf0 {#3#}))))"
    using parse_line [of "''chan a''" ex_env 0 0 "''chanel b'' @ [NL]" "conf0 {#3#}"]
      parse_line [of "''chanel b''" ex_env 1 0 "[]"]
    by (simp add: t last_token.simps(2) [of "''a''"] next_dev_def)
  finally obtain c where c: "conf_init None True (ReadData ?d) ex_env (conf0 {#3#}) = (fail EINVAL, c)"
    and l: "lost c = 0"
    by (auto simp: erase_devs_lost next_dev_def conf0_def)
  from conf_init_fails_clean [OF c] l c show ?thesis by (simp add: conf0_def)
qed

text \<open>What goes wrong: a \<open>chan\<close> line without a name dereferences the null pointer that
  \<open>strsep\<close> returned; one that ends in a blank registers a device with the empty name; a failed
  read of the file is not noticed.\<close>

lemma conf_chan_without_name:
  "fst (conf_init None True (ReadData (''chan'' @ [NL]))
      ex_env (conf0 {#}))
    = crash NullDeref"
  by (subst conf_init_data, simp add: BUF_LEN_def, code_simp)

lemma conf_trailing_blank:
  "map cname (dev_list (snd (parse_lines ex_env 0 (''chan a '' @ [NL]) (conf0 m0)))) = [[]]"
proof -
  have t: "strsep ''chan a '' = (''chan'', Some ''a '')" "strsep ''a '' = (''a'', Some [])"
    "strsep [] = ([], None)" by code_simp+
  have "last_token (Some ''a '') = Some []"
    by (simp add: last_token.simps(2) [of "''a ''"] last_token.simps(2) [of "[]"] t)
  then show ?thesis
    using parse_line [of "''chan a ''" ex_env 0 0 "[]" "conf0 m0"]
    by (simp add: t next_dev_def conf0_def parse_lines.simps [of ex_env _ "[]"])
qed

lemma conf_read_error_unnoticed:
  "conf_init None True ReadError e c = (crash OutOfBounds, c)"
  by (simp add: conf_init_def)

text \<open>Every block still queued in a channel is lost when the module is unloaded.\<close>

lemma conf_exit_leaks:
  "lost (conf_exit c) = lost c + sum_list (map (\<lambda>x. length (blocks (cqueue x))) (dev_list c))"
  by (simp add: conf_exit_def erase_devs_lost)

end
