(* ===== verification/Asu.thy ===== *)
theory Asu
  imports Interfaces Decimal
begin

text \<open>
  \<open>Tasks/+TASKS/asu\<close>: a control loop whose plant (a value and a loop gain in percent) lives
  in the same process (\<open>locl.c\<close>), behind three nodes of /proc (\<open>modpasu.c\<close>) or of /sys
  (\<open>modsasu.c\<close>); \<open>kern.c\<close> reaches the nodes, \<open>cli.c\<close> runs the loop. \<open>simple_strtol\<close> (\<open>st\<close>)
  and the kernel's \<open>sscanf\<close> (\<open>ss\<close>) are parameters.
\<close>

section \<open>The plant\<close>

definition MAX_LEN :: nat where
  "MAX_LEN = 30"

record asu =
  pvalue :: int
  multy :: int

definition asu0 :: asu where
  "asu0 = \<lparr>pvalue = 0, multy = 100\<rparr>"

definition correct_value :: "int \<Rightarrow> asu \<Rightarrow> asu" where
  "correct_value x a = a\<lparr>pvalue := wrap_long (pvalue a + cdiv (wrap_long (x * multy a)) 100)\<rparr>"

text \<open>In the process itself (locl.c).\<close>

definition locl_set_value :: "int \<Rightarrow> asu \<Rightarrow> asu" where
  "locl_set_value v a = a\<lparr>pvalue := v\<rparr>"

definition locl_get_multy :: "asu \<Rightarrow> int" where
  "locl_get_multy a = wrap_int (multy a)"

definition locl_set_multy :: "int \<Rightarrow> asu \<Rightarrow> asu" where
  "locl_set_multy m a = a\<lparr>multy := m\<rparr>"

definition locl_do_step :: "int \<Rightarrow> asu \<Rightarrow> asu" where
  "locl_do_step step a = correct_value step a"

section \<open>Nodes of /proc (modpasu.c)\<close>

definition value_read :: "ucopy \<Rightarrow> nat \<Rightarrow> asu \<Rightarrow> nat res \<times> char list \<times> nat" where
  "value_read uc pos a =
     (if pos \<noteq> 0 then (Inr 0, [], pos)
      else (let m = show_int (pvalue a) @ [NL] in
        if uc 0 (length m) \<noteq> 0 then (fail EFAULT, to_user uc 0 m, pos)
        else (Inr (length m), m, length m)))"

definition multiply_read :: "ucopy \<Rightarrow> nat \<Rightarrow> asu \<Rightarrow> nat res \<times> char list \<times> nat" where
  "multiply_read uc pos a =
     (if pos \<noteq> 0 then (Inr 0, [], pos)
      else (let m = show_int (multy a) @ [NL] in
        if uc 0 (length m) \<noteq> 0 then (fail EFAULT, to_user uc 0 m, pos)
        else (Inr (length m), m, length m)))"

text \<open>What the three write methods share: the text of at most 29 bytes goes into a local
  buffer (\<open>stk\<close> is what it held), loses a final newline and must be a number as a whole. A
  write of no bytes looks at the byte before the buffer.\<close>

definition recv_number :: "ucopy \<Rightarrow> strtol \<Rightarrow> char list \<Rightarrow> char list \<Rightarrow> (nat \<times> int) res" where
  "recv_number uc st stk buf =
     (let count = length buf; len = (if count < MAX_LEN - 1 then count else MAX_LEN - 1);
          b = blit stk 0 (from_user uc 0 (take len buf)) in
      if uc 0 len \<noteq> 0 then fail EFAULT
      else if len = 0 then crash OutOfBounds
      else (let b' = terminate b len; (v, endp) = st (cstr b') in
        if strlen b' \<noteq> endp then fail EINVAL else Inr (len, v)))"

definition value_write :: "ucopy \<Rightarrow> strtol \<Rightarrow> char list \<Rightarrow> char list \<Rightarrow> asu \<Rightarrow> nat res \<times> asu" where
  "value_write uc st stk buf a = (case recv_number uc st stk buf of
     Inl e \<Rightarrow> (Inl e, a) | Inr (len, v) \<Rightarrow> (Inr len, a\<lparr>pvalue := v\<rparr>))"

definition increment_write :: "ucopy \<Rightarrow> strtol \<Rightarrow> char list \<Rightarrow> char list \<Rightarrow> asu \<Rightarrow> nat res \<times> asu" where
  "increment_write uc st stk buf a = (case recv_number uc st stk buf of
     Inl e \<Rightarrow> (Inl e, a) | Inr (len, v) \<Rightarrow> (Inr len, correct_value v a))"

definition multiply_write :: "ucopy \<Rightarrow> strtol \<Rightarrow> char list \<Rightarrow> char list \<Rightarrow> asu \<Rightarrow> nat res \<times> asu" where
  "multiply_write uc st stk buf a = (case recv_number uc st stk buf of
     Inl e \<Rightarrow> (Inl e, a) | Inr (len, v) \<Rightarrow> (Inr len, a\<lparr>multy := v\<rparr>))"

section \<open>Attributes of /sys (modsasu.c)\<close>

datatype pv = PValue | PIncrement | PMulty

definition target :: "char list \<Rightarrow> pv option" where
  "target name = map_of [(''value'', PValue), (''increment'', PIncrement), (''multiply'', PMulty)] name"

text \<open>The static \<open>increment\<close> that \<open>target\<close> hides keeps its value between calls.\<close>

record sasu =
  plant :: asu
  increment :: int

fun peek :: "pv \<Rightarrow> sasu \<Rightarrow> int" where
  "peek PValue a = pvalue (plant a)"
| "peek PIncrement a = increment a"
| "peek PMulty a = multy (plant a)"

fun poke :: "pv \<Rightarrow> int \<Rightarrow> sasu \<Rightarrow> sasu" where
  "poke PValue v a = a\<lparr>plant := (plant a)\<lparr>pvalue := v\<rparr>\<rparr>"
| "poke PIncrement v a = a\<lparr>increment := v\<rparr>"
| "poke PMulty v a = a\<lparr>plant := (plant a)\<lparr>multy := v\<rparr>\<rparr>"

definition asu_show :: "char list \<Rightarrow> sasu \<Rightarrow> nat res \<times> char list" where
  "asu_show name a =
     (if name = ''increment'' then (fail EINVAL, [])
      else case target name of
        None \<Rightarrow> (fail EINVAL, [])
      | Some p \<Rightarrow> (let m = show_int (peek p a) @ [NL] in (Inr (length m), m)))"

type_synonym kscan = "char list \<Rightarrow> int option"

definition asu_store :: "kscan \<Rightarrow> char list \<Rightarrow> char list \<Rightarrow> sasu \<Rightarrow> nat res \<times> sasu" where
  "asu_store ss name buf a = (case target name of
     None \<Rightarrow> (fail EINVAL, a)
   | Some p \<Rightarrow> (case ss (cstr buf) of
       None \<Rightarrow> (fail EINVAL, a)
     | Some v \<Rightarrow> (let a1 = poke p v a in
         (Inr (length buf),
          if name = ''increment'' then a1\<lparr>plant := correct_value (peek p a1) (plant a1)\<rparr> else a1))))"

text \<open>What the client relies on \<open>sscanf( buf, "%ld", pv )\<close> for.\<close>

definition kscan_ok :: "kscan \<Rightarrow> bool" where
  "kscan_ok ss \<longleftrightarrow> (\<forall>i. in_long i \<longrightarrow> ss (show_int i) = Some i)"

section \<open>The client's side (kern.c)\<close>

text \<open>\<open>exit( EXIT_FAILURE )\<close> ends the client.\<close>

abbreviation exit_failure :: "'a res" where
  "exit_failure \<equiv> fail (Kern 1)"

text \<open>\<open>opened\<close> is whether \<open>open\<close> succeeds; \<open>rd\<close> and \<open>wr\<close> are the node's method.\<close>

definition read_string :: "bool \<Rightarrow> nat res \<times> char list \<Rightarrow> char list res" where
  "read_string opened rd =
     (if \<not> opened then exit_failure
      else case rd of
        (Inl (Fault f), _) \<Rightarrow> crash f
      | (Inl (Errno e), _) \<Rightarrow> exit_failure
      | (Inr n, buf) \<Rightarrow>
          if n = 0 then exit_failure
          else if buf ! (n - 1) = NL then Inr (cstr (take (n - 1) buf))
          else if MAX_LEN \<le> n then crash OutOfBounds
          else Inr (cstr (take n buf)))"

definition write_string :: "bool \<Rightarrow> (char list \<Rightarrow> nat res \<times> 's) \<Rightarrow> int \<Rightarrow> 's res" where
  "write_string opened wr val =
     (if \<not> opened then exit_failure
      else case wr (show_int val @ [NUL]) of
        (Inl (Fault f), _) \<Rightarrow> crash f
      | (Inl (Errno e), _) \<Rightarrow> exit_failure
      | (Inr n, s) \<Rightarrow> if n = 0 then exit_failure else Inr s)"

definition kern_get_value :: "bool \<Rightarrow> nat res \<times> char list \<Rightarrow> int res" where
  "kern_get_value opened rd = (case read_string opened rd of Inl e \<Rightarrow> Inl e | Inr s \<Rightarrow> Inr (atol s))"

definition kern_set_value :: "bool \<Rightarrow> (char list \<Rightarrow> nat res \<times> 's) \<Rightarrow> int \<Rightarrow> 's res" where
  "kern_set_value opened wr v = write_string opened wr v"

definition kern_get_multy :: "bool \<Rightarrow> nat res \<times> char list \<Rightarrow> int res" where
  "kern_get_multy opened rd =
     (case read_string opened rd of Inl e \<Rightarrow> Inl e | Inr s \<Rightarrow> Inr (wrap_int (atol s)))"

definition kern_set_multy :: "bool \<Rightarrow> (char list \<Rightarrow> nat res \<times> 's) \<Rightarrow> int \<Rightarrow> 's res" where
  "kern_set_multy opened wr m = write_string opened wr m"

definition kern_do_step :: "bool \<Rightarrow> (char list \<Rightarrow> nat res \<times> 's) \<Rightarrow> int \<Rightarrow> 's res" where
  "kern_do_step opened wr step = write_string opened wr step"

section \<open>The control loop (cli.c)\<close>

text \<open>\<open>gv\<close> and \<open>ds\<close> are \<open>get_value\<close> and \<open>do_step\<close> of the object file it is linked with.\<close>

function ctrl_loop :: "('s \<Rightarrow> int res) \<Rightarrow> (int \<Rightarrow> 's \<Rightarrow> 's res) \<Rightarrow> int \<Rightarrow> int \<Rightarrow> int \<Rightarrow> 's \<Rightarrow> 's res" where
  "ctrl_loop gv ds c n nlen s = (case gv s of
     Inl e \<Rightarrow> Inl e
   | Inr cur \<Rightarrow>
       (let istep = wrap_int (- wrap_int cur); a = wrap_int \<bar>wrap_int cur\<bar> in
        if a < c \<or> n + 1 > nlen then Inr s
        else
          (case ds istep s of
             Inl e \<Rightarrow> Inl e
           | Inr s' \<Rightarrow> (case gv s' of
               Inl e \<Rightarrow> Inl e
             | Inr _ \<Rightarrow> ctrl_loop gv ds (if a = 1 then 2 else c) (n + 1) nlen s'))))"
  by pat_completeness auto
termination
  by (relation "measure (\<lambda>(gv, ds, c, n, nlen, s). nat (nlen - n))") auto

declare ctrl_loop.simps [simp del]

text \<open>One command of the dialogue: the first character of the line and the text after it;
  \<open>None\<close> is the end of the program. \<open>gm\<close>, \<open>sv\<close>, \<open>sm\<close> are the remaining operations.\<close>

definition cli_command :: "('s \<Rightarrow> int res) \<Rightarrow> (int \<Rightarrow> 's \<Rightarrow> 's res) \<Rightarrow> ('s \<Rightarrow> int res)
    \<Rightarrow> (int \<Rightarrow> 's \<Rightarrow> 's res) \<Rightarrow> (int \<Rightarrow> 's \<Rightarrow> 's res) \<Rightarrow> char \<Rightarrow> char list \<Rightarrow> int \<times> 's
    \<Rightarrow> (int \<times> 's) res option" where
  "cli_command gv sv gm sm ds cmd arg = (\<lambda>(nlen, s).
     if cmd = CHR ''q'' then None
     else Some (
       if cmd = CHR ''*'' then
         (let ku = wrap_int (atol arg) in
          case (if ku \<noteq> 0 then sm ku s else Inr s) of
            Inl e \<Rightarrow> Inl e
          | Inr s' \<Rightarrow> (case gm s' of Inl e \<Rightarrow> Inl e | Inr _ \<Rightarrow> Inr (nlen, s')))
       else if cmd = CHR ''?'' then
         (case gv s of Inl e \<Rightarrow> Inl e | Inr _ \<Rightarrow> Inr (nlen, s))
       else if cmd = CHR ''='' then
         (let new_val = atol arg in
          case (if new_val \<noteq> 0 then sv new_val s else Inr s) of
            Inl e \<Rightarrow> Inl e
          | Inr s' \<Rightarrow> (case gv s' of
              Inl e \<Rightarrow> Inl e
            | Inr _ \<Rightarrow>
                if new_val = 0 then Inr (nlen, s')
                else (case ctrl_loop gv ds 1 0 nlen s' of Inl e \<Rightarrow> Inl e | Inr s'' \<Rightarrow> Inr (nlen, s''))))
       else if cmd = CHR ''!'' then
         (let new_val = wrap_int (atol arg) in Inr (if new_val \<noteq> 0 then new_val else nlen, s))
       else Inr (nlen, s)))"

section \<open>Loading and unloading modpasu.c\<close>

text \<open>\<open>nodes\<close> is the content of /proc; \<open>dir\<close> and \<open>pts\<close> are the module's pointers that are
  not NULL.\<close>

record asu_proc =
  nodes :: "char list list"
  dir :: bool
  pts :: "bool list"
  pasu :: asu

record asu_env =
  multiplier :: int
  dir_created :: bool
  node_created :: "nat \<Rightarrow> bool"

definition points :: "char list list" where
  "points = [''value'', ''increment'', ''multiply'']"

definition rm_node :: "bool \<Rightarrow> char list \<Rightarrow> asu_proc \<Rightarrow> asu_proc" where
  "rm_node present p s = (if present then s\<lparr>nodes := remove1 p (nodes s)\<rparr> else s)"

definition asu_clean :: "asu_proc \<Rightarrow> asu_proc" where
  "asu_clean s = rm_node (dir s) ''asu''
     (fold (\<lambda>i. rm_node (pts s ! i) (''asu/'' @ points ! i)) [0..<3] s)"

fun asu_points :: "asu_env \<Rightarrow> nat list \<Rightarrow> asu_proc \<Rightarrow> int \<times> asu_proc" where
  "asu_points e [] s = (0, s)"
| "asu_points e (i # is) s =
     (if node_created e i
      then asu_points e is (s\<lparr>nodes := (''asu/'' @ points ! i) # nodes s, pts := (pts s)[i := True]\<rparr>)
      else (-2, asu_clean s))"

definition asu_init :: "asu_env \<Rightarrow> asu_proc \<Rightarrow> int \<times> asu_proc" where
  "asu_init e s =
     (let s0 = s\<lparr>dir := False, pts := [False, False, False],
            pasu := (if multiplier e \<noteq> 0 then asu0\<lparr>multy := multiplier e\<rparr> else asu0)\<rparr> in
      if \<not> dir_created e then (-2, asu_clean s0)
      else asu_points e [0..<3] (s0\<lparr>dir := True, nodes := ''asu'' # nodes s0\<rparr>))"

definition asu_exit :: "asu_proc \<Rightarrow> asu_proc" where
  "asu_exit s = asu_clean s"

text \<open>The operations only touch the plant.\<close>

definition asu_op :: "(asu \<Rightarrow> asu) \<Rightarrow> asu_proc \<Rightarrow> asu_proc" where
  "asu_op f s = s\<lparr>pasu := f (pasu s)\<rparr>"

lemma upt_3: "[0..<3] = [0, 1, 2::nat]"
  by (simp add: upt_rec)

interpretation asu_mod: lifecycle asu_init asu_op asu_exit nodes
proof
  fix e s r s'
  assume a: "asu_init e s = (r, s')"
  show "nodes s' = nodes s" if "r < 0"
    using a that
    by (auto simp: asu_init_def Let_def upt_3 asu_clean_def rm_node_def points_def split: if_splits)
  show "nodes (asu_exit s') = nodes s" if "0 \<le> r"
    using a that
    by (auto simp: asu_init_def Let_def upt_3 asu_exit_def asu_clean_def rm_node_def points_def split: if_splits)
next
  show "nodes (asu_exit (asu_op x s)) = nodes (asu_exit s)" for x s
    by (simp add: asu_exit_def asu_clean_def asu_op_def rm_node_def upt_3)
qed

section \<open>The contract of the three back ends\<close>

locale asu_backend =
  fixes gv gm :: "'s \<Rightarrow> int res"
    and sv sm ds :: "int \<Rightarrow> 's \<Rightarrow> 's res"
    and absf :: "'s \<Rightarrow> asu"
    and inv :: "'s \<Rightarrow> bool"
  assumes gv_ok: "inv s \<Longrightarrow> gv s = Inr (pvalue (absf s))"
    and gm_ok: "inv s \<Longrightarrow> gm s = Inr (locl_get_multy (absf s))"
    and sv_ok: "inv s \<Longrightarrow> in_long v \<Longrightarrow>
      \<exists>s'. sv v s = Inr s' \<and> inv s' \<and> absf s' = locl_set_value v (absf s)"
    and sm_ok: "inv s \<Longrightarrow> in_long v \<Longrightarrow>
      \<exists>s'. sm v s = Inr s' \<and> inv s' \<and> absf s' = locl_set_multy v (absf s)"
    and ds_ok: "inv s \<Longrightarrow> in_long v \<Longrightarrow>
      \<exists>s'. ds v s = Inr s' \<and> inv s' \<and> absf s' = locl_do_step v (absf s)"

definition locl_gv :: "asu \<Rightarrow> int res" where
  "locl_gv a = Inr (pvalue a)"

definition locl_gm :: "asu \<Rightarrow> int res" where
  "locl_gm a = Inr (locl_get_multy a)"

definition locl_sv :: "int \<Rightarrow> asu \<Rightarrow> asu res" where
  "locl_sv v a = Inr (locl_set_value v a)"

definition locl_sm :: "int \<Rightarrow> asu \<Rightarrow> asu res" where
  "locl_sm v a = Inr (locl_set_multy v a)"

definition locl_ds :: "int \<Rightarrow> asu \<Rightarrow> asu res" where
  "locl_ds v a = Inr (locl_do_step v a)"

lemmas locl_defs = locl_gv_def locl_gm_def locl_sv_def locl_sm_def locl_ds_def

text \<open>A whole dialogue.\<close>

fun cli_run :: "('s \<Rightarrow> int res) \<Rightarrow> (int \<Rightarrow> 's \<Rightarrow> 's res) \<Rightarrow> ('s \<Rightarrow> int res)
    \<Rightarrow> (int \<Rightarrow> 's \<Rightarrow> 's res) \<Rightarrow> (int \<Rightarrow> 's \<Rightarrow> 's res) \<Rightarrow> (char \<times> char list) list \<Rightarrow> int \<times> 's
    \<Rightarrow> (int \<times> 's) res" where
  "cli_run gv sv gm sm ds [] st = Inr st"
| "cli_run gv sv gm sm ds ((cmd, arg) # ls) st = (case cli_command gv sv gm sm ds cmd arg st of
     None \<Rightarrow> Inr st
   | Some (Inl e) \<Rightarrow> Inl e
   | Some (Inr st') \<Rightarrow> cli_run gv sv gm sm ds ls st')"

context asu_backend
begin

lemma loop_sim:
  "inv s \<Longrightarrow> \<exists>s'. ctrl_loop gv ds c n nlen s = Inr s' \<and> inv s'
    \<and> ctrl_loop locl_gv locl_ds c n nlen (absf s) = Inr (absf s')"
proof (induction "nat (nlen - n)" arbitrary: c n s rule: less_induct)
  case less
  let ?v = "pvalue (absf s)"
  let ?i = "wrap_int (- wrap_int ?v)" and ?a = "wrap_int \<bar>wrap_int ?v\<bar>"
  show ?case
  proof (cases "?a < c \<or> n + 1 > nlen")
    case True
    then show ?thesis using less.prems
      by (simp add: ctrl_loop.simps [of gv] ctrl_loop.simps [of locl_gv] gv_ok locl_defs)
  next
    case False
    obtain s1 where s1: "ds ?i s = Inr s1" "inv s1" "absf s1 = locl_do_step ?i (absf s)"
      using ds_ok [OF less.prems] by (metis in_long_wrap_int)
    have "nat (nlen - (n + 1)) < nat (nlen - n)" using False by simp
    from less.hyps [OF this s1(2), of "if ?a = 1 then 2 else c"] obtain s' where
      "ctrl_loop gv ds (if ?a = 1 then 2 else c) (n + 1) nlen s1 = Inr s'" "inv s'"
      "ctrl_loop locl_gv locl_ds (if ?a = 1 then 2 else c) (n + 1) nlen (absf s1) = Inr (absf s')"
      by blast
    then show ?thesis using False s1 less.prems
      by (simp add: ctrl_loop.simps [of gv _ c] ctrl_loop.simps [of locl_gv _ c] gv_ok locl_defs Let_def
          del: One_nat_def)
  qed
qed

lemma command_sim:
  assumes "inv s"
  shows "cli_command gv sv gm sm ds cmd arg (nlen, s) = None
      \<and> cli_command locl_gv locl_sv locl_gm locl_sm locl_ds cmd arg (nlen, absf s) = None
    \<or> (\<exists>nlen' s'. cli_command gv sv gm sm ds cmd arg (nlen, s) = Some (Inr (nlen', s')) \<and> inv s'
      \<and> cli_command locl_gv locl_sv locl_gm locl_sm locl_ds cmd arg (nlen, absf s)
          = Some (Inr (nlen', absf s')))"
proof -
  define v where "v = atol arg"
  have v: "in_long v" by (simp add: v_def atol_def Let_def)
  obtain sa where sa: "sm (wrap_int v) s = Inr sa" "inv sa" "absf sa = locl_set_multy (wrap_int v) (absf s)"
    using sm_ok [OF assms, of "wrap_int v"] by auto
  obtain sb where sb: "sv v s = Inr sb" "inv sb" "absf sb = locl_set_value v (absf s)"
    using sv_ok [OF assms v] by auto
  obtain sc where sc: "ctrl_loop gv ds 1 0 nlen sb = Inr sc" "inv sc"
    "ctrl_loop locl_gv locl_ds 1 0 nlen (absf sb) = Inr (absf sc)"
    using loop_sim [OF sb(2)] by blast
  show ?thesis
    using assms sa sb sc
    by (auto simp: cli_command_def v_def [symmetric] Let_def gv_ok gm_ok locl_gv_def locl_gm_def
        locl_sv_def locl_sm_def)
qed

lemma run_sim:
  "inv s \<Longrightarrow> \<exists>nlen' s'. cli_run gv sv gm sm ds ls (nlen, s) = Inr (nlen', s') \<and> inv s'
    \<and> cli_run locl_gv locl_sv locl_gm locl_sm locl_ds ls (nlen, absf s) = Inr (nlen', absf s')"
proof (induction ls arbitrary: nlen s)
  case Nil
  then show ?case by simp
next
  case (Cons l ls)
  obtain cmd arg where l: "l = (cmd, arg)" by fastforce
  from command_sim [OF Cons.prems, of cmd arg nlen] show ?case
  proof (elim disjE exE conjE)
    fix nlen' s'
    assume "cli_command gv sv gm sm ds cmd arg (nlen, s) = Some (Inr (nlen', s'))" "inv s'"
      "cli_command locl_gv locl_sv locl_gm locl_sm locl_ds cmd arg (nlen, absf s)
          = Some (Inr (nlen', absf s'))"
    then show ?thesis using Cons.IH [of s' nlen'] l by simp
  qed (use Cons.prems l in simp)
qed

end

section \<open>The back ends\<close>

interpretation locl: asu_backend locl_gv locl_gm locl_sv locl_sm locl_ds "\<lambda>a. a" "\<lambda>a. True"
  by unfold_locales (simp_all add: locl_defs)

definition plant_ok :: "asu \<Rightarrow> bool" where
  "plant_ok a \<longleftrightarrow> in_long (pvalue a) \<and> in_long (multy a)"

lemma plant_ok_ops:
  "plant_ok a \<Longrightarrow> in_long v \<Longrightarrow> plant_ok (locl_set_value v a)"
  "plant_ok a \<Longrightarrow> in_long v \<Longrightarrow> plant_ok (locl_set_multy v a)"
  "plant_ok a \<Longrightarrow> plant_ok (locl_do_step v a)"
  by (simp_all add: plant_ok_def locl_set_value_def locl_set_multy_def locl_do_step_def correct_value_def)

lemma read_string_number:
  "read_string True (Inr (length (show_int v @ [NL])), show_int v @ [NL]) = Inr (show_int v)"
  by (simp add: read_string_def nth_append cstr_id set_show_int)

lemma recv_number_text:
  assumes "strtol_ok st" "length stk = MAX_LEN" "in_long v" "x = NUL \<or> x = NL"
  shows "recv_number copy_ok st stk (show_int v @ [x]) = Inr (Suc (length (show_int v)), v)"
proof -
  let ?s = "show_int v"
  let ?b = "blit stk 0 (?s @ [x])"
  have l: "length ?s \<le> 20" "Suc (length ?s) < MAX_LEN - 1"
    using length_show_int [OF assms(3)] by (simp_all add: MAX_LEN_def)
  have b: "?b = ?s @ x # drop (Suc (length ?s)) stk" by (simp add: blit_def)
  have nth: "?b ! length ?s = x" by (simp add: b)
  have "cstr (terminate ?b (Suc (length ?s))) = ?s"
    using assms(4)
  proof
    assume "x = NUL"
    then have "terminate ?b (Suc (length ?s)) = ?s @ NUL # (drop (Suc (length ?s)) stk)[0 := NUL]"
      using nth b unfolding terminate_def by (simp add: list_update_append)
    then show ?thesis by (simp add: cstr_terminated set_show_int)
  next
    assume "x = NL"
    then have "terminate ?b (Suc (length ?s)) = ?s @ NUL # drop (Suc (length ?s)) stk"
      using nth b unfolding terminate_def by simp
    then show ?thesis by (simp add: cstr_terminated set_show_int)
  qed
  then show ?thesis
    using l assms(1,3) by (simp add: recv_number_def Let_def strtol_ok_def strlen_def)
qed

text \<open>Through /proc: each call opens the node, uses it once and closes it.\<close>

definition node_read :: "nat res \<times> char list \<times> nat \<Rightarrow> nat res \<times> char list" where
  "node_read = (\<lambda>(r, out, pos). (r, out))"

definition proc_gv :: "asu \<Rightarrow> int res" where
  "proc_gv a = kern_get_value True (node_read (value_read copy_ok 0 a))"

definition proc_gm :: "asu \<Rightarrow> int res" where
  "proc_gm a = kern_get_multy True (node_read (multiply_read copy_ok 0 a))"

definition proc_sv :: "strtol \<Rightarrow> char list \<Rightarrow> int \<Rightarrow> asu \<Rightarrow> asu res" where
  "proc_sv st stk v a = kern_set_value True (\<lambda>b. value_write copy_ok st stk b a) v"

definition proc_sm :: "strtol \<Rightarrow> char list \<Rightarrow> int \<Rightarrow> asu \<Rightarrow> asu res" where
  "proc_sm st stk v a = kern_set_multy True (\<lambda>b. multiply_write copy_ok st stk b a) v"

definition proc_ds :: "strtol \<Rightarrow> char list \<Rightarrow> int \<Rightarrow> asu \<Rightarrow> asu res" where
  "proc_ds st stk v a = kern_do_step True (\<lambda>b. increment_write copy_ok st stk b a) v"

interpretation procb: asu_backend proc_gv proc_gm "proc_sv st stk" "proc_sm st stk" "proc_ds st stk"
  "\<lambda>a. a" "\<lambda>a. strtol_ok st \<and> length stk = MAX_LEN \<and> plant_ok a" for st stk
  by unfold_locales
    (auto simp: proc_gv_def proc_gm_def proc_sv_def proc_sm_def proc_ds_def kern_get_value_def
      kern_get_multy_def kern_set_value_def kern_set_multy_def kern_do_step_def node_read_def
      value_read_def multiply_read_def Let_def read_string_number [simplified] atol_show_int
      plant_ok_def locl_get_multy_def write_string_def value_write_def multiply_write_def
      increment_write_def recv_number_text locl_set_value_def locl_set_multy_def locl_do_step_def
      correct_value_def)

text \<open>Through /sys.\<close>

definition sys_gv :: "sasu \<Rightarrow> int res" where
  "sys_gv a = kern_get_value True (asu_show ''value'' a)"

definition sys_gm :: "sasu \<Rightarrow> int res" where
  "sys_gm a = kern_get_multy True (asu_show ''multiply'' a)"

definition sys_sv :: "kscan \<Rightarrow> int \<Rightarrow> sasu \<Rightarrow> sasu res" where
  "sys_sv ss v a = kern_set_value True (\<lambda>b. asu_store ss ''value'' b a) v"

definition sys_sm :: "kscan \<Rightarrow> int \<Rightarrow> sasu \<Rightarrow> sasu res" where
  "sys_sm ss v a = kern_set_multy True (\<lambda>b. asu_store ss ''multiply'' b a) v"

definition sys_ds :: "kscan \<Rightarrow> int \<Rightarrow> sasu \<Rightarrow> sasu res" where
  "sys_ds ss v a = kern_do_step True (\<lambda>b. asu_store ss ''increment'' b a) v"

interpretation sysb: asu_backend sys_gv sys_gm "sys_sv ss" "sys_sm ss" "sys_ds ss"
  plant "\<lambda>a. kscan_ok ss \<and> plant_ok (plant a)" for ss
  by unfold_locales
    (auto simp: sys_gv_def sys_gm_def sys_sv_def sys_sm_def sys_ds_def kern_get_value_def
      kern_get_multy_def kern_set_value_def kern_set_multy_def kern_do_step_def
      asu_show_def asu_store_def target_def Let_def read_string_number [simplified] atol_show_int
      plant_ok_def locl_get_multy_def write_string_def kscan_ok_def cstr_terminated set_show_int
      locl_set_value_def locl_set_multy_def locl_do_step_def correct_value_def)

section \<open>Reading and writing a node by hand\<close>

text \<open>\<open>cat\<close> on the value node: the reader's state is its position and the plant.\<close>

definition value_rd :: "nat \<Rightarrow> nat \<times> asu \<Rightarrow> char list \<times> nat \<times> asu" where
  "value_rd n = (\<lambda>(pos, a). case value_read copy_ok pos a of (r, out, pos') \<Rightarrow> (out, pos', a))"

definition value_text :: "nat \<times> asu \<Rightarrow> char list" where
  "value_text = (\<lambda>(pos, a). if pos = 0 then show_int (pvalue a) @ [NL] else [])"

interpretation value_node: eof_reader value_text value_rd "\<lambda>n s. True"
  "\<lambda>(pos, a). (if pos = 0 then Suc (length (show_int (pvalue a))) else pos, a)"
  by unfold_locales (auto simp: value_text_def value_rd_def value_read_def Let_def split: if_splits)

section \<open>Convergence\<close>

lemma step_shrinks:
  fixes v m :: int
  assumes "0 < m" "m < 200" "\<bar>v\<bar> < 2 ^ 31"
  defines "v' \<equiv> wrap_long (v + cdiv (wrap_long (wrap_int (- wrap_int v) * m)) 100)"
  shows "\<bar>v'\<bar> \<le> \<bar>v\<bar>" "\<bar>v'\<bar> < \<bar>v\<bar> \<or> \<bar>v\<bar> * m < 100" "\<bar>v\<bar> * m < 100 \<Longrightarrow> v' = v"
proof -
  define q where "q = \<bar>v\<bar> * m div 100"
  have i: "wrap_int (- wrap_int v) = - v" using assms(3) by (simp add: wrap_int_id)
  have am: "\<bar>v\<bar> * m \<le> 2 ^ 31 * 200" using assms by (intro mult_mono) auto
  then have m: "\<bar>v * m\<bar> < 2 ^ 63" using assms(1) by (simp add: abs_mult)
  have q0: "0 \<le> q" using assms(1) by (simp add: q_def pos_imp_zdiv_nonneg_iff)
  have "\<bar>v\<bar> * m < 200 * \<bar>v\<bar>" if "v \<noteq> 0" using that assms(2) by simp
  then have q2: "q \<le> 2 * \<bar>v\<bar> - 1" if "v \<noteq> 0"
    using that zdiv_mono1 [of "\<bar>v\<bar> * m" "200 * \<bar>v\<bar> - 1" 100] unfolding q_def by force
  have "cdiv (- (v * m)) 100 = - (sgn v * q)"
    using assms(1) by (simp add: cdiv_def q_def sgn_mult abs_mult)
  then have "v' = wrap_long (v - sgn v * q)"
    using m unfolding v'_def i by (simp add: wrap_long_abs)
  also have vs: "v - sgn v * q = sgn v * (\<bar>v\<bar> - q)"
    by (simp add: right_diff_distrib sgn_mult_abs mult_sgn_abs)
  finally have v': "v' = wrap_long (sgn v * (\<bar>v\<bar> - q))" .
  have b: "\<bar>\<bar>v\<bar> - q\<bar> \<le> \<bar>v\<bar>" 
  proof (cases "v = 0")
    case False
    then show ?thesis using q0 q2 by linarith
  qed (simp add: q_def)
  have "\<bar>sgn v * (\<bar>v\<bar> - q)\<bar> \<le> \<bar>v\<bar>" using b by (simp add: abs_mult abs_sgn_eq)
  then have w: "v' = sgn v * (\<bar>v\<bar> - q)" using assms(3) v' by (simp add: wrap_long_abs)
  show "\<bar>v'\<bar> \<le> \<bar>v\<bar>" unfolding w using b by (simp add: abs_mult abs_sgn_eq)
  show "\<bar>v\<bar> * m < 100 \<Longrightarrow> v' = v"
    using assms(1) unfolding w q_def by (simp add: mult_sgn_abs)
  show "\<bar>v'\<bar> < \<bar>v\<bar> \<or> \<bar>v\<bar> * m < 100"
  proof (cases "\<bar>v\<bar> * m < 100")
    case False
    then have "1 \<le> q" unfolding q_def by (simp add: pos_imp_zdiv_pos_iff int_one_le_iff_zero_less)
    moreover have "v \<noteq> 0" using False by auto
    ultimately have "\<bar>\<bar>v\<bar> - q\<bar> < \<bar>v\<bar>" using q2 by linarith
    then show ?thesis unfolding w by (simp add: abs_mult abs_sgn_eq)
  qed simp
qed

definition settled :: "asu \<Rightarrow> bool" where
  "settled a \<longleftrightarrow> \<bar>pvalue a\<bar> \<le> 1 \<or> \<bar>pvalue a\<bar> * multy a < 100"

lemma loop_converges:
  assumes "0 < multy a" "multy a < 200" "\<bar>pvalue a\<bar> < 2 ^ 31" "0 \<le> n"
    and "c = 1 \<or> c = 2" "\<bar>pvalue a\<bar> \<le> nlen - n \<or> \<bar>pvalue a\<bar> * multy a < 100"
  shows "\<exists>a'. ctrl_loop locl_gv locl_ds c n nlen a = Inr a' \<and> settled a' \<and> multy a' = multy a
    \<and> \<bar>pvalue a'\<bar> \<le> \<bar>pvalue a\<bar>"
  using assms
proof (induction "nat (nlen - n)" arbitrary: n c a rule: less_induct)
  case less
  let ?v = "pvalue a"
  have w: "wrap_int ?v = ?v" "wrap_int \<bar>?v\<bar> = \<bar>?v\<bar>" using less.prems(3) by (simp_all add: wrap_int_id)
  let ?c = "if \<bar>?v\<bar> = 1 then 2 else c"
  show ?case
  proof (cases "\<bar>?v\<bar> < c \<or> n + 1 > nlen")
    case True
    then have "settled a" using less.prems(5,6) by (auto simp: settled_def)
    then show ?thesis using True by (simp add: ctrl_loop.simps [of locl_gv] locl_defs w)
  next
    case False
    let ?a1 = "locl_do_step (wrap_int (- ?v)) a"
    have v1: "pvalue ?a1 = wrap_long (?v + cdiv (wrap_long (wrap_int (- wrap_int ?v) * multy a)) 100)"
      and m1: "multy ?a1 = multy a"
      by (simp_all add: locl_do_step_def correct_value_def w)
    note sh = step_shrinks [OF less.prems(1-3), folded v1]
    have st: "\<bar>pvalue ?a1\<bar> \<le> nlen - (n + 1) \<or> \<bar>pvalue ?a1\<bar> * multy ?a1 < 100"
      using sh(2,3) less.prems(6) m1 by (cases "\<bar>?v\<bar> * multy a < 100") auto
    have d: "nat (nlen - (n + 1)) < nat (nlen - n)" using False by simp
    have b: "\<bar>pvalue ?a1\<bar> < 2 ^ 31" using sh(1) less.prems(3) by simp
    have c: "?c = 1 \<or> ?c = 2" using less.prems(5) by auto
    have m: "0 < multy ?a1" "multy ?a1 < 200" "0 \<le> n + 1" using less.prems m1 by simp_all
    obtain a' where "ctrl_loop locl_gv locl_ds ?c (n + 1) nlen ?a1 = Inr a'"
      "settled a'" "multy a' = multy a" "\<bar>pvalue a'\<bar> \<le> \<bar>pvalue ?a1\<bar>"
      using less.hyps [OF d m(1,2) b m(3) c st] m1 by auto
    then show ?thesis
      using False sh(1) by (simp add: ctrl_loop.simps [of locl_gv _ c] locl_defs w)
  qed
qed

section \<open>Correctness\<close>

text \<open>C3: the whole dialogue of \<open>cli.c\<close> (every command, the control loop included) has the same
  effect through the nodes of /proc and through the attributes of /sys as in one process: the
  plant ends in the same state and no operation of a back end fails, given that
  \<open>simple_strtol\<close> and \<open>sscanf\<close> read what \<open>printf\<close> writes.\<close>

theorem asu_backends_agree:
  assumes "strtol_ok st" "length stk = MAX_LEN" "kscan_ok ss" "plant_ok a"
  shows "\<exists>nlen' a' i'.
    cli_run locl_gv locl_sv locl_gm locl_sm locl_ds ls (nlen, a) = Inr (nlen', a')
    \<and> cli_run proc_gv (proc_sv st stk) proc_gm (proc_sm st stk) (proc_ds st stk) ls (nlen, a)
        = Inr (nlen', a')
    \<and> cli_run sys_gv (sys_sv ss) sys_gm (sys_sm ss) (sys_ds ss) ls (nlen, \<lparr>plant = a, increment = i\<rparr>)
        = Inr (nlen', \<lparr>plant = a', increment = i'\<rparr>)"
proof -
  obtain nlen' a' where p:
    "cli_run proc_gv (proc_sv st stk) proc_gm (proc_sm st stk) (proc_ds st stk) ls (nlen, a)
      = Inr (nlen', a')"
    "cli_run locl_gv locl_sv locl_gm locl_sm locl_ds ls (nlen, a) = Inr (nlen', a')"
    using procb.run_sim [of st stk a ls nlen] assms by auto
  obtain nlen'' a'' where y:
    "cli_run sys_gv (sys_sv ss) sys_gm (sys_sm ss) (sys_ds ss) ls (nlen, \<lparr>plant = a, increment = i\<rparr>)
      = Inr (nlen'', a'')"
    "cli_run locl_gv locl_sv locl_gm locl_sm locl_ds ls (nlen, a) = Inr (nlen'', plant a'')"
    using sysb.run_sim [of ss "\<lparr>plant = a, increment = i\<rparr>" ls nlen] assms by auto
  from p y show ?thesis by (cases a'') auto
qed

definition scan_long :: kscan where
  "scan_long s = (if snd (scan_int s) = 0 then None else Some (fst (scan_int s)))"

lemma kscan_ok_scan_long: "kscan_ok scan_long"
  by (simp add: kscan_ok_def scan_long_def scan_show_int set_show_int)

theorem asu_backends_agree_witness:
  "\<exists>nlen' a' i'.
    cli_run locl_gv locl_sv locl_gm locl_sm locl_ds [(CHR ''*'', ''50''), (CHR ''='', ''-37'')] (10, asu0)
      = Inr (nlen', a')
    \<and> cli_run proc_gv (proc_sv scan_int (replicate 30 NUL)) proc_gm
        (proc_sm scan_int (replicate 30 NUL)) (proc_ds scan_int (replicate 30 NUL))
        [(CHR ''*'', ''50''), (CHR ''='', ''-37'')] (10, asu0) = Inr (nlen', a')
    \<and> cli_run sys_gv (sys_sv scan_long) sys_gm (sys_sm scan_long) (sys_ds scan_long)
        [(CHR ''*'', ''50''), (CHR ''='', ''-37'')] (10, \<lparr>plant = asu0, increment = 0\<rparr>)
        = Inr (nlen', \<lparr>plant = a', increment = i'\<rparr>)"
  by (rule asu_backends_agree)
    (simp_all add: strtol_ok_scan_int kscan_ok_scan_long MAX_LEN_def plant_ok_def asu0_def in_long_def)



text \<open>\<open>echo v > /proc/asu/value\<close> followed by \<open>cat /proc/asu/value\<close> with any buffer size
  prints the number back with its newline, for every \<open>long\<close>.\<close>

theorem asu_node_roundtrip:
  assumes "strtol_ok st" "length stk = MAX_LEN" "in_long v"
    and "value_write copy_ok st stk (show_int v @ [NL]) a = (r, a')" "22 \<le> fuel"
  shows "r = Inr (length (show_int v @ [NL])) \<and> a' = a\<lparr>pvalue := v\<rparr>
    \<and> (\<exists>s. cat value_rd fuel n (0, a') = Some (show_int v @ [NL], s))"
proof -
  have w: "r = Inr (length (show_int v @ [NL]))" "a' = a\<lparr>pvalue := v\<rparr>"
    using assms(4) by (simp_all add: value_write_def recv_number_text [OF assms(1-3)])
  have "length (value_text (0, a')) < fuel"
    using length_show_int [OF assms(3)] assms(5) w by (simp add: value_text_def)
  from value_node.cat_complete [OF TrueI this, of n] show ?thesis
    using w by (simp add: value_text_def)
qed

theorem asu_node_roundtrip_witness:
  "\<exists>s. cat value_rd 22 1 (0, \<lparr>pvalue = -37, multy = 100\<rparr>) = Some (''-37'' @ [NL], s)"
proof -
  have t: "show_int (-37) = ''-37''" by (simp add: show_int_def show_nat.simps digit_def)
  obtain r a' where w: "value_write copy_ok scan_int (replicate 30 NUL) (show_int (-37) @ [NL]) asu0 = (r, a')"
    by fastforce
  show ?thesis
    using asu_node_roundtrip [OF strtol_ok_scan_int _ _ w, of 22 1]
    by (auto simp: MAX_LEN_def in_long_def asu0_def t)
qed

text \<open>Anything that is not a number as a whole is refused and changes nothing; a write of no
  bytes is out of bounds.\<close>

lemma value_write_refuses:
  "value_write uc st stk buf a = (Inl e, a') \<Longrightarrow> a' = a"
  by (auto simp: value_write_def split: sum.splits)

lemma value_write_empty:
  "uc 0 0 = 0 \<Longrightarrow> value_write uc st stk [] a = (crash OutOfBounds, a)"
  by (simp add: value_write_def recv_number_def MAX_LEN_def)

end
