(* ===== verification/Proc_Node.thy ===== *)
theory Proc_Node
  imports Interfaces Decimal
begin

text \<open>
  Nodes of /proc and /sys: \<open>Tasks/proc/proc\<close> (one text of up to 160 bytes, \<open>fops_rw.c\<close>, and the
  modules that install it), \<open>Tasks/proc/variants.le.3.9\<close> (four ways to serve a read),
  \<open>Tasks/+TASKS/lproc\<close> (a node at a path given on the command line) and \<open>Tasks/+TASKS/sys\<close> (a
  number in /sys). What exists in /proc is a list of paths.
\<close>

section \<open>Reading and writing one text (proc/fops_rw.c)\<close>

definition LEN_MSG :: nat where
  "LEN_MSG = 160"

definition rw_buf :: "char list" where
  "rw_buf = (let t = ''.........1.........2.........3.........4.........5'' @ [NL] in
     t @ replicate (LEN_MSG + 1 - length t) NUL)"

text \<open>Neither method looks at the result of its copy.\<close>

definition node_read :: "ucopy \<Rightarrow> nat \<Rightarrow> nat \<Rightarrow> char list \<Rightarrow> nat \<times> char list \<times> nat" where
  "node_read uc cnt pos buf_msg =
     (if strlen buf_msg \<le> pos then (0, [], 0)
      else (let n = (if cnt > strlen buf_msg - pos then strlen buf_msg - pos else cnt) in
        (n, to_user uc 0 (chunk pos n buf_msg), pos + n)))"

definition node_write :: "ucopy \<Rightarrow> char list \<Rightarrow> char list \<Rightarrow> nat \<times> char list" where
  "node_write uc buf buf_msg =
     (let cnt = length buf; len = (if cnt < LEN_MSG then cnt else LEN_MSG) in
      (len, (blit buf_msg 0 (from_user uc 0 (take len buf)))[len := NUL]))"

definition node_inv :: "char list \<Rightarrow> bool" where
  "node_inv b \<longleftrightarrow> length b = LEN_MSG + 1 \<and> NUL \<in> set b"

lemma rw_buf_inv: "node_inv rw_buf"
  by (simp add: node_inv_def rw_buf_def LEN_MSG_def Let_def)

lemma node_write_ok:
  assumes "node_inv b" "node_write uc buf b = (n, b')"
  shows "node_inv b'" "n = min (length buf) LEN_MSG"
    "uc = copy_ok \<Longrightarrow> cstr b' = cstr (take LEN_MSG buf)"
proof -
  define len where "len = (if length buf < LEN_MSG then length buf else LEN_MSG)"
  have len: "len \<le> LEN_MSG" "len = min (length buf) LEN_MSG" "take len buf = take LEN_MSG buf"
    by (auto simp: len_def)
  have b': "b' = (blit b 0 (from_user uc 0 (take len buf)))[len := NUL]" "n = len"
    using assms(2) by (auto simp: node_write_def len_def [symmetric] Let_def)
  show "n = min (length buf) LEN_MSG" using b' len by simp
  have l: "length (blit b 0 (from_user uc 0 (take len buf))) = LEN_MSG + 1"
    using assms(1) len by (simp add: node_inv_def)
  then show "node_inv b'"
    using len unfolding b' node_inv_def by (simp add: set_update_memI)
  show "cstr b' = cstr (take LEN_MSG buf)" if "uc = copy_ok"
  proof -
    have "b' = take len buf @ NUL # drop (Suc len) b"
      using that l len unfolding b' by (simp add: blit_def upd_conv_take_nth_drop drop_Suc_Cons min_def
          Cons_nth_drop_Suc [symmetric] list_update_append split: if_splits)
    then show ?thesis using len(3) by (simp add: cstr_append_NUL)
  qed
qed

text \<open>\<open>cat\<close> on the node.\<close>

definition node_rd :: "nat \<Rightarrow> nat \<times> char list \<Rightarrow> char list \<times> nat \<times> char list" where
  "node_rd n = (\<lambda>(pos, b). case node_read copy_ok n pos b of (r, out, pos') \<Rightarrow> (out, pos', b))"

definition node_text :: "nat \<times> char list \<Rightarrow> char list" where
  "node_text = (\<lambda>(pos, b). drop pos (cstr b))"

lemma chunk_cstr: "pos + n \<le> strlen b \<Longrightarrow> chunk pos n b = take n (drop pos (cstr b))"
  by (simp add: chunk_def cstr_eq_take drop_take min_def)

interpretation proc_node: eof_reader node_text node_rd "\<lambda>n s. 0 < n" "\<lambda>(pos, b). (0, b)"
proof
  fix n :: nat and s :: "nat \<times> char list"
  assume n: "0 < n"
  obtain pos b where s: "s = (pos, b)" by fastforce
  have l: "node_text s \<noteq> [] \<longleftrightarrow> pos < strlen b" by (auto simp: s node_text_def strlen_def)
  show "fst (node_rd n s) \<noteq> [] \<and> fst (node_rd n s) @ node_text (snd (node_rd n s)) = node_text s"
    if "node_text s \<noteq> []"
  proof -
    define m where "m = (if n > strlen b - pos then strlen b - pos else n)"
    have m: "0 < m" "pos + m \<le> strlen b" using that l n by (auto simp: m_def)
    have r: "node_rd n s = (take m (drop pos (cstr b)), pos + m, b)"
      using that l chunk_cstr [OF m(2)] by (simp add: s node_rd_def node_read_def m_def Let_def)
    show ?thesis unfolding r using m that
      by (simp add: s node_text_def) (metis add.commute append_take_drop_id drop_drop)
  qed
  show "(case snd (node_rd n s) of (pos, b) \<Rightarrow> (0, b)) = (case s of (pos, b) \<Rightarrow> (0, b))"
    by (simp add: s node_rd_def split: prod.splits)
  show "node_rd n s = ([], case s of (pos, b) \<Rightarrow> (0, b))" if "node_text s = []"
    using that l by (auto simp: s node_rd_def node_read_def)
qed simp_all

text \<open>Whatever is written to the node (at most 160 bytes of it, up to its first zero byte) is
  what \<open>cat\<close> then reads from it, with any buffer size, and the node can be read again from its
  start.\<close>

theorem proc_node_roundtrip:
  assumes "node_inv b" "node_write copy_ok buf b = (r, b')" "0 < n" "LEN_MSG < fuel"
  shows "r = min (length buf) LEN_MSG \<and> cat node_rd fuel n (0, b') = Some (cstr (take LEN_MSG buf), (0, b'))"
proof -
  note w = node_write_ok [OF assms(1,2)]
  have t: "node_text (0, b') = cstr (take LEN_MSG buf)" using w(3) by (simp add: node_text_def)
  have "length (cstr (take LEN_MSG buf)) \<le> LEN_MSG"
    using strlen_le [of "take LEN_MSG buf"] by (simp add: strlen_def)
  then have "length (node_text (0, b')) < fuel" using assms(4) t by simp
  from proc_node.cat_complete [OF assms(3) this] show ?thesis using w(2) t by simp
qed

theorem proc_node_roundtrip_witness:
  "cat node_rd 200 3 (0, snd (node_write copy_ok (''hello'' @ [NL]) rw_buf))
    = Some (''hello'' @ [NL], (0, snd (node_write copy_ok (''hello'' @ [NL]) rw_buf)))"
proof -
  obtain r b' where w: "node_write copy_ok (''hello'' @ [NL]) rw_buf = (r, b')" by fastforce
  show ?thesis using proc_node_roundtrip [OF rw_buf_inv w, of 3 200] w by (simp add: LEN_MSG_def)
qed

section \<open>Four ways to serve a read (variants.le.3.9)\<close>

definition NULL_CHAR :: char where
  "NULL_CHAR = CHR 0xFF"

record var_node =
  vbuf :: "char list"
  vlength :: nat
  parameter :: int

text \<open>\<open>page\<close> is the kernel's page the data goes into; the results are the return value, the end
  flag and the page. A copy that leaves the page is undefined.\<close>

definition into_page :: "char list \<Rightarrow> nat \<Rightarrow> char list \<Rightarrow> char list res" where
  "into_page page off src = (if length page < off + length src then crash OutOfBounds else Inr (blit page off src))"

definition read_variant :: "nat \<Rightarrow> var_node \<Rightarrow> nat \<Rightarrow> nat \<Rightarrow> char list \<Rightarrow> (nat \<times> bool \<times> char list) res" where
  "read_variant variant d off cnt page =
     (let msg = take (vlength d) (vbuf d); eof = (off + cnt \<ge> vlength d) in
      if variant = 0 then map_sum id (\<lambda>p. (vlength d, False, p)) (into_page page 0 msg)
      else if variant = 1 then
        (if off < vlength d then map_sum id (\<lambda>p. (vlength d, eof, p)) (into_page page 0 msg)
         else Inr (0, eof, page))
      else if variant = 2 then
        (if off = 0 then map_sum id (\<lambda>p. (vlength d, eof, p)) (into_page page 0 msg)
         else Inr (vlength d, eof, page))
      else
        (if off \<ge> vlength d then Inr (0, True, page)
         else (let cp = min cnt (vlength d - off) in
           map_sum id (\<lambda>p. (off + cp, off + cp \<ge> vlength d, p)) (into_page page off (chunk off cp msg)))))"

definition write_variant :: "ucopy \<Rightarrow> (char list \<Rightarrow> int option) \<Rightarrow> char list \<Rightarrow> var_node \<Rightarrow> nat res \<times> var_node" where
  "write_variant uc ss buf d =
     (let len = min (length buf) (length (vbuf d));
          b0 = replicate (vlength d) NULL_CHAR @ drop (vlength d) (vbuf d);
          b1 = blit b0 0 (from_user uc 0 (take len buf)) in
      if uc 0 len \<noteq> 0 then (fail EFAULT, d\<lparr>vbuf := b1, vlength := len\<rparr>)
      else (Inr (length buf), d\<lparr>vbuf := b1, vlength := len,
        parameter := (case ss b1 of None \<Rightarrow> parameter d | Some v \<Rightarrow> v)\<rparr>))"

definition var_inv :: "var_node \<Rightarrow> bool" where
  "var_inv d \<longleftrightarrow> vlength d \<le> length (vbuf d)"

lemma write_variant_inv:
  assumes "var_inv d" "write_variant uc ss buf d = (r, d')"
  shows "var_inv d'" "length (vbuf d') = length (vbuf d)"
    "uc = copy_ok \<Longrightarrow> r = Inr (length buf) \<and> take (vlength d') (vbuf d') = take (length (vbuf d)) buf"
proof -
  let ?len = "min (length buf) (length (vbuf d))"
  let ?b0 = "replicate (vlength d) NULL_CHAR @ drop (vlength d) (vbuf d)"
  have l: "length ?b0 = length (vbuf d)" using assms(1) by (simp add: var_inv_def)
  have e: "vbuf d' = blit ?b0 0 (from_user uc 0 (take ?len buf))" "vlength d' = ?len"
    using assms(2) by (auto simp: write_variant_def Let_def split: if_splits)
  have lb: "length (blit ?b0 0 (from_user uc 0 (take ?len buf))) = length (vbuf d)"
    by (subst length_blit) (use assms(1) in \<open>simp_all add: var_inv_def\<close>)
  then show "length (vbuf d') = length (vbuf d)" "var_inv d'" using e by (simp_all add: var_inv_def)
  show "r = Inr (length buf) \<and> take (vlength d') (vbuf d') = take (length (vbuf d)) buf" if "uc = copy_ok"
    using assms(2) that unfolding e
    by (auto simp: write_variant_def Let_def blit_def min_def split: if_splits)
qed

text \<open>What the reader of a node relies on: inside the data, the page holds the requested bytes and
  the return value says how far they reach; at its end nothing is announced.\<close>

definition serves :: "var_node \<Rightarrow> nat \<Rightarrow> nat \<Rightarrow> (nat \<times> bool \<times> char list) res \<Rightarrow> bool" where
  "serves d off cnt r \<longleftrightarrow> (case r of
     Inl _ \<Rightarrow> False
   | Inr (ret, eof, page) \<Rightarrow>
       (if off < vlength d
        then min cnt (ret - off) = min cnt (vlength d - off)
          \<and> chunk off (min cnt (vlength d - off)) page = chunk off (min cnt (vlength d - off)) (vbuf d)
        else ret \<le> off))"

lemma chunk_take_le: "off + n \<le> m \<Longrightarrow> chunk off n (take m b) = chunk off n b"
  by (simp add: chunk_def take_drop min_def)

text \<open>Three of the four variants serve every read position and size correctly as long as the
  data fit into the page.\<close>

theorem read_variants_serve:
  assumes "var_inv d" "vlength d \<le> length page" "variant = 0 \<or> variant = 1 \<or> variant = 3"
  shows "serves d off cnt (read_variant variant d off cnt page)"
proof -
  let ?m = "take (vlength d) (vbuf d)"
  let ?n = "min cnt (vlength d - off)"
  have lm: "length ?m = vlength d" using assms(1) by (simp add: var_inv_def)
  have p0: "into_page page 0 ?m = Inr (blit page 0 ?m)" using assms(2) lm by (simp add: into_page_def)
  have n: "off + ?n \<le> vlength d" if "off < vlength d" using that by simp
  have c0: "chunk off ?n (blit page 0 ?m) = chunk off ?n (vbuf d)" if "off < vlength d"
    using chunk_blit_inside [of 0 off ?n ?m page] chunk_take_le [OF n [OF that], of "vbuf d"] n [OF that]
      assms(2) lm by simp
  have l3: "length (chunk off ?n ?m) = ?n" using lm by simp
  have p3: "into_page page off (chunk off ?n ?m) = Inr (blit page off (chunk off ?n ?m))" if "off < vlength d"
    using that assms(2) l3 by (simp add: into_page_def)
  have c3: "chunk off ?n (blit page off (chunk off ?n ?m)) = chunk off ?n (vbuf d)" if "off < vlength d"
    using chunk_blit_same [of off "chunk off ?n ?m" page] chunk_take_le [OF n [OF that], of "vbuf d"] n [OF that]
      assms(2) l3 by simp
  from assms(3) show ?thesis
  proof (elim disjE)
    assume "variant = 0"
    then show ?thesis using p0 c0 by (simp add: read_variant_def serves_def Let_def)
  next
    assume "variant = 1"
    then show ?thesis using p0 c0 by (simp add: read_variant_def serves_def Let_def)
  next
    assume "variant = 3"
    then show ?thesis using p3 c3 by (simp add: read_variant_def serves_def Let_def)
  qed
qed

theorem read_variants_serve_witness:
  "serves \<lparr>vbuf = ''abcdef'', vlength = 6, parameter = 0\<rparr> 2 3
    (read_variant 3 \<lparr>vbuf = ''abcdef'', vlength = 6, parameter = 0\<rparr> 2 3 (replicate 4096 NUL))"
  by (rule read_variants_serve) (simp_all add: var_inv_def)

text \<open>Variant 2 copies on the first request only; later ones announce data the page does not
  hold.\<close>

lemma read_variant_2_stale:
  "0 < off \<Longrightarrow> read_variant 2 d off cnt page = Inr (vlength d, off + cnt \<ge> vlength d, page)"
  by (simp add: read_variant_def Let_def)

section \<open>A node at a given path (lproc)\<close>

type_synonym path = "char list list"

abbreviation slash :: char where
  "slash \<equiv> CHR 0x2F"

datatype walk = Made path | Stuck path

lemma rest_of_path: "slash \<in> set beg \<Longrightarrow> length (dropWhile (\<lambda>c. c \<noteq> slash) beg) - Suc 0 < length beg"
  by (induction beg) auto

text \<open>\<open>mk k\<close> is whether the \<open>k\<close>-th creation succeeds; the entries of /proc are in \<open>reg\<close>. A
  component goes into an array of \<open>lim\<close> bytes (20 in \<open>procdat.c\<close>, 40 in \<open>procdatlt.c\<close>);
  \<open>procdat.c\<close> skips empty components.\<close>

function mk_path :: "nat \<Rightarrow> bool \<Rightarrow> (nat \<Rightarrow> bool) \<Rightarrow> nat \<Rightarrow> char list \<Rightarrow> path \<Rightarrow> path list \<Rightarrow> walk res \<times> path list" where
  "mk_path lim skip mk k beg parent reg =
     (if slash \<notin> set beg
      then (if lim \<le> length beg then (crash OutOfBounds, reg)
            else if mk k then (Inr (Made (parent @ [beg])), (parent @ [beg]) # reg)
            else (Inr (Stuck parent), reg))
      else
        (let name = takeWhile (\<lambda>c. c \<noteq> slash) beg; rest = tl (dropWhile (\<lambda>c. c \<noteq> slash) beg) in
         if skip \<and> name = [] then mk_path lim skip mk k rest parent reg
         else if lim \<le> length name then (crash OutOfBounds, reg)
         else if mk k then mk_path lim skip mk (Suc k) rest (parent @ [name]) ((parent @ [name]) # reg)
         else (Inr (Stuck parent), reg)))"
  by pat_completeness auto

termination
  by (relation "measure (\<lambda>(lim, skip, mk, k, beg, parent, reg). length beg)") (simp_all add: rest_of_path)

declare mk_path.simps [simp del]

text \<open>Up to kernel 3.9 \<open>erase\<close> climbs from a node to the root, later it removes the subtree of the
  first component of the path. A null pointer stands for the root.\<close>

function erase_up :: "path \<Rightarrow> path list \<Rightarrow> path list" where
  "erase_up p reg = (if p = [] then reg else erase_up (butlast p) (remove1 p reg))"
  by pat_completeness auto
termination
  by (relation "measure (\<lambda>(p, reg). length p)") auto

declare erase_up.simps [simp del]

definition erase_old :: "path \<Rightarrow> path list \<Rightarrow> path list res" where
  "erase_old node reg = (if node = [] then crash NullDeref else Inr (erase_up node reg))"

definition erase_new :: "char list \<Rightarrow> path list \<Rightarrow> path list res" where
  "erase_new p reg =
     (let name = takeWhile (\<lambda>c. c \<noteq> slash) (dropWhile (\<lambda>c. c = slash) p) in
      if 20 \<le> length name then crash OutOfBounds
      else Inr (filter (\<lambda>q. q = [] \<or> hd q \<noteq> name) reg))"

definition strip_slash :: "char list \<Rightarrow> char list" where
  "strip_slash p = (if last p = slash then butlast p else p)"

definition lproc_init :: "bool \<Rightarrow> (nat \<Rightarrow> bool) \<Rightarrow> char list \<Rightarrow> path list
    \<Rightarrow> int res \<times> path \<times> path list" where
  "lproc_init old mk p reg =
     (if p = [] then (crash OutOfBounds, [], reg)
      else (case mk_path 20 True mk 0 (strip_slash p) [] reg of
         (Inl e, reg') \<Rightarrow> (Inl e, [], reg')
       | (Inr (Made node), reg') \<Rightarrow> (Inr 0, node, reg')
       | (Inr (Stuck parent), reg') \<Rightarrow>
           (case (if old then erase_old parent reg' else erase_new (strip_slash p) reg') of
              Inl e \<Rightarrow> (Inl e, [], reg') | Inr reg'' \<Rightarrow> (fail ENOENT, [], reg''))))"

definition lproc_exit :: "bool \<Rightarrow> char list \<Rightarrow> path \<Rightarrow> path list \<Rightarrow> path list res" where
  "lproc_exit old p node reg = (if old then erase_old node reg else erase_new (strip_slash p) reg)"

text \<open>A path of components.\<close>

fun join_path :: "path \<Rightarrow> char list" where
  "join_path [] = []"
| "join_path [c] = c"
| "join_path (c # cs) = c @ slash # join_path cs"

definition comp_ok :: "nat \<Rightarrow> char list \<Rightarrow> bool" where
  "comp_ok lim c \<longleftrightarrow> c \<noteq> [] \<and> slash \<notin> set c \<and> length c < lim"

fun push :: "path \<Rightarrow> path \<Rightarrow> path list \<Rightarrow> path list" where
  "push parent [] reg = reg"
| "push parent (c # cs) reg = push (parent @ [c]) cs ((parent @ [c]) # reg)"

lemma push_snoc: "push parent (cs @ [c]) reg = (parent @ cs @ [c]) # push parent cs reg"
  by (induction cs arbitrary: parent reg) simp_all

lemma erase_up_push: "erase_up (parent @ cs) (push parent cs reg) = erase_up parent reg"
proof (induction cs rule: rev_induct)
  case (snoc c cs)
  then show ?case
    by (subst erase_up.simps) (simp add: push_snoc butlast_append)
qed simp

lemma erase_old_push:
  "cs \<noteq> [] \<Longrightarrow> erase_old (take m cs) (push [] (take m cs) reg) = (if m = 0 then crash NullDeref else Inr reg)"
  using erase_up_push [of "[]" "take m cs" reg] by (simp add: erase_old_def erase_up.simps [of "[]"])

lemma push_head: "\<exists>ps. push [] (c # cs) reg = ps @ reg \<and> (\<forall>p \<in> set ps. p \<noteq> [] \<and> hd p = c)"
proof (induction cs rule: rev_induct)
  case Nil
  then show ?case by (intro exI [of _ "[[c]]"]) simp
next
  case (snoc d cs)
  then obtain ps where "push [] (c # cs) reg = ps @ reg" "\<forall>p \<in> set ps. p \<noteq> [] \<and> hd p = c" by blast
  then show ?case
    using push_snoc [of "[]" "c # cs" d reg] by (intro exI [of _ "(c # cs @ [d]) # ps"]) simp
qed

lemma mk_path_component:
  "comp_ok lim c \<Longrightarrow> mk_path lim skip mk k (c @ slash # r) parent reg =
    (if mk k then mk_path lim skip mk (Suc k) r (parent @ [c]) ((parent @ [c]) # reg) else (Inr (Stuck parent), reg))"
proof -
  assume c: "comp_ok lim c"
  have t: "takeWhile (\<lambda>c. c \<noteq> slash) (c @ slash # r) = c" "dropWhile (\<lambda>c. c \<noteq> slash) (c @ slash # r) = slash # r"
    using c by (subst takeWhile_append2 dropWhile_append2; auto simp: comp_ok_def)+
  show ?thesis
    using c by (subst mk_path.simps) (simp add: t comp_ok_def)
qed

lemma mk_path_join:
  "cs \<noteq> [] \<Longrightarrow> \<forall>c \<in> set cs. comp_ok lim c \<Longrightarrow> m \<le> length cs \<Longrightarrow> \<forall>i < m. mk (k + i) \<Longrightarrow>
    (m < length cs \<Longrightarrow> \<not> mk (k + m)) \<Longrightarrow>
    mk_path lim skip mk k (join_path cs) parent reg
      = (Inr (if m = length cs then Made (parent @ cs) else Stuck (parent @ take m cs)), push parent (take m cs) reg)"
proof (induction cs arbitrary: k m parent reg rule: join_path.induct)
  case (2 c)
  then show ?case by (cases m) (simp_all add: mk_path.simps [of lim skip mk k c] comp_ok_def)
next
  case (3 c d cs)
  have c: "comp_ok lim c" using 3 by simp
  show ?case
  proof (cases m)
    case 0
    then show ?thesis using 3 by (simp add: mk_path_component [OF c])
  next
    case (Suc m')
    then have "mk k" "\<forall>i < m'. mk (Suc k + i)"
      using "3.prems"(4) by (metis add.right_neutral zero_less_Suc, metis Suc_less_eq add_Suc_shift)
    then show ?thesis using "3.IH" [of m' "Suc k"] "3.prems" Suc by (simp add: mk_path_component [OF c])
  qed
qed simp

lemma join_path_ends:
  "cs \<noteq> [] \<Longrightarrow> \<forall>c \<in> set cs. comp_ok lim c \<Longrightarrow> join_path cs \<noteq> [] \<and> last (join_path cs) \<noteq> slash"
  by (induction cs rule: join_path.induct) (auto simp: comp_ok_def dest: last_in_set)

lemma join_path_first:
  assumes "cs \<noteq> []" "\<forall>c \<in> set cs. comp_ok lim c"
  shows "takeWhile (\<lambda>c. c \<noteq> slash) (dropWhile (\<lambda>c. c = slash) (join_path cs)) = hd cs"
proof -
  obtain c where r: "comp_ok lim c" "hd cs = c" "join_path cs = c \<or> (\<exists>r. join_path cs = c @ slash # r)"
    using assms by (cases cs rule: join_path.cases) auto
  have "dropWhile (\<lambda>c. c = slash) (c @ x) = c @ x" "takeWhile (\<lambda>c. c \<noteq> slash) (c @ slash # x) = c"
    "takeWhile (\<lambda>c. c \<noteq> slash) c = c" for x
    using r(1) unfolding comp_ok_def by (cases c; auto simp: takeWhile_append)+
  then show ?thesis using r(2,3) by (metis append_Nil2)
qed

text \<open>C39: \<open>procdat\<close> given a path of well-formed components (with or without a final slash): if every
  creation succeeds, exactly the directories on the path and the node are made, and unloading
  removes them again; if one fails, nothing of what was made is left, except that on old kernels
  a failure of the very first creation dereferences a null pointer. On newer kernels this needs
  that nothing else lives under the first component.\<close>

theorem lproc_path:
  assumes "cs \<noteq> []" "\<forall>c \<in> set cs. comp_ok 20 c" "p = join_path cs \<or> p = join_path cs @ [slash]"
    and "m \<le> length cs" "\<forall>i < m. mk i" "m < length cs \<longrightarrow> \<not> mk m"
    and "old \<or> (\<forall>q \<in> set reg. q = [] \<or> hd q \<noteq> hd cs)"
  shows "lproc_init old mk p reg =
      (if m = length cs then (Inr 0, cs, push [] cs reg)
       else if old \<and> m = 0 then (crash NullDeref, [], reg)
       else (fail ENOENT, [], reg))
    \<and> lproc_exit old p cs (push [] cs reg) = Inr reg"
proof -
  have st: "strip_slash p = join_path cs" "p \<noteq> []"
    using assms(3) join_path_ends [OF assms(1,2)] by (auto simp: strip_slash_def)
  note mk = mk_path_join [where k = 0 and skip = True and parent = "[]" and reg = reg and mk = mk, OF assms(1,2,4), simplified]
  note up = erase_old_push [OF assms(1)]
  have sub: "erase_new (join_path cs) (push [] (take m cs) reg) = Inr reg" if "\<not> old" for m
  proof -
    have l: "\<not> 20 \<le> length (hd cs)" using assms(1,2) by (auto simp: comp_ok_def not_le)
    have "filter (\<lambda>q. q = [] \<or> hd q \<noteq> hd cs) reg = reg" using assms(7) that by (simp add: filter_id_conv)
    moreover have "filter (\<lambda>q. q = [] \<or> hd q \<noteq> hd cs) (push [] (take m cs) reg) = filter (\<lambda>q. q = [] \<or> hd q \<noteq> hd cs) reg"
    proof (cases "take m cs")
      case (Cons c r)
      then have "c = hd cs" using assms(1) by (cases cs; cases m) auto
      then show ?thesis using push_head [of c r reg] Cons by auto
    qed (simp only: push.simps)
    ultimately show ?thesis
      by (simp only: erase_new_def join_path_first [OF assms(1,2)] Let_def l if_False)
  qed
  have ex: "lproc_exit old p cs (push [] cs reg) = Inr reg"
    using up [of "length cs" reg] sub [of "length cs"] assms(1) by (simp add: lproc_exit_def st)
  have "lproc_init old mk p reg =
      (if m = length cs then (Inr 0, cs, push [] cs reg)
       else if old \<and> m = 0 then (crash NullDeref, [], reg)
       else (fail ENOENT, [], reg))"
    using mk assms(4-6) up [of m reg] sub [of m] by (auto simp: lproc_init_def st)
  then show ?thesis using ex by blast
qed

theorem lproc_path_witness:
  "lproc_init False (\<lambda>i. True) ''a/dir/node/'' [[''cpuinfo'']]
    = (Inr 0, [''a'', ''dir'', ''node''], [[''a'', ''dir'', ''node''], [''a'', ''dir''], [''a''], [''cpuinfo'']])"
proof -
  have "\<forall>c \<in> set [''a'', ''dir'', ''node'']. comp_ok 20 c" by (simp add: comp_ok_def)
  from lproc_path [OF _ this, of "''a/dir/node/''" 3 "\<lambda>i. True" False "[[''cpuinfo'']]"] show ?thesis by simp
qed

text \<open>Where something already lives under the first component, the error path removes it.\<close>

lemma lproc_removes_foreign:
  "lproc_init False (\<lambda>i. False) ''sys/x'' [[''sys'', ''kernel''], [''sys'']] = (fail ENOENT, [], [])"
  by (simp add: lproc_init_def strip_slash_def mk_path.simps erase_new_def Let_def)

text \<open>\<open>procdatlt.c\<close> only works up to kernel 3.9. Without a path it loads without making
  anything.\<close>

definition lt_init :: "bool \<Rightarrow> (nat \<Rightarrow> bool) \<Rightarrow> char list option \<Rightarrow> path list \<Rightarrow> int res \<times> path \<times> path list" where
  "lt_init old mk p reg =
     (if \<not> old then (fail ECANCELED, [], reg)
      else (case p of
         None \<Rightarrow> (Inr 0, [], reg)
       | Some beg \<Rightarrow> (case mk_path 40 False mk 0 beg [] reg of
           (Inl e, reg') \<Rightarrow> (Inl e, [], reg')
         | (Inr (Made node), reg') \<Rightarrow> (Inr 0, node, reg')
         | (Inr (Stuck parent), reg') \<Rightarrow> (case erase_old parent reg' of
               Inl e \<Rightarrow> (Inl e, [], reg') | Inr reg'' \<Rightarrow> (fail ENOENT, [], reg'')))))"

definition lt_exit :: "bool \<Rightarrow> path \<Rightarrow> path list \<Rightarrow> path list res" where
  "lt_exit old node reg = (if old then erase_old node reg else Inr reg)"

text \<open>The same promise holds of it, without the reservation about other entries.\<close>

lemma lt_path:
  assumes "cs \<noteq> []" "\<forall>c \<in> set cs. comp_ok 40 c" "m \<le> length cs" "\<forall>i < m. mk i" "m < length cs \<longrightarrow> \<not> mk m"
  shows "lt_init True mk (Some (join_path cs)) reg =
      (if m = length cs then (Inr 0, cs, push [] cs reg)
       else if m = 0 then (crash NullDeref, [], reg)
       else (fail ENOENT, [], reg))
    \<and> lt_exit True cs (push [] cs reg) = Inr reg"
proof -
  note mk = mk_path_join [where k = 0 and skip = False and parent = "[]" and reg = reg and mk = mk, OF assms(1-3), simplified]
  have "lt_exit True cs (push [] cs reg) = Inr reg"
    using erase_old_push [OF assms(1), of "length cs" reg] assms(1) by (simp add: lt_exit_def)
  then show ?thesis
    using mk assms(3-5) erase_old_push [OF assms(1), of m reg] by (auto simp: lt_init_def)
qed

lemma lt_exit_without_path: "lt_init True mk None reg = (Inr 0, [], reg) \<and> lt_exit True [] reg = crash NullDeref"
  by (simp add: lt_init_def lt_exit_def erase_old_def)

end
