(* ===== verification/Sys_Node.thy ===== *)
theory Sys_Node
  imports Asu Proc_Node
begin

text \<open>
  Numbers as nodes: the data of \<open>Tasks/+TASKS/lproc\<close> (a node of /proc), \<open>Tasks/+TASKS/sys/sysdat.c\<close>
  (an attribute of a class of /sys), \<open>sys/syskdat.c\<close> (three attributes of a kobject), and the
  loading of these two modules and of \<open>asu/modsasu.c\<close>.
\<close>

section \<open>The value of the node at a path (lproc/procdat.c)\<close>

definition lnode_read :: "ucopy \<Rightarrow> nat \<Rightarrow> int \<Rightarrow> nat res \<times> char list \<times> nat" where
  "lnode_read uc pos v =
     (if pos \<noteq> 0 then (Inr 0, [], pos)
      else (let m = show_int v @ [NL] in
        if uc 0 (length m) \<noteq> 0 then (fail EFAULT, to_user uc 0 m, pos)
        else (Inr (length m), m, length m)))"

text \<open>As the nodes of \<open>asu\<close>, with the same buffer of 30 bytes.\<close>

definition lnode_write :: "ucopy \<Rightarrow> strtol \<Rightarrow> char list \<Rightarrow> char list \<Rightarrow> int \<Rightarrow> nat res \<times> int" where
  "lnode_write uc st stk buf v = (case recv_number uc st stk buf of
     Inl e \<Rightarrow> (Inl e, v) | Inr (len, res) \<Rightarrow> (Inr len, res))"

section \<open>An attribute of a class (sys/sysdat.c)\<close>

definition BUF_MSG :: nat where
  "BUF_MSG = 30"

definition node_show :: "int \<Rightarrow> nat \<times> char list" where
  "node_show v = (length (show_int v @ [NL]), show_int v @ [NL])"

text \<open>\<open>strncpy\<close> writes \<open>count\<close> bytes, filled up with zeros; nothing compares \<open>count\<close> with the
  size of the array \<open>stk\<close>.\<close>

definition strncpy :: "char list \<Rightarrow> char list \<Rightarrow> nat \<Rightarrow> char list res" where
  "strncpy dst src n =
     (if length dst < n then crash OutOfBounds
      else Inr (blit dst 0 (take n (cstr src @ replicate n NUL))))"

definition node_store :: "strtol \<Rightarrow> char list \<Rightarrow> char list \<Rightarrow> int \<Rightarrow> nat res \<times> int" where
  "node_store st stk buf v =
     (let cnt = length buf in
      case strncpy stk buf cnt of
        Inl e \<Rightarrow> (Inl e, v)
      | Inr b \<Rightarrow>
          (if cnt = 0 then (crash OutOfBounds, v)
           else if b ! (cnt - 1) \<noteq> NL \<and> length b \<le> cnt then (crash OutOfBounds, v)
           else (let b' = terminate b cnt; (res, endp) = st (cstr b') in
             if strlen b' = 0 then (fail EINVAL, v)
             else if strlen b' \<noteq> endp then (fail EINVAL, v)
             else (Inr cnt, res))))"

lemma node_store_line:
  assumes "strtol_ok st" "length stk = BUF_MSG" "in_long w" "nl = [] \<or> nl = [NL]"
  shows "node_store st stk (show_int w @ nl) v = (Inr (length (show_int w @ nl)), w)"
proof -
  let ?t = "show_int w @ nl"
  have l: "length ?t < BUF_MSG" "?t \<noteq> []" "show_int w \<noteq> []"
    using length_show_int [OF assms(3)] assms(4) by (auto simp: BUF_MSG_def show_int_def)
  have n: "NUL \<notin> set ?t" using assms(4) by (auto simp: set_show_int)
  have c: "cstr ?t = ?t" using n by (rule cstr_id)
  define b where "b = blit stk 0 ?t"
  have sn: "strncpy stk ?t (length ?t) = Inr b"
    using l(1) assms(2) by (simp only: strncpy_def c b_def) simp
  have lb: "length b = BUF_MSG" using l(1) assms(2) by (simp add: b_def)
  have tb: "take (length ?t) b = ?t" using l(1) assms(2) by (simp add: b_def blit_def)
  have "cstr (terminate b (length ?t)) = chomp ?t"
    by (rule cstr_terminate [OF tb _ l(2) n]) (use l lb in simp)
  moreover have "last (show_int w) \<noteq> NL" using last_in_set [OF l(3)] set_show_int(2) [of w] by metis
  then have "chomp ?t = show_int w" using assms(4) by (auto simp: chomp_def)
  ultimately have t: "cstr (terminate b (length ?t)) = show_int w" by simp
  have z: "length ?t \<noteq> 0" "\<not> length b \<le> length ?t" "length (show_int w) \<noteq> 0" using l lb by auto
  show ?thesis
    unfolding node_store_def sn Let_def sum.case t strlen_def
    using z assms(1,3) by (simp add: strtol_ok_def)
qed

lemma node_store_refuses: "node_store st stk buf v = (Inl e, v') \<Longrightarrow> v' = v"
  by (auto simp: node_store_def Let_def split: sum.splits prod.splits if_splits)

text \<open>Anything longer than the array is written past its end.\<close>

lemma node_store_overflow: "length stk < length buf \<Longrightarrow> node_store st stk buf v = (crash OutOfBounds, v)"
  by (simp add: node_store_def strncpy_def)

section \<open>Three attributes of a kobject (sys/syskdat.c)\<close>

definition title :: "char list list" where
  "title = [''node1'', ''node2'', ''node3'']"

definition ktarget :: "char list \<Rightarrow> nat option" where
  "ktarget name = (if name = title ! 0 then Some 0 else if name = title ! 1 then Some 1
     else if name = title ! 2 then Some 2 else None)"

definition kshow :: "char list \<Rightarrow> int list \<Rightarrow> nat res \<times> char list" where
  "kshow name vs = (case ktarget name of
     None \<Rightarrow> (fail EINVAL, [])
   | Some i \<Rightarrow> (Inr (length (show_int (vs ! i) @ [NL])), show_int (vs ! i) @ [NL]))"

text \<open>\<open>ss\<close> is the kernel's \<open>sscanf( buf, "%d", pv )\<close>: None if it converts nothing.\<close>

definition kstore :: "kscan \<Rightarrow> char list \<Rightarrow> char list \<Rightarrow> int list \<Rightarrow> nat res \<times> int list" where
  "kstore ss name buf vs = (case ktarget name of
     None \<Rightarrow> (fail EINVAL, vs)
   | Some i \<Rightarrow> (case ss (cstr buf) of
       None \<Rightarrow> (fail EINVAL, vs) | Some x \<Rightarrow> (Inr (length buf), vs[i := x])))"

definition scans_lines :: "kscan \<Rightarrow> bool" where
  "scans_lines ss \<longleftrightarrow> (\<forall>i. \<bar>i\<bar> < 2 ^ 31 \<longrightarrow> ss (show_int i) = Some i \<and> ss (show_int i @ [NL]) = Some i)"

lemma ktarget_less: "ktarget name = Some i \<Longrightarrow> i < 3"
  by (auto simp: ktarget_def split: if_splits)

lemma ktarget_title: "i < 3 \<Longrightarrow> ktarget (title ! i) = Some i"
  by (auto simp: ktarget_def title_def numeral_3_eq_3 less_Suc_eq)

text \<open>What \<open>echo n\<close> stores in an attribute is what \<open>cat\<close> shows of it, with or without the
  newline, for the class attribute (any \<open>long\<close>) and each of the three kobject attributes (any
  \<open>int\<close>); the other two keep their values.\<close>

theorem sys_attributes_roundtrip:
  assumes "strtol_ok st" "length stk = BUF_MSG" "scans_lines ss" "nl = [] \<or> nl = [NL]"
    and "in_long w" "\<bar>x\<bar> < 2 ^ 31" "i < 3" "length vs = 3"
  shows "(case node_store st stk (show_int w @ nl) v of (r, v') \<Rightarrow>
        r = Inr (length (show_int w @ nl)) \<and> snd (node_show v') = show_int w @ [NL])
    \<and> (case kstore ss (title ! i) (show_int x @ nl) vs of (r, vs') \<Rightarrow>
        r = Inr (length (show_int x @ nl)) \<and> snd (kshow (title ! i) vs') = show_int x @ [NL]
        \<and> (\<forall>j < 3. j \<noteq> i \<longrightarrow> kshow (title ! j) vs' = kshow (title ! j) vs))"
proof -
  have "NUL \<notin> set (show_int x @ nl)" using assms(4) by (auto simp: set_show_int)
  then have "ss (cstr (show_int x @ nl)) = Some x"
    using assms(3,4,6) by (auto simp: scans_lines_def cstr_id)
  then have "kstore ss (title ! i) (show_int x @ nl) vs = (Inr (length (show_int x @ nl)), vs[i := x])"
    by (simp add: kstore_def ktarget_title [OF assms(7)])
  then show ?thesis
    using assms(7,8) by (simp add: node_store_line [OF assms(1,2,5,4)] node_show_def kshow_def ktarget_title)
qed

theorem sys_attributes_roundtrip_witness:
  "snd (kshow ''node2'' (snd (kstore (\<lambda>s. Some (fst (scan_int s))) ''node2'' (''-12'' @ [NL]) [0, 0, 0]))) = ''-12'' @ [NL]"
proof -
  have sl: "fst (scan_int (show_int i @ nl)) = i" if "nl = [] \<or> nl = [NL]" for i nl
    using that scan_int_stop [of NL i "[]"] by (auto simp: scan_show_int digit_val_def)
  have t: "show_int (-12) = ''-12''" by (simp add: show_int_def show_nat.simps digit_def)
  have "scans_lines (\<lambda>s. Some (fst (scan_int s)))" using sl [of "[]"] sl [of "[NL]"] by (simp add: scans_lines_def)
  from sys_attributes_roundtrip [OF strtol_ok_scan_int _ this, of "replicate 30 NUL" "[NL]" 5 "-12" 1 "[0, 0, 0]" 0] t
  show ?thesis by (auto simp: BUF_MSG_def in_long_def title_def split: prod.splits)
qed

section \<open>Loading the modules\<close>

text \<open>The outcomes of creating the directory and of creating its nodes; \<open>entries\<close> is what exists
  in /sys.\<close>

record sys_env =
  kdir_ok :: bool
  kret :: int

record sys_reg =
  sys_entries :: "char list list list"
  sys_name :: "char list"

text \<open>The directory's name goes into an array of 40 bytes.\<close>

definition sys_path_name :: "char list option \<Rightarrow> char list res" where
  "sys_path_name p = (case p of
     None \<Rightarrow> Inr ''data''
   | Some q \<Rightarrow> (if slash \<in> set q then fail EINVAL else if 40 \<le> length q then crash OutOfBounds else Inr q))"

definition sysdat_init :: "char list option \<Rightarrow> sys_env \<Rightarrow> sys_reg \<Rightarrow> int res \<times> sys_reg" where
  "sysdat_init p e s = (case sys_path_name p of
     Inl f \<Rightarrow> (Inl f, s)
   | Inr name \<Rightarrow>
      (if \<not> kdir_ok e then (fail ENOENT, s)
       else (let s1 = s\<lparr>sys_entries := [name] # sys_entries s, sys_name := name\<rparr> in
         if kret e \<noteq> 0 then (fail ENOENT, s1\<lparr>sys_entries := remove1 [name] (sys_entries s1)\<rparr>)
         else (Inr 0, s1\<lparr>sys_entries := [name, ''node''] # sys_entries s1\<rparr>))))"

definition sysdat_exit :: "sys_reg \<Rightarrow> sys_reg" where
  "sysdat_exit s = s\<lparr>sys_entries := remove1 [sys_name s] (remove1 [sys_name s, ''node''] (sys_entries s))\<rparr>"

text \<open>\<open>kobject_put\<close> on the last reference removes the directory with its nodes.\<close>

definition kobject_put :: "char list \<Rightarrow> sys_reg \<Rightarrow> sys_reg" where
  "kobject_put name s = s\<lparr>sys_entries := filter (\<lambda>q. q = [] \<or> hd q \<noteq> name) (sys_entries s)\<rparr>"

definition sysk_init :: "char list option \<Rightarrow> sys_env \<Rightarrow> sys_reg \<Rightarrow> int res \<times> sys_reg" where
  "sysk_init p e s = (case sys_path_name p of
     Inl f \<Rightarrow> (Inl f, s)
   | Inr name \<Rightarrow>
      (if \<not> kdir_ok e then (fail ENOMEM, s)
       else (let s1 = s\<lparr>sys_entries := [name] # sys_entries s, sys_name := name\<rparr> in
         if kret e \<noteq> 0 then (Inr (kret e), kobject_put name s1)
         else (Inr 0, s1\<lparr>sys_entries := map (\<lambda>t. [name, t]) title @ sys_entries s1\<rparr>))))"

definition sysk_exit :: "sys_reg \<Rightarrow> sys_reg" where
  "sysk_exit s = kobject_put (sys_name s) s"

definition sasu_init :: "int \<Rightarrow> sys_env \<Rightarrow> sys_reg \<times> sasu \<Rightarrow> int res \<times> sys_reg \<times> sasu" where
  "sasu_init mul e = (\<lambda>(s, a).
     let a1 = (if mul \<noteq> 0 then poke PMulty mul a else a) in
     if \<not> kdir_ok e then (fail ENOMEM, s, a1)
     else (let s1 = s\<lparr>sys_entries := [''asu''] # sys_entries s, sys_name := ''asu''\<rparr> in
       if kret e \<noteq> 0 then (Inr (kret e), kobject_put ''asu'' s1, a1)
       else (Inr 0, s1\<lparr>sys_entries := map (\<lambda>t. [''asu'', t]) points @ sys_entries s1\<rparr>, a1)))"

definition sasu_exit :: "sys_reg \<Rightarrow> sys_reg" where
  "sasu_exit s = kobject_put ''asu'' s"

text \<open>Nothing in /sys lives under the name yet.\<close>

definition sys_free :: "char list \<Rightarrow> sys_reg \<Rightarrow> bool" where
  "sys_free name s \<longleftrightarrow> (\<forall>q \<in> set (sys_entries s). q = [] \<or> hd q \<noteq> name)"

lemma kobject_put_filter:
  "sys_free name s \<Longrightarrow> filter (\<lambda>q. q = [] \<or> hd q \<noteq> name) (sys_entries s) = sys_entries s"
  by (simp add: sys_free_def filter_id_conv)

lemma sys_load:
  assumes "\<And>name. sys_path_name p = Inr name \<Longrightarrow> sys_free name s"
  shows "case sysdat_init p e s of (r, s') \<Rightarrow>
      if r = Inr 0 then sys_entries (sysdat_exit s') = sys_entries s else sys_entries s' = sys_entries s"
    and "case sysk_init p e s of (r, s') \<Rightarrow>
      if r = Inr 0 then sys_entries (sysk_exit s') = sys_entries s else sys_entries s' = sys_entries s"
    and "sys_free ''asu'' s \<Longrightarrow> case sasu_init mul e (s, a) of (r, s', a') \<Rightarrow>
      if r = Inr 0 then sys_entries (sasu_exit s') = sys_entries s else sys_entries s' = sys_entries s"
  using assms kobject_put_filter [of _ s]
  by (auto simp: sysdat_init_def sysdat_exit_def sysk_init_def sysk_exit_def sasu_init_def sasu_exit_def
      kobject_put_def title_def points_def Let_def split: sum.splits)

end
