(* ===== verification/Sys_Class.thy ===== *)
theory Sys_Class
  imports Sys_Node
begin

text \<open>
  Texts as attributes of a class in /sys, \<open>Tasks/sys\<close>: \<open>xxx.c\<close> (one attribute), \<open>xxm.c\<close> (three, from a
  macro) and \<open>xxe.c\<close> (one whose methods report an error). The state is the buffers, 161 bytes each, and
  what exists in /sys.
\<close>

definition LEN_MSG :: nat where
  "LEN_MSG = 160"

record class_state =
  texts :: "char list list"
  has_class :: bool
  attrs :: "char list list"

section \<open>Methods\<close>

text \<open>\<open>strcpy\<close> to the page of the kernel. The result is the number of bytes, and the page.\<close>

definition SHOW :: "nat \<Rightarrow> char list \<Rightarrow> class_state \<Rightarrow> (int \<times> char list) res" where
  "SHOW i page s =
     (let b = texts s ! i in
      if strlen b + 1 > length page then crash OutOfBounds
      else (let p = blit page 0 (cstr b @ [NUL]) in Inr (int (strlen p), p)))"

text \<open>Nothing compares \<open>count\<close> with the size of the buffer.\<close>

definition STORE :: "nat \<Rightarrow> char list \<Rightarrow> class_state \<Rightarrow> (int \<times> class_state) res" where
  "STORE i buf s =
     (let cnt = length buf in
      case strncpy (texts s ! i) buf cnt of
        Inl e \<Rightarrow> Inl e
      | Inr b \<Rightarrow> if length b \<le> cnt then crash OutOfBounds
          else Inr (int cnt, s\<lparr>texts := (texts s)[i := b[cnt := NUL]]\<rparr>))"

text \<open>The methods of \<open>xxx.c\<close> are those of a single buffer.\<close>

definition x_show :: "char list \<Rightarrow> class_state \<Rightarrow> (int \<times> char list) res" where
  "x_show page s = SHOW 0 page s"

definition x_store :: "char list \<Rightarrow> class_state \<Rightarrow> (int \<times> class_state) res" where
  "x_store buf s = STORE 0 buf s"

text \<open>In \<open>xxe.c\<close> they do the same and return an error.\<close>

definition xe_show :: "char list \<Rightarrow> class_state \<Rightarrow> (int \<times> char list) res" where
  "xe_show page s = map_sum id (\<lambda>(n, p). (-5, p)) (SHOW 0 page s)"

definition xe_store :: "char list \<Rightarrow> class_state \<Rightarrow> (int \<times> class_state) res" where
  "xe_store buf s = map_sum id (\<lambda>(n, s'). (-5, s')) (STORE 0 buf s)"

section \<open>Loading and unloading\<close>

text \<open>A class that could not be made is only logged, and its error pointer is used for the attributes.
  \<open>fr\<close> are the results of the creations.\<close>

definition make_attr :: "char list \<Rightarrow> int \<Rightarrow> class_state \<Rightarrow> (int \<times> class_state) res" where
  "make_attr nm r s = (if \<not> has_class s then crash NullDeref
     else Inr (r, if r = 0 then s\<lparr>attrs := nm # attrs s\<rparr> else s))"

definition x_init :: "bool \<Rightarrow> int \<Rightarrow> class_state \<Rightarrow> (int \<times> class_state) res" where
  "x_init class_ok r s = make_attr ''xxx'' r (s\<lparr>has_class := class_ok\<rparr>)"

definition x_cleanup :: "class_state \<Rightarrow> class_state res" where
  "x_cleanup s = (if \<not> has_class s then crash NullDeref
     else Inr (s\<lparr>attrs := remove1 ''xxx'' (attrs s), has_class := False\<rparr>))"

definition xe_init :: "bool \<Rightarrow> int \<Rightarrow> class_state \<Rightarrow> (int \<times> class_state) res" where
  "xe_init class_ok r s = map_sum id (\<lambda>(_, s'). (0, s')) (make_attr ''xxx'' r (s\<lparr>has_class := class_ok\<rparr>))"

definition xm_init :: "bool \<Rightarrow> int \<Rightarrow> int \<Rightarrow> int \<Rightarrow> class_state \<Rightarrow> (int \<times> class_state) res" where
  "xm_init class_ok r1 r2 r3 s =
     (case make_attr ''data1'' r1 (s\<lparr>has_class := class_ok\<rparr>) of Inl x \<Rightarrow> Inl x
      | Inr (_, s1) \<Rightarrow> (case make_attr ''data2'' r2 s1 of Inl x \<Rightarrow> Inl x
        | Inr (_, s2) \<Rightarrow> map_sum id (\<lambda>(_, s3). (0, s3)) (make_attr ''data3'' r3 s2)))"

definition xm_cleanup :: "class_state \<Rightarrow> class_state res" where
  "xm_cleanup s = (if \<not> has_class s then crash NullDeref
     else Inr (s\<lparr>attrs := remove1 ''data3'' (remove1 ''data2'' (remove1 ''data1'' (attrs s))), has_class := False\<rparr>))"

section \<open>Texts stored and shown\<close>

definition texts_ok :: "class_state \<Rightarrow> bool" where
  "texts_ok s \<longleftrightarrow> (\<forall>b \<in> set (texts s). length b = LEN_MSG + 1 \<and> NUL \<in> set b)"

definition stored :: "char list \<Rightarrow> char list \<Rightarrow> char list" where
  "stored b t = (blit b 0 (take (length t) (cstr t @ replicate (length t) NUL)))[length t := NUL]"

lemma store_result:
  assumes "texts_ok s" "i < length (texts s)"
  shows "STORE i buf s = (if length buf > LEN_MSG then crash OutOfBounds
    else Inr (int (length buf), s\<lparr>texts := (texts s)[i := stored (texts s ! i) buf]\<rparr>))"
  using assms by (auto simp: STORE_def strncpy_def texts_ok_def stored_def Let_def)

lemma stored_text:
  assumes "length b = LEN_MSG + 1" "length t \<le> LEN_MSG"
  shows "cstr (stored b t) = cstr t" "length (stored b t) = LEN_MSG + 1" "NUL \<in> set (stored b t)"
proof -
  let ?t = "take (length t) (cstr t @ replicate (length t) NUL)"
  have le: "length (cstr t) \<le> length t" using strlen_le [of t] by (simp add: strlen_def)
  then have t: "?t = cstr t @ replicate (length t - length (cstr t)) NUL" by simp
  have l: "length ?t = length t" using le by simp
  obtain c r where d: "drop (length t) b = c # r" using assms by (cases "drop (length t) b") auto
  then have "blit b 0 ?t = ?t @ c # r" using l by (simp add: blit_def)
  then have "stored b t = ?t @ NUL # r" using l list_update_length [of ?t c r NUL] by (simp add: stored_def)
  then have st: "stored b t = cstr t @ replicate (length t - length (cstr t)) NUL @ NUL # r" using t by simp
  show "cstr (stored b t) = cstr t"
    unfolding st by (cases "length t - length (cstr t)") (simp_all add: cstr_terminated cstr_noNUL)
  show "NUL \<in> set (stored b t)" unfolding st by simp
  show "length (stored b t) = LEN_MSG + 1" using assms le by (simp add: stored_def)
qed

lemma texts_ok_update:
  "texts_ok s \<Longrightarrow> i < length (texts s) \<Longrightarrow> length t \<le> LEN_MSG \<Longrightarrow>
    texts_ok (s\<lparr>texts := (texts s)[i := stored (texts s ! i) t]\<rparr>)"
  using stored_text(2,3) [of "texts s ! i" t]
  by (auto simp: texts_ok_def dest!: set_update_subset_insert [THEN subsetD])

text \<open>A text without zero bytes of at most 160 characters stored in an attribute is what a later show
  returns, whatever was stored in another attribute in between. The methods of \<open>xxe.c\<close>, which report an
  error, have done the same.\<close>

theorem class_attr_roundtrip:
  assumes "texts_ok s" "i < length (texts s)" "NUL \<notin> set t" "length t \<le> LEN_MSG" "length page = 4096"
    and "j < length (texts s)" "j \<noteq> i" "length u \<le> LEN_MSG"
  shows "\<exists>s1 s2 p. STORE i t s = Inr (int (length t), s1) \<and> STORE j u s1 = Inr (int (length u), s2)
    \<and> SHOW i page s2 = Inr (int (length t), p) \<and> cstr p = t \<and> texts_ok s2
    \<and> (i = 0 \<longrightarrow> xe_store t s = Inr (-5, s1))"
proof -
  let ?s1 = "s\<lparr>texts := (texts s)[i := stored (texts s ! i) t]\<rparr>"
  let ?s2 = "?s1\<lparr>texts := (texts ?s1)[j := stored (texts ?s1 ! j) u]\<rparr>"
  have li: "length (texts s ! i) = LEN_MSG + 1" using assms(1,2) by (auto simp: texts_ok_def)
  have s1: "STORE i t s = Inr (int (length t), ?s1)" using assms(1,2,4) by (simp add: store_result)
  have ok1: "texts_ok ?s1" using assms(1,2,4) by (rule texts_ok_update)
  have s2: "STORE j u ?s1 = Inr (int (length u), ?s2)" using ok1 assms(6,8) by (simp add: store_result)
  have ok2: "texts_ok ?s2" using texts_ok_update [OF ok1, of j u] assms(6,8) by simp
  have "texts ?s2 ! i = stored (texts s ! i) t" using assms(2,7) by simp
  then have c: "cstr (texts ?s2 ! i) = t" using stored_text(1) [OF li assms(4)] assms(3) by (simp add: cstr_id)
  then have n: "strlen (texts ?s2 ! i) = length t" by (simp add: strlen_def)
  let ?p = "blit page 0 (t @ [NUL])"
  have cp: "cstr ?p = t" using assms(3) by (simp add: blit_def cstr_terminated)
  have "SHOW i page ?s2 = Inr (int (length t), ?p)"
    unfolding SHOW_def Let_def c n using cp assms(4,5) by (simp add: LEN_MSG_def strlen_def)
  moreover have "i = 0 \<longrightarrow> xe_store t s = Inr (-5, ?s1)" using s1 by (auto simp: xe_store_def)
  ultimately show ?thesis using s1 s2 cp ok2 by blast
qed

theorem class_attr_roundtrip_witness:
  "\<exists>s1 s2 p. STORE 1 ''on'' \<lparr>texts = replicate 3 (replicate 161 NUL), has_class = True, attrs = []\<rparr> = Inr (2, s1)
    \<and> STORE 2 ''off'' s1 = Inr (3, s2) \<and> SHOW 1 (replicate 4096 NUL) s2 = Inr (2, p) \<and> cstr p = ''on''"
proof -
  have "texts_ok \<lparr>texts = replicate 3 (replicate 161 NUL), has_class = True, attrs = []\<rparr>"
    by (simp add: texts_ok_def LEN_MSG_def)
  from class_attr_roundtrip [OF this, of 1 "''on''" "replicate 4096 NUL" 2 "''off''"]
  show ?thesis by (auto simp: LEN_MSG_def)
qed

lemma class_load_unload:
  "x_init True 0 s = Inr (r, s') \<Longrightarrow> r = 0 \<and> (\<exists>s2. x_cleanup s' = Inr s2 \<and> attrs s2 = attrs s \<and> \<not> has_class s2)"
  "xm_init True 0 0 0 s = Inr (r, s') \<Longrightarrow> r = 0 \<and> (\<exists>s2. xm_cleanup s' = Inr s2 \<and> attrs s2 = attrs s \<and> \<not> has_class s2)"
  by (auto simp: x_init_def xm_init_def x_cleanup_def xm_cleanup_def make_attr_def)

text \<open>A class that was not made is used all the same; a refused attribute leaves the class behind.\<close>

lemma class_failures:
  "x_init False r s = crash NullDeref" "xm_init False r1 r2 r3 s = crash NullDeref" "xe_init False r s = crash NullDeref"
  "r \<noteq> 0 \<Longrightarrow> x_init True r s = Inr (r, s\<lparr>has_class := True\<rparr>)"
  by (simp_all add: x_init_def xm_init_def xe_init_def make_attr_def)

end
