(* ===== verification/Proc_Modules.thy ===== *)
theory Proc_Modules
  imports Proc_Node
begin

text \<open>
  The modules of \<open>Tasks/proc\<close> that install nodes of /proc: \<open>mod_proc.c\<close> (a node), \<open>mod_proct.c\<close>
  (a node in a directory), \<open>mod_2.c\<close>, \<open>mod_procr.c\<close> and \<open>mod_procr2.c\<close> (the reading interface of
  the kernels up to 3.9, \<open>proc_node_read.c\<close>), \<open>variants.le.3.9/mod_proc.c\<close> (with its buffer); and
  the client \<open>mcat.c\<close>.
\<close>

section \<open>Installing the nodes\<close>

definition NAME_DIR :: "char list" where
  "NAME_DIR = ''mod_dir''"

definition NAME_NODE :: "char list" where
  "NAME_NODE = ''mod_node''"

text \<open>The outcomes of the creations; the module's state is what exists in /proc and the two
  methods a node may have.\<close>

record proc_env =
  new_kernel :: bool
  dir_ok :: bool
  node_ok :: bool
  pmode :: int

record proc_reg =
  entries :: "path list"
  has_read_proc :: bool
  has_fops :: bool

definition modproc_init :: "proc_env \<Rightarrow> proc_reg \<Rightarrow> int \<times> proc_reg" where
  "modproc_init e s =
     (if \<not> node_ok e then (-2, s)
      else (0, s\<lparr>entries := [NAME_NODE] # entries s, has_fops := True\<rparr>))"

definition modproc_exit :: "proc_reg \<Rightarrow> proc_reg" where
  "modproc_exit s = s\<lparr>entries := remove1 [NAME_NODE] (entries s)\<rparr>"

definition proct_init :: "proc_env \<Rightarrow> proc_reg \<Rightarrow> int \<times> proc_reg" where
  "proct_init e s =
     (if \<not> dir_ok e then (-2, s)
      else (let s1 = s\<lparr>entries := [NAME_DIR] # entries s\<rparr> in
        if \<not> node_ok e then (-2, s1\<lparr>entries := remove1 [NAME_DIR] (entries s1)\<rparr>)
        else (0, s1\<lparr>entries := [NAME_DIR, NAME_NODE] # entries s1, has_fops := True\<rparr>)))"

definition proct_exit :: "proc_reg \<Rightarrow> proc_reg" where
  "proct_exit s = s\<lparr>entries := remove1 [NAME_DIR] (remove1 [NAME_DIR, NAME_NODE] (entries s))\<rparr>"

definition mod2_init :: "proc_env \<Rightarrow> proc_reg \<Rightarrow> int \<times> proc_reg" where
  "mod2_init e s =
     (if new_kernel e then (-125, s)
      else if \<not> node_ok e then (-2, s)
      else (0, s\<lparr>entries := [NAME_NODE] # entries s,
        has_read_proc := (pmode e \<noteq> 1), has_fops := (pmode e \<noteq> 2)\<rparr>))"

definition procr_init :: "proc_env \<Rightarrow> proc_reg \<Rightarrow> int \<times> proc_reg" where
  "procr_init e s =
     (if new_kernel e then (-125, s)
      else if \<not> node_ok e then (-2, s)
      else (0, s\<lparr>entries := [NAME_NODE] # entries s, has_read_proc := True\<rparr>))"

text \<open>\<open>mod_procr2.c\<close> makes the node and its method in one call.\<close>

definition procr2_init :: "proc_env \<Rightarrow> proc_reg \<Rightarrow> int \<times> proc_reg" where
  "procr2_init e s =
     (if new_kernel e then (-125, s)
      else (case (if node_ok e then Some (s\<lparr>entries := [NAME_NODE] # entries s, has_read_proc := True\<rparr>) else None) of
         None \<Rightarrow> (-2, s) | Some s' \<Rightarrow> (0, s')))"

interpretation modproc: lifecycle modproc_init "\<lambda>_ s. s" modproc_exit entries
  by unfold_locales (auto simp: modproc_init_def modproc_exit_def split: if_splits)

interpretation proct: lifecycle proct_init "\<lambda>_ s. s" proct_exit entries
  by unfold_locales (auto simp: proct_init_def proct_exit_def Let_def NAME_DIR_def split: if_splits)

interpretation mod2: lifecycle mod2_init "\<lambda>_ s. s" modproc_exit entries
  by unfold_locales (auto simp: mod2_init_def modproc_exit_def split: if_splits)

interpretation procr: lifecycle procr_init "\<lambda>_ s. s" modproc_exit entries
  by unfold_locales (auto simp: procr_init_def modproc_exit_def split: if_splits)

interpretation procr2: lifecycle procr2_init "\<lambda>_ s. s" modproc_exit entries
  by unfold_locales (auto simp: procr2_init_def modproc_exit_def split: if_splits)

text \<open>Whatever the history of loads, failed loads and unloads, each of the five modules leaves
  /proc as it found it once it is unloaded.\<close>

theorem proc_mods_no_leak:
  assumes "(ini, ext) \<in> {(modproc_init, modproc_exit), (proct_init, proct_exit), (mod2_init, modproc_exit),
      (procr_init, modproc_exit), (procr2_init, modproc_exit)}"
    and "mod_run ini (\<lambda>(_ :: unit) s. s) ext evs (False, s) = (False, s')"
  shows "entries s' = entries s"
  using assms modproc.no_leak [of evs s s'] proct.no_leak [of evs s s'] mod2.no_leak [of evs s s']
    procr.no_leak [of evs s s'] procr2.no_leak [of evs s s']
  by auto

abbreviation env_ok :: proc_env where
  "env_ok \<equiv> \<lparr>new_kernel = False, dir_ok = True, node_ok = True, pmode = 0\<rparr>"

theorem proc_mods_no_leak_witness:
  "entries (snd (mod_run proct_init (\<lambda>(_ :: unit) s. s) proct_exit
      [Load (env_ok\<lparr>node_ok := False\<rparr>), Load env_ok, Unload] (False, \<lparr>entries = [[''cpuinfo'']], has_read_proc = False, has_fops = False\<rparr>)))
    = [[''cpuinfo'']]"
proof -
  let ?s = "\<lparr>entries = [[''cpuinfo'']], has_read_proc = False, has_fops = False\<rparr>"
  obtain s' where "mod_run proct_init (\<lambda>(_ :: unit) s. s) proct_exit
      ([Load (env_ok\<lparr>node_ok := False\<rparr>), Load env_ok] @ [Unload]) (False, ?s) = (False, s')"
    by (meson mod_run_unload)
  from proc_mods_no_leak [OF _ this] this show ?thesis by simp
qed

section \<open>The reading interface of the old kernels (proc_node_read.c)\<close>

definition old_msg :: "char list" where
  "old_msg = ''.........1.........2.........3.........4.........5.........6'' @ [NL]"

text \<open>The text and its zero byte go to the start of the kernel's page, whatever was asked for.\<close>

definition proc_node_read :: "char list \<Rightarrow> nat \<Rightarrow> nat \<Rightarrow> (nat \<times> char list) res" where
  "proc_node_read page off cnt =
     map_sum id (\<lambda>p. (length old_msg, p)) (into_page page 0 (old_msg @ [NUL]))"

lemma proc_node_read_is_variant_0:
  assumes "length page = 4096" "d = \<lparr>vbuf = old_msg, vlength = length old_msg, parameter = 0\<rparr>"
  shows "\<exists>p. proc_node_read page off cnt = Inr (vlength d, p) \<and> serves d off cnt (Inr (vlength d, False, p))"
proof -
  let ?p = "blit page 0 (old_msg @ [NUL])"
  have r: "proc_node_read page off cnt = Inr (vlength d, ?p)"
    using assms by (simp add: proc_node_read_def into_page_def old_msg_def)
  have "chunk off (min cnt (vlength d - off)) ?p = chunk off (min cnt (vlength d - off)) (vbuf d)"
    if "off < vlength d"
  proof -
    let ?n = "min cnt (vlength d - off)"
    have n: "off + ?n \<le> length old_msg" using that assms(2) by simp
    have "chunk off ?n ?p = chunk off ?n (old_msg @ [NUL])"
      using chunk_blit_inside [of 0 off ?n "old_msg @ [NUL]" page] n assms(1) by (simp add: old_msg_def)
    also have "\<dots> = chunk off ?n old_msg" using n by (simp add: chunk_def)
    finally show ?thesis using assms(2) by simp
  qed
  then show ?thesis using r by (intro exI [of _ ?p]) (simp add: serves_def)
qed

section \<open>The variants' module (variants.le.3.9/mod_proc.c)\<close>

definition node_var :: "nat \<Rightarrow> char list" where
  "node_var variant = NAME_NODE @ ''_'' @ show_nat variant"

definition var_msg :: "char list" where
  "var_msg = ''.........1.........2.........3.........4.........5.........6'' @ [NL]"

text \<open>The outcomes are those of \<open>create_proc_entry\<close> and of \<open>vmalloc\<close>.\<close>

definition var_init :: "nat \<Rightarrow> nat \<Rightarrow> bool \<Rightarrow> allocator \<Rightarrow> path list \<Rightarrow> int res \<times> var_node option \<times> path list" where
  "var_init variant sz created vm reg =
     (if \<not> created then (fail ENOENT, None, reg)
      else (let reg1 = [node_var variant] # reg; sz1 = (if sz = 0 then LEN_MSG + 1 else sz) in
        case vm 0 of
          None \<Rightarrow> (fail ENOMEM, None, remove1 [node_var variant] reg1)
        | Some _ \<Rightarrow>
            (let b = replicate sz1 NULL_CHAR in
             (Inr 0, Some (if sz1 = LEN_MSG + 1
                then \<lparr>vbuf = blit b 0 (var_msg @ [NUL]), vlength = length var_msg, parameter = 999\<rparr>
                else \<lparr>vbuf = b, vlength = 0, parameter = 999\<rparr>), reg1))))"

definition var_exit :: "nat \<Rightarrow> path list \<Rightarrow> path list" where
  "var_exit variant reg = remove1 [node_var variant] reg"

lemma var_init_ok:
  "var_init variant sz created vm reg = (r, d, reg') \<Longrightarrow>
    (case d of None \<Rightarrow> (\<exists>e. r = fail e) \<and> reg' = reg | Some d' \<Rightarrow> r = Inr 0 \<and> var_inv d' \<and> var_exit variant reg' = reg)"
  by (auto simp: var_init_def var_exit_def Let_def var_inv_def var_msg_def LEN_MSG_def split: if_splits option.splits)

section \<open>The client (mcat.c)\<close>

text \<open>The bytes of each \<open>read\<close> go behind the earlier ones into an array of 161; after each the line
  is closed by looking at the byte before the position. \<open>rd\<close> yields None on an error.\<close>

fun mcat_loop :: "(nat \<Rightarrow> 's \<Rightarrow> char list option \<times> 's) \<Rightarrow> nat \<Rightarrow> nat \<Rightarrow> nat \<Rightarrow> char list \<Rightarrow> 's
    \<Rightarrow> (nat \<times> char list \<times> 's) res option" where
  "mcat_loop rd 0 n p msg s = None"
| "mcat_loop rd (Suc k) n p msg s = (case rd n s of
     (None, s') \<Rightarrow> Some (Inr (p, msg, s'))
   | (Some d, s') \<Rightarrow>
       (let q = p + length d in
        if length msg \<le> q then Some (crash OutOfBounds)
        else (let msg' = (blit msg p d)[q := NUL] in
          if q = 0 then Some (crash OutOfBounds)
          else if d = [] then Some (Inr (q, msg', s'))
          else mcat_loop rd k n q msg' s')))"

definition mcat_len :: "char list option \<Rightarrow> nat" where
  "mcat_len arg = (case arg of
     None \<Rightarrow> LEN_MSG
   | Some a \<Rightarrow> (if wrap_int (atol a) > 0 then nat (wrap_int (atol a)) else LEN_MSG))"

definition mcat_main :: "char list option \<Rightarrow> (nat \<Rightarrow> 's \<Rightarrow> char list option \<times> 's) \<Rightarrow> nat \<Rightarrow> 's
    \<Rightarrow> (nat \<times> char list \<times> 's) res option" where
  "mcat_main arg rd fuel s = mcat_loop rd fuel (mcat_len arg) 0 (replicate (LEN_MSG + 1) NUL) s"

definition node_fd :: "nat \<Rightarrow> nat \<times> char list \<Rightarrow> char list option \<times> nat \<times> char list" where
  "node_fd n s = (case node_rd n s of (out, s') \<Rightarrow> (Some out, s'))"

lemma mcat_len_pos: "0 < mcat_len arg"
  by (auto simp: mcat_len_def LEN_MSG_def split: option.splits)

lemma node_fd_step:
  assumes "0 < n" "pos < strlen b"
  shows "\<exists>m. 0 < m \<and> pos + m \<le> strlen b \<and> node_fd n (pos, b) = (Some (take m (drop pos (cstr b))), pos + m, b)"
proof -
  define m where "m = (if n > strlen b - pos then strlen b - pos else n)"
  have m: "0 < m" "pos + m \<le> strlen b" using assms by (auto simp: m_def)
  show ?thesis
    using m assms chunk_cstr [OF m(2)]
    by (intro exI [of _ m]) (simp add: node_fd_def node_rd_def node_read_def m_def [symmetric] Let_def)
qed

lemma mcat_loop_node:
  assumes "0 < n" "0 < strlen b" "strlen b \<le> LEN_MSG" "q \<le> strlen b" "length msg = LEN_MSG + 1"
    "take q msg = take q (cstr b)" "strlen b - q < k"
  shows "\<exists>msg'. mcat_loop node_fd k n q msg (q, b) = Some (Inr (strlen b, msg', 0, b)) \<and> cstr msg' = cstr b"
  using assms
proof (induction k arbitrary: q msg)
  case (Suc k)
  have lc: "length (cstr b) = strlen b" by (simp add: strlen_def)
  show ?case
  proof (cases "q = strlen b")
    case True
    have e: "node_fd n (q, b) = (Some [], 0, b)" using True by (simp add: node_fd_def node_rd_def node_read_def)
    have e: "node_fd n (strlen b, b) = (Some [], 0, b)" using e True by simp
    have "NUL \<notin> set (take q msg)" using Suc.prems(6) cstr_noNUL [of b] by (metis in_set_takeD)
    then have "cstr (msg[q := NUL]) = cstr b"
      using Suc.prems(3,5,6) True lc cstr_update [of q msg] by simp
    then show ?thesis using Suc.prems(2,3,5) True by (simp add: e Let_def)
  next
    case False
    then obtain m where m: "0 < m" "q + m \<le> strlen b"
      "node_fd n (q, b) = (Some (take m (drop q (cstr b))), q + m, b)"
      using node_fd_step [OF Suc.prems(1), of q b] Suc.prems(4) by auto
    define d where "d = take m (drop q (cstr b))"
    have ld: "length d = m" using m(2) lc by (simp add: d_def)
    define msg' where "msg' = (blit msg q d)[q + m := NUL]"
    have l': "length msg' = LEN_MSG + 1"
      using Suc.prems(3,5) m(2) ld by (simp add: msg'_def)
    have "take (q + m) msg' = take q msg @ d"
      using Suc.prems(3,5) m(2) ld by (simp add: msg'_def blit_def)
    also have "\<dots> = take (q + m) (cstr b)" by (simp add: Suc.prems(6) d_def take_add)
    finally have t': "take (q + m) msg' = take (q + m) (cstr b)" .
    have st: "mcat_loop node_fd (Suc k) n q msg (q, b) = mcat_loop node_fd k n (q + m) msg' (q + m, b)"
      using m(1,2) Suc.prems(3,5) ld by (auto simp: m(3) d_def [symmetric] msg'_def Let_def)
    show ?thesis unfolding st
      by (rule Suc.IH) (use Suc.prems m l' t' in auto)
  qed
qed simp

text \<open>\<open>mcat\<close> on the node of \<open>fops_rw.c\<close>, with any argument: if the node holds some text, the
  client ends with exactly that text in its buffer and never leaves the buffer; if the node is
  empty it reads the byte before its buffer.\<close>

theorem mcat_shows_node:
  assumes "node_inv b" "LEN_MSG < fuel"
  shows "if cstr b = [] then mcat_main arg node_fd fuel (0, b) = Some (crash OutOfBounds)
    else \<exists>msg. mcat_main arg node_fd fuel (0, b) = Some (Inr (strlen b, msg, 0, b)) \<and> cstr msg = cstr b"
proof (cases "cstr b = []")
  case True
  obtain k where k: "fuel = Suc k" using assms(2) by (cases fuel) auto
  have "node_fd n (0, b) = (Some [], 0, b)" for n
    using True by (simp add: node_fd_def node_rd_def node_read_def strlen_def)
  then show ?thesis using True by (simp add: mcat_main_def k)
next
  case False
  have "strlen b < length b"
    using assms(1) strlen_less [of b] by (simp add: node_inv_def)
  then have l: "0 < strlen b" "strlen b \<le> LEN_MSG"
    using False assms(1) by (auto simp: node_inv_def strlen_def)
  show ?thesis
    using mcat_loop_node [OF mcat_len_pos l, of 0 "replicate (LEN_MSG + 1) NUL" fuel arg] l assms(2) False
    by (simp add: mcat_main_def)
qed

theorem mcat_shows_node_witness:
  "\<exists>msg. mcat_main (Some ''7'') node_fd 200 (0, rw_buf) = Some (Inr (strlen rw_buf, msg, 0, rw_buf))
    \<and> cstr msg = cstr rw_buf"
proof -
  have "cstr rw_buf \<noteq> []" by (simp add: rw_buf_def Let_def)
  then show ?thesis using mcat_shows_node [OF rw_buf_inv, of 200 "Some ''7''"] by (simp add: LEN_MSG_def)
qed

end
