(* ===== verification/Block_Request.thy ===== *)
theory Block_Request
  imports Interfaces Decimal
begin

text \<open>
  \<open>Tasks/blkdev\<close>: RAM disks. The request function that \<open>block_mod_e.c\<close> and \<open>block_mod_c.c\<close>
  share (\<open>request.c\<close>), their geometry ioctl (\<open>ioctl.c\<close>) and their init and exit functions.

  The block layer is the kernel's. What the drivers see of it is the sequence of current
  chunks that \<open>blk_fetch_request\<close> and \<open>__blk_end_request_cur\<close> hand out one after the other:
  a list of \<open>chunk_rq\<close>, arbitrary in every statement.
\<close>

unbundle bit_operations_syntax

section \<open>Requests (request.c)\<close>

definition KERNEL_SECTOR_SIZE :: nat where
  "KERNEL_SECTOR_SIZE = 512"

record chunk_rq =
  fs_rq :: bool
  rq_pos :: "64 word"
  cur_sectors :: "32 word"
  to_disk :: bool
  rq_buffer :: "char list"

text \<open>The offset is computed in 32 bits and the size is an \<open>int\<close>; both enter pointer
  arithmetic. A copy that leaves the disk's memory or the request's buffer is undefined.\<close>

definition rq_offset :: "chunk_rq \<Rightarrow> nat" where
  "rq_offset c = unat ((ucast (rq_pos c) :: 32 word) * 512)"

definition rq_size :: "chunk_rq \<Rightarrow> int" where
  "rq_size c = sint (cur_sectors c * 512 :: 32 word)"

text \<open>One turn of the loop: the code passed to \<open>__blk_end_request_cur\<close>, the request's buffer
  and the disk afterwards.\<close>

definition my_chunk :: "chunk_rq \<Rightarrow> char list \<Rightarrow> int res \<times> char list \<times> char list" where
  "my_chunk c my_dev =
     (if \<not> fs_rq c then (Inr 1, rq_buffer c, my_dev)
      else
        (let ptr = rq_offset c; size = rq_size c in
         if int ptr + size > int (length my_dev) then (Inr 1, rq_buffer c, my_dev)
         else if size < 0 \<or> int (length (rq_buffer c)) < size
         then (crash OutOfBounds, rq_buffer c, my_dev)
         else if to_disk c
         then (Inr 0, rq_buffer c, blit my_dev ptr (take (nat size) (rq_buffer c)))
         else (Inr 0, blit (rq_buffer c) 0 (chunk ptr (nat size) my_dev), my_dev)))"

text \<open>The loop; undefined behaviour ends it.\<close>

fun my_request :: "chunk_rq list \<Rightarrow> char list \<Rightarrow> (int \<times> char list) list res \<times> char list" where
  "my_request [] my_dev = (Inr [], my_dev)"
| "my_request (c # cs) my_dev = (case my_chunk c my_dev of
     (Inl e, _, d) \<Rightarrow> (Inl e, d)
   | (Inr res, buf, d) \<Rightarrow> (case my_request cs d of
       (Inl e, d') \<Rightarrow> (Inl e, d')
     | (Inr rs, d') \<Rightarrow> (Inr ((res, buf) # rs), d')))"

section \<open>Geometry (ioctl.c)\<close>

record hd_geometry =
  heads :: nat
  geo_sectors :: nat
  cylinders :: nat
  geo_start :: nat

definition getgeo_sectors :: "int \<Rightarrow> nat" where
  "getgeo_sectors diskmb = nat (wrap_int (diskmb * 1024 * 2) mod 2 ^ 64)"

definition my_getgeo :: "int \<Rightarrow> hd_geometry" where
  "my_getgeo diskmb = \<lparr>heads = 4, geo_sectors = 16,
     cylinders = (getgeo_sectors diskmb div 4 div 16) mod 2 ^ 16, geo_start = 16\<rparr>"

definition HDIO_GETGEO :: nat where
  "HDIO_GETGEO = 0x0301"

definition my_ioctl :: "ucopy \<Rightarrow> int \<Rightarrow> nat \<Rightarrow> int res \<times> hd_geometry option" where
  "my_ioctl uc diskmb cmd =
     (if cmd = HDIO_GETGEO
      then (if uc 0 16 \<noteq> 0 then (fail EFAULT, None) else (Inr 0, Some (my_getgeo diskmb)))
      else (fail ENOTTY, None))"

lemma getgeo_capacity:
  assumes "0 \<le> mb" "mb < 2 ^ 11"
  shows "heads (my_getgeo mb) * geo_sectors (my_getgeo mb) * cylinders (my_getgeo mb)
    = nat mb * 2048"
proof -
  have "wrap_int (mb * 1024 * 2) = mb * 2048" using assms by (simp add: wrap_int_id)
  then have g: "getgeo_sectors mb = nat mb * 2048"
    using assms by (simp add: getgeo_sectors_def nat_mult_distrib)
  have "nat mb < 2048" using assms by simp
  then have "nat mb * 2048 div 4 div 16 = nat mb * 32" "nat mb * 32 < 65536" by simp_all
  then show ?thesis by (simp add: my_getgeo_def g)
qed

section \<open>The disk as a store of sectors\<close>

text \<open>The block layer's own promises for the requests of one disk: the chunk lies on the disk
  or beyond its end but below sector \<open>2 ^ 23\<close>, is not longer than a request may be, and its
  buffer holds it.\<close>

definition chunk_ok :: "chunk_rq \<Rightarrow> bool" where
  "chunk_ok c \<longleftrightarrow> unat (rq_pos c) < 2 ^ 23 \<and> unat (cur_sectors c) < 2 ^ 22
     \<and> length (rq_buffer c) = unat (cur_sectors c) * 512"

lemma rq_offset_ok: "unat (rq_pos c) < 2 ^ 23 \<Longrightarrow> rq_offset c = unat (rq_pos c) * 512"
proof -
  assume a: "unat (rq_pos c) < 2 ^ 23"
  have "unat (ucast (rq_pos c) :: 32 word) = unat (rq_pos c)"
    using a by (simp add: unsigned_ucast_eq take_bit_nat_eq_self)
  then show ?thesis using a by (simp add: rq_offset_def unat_word_ariths)
qed

lemma rq_size_ok: "unat (cur_sectors c) < 2 ^ 22 \<Longrightarrow> rq_size c = int (unat (cur_sectors c) * 512)"
proof -
  assume a: "unat (cur_sectors c) < 2 ^ 22"
  have "unat (cur_sectors c * 512) = unat (cur_sectors c) * 512"
    using a by (simp add: unat_word_ariths)
  then have u: "uint (cur_sectors c * 512) = int (unat (cur_sectors c) * 512)"
    by (metis uint_nat)
  have "unat (cur_sectors c) * 512 < 2147483648" using a by simp
  then have b: "int (unat (cur_sectors c) * 512) < 2147483648" by linarith
  show ?thesis
    unfolding rq_size_def sint_uint u by (rule signed_take_bit_int_eq_self) (use b in \<open>simp_all del: of_nat_mult\<close>)
qed

text \<open>The abstract disk: a capacity and the contents of each sector.\<close>

type_synonym sector_map = "nat \<Rightarrow> char list"

definition sectors :: "char list \<Rightarrow> sector_map" where
  "sectors d i = chunk (i * 512) 512 d"

definition spec_chunk :: "nat \<Rightarrow> chunk_rq \<Rightarrow> sector_map \<Rightarrow> (int \<times> char list) \<times> sector_map" where
  "spec_chunk cap c m = (let p = unat (rq_pos c); n = unat (cur_sectors c) in
     if \<not> fs_rq c \<or> p + n > cap then ((1, rq_buffer c), m)
     else if to_disk c
     then ((0, rq_buffer c), \<lambda>i. if p \<le> i \<and> i < p + n then sectors (rq_buffer c) (i - p) else m i)
     else ((0, concat (map m [p..<p + n])), m))"

fun spec_request :: "nat \<Rightarrow> chunk_rq list \<Rightarrow> sector_map \<Rightarrow> (int \<times> char list) list \<times> sector_map" where
  "spec_request cap [] m = ([], m)"
| "spec_request cap (c # cs) m =
     (let (r, m1) = spec_chunk cap c m; (rs, m2) = spec_request cap cs m1 in (r # rs, m2))"

lemma sectors_read:
  "concat (map (sectors d) [p..<p + n]) = chunk (p * 512) (n * 512) d"
proof (induction n)
  case (Suc n)
  have "chunk (p * 512) (n * 512) d @ chunk (p * 512 + n * 512) 512 d = chunk (p * 512) (n * 512 + 512) d"
    by (rule chunk_append)
  then show ?case using Suc by (simp add: sectors_def add_mult_distrib add.commute)
qed simp

lemma sectors_write:
  assumes "length b = n * 512" "(p + n) * 512 \<le> length d"
  shows "sectors (blit d (p * 512) b) i
    = (if p \<le> i \<and> i < p + n then sectors b (i - p) else sectors d i)"
proof -
  have e: "p * 512 + length b \<le> length d" using assms by (simp add: add_mult_distrib)
  consider "i < p" | "p \<le> i" "i < p + n" | "p + n \<le> i" by linarith
  then show ?thesis
  proof cases
    case 1
    then have "i * 512 + 512 \<le> p * 512" by linarith
    then show ?thesis using 1 e by (simp add: sectors_def chunk_blit_before)
  next
    case 2
    then have "i * 512 + 512 \<le> p * 512 + length b" using assms(1) by linarith
    then show ?thesis using 2 e by (simp add: sectors_def chunk_blit_inside diff_mult_distrib)
  next
    case 3
    then have l: "p * 512 + length b \<le> i * 512" using assms(1) by linarith
    show ?thesis
    proof (cases "i * 512 \<le> length d")
      case True
      then show ?thesis using 3 l by (simp add: sectors_def chunk_blit_after)
    next
      case False
      then show ?thesis using 3 e by (simp add: sectors_def chunk_def)
    qed
  qed
qed

text \<open>One chunk refines the abstract disk.\<close>

definition disk_ok :: "char list \<Rightarrow> bool" where
  "disk_ok d \<longleftrightarrow> length d mod 512 = 0 \<and> length d < 2 ^ 31"

lemma disk_bound: "disk_ok d \<Longrightarrow> n * 512 \<le> length d \<longleftrightarrow> n \<le> length d div 512"
  by (auto simp: disk_ok_def)

lemma my_chunk_cases:
  assumes "chunk_ok c" "disk_ok d" "p = unat (rq_pos c)" "n = unat (cur_sectors c)"
  shows "my_chunk c d =
    (if \<not> fs_rq c \<or> p + n > length d div 512 then (Inr 1, rq_buffer c, d)
     else if to_disk c then (Inr 0, rq_buffer c, blit d (p * 512) (rq_buffer c))
     else (Inr 0, chunk (p * 512) (n * 512) d, d))"
proof -
  have off: "rq_offset c = p * 512" and sz: "rq_size c = int (n * 512)" and buf: "length (rq_buffer c) = n * 512"
    using assms(1) rq_offset_ok [of c] rq_size_ok [of c] by (simp_all add: chunk_ok_def assms(3,4))
  have fits: "int (rq_offset c) + rq_size c > int (length d) \<longleftrightarrow> p + n > length d div 512"
    using disk_bound [OF assms(2), of "p + n"] unfolding off sz of_nat_add [symmetric] of_nat_less_iff
    by (simp add: add_mult_distrib not_le [symmetric] del: of_nat_add)
  show ?thesis
  proof (cases "\<not> fs_rq c \<or> p + n > length d div 512")
    case True
    then show ?thesis using fits by (auto simp: my_chunk_def Let_def)
  next
    case False
    then have e: "(p + n) * 512 \<le> length d" using disk_bound [OF assms(2), of "p + n"] by simp
    have g: "fs_rq c" "\<not> int (rq_offset c) + rq_size c > int (length d)"
      "\<not> (rq_size c < 0 \<or> int (length (rq_buffer c)) < rq_size c)"
      using False fits unfolding sz by (auto simp: buf)
    have l: "nat (rq_size c) = n * 512" "take (n * 512) (rq_buffer c) = rq_buffer c"
      unfolding sz by (simp_all add: buf)
    have "blit (rq_buffer c) 0 (chunk (p * 512) (n * 512) d) = chunk (p * 512) (n * 512) d"
      by (rule blit_full) (use e buf in \<open>simp add: add_mult_distrib\<close>)
    then show ?thesis using False g l by (simp add: my_chunk_def Let_def off)
  qed
qed

lemma my_chunk_refines:
  assumes "chunk_ok c" "disk_ok d"
  shows "\<exists>d'. my_chunk c d = (Inr (fst (fst (spec_chunk (length d div 512) c (sectors d)))),
      snd (fst (spec_chunk (length d div 512) c (sectors d))), d')
    \<and> disk_ok d' \<and> length d' = length d
    \<and> sectors d' = snd (spec_chunk (length d div 512) c (sectors d))"
proof -
  define p n where "p = unat (rq_pos c)" and "n = unat (cur_sectors c)"
  note m = my_chunk_cases [OF assms p_def n_def]
  have buf: "length (rq_buffer c) = n * 512" using assms(1) by (simp add: chunk_ok_def n_def)
  show ?thesis
  proof (cases "\<not> fs_rq c \<or> p + n > length d div 512")
    case True
    then show ?thesis using assms(2) m by (auto simp: spec_chunk_def Let_def p_def n_def)
  next
    case False
    then have e: "(p + n) * 512 \<le> length d" using disk_bound [OF assms(2), of "p + n"] by simp
    have sp: "spec_chunk (length d div 512) c (sectors d) = (if to_disk c
        then ((0, rq_buffer c), sectors (blit d (p * 512) (rq_buffer c)))
        else ((0, chunk (p * 512) (n * 512) d), sectors d))"
      using False sectors_write [OF buf e]
      by (simp add: spec_chunk_def Let_def p_def [symmetric] n_def [symmetric] sectors_read fun_eq_iff)
    have "length (blit d (p * 512) (rq_buffer c)) = length d"
      using e buf by (simp add: add_mult_distrib)
    then show ?thesis
      unfolding m sp using False assms(2) by (cases "to_disk c") (simp_all add: disk_ok_def)
  qed
qed

text \<open>The whole loop.\<close>

lemma my_request_spec:
  "\<forall>c \<in> set cs. chunk_ok c \<Longrightarrow> disk_ok d \<Longrightarrow>
    \<exists>d'. my_request cs d = (Inr (fst (spec_request (length d div 512) cs (sectors d))), d')
      \<and> disk_ok d' \<and> length d' = length d
      \<and> sectors d' = snd (spec_request (length d div 512) cs (sectors d))"
proof (induction cs arbitrary: d)
  case Nil
  then show ?case by simp
next
  case (Cons c cs)
  have "chunk_ok c" using Cons.prems by simp
  from my_chunk_refines [OF this Cons.prems(2)] obtain d1 where d1:
    "my_chunk c d = (Inr (fst (fst (spec_chunk (length d div 512) c (sectors d)))),
      snd (fst (spec_chunk (length d div 512) c (sectors d))), d1)" "disk_ok d1"
    "length d1 = length d" "sectors d1 = snd (spec_chunk (length d div 512) c (sectors d))"
    by blast
  from Cons.IH [OF _ d1(2)] Cons.prems(1) show ?case
    unfolding d1(3,4) by (auto simp: d1(1) Let_def split_beta)
qed

lemma my_chunk_disk_ok:
  assumes "chunk_ok c" "disk_ok d" "my_chunk c d = (r, b, d')"
  shows "disk_ok d'" "length d' = length d" "r = Inr 0 \<or> r = Inr 1"
proof -
  obtain d1 where "my_chunk c d = (Inr (fst (fst (spec_chunk (length d div 512) c (sectors d)))),
      snd (fst (spec_chunk (length d div 512) c (sectors d))), d1)" "disk_ok d1" "length d1 = length d"
    using my_chunk_refines [OF assms(1,2)] by blast
  then show "disk_ok d'" "length d' = length d" using assms(3) by simp_all
  show "r = Inr 0 \<or> r = Inr 1"
    using assms(3) unfolding my_chunk_cases [OF assms(1,2) refl refl] by (auto split: if_splits)
qed

text \<open>The drivers that report a refused chunk do so with \<open>-EIO\<close> instead of 1.\<close>

definition eio :: "int \<times> 'a \<Rightarrow> int \<times> 'a" where
  "eio = (\<lambda>(x, b). (if x = 0 then 0 else -5, b))"

section \<open>The disk as a sector store\<close>

text \<open>A client that writes and reads runs of sectors through the request function.\<close>

definition disk_wr :: "nat \<Rightarrow> char list \<Rightarrow> char list \<Rightarrow> char list" where
  "disk_wr sec xs d = snd (my_request [\<lparr>fs_rq = True, rq_pos = of_nat sec,
     cur_sectors = of_nat (length xs div 512), to_disk = True, rq_buffer = xs\<rparr>] d)"

definition disk_rd :: "nat \<Rightarrow> nat \<Rightarrow> char list \<Rightarrow> char list" where
  "disk_rd sec n d = (case my_request [\<lparr>fs_rq = True, rq_pos = of_nat sec,
     cur_sectors = of_nat n, to_disk = False, rq_buffer = replicate (n * 512) NUL\<rparr>] d of
     (Inr [(r, buf)], d') \<Rightarrow> buf | _ \<Rightarrow> [])"

lemma disk_args:
  assumes "disk_ok d" "sec + n \<le> length d div 512"
  shows "unat (of_nat sec :: 64 word) = sec" "unat (of_nat n :: 32 word) = n"
    "sec < 2 ^ 22" "n < 2 ^ 22" "(sec + n) * 512 \<le> length d"
proof -
  have "length d div 512 < 4194304" using assms(1) by (auto simp: disk_ok_def intro: less_mult_imp_div_less)
  then have b: "sec < 4194304" "n < 4194304" using assms(2) by linarith+
  then show "sec < 2 ^ 22" "n < 2 ^ 22" by simp_all
  show "unat (of_nat sec :: 64 word) = sec" "unat (of_nat n :: 32 word) = n"
    using b by (simp_all add: unsigned_of_nat take_bit_nat_eq_self)
  show "(sec + n) * 512 \<le> length d" using assms disk_bound by blast
qed

lemma disk_wr_eq:
  assumes "disk_ok d" "length xs = n * 512" "sec + n \<le> length d div 512"
  shows "disk_wr sec xs d = blit d (sec * 512) xs"
proof -
  note a = disk_args [OF assms(1,3)]
  let ?c = "\<lparr>fs_rq = True, rq_pos = of_nat sec, cur_sectors = of_nat (length xs div 512),
    to_disk = True, rq_buffer = xs\<rparr>"
  have "chunk_ok ?c" using a assms(2) by (simp add: chunk_ok_def)
  from my_chunk_cases [OF this assms(1) refl refl] show ?thesis
    using a assms(2,3) by (simp add: disk_wr_def)
qed

lemma disk_rd_eq:
  assumes "disk_ok d" "sec + n \<le> length d div 512"
  shows "disk_rd sec n d = chunk (sec * 512) (n * 512) d"
proof -
  note a = disk_args [OF assms]
  let ?c = "\<lparr>fs_rq = True, rq_pos = of_nat sec, cur_sectors = of_nat n,
    to_disk = False, rq_buffer = replicate (n * 512) NUL\<rparr>"
  have "chunk_ok ?c" using a by (simp add: chunk_ok_def)
  from my_chunk_cases [OF this assms(1) refl refl] show ?thesis
    using a assms(2) by (simp add: disk_rd_def)
qed

lemma blit_disk_ok:
  assumes "disk_ok d" "length xs = n * 512" "sec + n \<le> length d div 512"
  shows "length (blit d (sec * 512) xs) = length d" "disk_ok (blit d (sec * 512) xs)"
proof -
  have "sec * 512 + length xs \<le> length d"
    using disk_args(5) [OF assms(1,3)] assms(2) by (simp add: add_mult_distrib)
  then show "length (blit d (sec * 512) xs) = length d" by simp
  then show "disk_ok (blit d (sec * 512) xs)" using assms(1) by (simp add: disk_ok_def)
qed

lemma chunk_blit_disjoint:
  assumes "off + length src \<le> length b" "o' + n \<le> off \<or> off + length src \<le> o'" "o' \<le> length b"
  shows "chunk o' n (blit b off src) = chunk o' n b"
  using assms chunk_blit_before [of o' n off b src] chunk_blit_after [of off src o' b n] by auto

interpretation ramdisk: sector_store "\<lambda>d. length d div 512" disk_ok disk_wr disk_rd 512
proof
  fix d xs :: "char list" and n sec
  assume a: "disk_ok d" "length xs = n * 512" "sec + n \<le> length d div 512"
  show "disk_ok (disk_wr sec xs d)" "length (disk_wr sec xs d) div 512 = length d div 512"
    using blit_disk_ok [OF a] by (simp_all add: disk_wr_eq [OF a])
  have le: "sec * 512 + length xs \<le> length d"
    using disk_args(5) [OF a(1,3)] a(2) by (simp add: add_mult_distrib)
  show "disk_rd sec n (disk_wr sec xs d) = xs"
    using blit_disk_ok [OF a] a(3) chunk_blit_same [OF le]
    by (simp add: disk_wr_eq [OF a] disk_rd_eq a(2))
  fix sec' m
  assume o: "sec' + m \<le> length d div 512" "sec + n \<le> sec' \<or> sec' + m \<le> sec"
  have "chunk (sec' * 512) (m * 512) (blit d (sec * 512) xs) = chunk (sec' * 512) (m * 512) d"
  proof (rule chunk_blit_disjoint [OF le])
    show "sec' * 512 + m * 512 \<le> sec * 512 \<or> sec * 512 + length xs \<le> sec' * 512"
      using o(2) a(2) by linarith
    show "sec' * 512 \<le> length d" using disk_args(5) [OF a(1) o(1)] by (simp add: add_mult_distrib)
  qed
  then show "disk_rd sec' m (disk_wr sec xs d) = disk_rd sec' m d"
    using blit_disk_ok [OF a] o(1) by (simp add: disk_wr_eq [OF a] disk_rd_eq a(1))
qed

section \<open>Loading and unloading (block_mod_e.c, block_mod_c.c)\<close>

text \<open>What the drivers hold of the kernel's: block majors, memory areas, request queues, disks.\<close>

record blk_held =
  majors :: int
  mems :: int
  queues :: int
  disks :: int

definition none_held :: blk_held where
  "none_held = \<lparr>majors = 0, mems = 0, queues = 0, disks = 0\<rparr>"

text \<open>The outcomes of the calls. \<open>register_blkdev\<close> registers unless it returns an error code,
  and returns 0 if the major was asked for explicitly.\<close>

record blk_env =
  reg_major :: int
  mem_ok :: bool
  queue_ok :: bool
  disk_alloc_ok :: bool

definition register_blkdev :: "int \<Rightarrow> blk_held \<Rightarrow> blk_held" where
  "register_blkdev ret h = (if ret \<ge> 0 then h\<lparr>majors := majors h + 1\<rparr> else h)"

definition blk_e_init :: "blk_env \<Rightarrow> blk_held \<Rightarrow> int \<times> blk_held" where
  "blk_e_init e h =
     (let h1 = register_blkdev (reg_major e) h in
      if reg_major e \<le> 0 then (-5, h1)
      else if \<not> mem_ok e then (-12, h1)
      else (let h2 = h1\<lparr>mems := mems h1 + 1\<rparr> in
        if \<not> queue_ok e then (-5, h2)
        else (let h3 = h2\<lparr>queues := queues h2 + 1\<rparr> in
          if \<not> disk_alloc_ok e then (-5, h3) else (0, h3\<lparr>disks := disks h3 + 1\<rparr>))))"

definition blk_e_exit :: "blk_held \<Rightarrow> blk_held" where
  "blk_e_exit h = h\<lparr>disks := disks h - 1, queues := queues h - 1, majors := majors h - 1\<rparr>"

definition blk_c_init :: "blk_env \<Rightarrow> blk_held \<Rightarrow> int \<times> blk_held" where
  "blk_c_init e h =
     (if \<not> mem_ok e then (-12, h)
      else (let h1 = h\<lparr>mems := mems h + 1\<rparr> in
        if \<not> queue_ok e then (-12, h1\<lparr>mems := mems h1 - 1\<rparr>)
        else (let h2 = register_blkdev (reg_major e) (h1\<lparr>queues := queues h1 + 1\<rparr>) in
          if reg_major e < 0 then (reg_major e, h2\<lparr>mems := mems h2 - 1\<rparr>)
          else if \<not> disk_alloc_ok e
          then (-12, h2\<lparr>majors := majors h2 - 1, mems := mems h2 - 1\<rparr>)
          else (0, h2\<lparr>disks := disks h2 + 1\<rparr>))))"

definition blk_c_exit :: "blk_held \<Rightarrow> blk_held" where
  "blk_c_exit h = h\<lparr>disks := disks h - 1, majors := majors h - 1, queues := queues h - 1,
     mems := mems h - 1\<rparr>"

section \<open>Correctness\<close>

text \<open>C2: for every sequence of requests whose chunks lie below sector 2^23, the request function
  does what an abstract disk of sectors does: reads deliver the sectors, writes replace exactly
  the sectors they name, a chunk that reaches past the capacity or is no file system request is
  refused with code 1 and changes nothing; no copy leaves the disk or the request's buffer.\<close>

theorem my_request_refines:
  assumes "\<forall>c \<in> set cs. chunk_ok c" "disk_ok d" "my_request cs d = (r, d')"
  shows "r = Inr (fst (spec_request (length d div 512) cs (sectors d)))
    \<and> length d' = length d \<and> sectors d' = snd (spec_request (length d div 512) cs (sectors d))"
  using my_request_spec [OF assms(1,2)] assms(3) by auto

theorem my_request_refines_witness:
  "let c = \<lparr>fs_rq = True, rq_pos = 1, cur_sectors = 1, to_disk = True,
       rq_buffer = replicate 512 (CHR ''x'')\<rparr>; d = replicate 1024 NUL
   in fst (my_request [c] d) = Inr (fst (spec_request 2 [c] (sectors d)))"
proof -
  let ?c = "\<lparr>fs_rq = True, rq_pos = 1, cur_sectors = 1, to_disk = True,
       rq_buffer = replicate 512 (CHR ''x'')\<rparr> :: chunk_rq"
  let ?d = "replicate 1024 NUL"
  have "\<forall>c \<in> set [?c]. chunk_ok c" "disk_ok ?d" by (simp_all add: chunk_ok_def disk_ok_def)
  from my_request_refines [OF this, of "fst (my_request [?c] ?d)" "snd (my_request [?c] ?d)"]
  show ?thesis by (simp add: Let_def)
qed

text \<open>Two writes to disjoint runs of sectors of the RAM disk are both read back, and any other
  sector reads as before.\<close>

theorem ramdisk_readback:
  assumes "disk_ok d" "length xs = n * 512" "length ys = m * 512"
    and "sec + n \<le> length d div 512" "sec' + m \<le> length d div 512" "sec + n \<le> sec' \<or> sec' + m \<le> sec"
  shows "disk_rd sec n (disk_wr sec' ys (disk_wr sec xs d)) = xs
    \<and> disk_rd sec' m (disk_wr sec' ys (disk_wr sec xs d)) = ys"
  using ramdisk.wr_both [OF assms] by blast

theorem ramdisk_readback_witness:
  "disk_rd 0 1 (disk_wr 1 (replicate 512 (CHR ''b'')) (disk_wr 0 (replicate 512 (CHR ''a'')) (replicate 2048 NUL)))
    = replicate 512 (CHR ''a'')"
  using ramdisk_readback [of "replicate 2048 NUL" "replicate 512 (CHR ''a'')" 1
      "replicate 512 (CHR ''b'')" 1 0 1]
  by (simp add: disk_ok_def)

text \<open>Beyond that bound the 32-bit product wraps: a write to sector \<open>2 ^ 23\<close> of a small disk passes
  the test and overwrites sector 0.\<close>

lemma sector_wraps:
  assumes "length d \<ge> 512" "length b = 512"
  shows "my_chunk \<lparr>fs_rq = True, rq_pos = 2 ^ 23, cur_sectors = 1, to_disk = True, rq_buffer = b\<rparr> d
    = (Inr 0, b, blit d 0 b)"
proof -
  have o: "rq_offset \<lparr>fs_rq = True, rq_pos = 2 ^ 23, cur_sectors = 1, to_disk = True, rq_buffer = b\<rparr> = 0"
    by (simp add: rq_offset_def)
  have z: "rq_size \<lparr>fs_rq = True, rq_pos = 2 ^ 23, cur_sectors = 1, to_disk = True, rq_buffer = b\<rparr> = 512"
    by (simp add: rq_size_def)
  show ?thesis using assms unfolding my_chunk_def o z by simp
qed

text \<open>What the init and exit functions hold. \<open>block_mod_c.c\<close> gives everything back except the
  request queue when a later call fails; \<open>block_mod_e.c\<close> keeps whatever it got before the failing
  call, and its exit never releases the disk's memory.\<close>

text \<open>Loading and then unloading \<open>block_mod_c\<close> leaves nothing behind; a failed load leaves
  exactly the request queue, and only if a call after its creation failed. \<open>block_mod_e\<close>, loaded
  and unloaded, leaves exactly its memory.\<close>

theorem blk_mods_resources:
  shows "blk_c_init e h = (r, h') \<Longrightarrow>
      (r \<ge> 0 \<longrightarrow> blk_c_exit h' = h)
      \<and> (r < 0 \<longrightarrow> h' = (if mem_ok e \<and> queue_ok e then h\<lparr>queues := queues h + 1\<rparr> else h))
      \<and> (blk_e_init e h = (0, h'') \<longrightarrow> blk_e_exit h'' = h\<lparr>mems := mems h + 1\<rparr>)"
  by (cases h)
    (auto simp: blk_c_init_def blk_c_exit_def blk_e_init_def blk_e_exit_def register_blkdev_def Let_def
      split: if_splits)

theorem blk_mods_resources_witness:
  "blk_c_exit (snd (blk_c_init \<lparr>reg_major = 252, mem_ok = True, queue_ok = True, disk_alloc_ok = True\<rparr> none_held))
    = none_held
    \<and> snd (blk_c_init \<lparr>reg_major = -16, mem_ok = True, queue_ok = True, disk_alloc_ok = True\<rparr> none_held)
    = none_held\<lparr>queues := 1\<rparr>"
proof -
  let ?e = "\<lparr>reg_major = 252, mem_ok = True, queue_ok = True, disk_alloc_ok = True\<rparr>"
  let ?f = "\<lparr>reg_major = -16, mem_ok = True, queue_ok = True, disk_alloc_ok = True\<rparr>"
  have s: "fst (blk_c_init ?e none_held) = 0" "fst (blk_c_init ?f none_held) < 0"
    by (simp_all add: blk_c_init_def Let_def)
  show ?thesis
    using blk_mods_resources [of ?e none_held "fst (blk_c_init ?e none_held)" "snd (blk_c_init ?e none_held)"]
      blk_mods_resources [of ?f none_held "fst (blk_c_init ?f none_held)" "snd (blk_c_init ?f none_held)"] s
    by (simp add: none_held_def)
qed

lemma blk_e_init_leaks:
  "reg_major e > 0 \<Longrightarrow> \<not> mem_ok e \<Longrightarrow> blk_e_init e h = (-12, h\<lparr>majors := majors h + 1\<rparr>)"
  by (simp add: blk_e_init_def register_blkdev_def Let_def)

end
