(* ===== verification/Sbull.thy ===== *)
theory Sbull
  imports Block_Request
begin

text \<open>
  \<open>Tasks/blkdev/block_mod.LDD3/block_mod_s.c\<close>: several RAM disks with three request modes
  (one chunk at a time, all bios of a request, no queue at all), and the creation and removal
  of the disks.
\<close>

section \<open>Transfers\<close>

text \<open>\<open>dsize\<close> is an \<open>int\<close>; \<open>ddata\<close> is the memory \<open>data\<close> points to, \<open>None\<close> for a null pointer.\<close>

record disk_dev =
  dsize :: int
  ddata :: "char list option"

definition transfer :: "disk_dev \<Rightarrow> 64 word \<Rightarrow> 64 word \<Rightarrow> char list \<Rightarrow> bool
    \<Rightarrow> int res \<times> char list \<times> disk_dev" where
  "transfer dev sector nsect buffer write =
     (let offset = sector * 512; nbytes = nsect * 512 in
      if offset + nbytes > word_of_int (dsize dev) then (fail EIO, buffer, dev)
      else case ddata dev of
        None \<Rightarrow> (crash NullDeref, buffer, dev)
      | Some d \<Rightarrow>
          if length d < unat offset + unat nbytes \<or> length buffer < unat nbytes
          then (crash OutOfBounds, buffer, dev)
          else if write
          then (Inr 0, buffer, dev\<lparr>ddata := Some (blit d (unat offset) (take (unat nbytes) buffer))\<rparr>)
          else (Inr 0, blit buffer 0 (chunk (unat offset) (unat nbytes) d), dev))"

text \<open>A bio: its first sector, its length in bytes, its direction and its segments. The
  number of sectors moved per segment is that of the whole bio.\<close>

record bio =
  bi_sector :: "64 word"
  bi_size :: nat
  bi_write :: bool
  segments :: "char list list"

definition bio_sectors :: "bio \<Rightarrow> 64 word" where
  "bio_sectors b = of_nat (bi_size b div 512)"

fun xfer_segments :: "64 word \<Rightarrow> bool \<Rightarrow> disk_dev \<Rightarrow> 64 word \<Rightarrow> char list list
    \<Rightarrow> int res \<times> char list list \<times> disk_dev" where
  "xfer_segments nr wr dev sector [] = (Inr 0, [], dev)"
| "xfer_segments nr wr dev sector (buffer # bs) =
     (case transfer dev sector nr buffer wr of
        (Inl e, b', dev') \<Rightarrow> (Inl e, b' # bs, dev')
      | (Inr _, b', dev') \<Rightarrow> (case xfer_segments nr wr dev' (sector + nr) bs of
          (r, bs', dev'') \<Rightarrow> (r, b' # bs', dev'')))"

definition xfer_bio :: "disk_dev \<Rightarrow> bio \<Rightarrow> int res \<times> bio \<times> disk_dev" where
  "xfer_bio dev b = (case xfer_segments (bio_sectors b) (bi_write b) dev (bi_sector b) (segments b) of
     (r, bs, dev') \<Rightarrow> (r, b\<lparr>segments := bs\<rparr>, dev'))"

text \<open>The result of each bio is dropped; undefined behaviour ends the loop.\<close>

fun xfer_request :: "disk_dev \<Rightarrow> bio list \<Rightarrow> nat res \<times> bio list \<times> disk_dev" where
  "xfer_request dev [] = (Inr 0, [], dev)"
| "xfer_request dev (b # bs) = (case xfer_bio dev b of
     (Inl (Fault f), b', dev') \<Rightarrow> (crash f, b' # bs, dev')
   | (_, b', dev') \<Rightarrow> (case xfer_request dev' bs of
       (Inl e, bs', dev'') \<Rightarrow> (Inl e, b' # bs', dev'')
     | (Inr n, bs', dev'') \<Rightarrow> (Inr (bi_size b div 512 + n), b' # bs', dev'')))"

text \<open>The request loops, over what the block layer hands out turn by turn. The result of a turn
  is the code given to \<open>__blk_end_request_cur\<close> or \<open>__blk_end_request_all\<close> and the buffers.\<close>

fun simple_request :: "chunk_rq list \<Rightarrow> disk_dev \<Rightarrow> (int \<times> char list) list res \<times> disk_dev" where
  "simple_request [] dev = (Inr [], dev)"
| "simple_request (c # cs) dev =
     (case (if \<not> fs_rq c then (fail EIO, rq_buffer c, dev)
            else transfer dev (ucast (ucast (rq_pos c) :: 32 word)) (ucast (cur_sectors c))
              (rq_buffer c) (to_disk c)) of
        (Inl (Fault f), _, dev') \<Rightarrow> (crash f, dev')
      | (r, buf, dev') \<Rightarrow> (case simple_request cs dev' of
          (Inl e, dev'') \<Rightarrow> (Inl e, dev'')
        | (Inr rs, dev'') \<Rightarrow> (Inr ((case r of Inl _ \<Rightarrow> -5 | Inr x \<Rightarrow> x, buf) # rs), dev'')))"

fun full_request :: "(bool \<times> bio list) list \<Rightarrow> disk_dev \<Rightarrow> (int \<times> bio list) list res \<times> disk_dev" where
  "full_request [] dev = (Inr [], dev)"
| "full_request ((fs, bios) # rest) dev =
     (if \<not> fs then (case full_request rest dev of
        (Inl e, dev') \<Rightarrow> (Inl e, dev') | (Inr rs, dev') \<Rightarrow> (Inr ((-5, bios) # rs), dev'))
      else (case xfer_request dev bios of
        (Inl e, _, dev') \<Rightarrow> (Inl e, dev')
      | (Inr _, bios', dev') \<Rightarrow> (case full_request rest dev' of
          (Inl e, dev'') \<Rightarrow> (Inl e, dev'')
        | (Inr rs, dev'') \<Rightarrow> (Inr ((0, bios') # rs), dev''))))"

definition make_request :: "disk_dev \<Rightarrow> bio \<Rightarrow> int res \<times> bio \<times> disk_dev" where
  "make_request dev b = (case xfer_bio dev b of
     (Inl (Fault f), b', dev') \<Rightarrow> (crash f, b', dev')
   | (Inl (Errno _), b', dev') \<Rightarrow> (Inr (-5), b', dev')
   | (Inr status, b', dev') \<Rightarrow> (Inr status, b', dev'))"

section \<open>Transfers refine the abstract disk\<close>

definition dev_of :: "char list \<Rightarrow> disk_dev" where
  "dev_of d = \<lparr>dsize = int (length d), ddata = Some d\<rparr>"

lemma transfer_eq:
  assumes "disk_ok d" "unat sector < 2 ^ 32" "unat nsect < 2 ^ 32"
    and "length buffer = unat nsect * 512"
  shows "transfer (dev_of d) sector nsect buffer wr =
    (if length d div 512 < unat sector + unat nsect then (fail EIO, buffer, dev_of d)
     else if wr then (Inr 0, buffer, dev_of (blit d (unat sector * 512) buffer))
     else (Inr 0, chunk (unat sector * 512) (unat nsect * 512) d, dev_of d))"
proof -
  have b: "unat sector < 4294967296" "unat nsect < 4294967296" using assms(2,3) by simp_all
  have u: "unat (sector * 512) = unat sector * 512" "unat (nsect * 512) = unat nsect * 512"
    using b by (simp_all add: unat_word_ariths)
  have s: "unat (sector * 512 + nsect * 512) = (unat sector + unat nsect) * 512"
    using b u by (simp add: unat_word_ariths add_mult_distrib)
  have l: "unat (word_of_int (int (length d)) :: 64 word) = length d"
    using assms(1) by (simp add: disk_ok_def unsigned_of_nat take_bit_nat_eq_self)
  have c: "sector * 512 + nsect * 512 > word_of_int (int (length d)) \<longleftrightarrow> length d div 512 < unat sector + unat nsect"
    using disk_bound [OF assms(1), of "unat sector + unat nsect"] unfolding word_less_nat_alt s l by linarith
  show ?thesis
  proof (cases "length d div 512 < unat sector + unat nsect")
    case True
    then show ?thesis using c by (simp add: transfer_def dev_of_def)
  next
    case False
    then have e: "(unat sector + unat nsect) * 512 \<le> length d"
      using disk_bound [OF assms(1), of "unat sector + unat nsect"] by simp
    have r: "blit buffer 0 (chunk (unat sector * 512) (unat nsect * 512) d) = chunk (unat sector * 512) (unat nsect * 512) d"
      by (rule blit_full) (use e assms(4) in \<open>simp add: add_mult_distrib\<close>)
    have "length (blit d (unat sector * 512) buffer) = length d"
      using e assms(4) by (simp add: add_mult_distrib)
    then show ?thesis using False c e assms(4) r
      by (simp add: transfer_def dev_of_def u add_mult_distrib)
  qed
qed

lemma chunk_words:
  assumes "chunk_ok c"
  shows "unat (ucast (ucast (rq_pos c) :: 32 word) :: 64 word) = unat (rq_pos c)"
    "unat (ucast (cur_sectors c) :: 64 word) = unat (cur_sectors c)"
    "unat (rq_pos c) < 2 ^ 32" "unat (cur_sectors c) < 2 ^ 32"
  using assms by (simp_all add: chunk_ok_def unsigned_ucast_eq unsigned_take_bit_eq take_bit_nat_eq_self)

lemma transfer_my_chunk:
  assumes "chunk_ok c" "disk_ok d" "fs_rq c"
    "unat sector = unat (rq_pos c)" "unat nsect = unat (cur_sectors c)"
  shows "transfer (dev_of d) sector nsect (rq_buffer c) (to_disk c) = (case my_chunk c d of
    (r, buf, d') \<Rightarrow> (if r = Inr 0 then Inr 0 else fail EIO, buf, dev_of d'))"
    "fst (my_chunk c d) = Inr 0 \<or> fst (my_chunk c d) = Inr 1"
proof -
  have l: "unat sector < 2 ^ 32" "unat nsect < 2 ^ 32" "length (rq_buffer c) = unat nsect * 512"
    using assms chunk_words [OF assms(1)] by (simp_all add: chunk_ok_def)
  note m = my_chunk_cases [OF assms(1,2) refl refl]
  show "transfer (dev_of d) sector nsect (rq_buffer c) (to_disk c) = (case my_chunk c d of
    (r, buf, d') \<Rightarrow> (if r = Inr 0 then Inr 0 else fail EIO, buf, dev_of d'))"
    unfolding transfer_eq [OF assms(2) l] m using assms(3,4,5) by auto
  show "fst (my_chunk c d) = Inr 0 \<or> fst (my_chunk c d) = Inr 1" unfolding m by auto
qed

lemma simple_request_my_request:
  "\<forall>c \<in> set cs. chunk_ok c \<Longrightarrow> disk_ok d \<Longrightarrow> my_request cs d = (Inr rs, d') \<Longrightarrow>
    simple_request cs (dev_of d) = (Inr (map eio rs), dev_of d')"
proof (induction cs arbitrary: d rs)
  case Nil
  then show ?case by simp
next
  case (Cons c cs)
  obtain r b d1 where m: "my_chunk c d = (r, b, d1)" by (cases "my_chunk c d")
  have ok: "chunk_ok c" using Cons.prems(1) by simp
  have d1: "disk_ok d1" by (rule my_chunk_disk_ok(1) [OF ok Cons.prems(2) m])
  obtain x rs' where x: "r = Inr x" "my_request cs d1 = (Inr rs', d')" "rs = (x, b) # rs'"
    using Cons.prems(3) m by (auto split: sum.splits prod.splits)
  note IH = Cons.IH [OF _ d1 x(2)]
  note w = chunk_words [OF ok]
  show ?case
  proof (cases "fs_rq c")
    case True
    note t = transfer_my_chunk [OF ok Cons.prems(2) True w(1,2), unfolded m]
    show ?thesis using True IH Cons.prems(1) x t by (auto simp: eio_def)
  next
    case False
    then have "x = 1" "b = rq_buffer c" "d1 = d" using m x(1) by (auto simp: my_chunk_def)
    then show ?thesis using False IH Cons.prems(1) x by (simp add: eio_def)
  qed
qed

text \<open>The bio that carries one chunk.\<close>

definition bio_of :: "chunk_rq \<Rightarrow> bio" where
  "bio_of c = \<lparr>bi_sector = rq_pos c, bi_size = length (rq_buffer c), bi_write = to_disk c,
     segments = [rq_buffer c]\<rparr>"

definition eio1 :: "int \<Rightarrow> int" where
  "eio1 x = (if x = 0 then 0 else -5)"

lemma make_request_chunk:
  assumes "chunk_ok c" "fs_rq c" "disk_ok d" "my_chunk c d = (Inr x, b, d')"
  shows "make_request (dev_of d) (bio_of c) = (Inr (eio1 x), (bio_of c)\<lparr>segments := [b]\<rparr>, dev_of d')"
    and "xfer_bio (dev_of d) (bio_of c)
      = (if x = 0 then Inr 0 else fail EIO, (bio_of c)\<lparr>segments := [b]\<rparr>, dev_of d')"
proof -
  have n: "unat (bio_sectors (bio_of c)) = unat (cur_sectors c)"
    using assms(1) by (simp add: bio_sectors_def bio_of_def chunk_ok_def unsigned_of_nat unsigned_ucast_eq
        take_bit_nat_eq_self)
  note t = transfer_my_chunk [OF assms(1,3,2) _ n, of "rq_pos c", unfolded assms(4)]
  show xb: "xfer_bio (dev_of d) (bio_of c)
      = (if x = 0 then Inr 0 else fail EIO, (bio_of c)\<lparr>segments := [b]\<rparr>, dev_of d')"
    using t by (simp add: xfer_bio_def bio_of_def)
  show "make_request (dev_of d) (bio_of c) = (Inr (eio1 x), (bio_of c)\<lparr>segments := [b]\<rparr>, dev_of d')"
    by (simp add: make_request_def xb eio1_def)
qed

lemma full_request_chunks:
  "\<forall>c \<in> set cs. chunk_ok c \<and> fs_rq c \<Longrightarrow> disk_ok d \<Longrightarrow> my_request cs d = (Inr rs, d') \<Longrightarrow>
    full_request (map (\<lambda>c. (True, [bio_of c])) cs) (dev_of d)
      = (Inr (map2 (\<lambda>c r. (0, [(bio_of c)\<lparr>segments := [snd r]\<rparr>])) cs rs), dev_of d')"
proof (induction cs arbitrary: d rs)
  case Nil
  then show ?case by simp
next
  case (Cons c cs)
  obtain r b d1 where m: "my_chunk c d = (r, b, d1)" by (cases "my_chunk c d")
  have ok: "chunk_ok c" "fs_rq c" using Cons.prems(1) by simp_all
  have d1: "disk_ok d1" by (rule my_chunk_disk_ok(1) [OF ok(1) Cons.prems(2) m])
  obtain x rs' where x: "r = Inr x" "my_request cs d1 = (Inr rs', d')" "rs = (x, b) # rs'"
    using Cons.prems(3) m by (auto split: sum.splits prod.splits)
  note xb = make_request_chunk(2) [OF ok Cons.prems(2) m [unfolded x(1)]]
  show ?case using Cons.IH [OF _ d1 x(2)] Cons.prems(1) x(3) xb by auto
qed



text \<open>A bio of two segments moves the sectors of the whole bio for each of them, so a transfer
  that fits the disk leaves the first segment's buffer.\<close>

lemma two_segments_overrun:
  assumes "disk_ok d" "unat s < 2 ^ 32" "length b1 = 512" "length b2 = 512"
    "unat s + 2 \<le> length d div 512"
  shows "fst (xfer_bio (dev_of d) \<lparr>bi_sector = s, bi_size = 1024, bi_write = w, segments = [b1, b2]\<rparr>)
    = crash OutOfBounds"
proof -
  have u: "unat (s * 512) = unat s * 512" using assms(2) by (simp add: unat_word_ariths)
  have n: "s * 512 + 1024 = (s + 2) * 512" by (simp add: distrib_right)
  have n2: "unat (s + 2) = unat s + 2" using assms(2) by (simp add: unat_word_ariths)
  have l: "unat (word_of_int (int (length d)) :: 64 word) = length d"
    using assms(1) by (simp add: disk_ok_def unsigned_of_nat take_bit_nat_eq_self)
  have v: "unat (s * 512 + 1024) = (unat s + 2) * 512"
    unfolding n using n2 assms(2) by (simp add: unat_word_ariths)
  have "\<not> s * 512 + 1024 > word_of_int (int (length d))"
    unfolding word_less_nat_alt v l using disk_bound [OF assms(1), of "unat s + 2"] assms(5) by simp
  then show ?thesis using assms(3)
    by (simp add: xfer_bio_def bio_sectors_def transfer_def dev_of_def)
qed

section \<open>Creating and removing the disks\<close>

datatype ptr = Null | Live | Dangling

datatype rq_mode = RM_SIMPLE | RM_FULL | RM_NOQUEUE | RM_other

text \<open>What \<open>setup_device\<close> leaves in one element of the array.\<close>

record sdev =
  sd_size :: int
  sd_data :: ptr
  sd_queue :: "rq_mode option"
  sd_disk :: "(nat \<times> int) option"

record sdev_env =
  s_mem_ok :: bool
  s_queue_ok :: bool
  s_disk_ok :: bool

text \<open>The disk is described by its first minor and its capacity.\<close>

definition setup_device :: "rq_mode \<Rightarrow> int \<Rightarrow> int \<Rightarrow> int \<Rightarrow> sdev_env \<Rightarrow> nat \<Rightarrow> blk_held \<Rightarrow> sdev \<times> blk_held" where
  "setup_device mode diskmb hardsect_size nsectors e which h =
     (let dev = \<lparr>sd_size = wrap_int (diskmb * 1024 * 1024), sd_data = Null, sd_queue = None, sd_disk = None\<rparr> in
      if \<not> s_mem_ok e then (dev, h)
      else (let dev = dev\<lparr>sd_data := Live\<rparr>; h = h\<lparr>mems := mems h + 1\<rparr> in
        if \<not> s_queue_ok e then (dev\<lparr>sd_data := Dangling\<rparr>, h\<lparr>mems := mems h - 1\<rparr>)
        else (let dev = dev\<lparr>sd_queue := Some (if mode = RM_other then RM_SIMPLE else mode)\<rparr>;
                  h = h\<lparr>queues := queues h + 1\<rparr> in
          if \<not> s_disk_ok e then (dev\<lparr>sd_data := Dangling\<rparr>, h\<lparr>mems := mems h - 1\<rparr>)
          else (dev\<lparr>sd_disk := Some (which * 16, nsectors * cdiv hardsect_size 512)\<rparr>,
                h\<lparr>disks := disks h + 1\<rparr>))))"

fun setup_all :: "(nat \<Rightarrow> blk_held \<Rightarrow> sdev \<times> blk_held) \<Rightarrow> nat list \<Rightarrow> blk_held \<Rightarrow> sdev list \<times> blk_held" where
  "setup_all su [] h = ([], h)"
| "setup_all su (i # is) h = (let (dev, h1) = su i h; (devs, h2) = setup_all su is h1 in (dev # devs, h2))"

record sbull_env =
  sb_reg :: int
  sb_array_ok :: bool
  sb_dev :: "nat \<Rightarrow> sdev_env"

definition sbull_init :: "rq_mode \<Rightarrow> int \<Rightarrow> int \<Rightarrow> nat \<Rightarrow> sbull_env \<Rightarrow> blk_held
    \<Rightarrow> int res \<times> sdev list \<times> blk_held" where
  "sbull_init mode diskmb hardsect_size ndevices e h =
     (if hardsect_size = 0 then (crash DivZero, [], h)
      else
        (let nsectors = cdiv (wrap_int (diskmb * 1024 * 1024)) hardsect_size; h1 = register_blkdev (sb_reg e) h in
         if sb_reg e \<le> 0 then (fail EBUSY, [], h1)
         else if \<not> sb_array_ok e then (fail ENOMEM, [], h1\<lparr>majors := majors h1 - 1\<rparr>)
         else (case setup_all (\<lambda>i. setup_device mode diskmb hardsect_size nsectors (sb_dev e i) i)
                 [0..<ndevices] (h1\<lparr>mems := mems h1 + 1\<rparr>) of
           (devs, h2) \<Rightarrow> (Inr 0, devs, h2))))"

text \<open>One turn of the loop of \<open>blk_exit\<close>; releasing a disk that was never allocated or memory
  twice is undefined.\<close>

definition sbull_release :: "sdev \<Rightarrow> blk_held \<Rightarrow> blk_held res" where
  "sbull_release dev h =
     (let h1 = (if sd_disk dev \<noteq> None then h\<lparr>disks := disks h - 1\<rparr> else h);
          h2 = (if sd_queue dev \<noteq> None then h1\<lparr>queues := queues h1 - 1\<rparr> else h1) in
      case sd_data dev of
        Null \<Rightarrow> Inr h2 | Live \<Rightarrow> Inr (h2\<lparr>mems := mems h2 - 1\<rparr>) | Dangling \<Rightarrow> crash DoubleFree)"

fun sbull_exit_loop :: "sdev list \<Rightarrow> blk_held \<Rightarrow> blk_held res" where
  "sbull_exit_loop [] h = Inr h"
| "sbull_exit_loop (dev # devs) h = (case sbull_release dev h of
     Inl e \<Rightarrow> Inl e | Inr h' \<Rightarrow> sbull_exit_loop devs h')"

definition sbull_exit :: "sdev list \<Rightarrow> blk_held \<Rightarrow> blk_held res" where
  "sbull_exit devs h = (case sbull_exit_loop devs h of
     Inl e \<Rightarrow> Inl e | Inr h' \<Rightarrow> Inr (h'\<lparr>majors := majors h' - 1, mems := mems h' - 1\<rparr>))"

text \<open>The devices whose setup failed after their memory was allocated.\<close>

definition half_made :: "sdev_env \<Rightarrow> bool" where
  "half_made e \<longleftrightarrow> s_mem_ok e \<and> \<not> (s_queue_ok e \<and> s_disk_ok e)"

definition shift :: "blk_held \<Rightarrow> blk_held \<Rightarrow> blk_held" where
  "shift x h = \<lparr>majors = majors h + majors x, mems = mems h + mems x, queues = queues h + queues x,
     disks = disks h + disks x\<rparr>"

definition dev_held :: "sdev \<Rightarrow> blk_held" where
  "dev_held dev = \<lparr>majors = 0, mems = (if sd_data dev = Live then 1 else 0),
     queues = (if sd_queue dev \<noteq> None then 1 else 0), disks = (if sd_disk dev \<noteq> None then 1 else 0)\<rparr>"

lemma setup_held:
  "setup_device mode mb hs ns e i h = (dev, h') \<Longrightarrow>
    (sd_data dev = Dangling \<longleftrightarrow> half_made e) \<and> (\<not> half_made e \<longrightarrow> h' = shift (dev_held dev) h)"
  by (cases h)
    (auto simp: setup_device_def half_made_def shift_def dev_held_def Let_def split: if_splits)

lemma release_held:
  "sd_data dev \<noteq> Dangling \<Longrightarrow> sbull_release dev (shift (dev_held dev) h) = Inr h"
  by (cases h; cases "sd_data dev") (auto simp: sbull_release_def shift_def dev_held_def Let_def)

lemma release_dangling: "sd_data dev = Dangling \<Longrightarrow> sbull_release dev h = crash DoubleFree"
  by (simp add: sbull_release_def Let_def)

lemma release_total: "sd_data dev \<noteq> Dangling \<Longrightarrow> \<exists>h'. sbull_release dev h = Inr h'"
  by (cases "sd_data dev") (auto simp: sbull_release_def Let_def)

lemma shift_none [simp]: "shift none_held h = h"
  by (cases h) (simp add: shift_def none_held_def)

lemma shift_shift: "shift x (shift y h) = shift y (shift x h)"
  by (simp add: shift_def)

lemma exit_loop_dangling:
  "\<exists>dev \<in> set devs. sd_data dev = Dangling \<Longrightarrow> sbull_exit_loop devs h = crash DoubleFree"
proof (induction devs arbitrary: h)
  case (Cons dev devs)
  then show ?case
    using release_dangling [of dev h] release_total [of dev h] by (cases "sd_data dev = Dangling") auto
qed simp

lemma setup_exit_loop:
  assumes "\<forall>i \<in> set is. \<not> half_made (e i)"
    and "setup_all (\<lambda>i. setup_device mode mb hs ns (e i) i) is h = (devs, h2)"
  shows "sbull_exit_loop devs (shift k h2) = Inr (shift k h)"
  using assms
proof (induction "is" arbitrary: h devs h2 k)
  case Nil
  then show ?case by simp
next
  case (Cons i "is")
  obtain dev h1 where s: "setup_device mode mb hs ns (e i) i h = (dev, h1)" by fastforce
  obtain devs' where r: "setup_all (\<lambda>i. setup_device mode mb hs ns (e i) i) is h1 = (devs', h2)"
    "devs = dev # devs'" using Cons.prems(2) s by (auto simp: Let_def split: prod.splits)
  have d: "sd_data dev \<noteq> Dangling" and h1: "h1 = shift (dev_held dev) h"
    using setup_held [OF s] Cons.prems(1) by simp_all
  let ?un = "\<lparr>majors = majors k, mems = mems k - mems (dev_held dev),
    queues = queues k - queues (dev_held dev), disks = disks k - disks (dev_held dev)\<rparr>"
  have u: "shift k x = shift (dev_held dev) (shift ?un x)" for x
    by (simp add: shift_def dev_held_def)
  have "sbull_exit_loop devs' (shift ?un h2) = Inr (shift ?un h1)"
    by (rule Cons.IH [OF _ r(1)]) (use Cons.prems(1) in simp)
  moreover have "shift ?un h1 = shift k h" unfolding h1 u [of h] by (rule shift_shift)
  ultimately show ?case unfolding r(2) u [of h2] by (simp add: release_held [OF d])
qed

lemma setup_all_dangling:
  "setup_all (\<lambda>i. setup_device mode mb hs ns (e i) i) is h = (devs, h2) \<Longrightarrow>
    (\<exists>dev \<in> set devs. sd_data dev = Dangling) \<longleftrightarrow> (\<exists>i \<in> set is. half_made (e i))"
proof (induction "is" arbitrary: h devs h2)
  case (Cons i "is")
  obtain dev h1 where s: "setup_device mode mb hs ns (e i) i h = (dev, h1)" by fastforce
  obtain devs' where r: "setup_all (\<lambda>i. setup_device mode mb hs ns (e i) i) is h1 = (devs', h2)"
    "devs = dev # devs'" using Cons.prems s by (auto simp: Let_def split: prod.splits)
  show ?case using Cons.IH [OF r(1)] setup_held [OF s] r(2) by simp
qed simp

text \<open>\<open>blk_init\<close> reports success even when single devices could not be made. Unloading then
  releases exactly what loading took, provided every device was made completely or failed at its
  first allocation; if one failed later, its memory is released a second time.\<close>

theorem sbull_unload:
  assumes "sbull_init mode mb hs n e h = (Inr 0, devs, h')"
  shows "sbull_exit devs h' = (if \<exists>i < n. half_made (sb_dev e i) then crash DoubleFree else Inr h)"
proof -
  define h1 where "h1 = shift \<lparr>majors = 1, mems = 1, queues = 0, disks = 0\<rparr> h"
  define ns where "ns = cdiv (wrap_int (mb * 1024 * 1024)) hs"
  have su: "setup_all (\<lambda>i. setup_device mode mb hs ns (sb_dev e i) i) [0..<n] h1 = (devs, h')"
    using assms by (cases h)
      (auto simp: sbull_init_def Let_def register_blkdev_def h1_def ns_def shift_def split: if_splits prod.splits)
  show ?thesis
  proof (cases "\<exists>i < n. half_made (sb_dev e i)")
    case True
    then have "\<exists>dev \<in> set devs. sd_data dev = Dangling" using setup_all_dangling [OF su] by auto
    then show ?thesis using True by (simp add: sbull_exit_def exit_loop_dangling)
  next
    case False
    have "sbull_exit_loop devs (shift none_held h') = Inr (shift none_held h1)"
      by (rule setup_exit_loop [OF _ su]) (use False in auto)
    then have "sbull_exit_loop devs h' = Inr h1" by simp
    then show ?thesis using False by (cases h) (auto simp add: sbull_exit_def h1_def shift_def)
  qed
qed

theorem sbull_unload_witness:
  "\<exists>devs h'. fst (sbull_init RM_FULL 4 512 4 \<lparr>sb_reg = 252, sb_array_ok = True,
      sb_dev = \<lambda>i. \<lparr>s_mem_ok = True, s_queue_ok = True, s_disk_ok = i \<noteq> 1\<rparr>\<rparr> none_held) = Inr 0
    \<and> sbull_exit devs h' = crash DoubleFree"
proof -
  let ?e = "\<lparr>sb_reg = 252, sb_array_ok = True,
    sb_dev = \<lambda>i. \<lparr>s_mem_ok = True, s_queue_ok = True, s_disk_ok = i \<noteq> 1\<rparr>\<rparr>"
  have "fst (sbull_init RM_FULL 4 512 4 ?e none_held) = Inr 0"
    by (simp add: sbull_init_def Let_def split_beta)
  then obtain devs h' where s: "sbull_init RM_FULL 4 512 4 ?e none_held = (Inr 0, devs, h')"
    by (metis prod.collapse)
  have "\<exists>i < 4. half_made (sb_dev ?e i)" by (rule exI [of _ 1]) (simp add: half_made_def)
  then show ?thesis using sbull_unload [OF s] s by auto
qed

text \<open>A major number given on the command line makes \<open>register_blkdev\<close> return 0, which the init
  function takes for an error: it fails and leaves the major registered.\<close>

lemma sbull_init_explicit_major:
  "hs \<noteq> 0 \<Longrightarrow> sb_reg e = 0 \<Longrightarrow>
    sbull_init mode mb hs n e h = (fail EBUSY, [], h\<lparr>majors := majors h + 1\<rparr>)"
  by (simp add: sbull_init_def register_blkdev_def Let_def)

end
