(* ===== verification/Dubfl.thy ===== *)
theory Dubfl
  imports Block_Request
begin

text \<open>
  \<open>Tasks/blkdev/dubfl\<close>: a RAM disk that is loaded from an image file, saved to it and detached
  from it by ioctl commands (\<open>dubfl.c\<close>), and the dialogue that sends them (\<open>fchange.c\<close>).
  The file system is the kernel's: a map from paths to contents; \<open>io off\<close> is how many bytes
  \<open>vfs_read\<close> or \<open>vfs_write\<close> moves when called at offset \<open>off\<close>, 0 standing for an error.
\<close>

section \<open>The disk and its file\<close>

definition MAX_PATH_LENGTH :: nat where
  "MAX_PATH_LENGTH = 160"

type_synonym files = "char list \<Rightarrow> char list option"

record own_disk =
  fname :: "char list"
  ssize :: nat
  bsize :: nat
  media_change :: int
  image :: "char list option"
  img_file :: "char list option"

definition zero_disk :: own_disk where
  "zero_disk = \<lparr>fname = [], ssize = 0, bsize = 0, media_change = 0, image = None, img_file = None\<rparr>"

definition my_media_changed :: "own_disk \<Rightarrow> int" where
  "my_media_changed d = media_change d"

definition my_revalidate :: "own_disk \<Rightarrow> int \<times> own_disk" where
  "my_revalidate d = (0, if media_change d \<noteq> 0 then d\<lparr>media_change := 0\<rparr> else d)"

definition unlink_file :: "own_disk \<Rightarrow> own_disk" where
  "unlink_file d = d\<lparr>img_file := None, image := None, fname := [], ssize := 0, bsize := 0\<rparr>"

text \<open>The copy loops go on until the offset reaches the size of the disk, whatever the calls
  return, so they need not end; \<open>None\<close> is running out of fuel. Each call is given 512 bytes of
  the image, even if fewer are left.\<close>

fun img_read_loop :: "nat \<Rightarrow> (nat \<Rightarrow> nat) \<Rightarrow> char list \<Rightarrow> nat \<Rightarrow> nat \<Rightarrow> char list \<Rightarrow> char list res option" where
  "img_read_loop 0 io c lim off d = (if off < lim then None else Some (Inr d))"
| "img_read_loop (Suc fuel) io c lim off d =
     (if off < lim
      then (let bytes = chunk off (min 512 (io off)) c in
        if length d < off + length bytes then Some (crash OutOfBounds)
        else img_read_loop fuel io c lim (off + length bytes) (blit d off bytes))
      else Some (Inr d))"

fun img_write_loop :: "nat \<Rightarrow> (nat \<Rightarrow> nat) \<Rightarrow> char list \<Rightarrow> nat \<Rightarrow> nat \<Rightarrow> char list \<Rightarrow> char list res option" where
  "img_write_loop 0 io d lim off c = (if off < lim then None else Some (Inr c))"
| "img_write_loop (Suc fuel) io d lim off c =
     (if off < lim
      then (let n = min 512 (io off) in
        if length d < off + n then Some (crash OutOfBounds)
        else img_write_loop fuel io d lim (off + n) (blit c off (chunk off n d)))
      else Some (Inr c))"

definition save_file :: "nat \<Rightarrow> (nat \<Rightarrow> nat) \<Rightarrow> own_disk \<Rightarrow> files \<Rightarrow> files res option" where
  "save_file fuel io d fs = (case img_file d of
     None \<Rightarrow> Some (crash NullDeref)
   | Some p \<Rightarrow>
       (case image d of
          None \<Rightarrow> Some (if bsize d = 0 then Inr fs else crash NullDeref)
        | Some x \<Rightarrow> map_option (map_sum id (\<lambda>c. fs(p \<mapsto> c)))
            (img_write_loop fuel io x (bsize d) 0 (case fs p of None \<Rightarrow> [] | Some c \<Rightarrow> c))))"

text \<open>The name is copied before it is checked; the sizes are computed in 32 bits. \<open>al n\<close> is the
  memory of \<open>n\<close> bytes \<open>vmalloc\<close> returns, if it does.\<close>

definition load_file :: "nat \<Rightarrow> (nat \<Rightarrow> nat) \<Rightarrow> (nat \<Rightarrow> char list option) \<Rightarrow> files
    \<Rightarrow> char list option \<Rightarrow> own_disk \<Rightarrow> (int res \<times> own_disk) option" where
  "load_file fuel io al fs path d = (case path of
     None \<Rightarrow> Some (crash NullDeref, d)
   | Some nm \<Rightarrow>
       (let d1 = d\<lparr>fname := take MAX_PATH_LENGTH nm\<rparr> in
        if nm = [] then Some (fail ENOENT, d1)
        else case fs (fname d1) of
          None \<Rightarrow> Some (fail ENOENT, d1)
        | Some c \<Rightarrow>
            (let ss = (length c div 512) mod 2 ^ 32;
                 bs = ss * 512 mod 2 ^ 32;
                 d2 = d1\<lparr>img_file := Some (fname d1), ssize := ss, bsize := bs\<rparr> in
             case al bs of
               None \<Rightarrow> Some (fail ENOMEM, unlink_file d2)
             | Some m \<Rightarrow> map_option (\<lambda>x. case x of
                   Inl e \<Rightarrow> (Inl e, d2\<lparr>image := Some m\<rparr>) | Inr y \<Rightarrow> (Inr 0, d2\<lparr>image := Some y\<rparr>))
                 (img_read_loop fuel io c bs 0 m))))"

section \<open>Requests\<close>

definition dub_chunk :: "chunk_rq \<Rightarrow> own_disk \<Rightarrow> int res \<times> char list \<times> own_disk" where
  "dub_chunk c d =
     (let sector = rq_pos c; nr = (ucast (cur_sectors c) :: 64 word);
          offset = unat (sector * 512); nbytes = unat (nr * 512) in
      if \<not> fs_rq c then (Inr (-5), rq_buffer c, d)
      else if sector + nr > of_nat (ssize d) then (Inr (-5), rq_buffer c, d)
      else if nbytes = 0 then (Inr 0, rq_buffer c, d)
      else case image d of
        None \<Rightarrow> (crash NullDeref, rq_buffer c, d)
      | Some x \<Rightarrow>
          if length x < offset + nbytes \<or> length (rq_buffer c) < nbytes
          then (crash OutOfBounds, rq_buffer c, d)
          else if to_disk c
          then (Inr 0, rq_buffer c, d\<lparr>image := Some (blit x offset (take nbytes (rq_buffer c)))\<rparr>)
          else (Inr 0, blit (rq_buffer c) 0 (chunk offset nbytes x), d))"

fun dub_request :: "chunk_rq list \<Rightarrow> own_disk \<Rightarrow> (int \<times> char list) list res \<times> own_disk" where
  "dub_request [] d = (Inr [], d)"
| "dub_request (c # cs) d = (case dub_chunk c d of
     (Inl e, _, d') \<Rightarrow> (Inl e, d')
   | (Inr res, buf, d') \<Rightarrow> (case dub_request cs d' of
       (Inl e, d'') \<Rightarrow> (Inl e, d'')
     | (Inr rs, d'') \<Rightarrow> (Inr ((res, buf) # rs), d'')))"

section \<open>The ioctl commands\<close>

text \<open>\<open>DUBFL_LOAD_DISK\<close> carries the array of the path. Its result does not depend on whether the
  load succeeded.\<close>

datatype dub_cmd = GET_INFO | SAVE_DISK | UNLINK_DISK | LOAD_DISK "char list" | OTHER nat

datatype dub_reply = No_reply | Info "char list" nat | Geo "hd_geometry option"

definition new_ioctl :: "nat \<Rightarrow> (nat \<Rightarrow> nat) \<Rightarrow> (nat \<Rightarrow> char list option) \<Rightarrow> ucopy \<Rightarrow> int \<Rightarrow> dub_cmd
    \<Rightarrow> own_disk \<times> files \<Rightarrow> (int res \<times> dub_reply \<times> own_disk \<times> files) option" where
  "new_ioctl fuel io al uc diskmb cmd = (\<lambda>(d, fs). case cmd of
     GET_INFO \<Rightarrow>
       (if uc 0 (MAX_PATH_LENGTH + 1 + 8) \<noteq> 0 then Some (fail EFAULT, No_reply, d, fs)
        else Some (Inr 0, Info (fname d) (bsize d), d, fs))
   | SAVE_DISK \<Rightarrow>
       (if img_file d = None \<or> image d = None then Some (fail EFAULT, No_reply, d, fs)
        else map_option (\<lambda>r. case r of
            Inl e \<Rightarrow> (Inl e, No_reply, d, fs) | Inr fs' \<Rightarrow> (Inr 0, No_reply, d, fs'))
          (save_file fuel io d fs))
   | UNLINK_DISK \<Rightarrow> Some (Inr 0, No_reply, unlink_file d, fs)
   | LOAD_DISK path \<Rightarrow>
       (if uc 0 (MAX_PATH_LENGTH + 1) \<noteq> 0 then Some (fail EFAULT, No_reply, d, fs)
        else if NUL \<notin> set path then Some (crash OutOfBounds, No_reply, d, fs)
        else map_option (\<lambda>(r, d'). (case r of Inl (Fault f) \<Rightarrow> crash f | _ \<Rightarrow> Inr 0, No_reply, d', fs))
          (load_file fuel io al fs (Some (cstr path)) d))
   | OTHER n \<Rightarrow> (case my_ioctl uc diskmb n of (r, g) \<Rightarrow> Some (r, Geo g, d, fs)))"

section \<open>Loading and unloading the module\<close>

text \<open>\<open>reg\<close> is the value of \<open>register_blkdev\<close>; a missing \<open>file\<close> parameter is a null pointer.
  The result of \<open>load_file\<close> is not looked at. The capacity of the disk is set here only.\<close>

record dub_env =
  d_reg :: int
  d_queue_ok :: bool
  d_disk_ok :: bool

definition dub_setup :: "nat \<Rightarrow> (nat \<Rightarrow> nat) \<Rightarrow> (nat \<Rightarrow> char list option) \<Rightarrow> files \<Rightarrow> dub_env
    \<Rightarrow> char list option \<Rightarrow> own_disk \<Rightarrow> blk_held \<Rightarrow> (int res \<times> own_disk \<times> blk_held \<times> nat) option" where
  "dub_setup fuel io al fs e path d h =
     map_option (\<lambda>(r, d1). case r of
         Inl (Fault f) \<Rightarrow> (crash f, d1, h, 0)
       | _ \<Rightarrow>
         (if \<not> d_queue_ok e then (fail EIO, unlink_file d1, h, 0)
          else (let h1 = h\<lparr>queues := queues h + 1\<rparr> in
            if \<not> d_disk_ok e then (fail EIO, unlink_file d1, h1, 0)
            else (Inr 0, d1, h1\<lparr>disks := disks h1 + 1\<rparr>, ssize d1))))
       (load_file fuel io al fs path d)"

definition dub_init :: "nat \<Rightarrow> (nat \<Rightarrow> nat) \<Rightarrow> (nat \<Rightarrow> char list option) \<Rightarrow> files \<Rightarrow> dub_env
    \<Rightarrow> char list option \<Rightarrow> blk_held \<Rightarrow> (int res \<times> own_disk \<times> blk_held \<times> nat) option" where
  "dub_init fuel io al fs e path h =
     (let h1 = register_blkdev (d_reg e) h in
      if d_reg e \<le> 0 then Some (fail EBUSY, zero_disk, h1, 0)
      else map_option (\<lambda>(r, d, h2, cap). case r of
          Inl (Errno x) \<Rightarrow> (r, d, h2\<lparr>majors := majors h2 - 1\<rparr>, cap)
        | _ \<Rightarrow> (r, d, h2, cap))
        (dub_setup fuel io al fs e path zero_disk h1))"

definition dub_exit :: "nat \<Rightarrow> (nat \<Rightarrow> nat) \<Rightarrow> own_disk \<Rightarrow> files \<Rightarrow> blk_held
    \<Rightarrow> (unit res \<times> own_disk \<times> files \<times> blk_held) option" where
  "dub_exit fuel io d fs h = map_option (\<lambda>r. case r of
       Inl e \<Rightarrow> (Inl e, d, fs, h)
     | Inr fs' \<Rightarrow> (Inr (), unlink_file d, fs',
         h\<lparr>disks := disks h - 1, queues := queues h - 1, majors := majors h - 1\<rparr>))
     (save_file fuel io d fs)"

section \<open>The dialogue (fchange.c)\<close>

datatype fchange_action = Send dub_cmd | Next | Quit

text \<open>\<open>nsc\<close> is the number of fields \<open>sscanf\<close> filled, \<open>stat_ok\<close> whether the file exists.\<close>

definition fchange_path :: "char list \<Rightarrow> char list \<Rightarrow> char list option" where
  "fchange_path cwd arg =
     (if arg \<noteq> [] \<and> hd arg = CHR ''/'' then Some arg
      else if length cwd + length arg > MAX_PATH_LENGTH - 1 then None
      else Some (cwd @ ''/'' @ arg))"

definition pad_path :: "char list \<Rightarrow> char list" where
  "pad_path p = p @ replicate (MAX_PATH_LENGTH + 1 - length p) NUL"

definition fchange_cmd :: "char list \<Rightarrow> bool \<Rightarrow> char \<Rightarrow> nat \<Rightarrow> char list \<Rightarrow> fchange_action" where
  "fchange_cmd cwd stat_ok c nsc arg =
     (if c = CHR ''s'' then Send SAVE_DISK
      else if c = CHR ''u'' then Send UNLINK_DISK
      else if c = CHR ''l'' then
        (if nsc \<noteq> 2 \<or> arg = [] then Next
         else if \<not> stat_ok then Next
         else case fchange_path cwd arg of
           None \<Rightarrow> Next | Some full \<Rightarrow> Send (LOAD_DISK (pad_path full)))
      else if c = CHR ''i'' then Send GET_INFO
      else if c = CHR ''q'' then Quit
      else Next)"

section \<open>Requests\<close>

text \<open>The disk's invariant: attached to an image of a whole number of sectors, or empty.\<close>

definition dub_inv :: "own_disk \<Rightarrow> bool" where
  "dub_inv d \<longleftrightarrow> (case image d of
     None \<Rightarrow> ssize d = 0 \<and> bsize d = 0
   | Some x \<Rightarrow> img_file d \<noteq> None \<and> disk_ok x \<and> length x = bsize d \<and> bsize d = ssize d * 512)"

lemma dub_chunk_eq:
  assumes "chunk_ok c" "dub_inv d" "image d = Some x"
  shows "dub_chunk c d = (case my_chunk c x of
    (r, b, x') \<Rightarrow> (if r = Inr 0 then Inr 0 else Inr (-5), b, d\<lparr>image := Some x'\<rparr>))"
proof -
  define p n where "p = unat (rq_pos c)" and "n = unat (cur_sectors c)"
  have d: "disk_ok x" "length x = ssize d * 512" using assms(2,3) by (simp_all add: dub_inv_def)
  have pn: "p < 8388608" "n < 4194304" "length (rq_buffer c) = n * 512"
    using assms(1) by (simp_all add: chunk_ok_def p_def n_def)
  have ss: "ssize d < 4194304" using d by (simp add: disk_ok_def)
  have un: "unat (ucast (cur_sectors c) :: 64 word) = n"
    using pn by (simp add: n_def unsigned_ucast_eq take_bit_nat_eq_self)
  have o: "unat (rq_pos c * 512) = p * 512" "unat ((ucast (cur_sectors c) :: 64 word) * 512) = n * 512"
    using pn un by (simp_all add: unat_word_ariths p_def)
  have s: "unat (rq_pos c + (ucast (cur_sectors c) :: 64 word)) = p + n"
    using pn un by (simp add: unat_word_ariths p_def)
  have "unat (of_nat (ssize d) :: 64 word) = ssize d"
    using ss by (simp add: unsigned_of_nat take_bit_nat_eq_self)
  then have c: "rq_pos c + ucast (cur_sectors c) > of_nat (ssize d) \<longleftrightarrow> p + n > ssize d"
    unfolding word_less_nat_alt s by simp
  have e: "p * 512 + n * 512 \<le> length x" if "\<not> p + n > ssize d"
    using that unfolding d(2) by linarith
  have b: "blit (rq_buffer c) 0 (chunk (p * 512) (n * 512) x) = chunk (p * 512) (n * 512) x" if "\<not> p + n > ssize d"
    by (rule blit_full) (use e [OF that] pn in simp)
  have dx: "d\<lparr>image := Some x\<rparr> = d" using assms(3) by simp
  note m = my_chunk_cases [OF assms(1) d(1) p_def n_def]
  have cap: "length x div 512 = ssize d" using d(2) by simp
  show ?thesis
  proof (cases "\<not> fs_rq c \<or> p + n > ssize d")
    case True
    then show ?thesis unfolding m cap dub_chunk_def Let_def c by (auto simp: dx)
  next
    case False
    have le: "\<not> (length x < p * 512 + n * 512 \<or> length (rq_buffer c) < n * 512)"
      using e False pn by auto
    have z: "blit x (p * 512) (rq_buffer c) = x" "chunk (p * 512) (n * 512) x = rq_buffer c" if "n = 0"
      using that pn(3) by simp_all
    show ?thesis
      using False le pn(3) b assms(3) z dx unfolding m cap dub_chunk_def Let_def c o by auto
  qed
qed

lemma dub_chunk_empty:
  assumes "chunk_ok c" "dub_inv d" "image d = None"
  shows "dub_chunk c d = (case my_chunk c [] of
    (r, b, x') \<Rightarrow> (if r = Inr 0 then Inr 0 else Inr (-5), b, d))"
proof -
  define p n where "p = unat (rq_pos c)" and "n = unat (cur_sectors c)"
  have pn: "p < 8388608" "n < 4194304" "length (rq_buffer c) = n * 512"
    using assms(1) by (simp_all add: chunk_ok_def p_def n_def)
  have un: "unat (ucast (cur_sectors c) :: 64 word) = n"
    using pn by (simp add: n_def unsigned_ucast_eq take_bit_nat_eq_self)
  have s: "unat (rq_pos c + (ucast (cur_sectors c) :: 64 word)) = p + n"
    using pn un by (simp add: unat_word_ariths p_def)
  have o: "unat ((ucast (cur_sectors c) :: 64 word) * 512) = n * 512"
    using pn un by (simp add: unat_word_ariths)
  have c: "rq_pos c + ucast (cur_sectors c) > of_nat (ssize d) \<longleftrightarrow> p + n > 0"
    unfolding word_less_nat_alt s using assms(2,3) by (simp add: dub_inv_def)
  have e: "disk_ok []" by (simp add: disk_ok_def)
  note m = my_chunk_cases [OF assms(1) e p_def n_def]
  have z: "blit [] 0 (rq_buffer c) = []" "chunk 0 0 [] = rq_buffer c" if "n = 0"
    using that pn(3) by simp_all
  show ?thesis
    using z unfolding m dub_chunk_def Let_def c o by (cases "p + n > 0") auto
qed

definition img :: "own_disk \<Rightarrow> char list" where
  "img d = (case image d of None \<Rightarrow> [] | Some x \<Rightarrow> x)"

definition set_img :: "char list \<Rightarrow> own_disk \<Rightarrow> own_disk" where
  "set_img x d = (if image d = None then d else d\<lparr>image := Some x\<rparr>)"

lemma set_img_inv:
  "dub_inv d \<Longrightarrow> disk_ok x \<Longrightarrow> length x = length (img d) \<Longrightarrow>
    dub_inv (set_img x d) \<and> img (set_img x d) = x"
  by (auto simp: dub_inv_def set_img_def img_def split: option.splits)

lemma img_disk_ok: "dub_inv d \<Longrightarrow> disk_ok (img d)"
  by (auto simp: dub_inv_def img_def disk_ok_def split: option.splits)

lemma set_img_set_img [simp]: "set_img x (set_img y d) = set_img x d"
  by (simp add: set_img_def)

lemma dub_chunk_img:
  assumes "chunk_ok c" "dub_inv d" "my_chunk c (img d) = (Inr x, b, y)"
  shows "dub_chunk c d = (Inr (fst (eio (x, b))), b, set_img y d)"
  using my_chunk_disk_ok(3) [OF assms(1) img_disk_ok [OF assms(2)] assms(3)] assms(3)
    dub_chunk_eq [OF assms(1,2)] dub_chunk_empty [OF assms(1,2)]
  by (cases "image d") (auto simp: img_def set_img_def eio_def)

lemma dub_request_img:
  "\<forall>c \<in> set cs. chunk_ok c \<Longrightarrow> dub_inv d \<Longrightarrow> my_request cs (img d) = (Inr rs, y) \<Longrightarrow>
    dub_request cs d = (Inr (map eio rs), set_img y d) \<and> dub_inv (set_img y d)"
proof (induction cs arbitrary: d rs)
  case Nil
  then have "set_img y d = d" by (auto simp: set_img_def img_def split: option.splits)
  then show ?case using Nil by simp
next
  case (Cons c cs)
  obtain r b y1 where m: "my_chunk c (img d) = (r, b, y1)" by (cases "my_chunk c (img d)")
  have ok: "chunk_ok c" using Cons.prems(1) by simp
  note y1 = my_chunk_disk_ok [OF ok img_disk_ok [OF Cons.prems(2)] m]
  obtain x rs' where x: "r = Inr x" "my_request cs y1 = (Inr rs', y)" "rs = (x, b) # rs'"
    using Cons.prems(3) m by (auto split: sum.splits prod.splits)
  have i: "dub_inv (set_img y1 d)" "img (set_img y1 d) = y1"
    using set_img_inv [OF Cons.prems(2) y1(1,2)] by simp_all
  note c = dub_chunk_img [OF ok Cons.prems(2) m [unfolded x(1)]]
  show ?case
    using Cons.IH [OF _ i(1)] Cons.prems(1) x(2,3) c i(2) by (auto simp: eio_def)
qed

section \<open>Loading and saving\<close>

text \<open>When every call moves all it is asked for, the loops end after one call per sector.\<close>

definition full_io :: "(nat \<Rightarrow> nat) \<Rightarrow> bool" where
  "full_io io \<longleftrightarrow> (\<forall>off. 512 \<le> io off)"

lemma img_read_full:
  assumes "full_io io" "k * 512 \<le> length c" "length d = k * 512"
  shows "j \<le> k \<Longrightarrow> k - j \<le> fuel \<Longrightarrow>
    img_read_loop fuel io c (k * 512) (j * 512) (take (j * 512) c @ drop (j * 512) d) = Some (Inr (take (k * 512) c))"
proof (induction fuel arbitrary: j)
  case 0
  then show ?case using assms by simp
next
  case (Suc fuel)
  show ?case
  proof (cases "j = k")
    case True
    then show ?thesis using assms by simp
  next
    case False
    then have jk: "Suc j \<le> k" "j * 512 + 512 \<le> k * 512" using Suc.prems(1) by linarith+
    have n: "min 512 (io (j * 512)) = 512" using assms(1) by (simp add: full_io_def)
    let ?b = "chunk (j * 512) 512 c" and ?d = "take (j * 512) c @ drop (j * 512) d"
    have lb: "length ?b = 512" using jk(2) assms(2) by simp
    have t: "take (j * 512) c @ ?b = take (j * 512 + 512) c" by (simp add: chunk_def take_add)
    have ld: "length ?d = k * 512" using jk assms by simp
    have lt: "length (take (j * 512) c) = j * 512" using jk assms by simp
    have "blit ?d (j * 512) ?b = take (j * 512) c @ ?b @ drop (j * 512 + 512) d"
      using lb lt by (simp add: blit_def add.commute)
    then have bl: "blit ?d (j * 512) ?b = take (Suc j * 512) c @ drop (Suc j * 512) d"
      using t by (simp add: add.commute)
    have "img_read_loop (Suc fuel) io c (k * 512) (j * 512) ?d
        = img_read_loop fuel io c (k * 512) (Suc j * 512) (blit ?d (j * 512) ?b)"
      using jk lb ld n by (simp add: Let_def add.commute)
    then show ?thesis unfolding bl using Suc.IH [OF jk(1)] Suc.prems(2) by simp
  qed
qed

lemma img_write_full:
  assumes "full_io io" "length d = k * 512"
  shows "j \<le> k \<Longrightarrow> k - j \<le> fuel \<Longrightarrow> k * 512 \<le> length c \<Longrightarrow> take (j * 512) c = take (j * 512) d \<Longrightarrow>
    img_write_loop fuel io d (k * 512) (j * 512) c = Some (Inr (d @ drop (k * 512) c))"
proof (induction fuel arbitrary: j c)
  case 0
  then show ?case using assms by (metis append_take_drop_id diff_is_0_eq eq_iff img_write_loop.simps(1)
      le_zero_eq less_irrefl order_refl take_all)
next
  case (Suc fuel)
  show ?case
  proof (cases "j = k")
    case True
    then have "c = d @ drop (k * 512) c" using Suc.prems(4) assms(2) by (metis append_take_drop_id order_refl take_all)
    then show ?thesis using True by simp
  next
    case False
    then have jk: "Suc j \<le> k" "j * 512 + 512 \<le> k * 512" using Suc.prems(1) by linarith+
    have n: "min 512 (io (j * 512)) = 512" using assms(1) by (simp add: full_io_def)
    let ?b = "chunk (j * 512) 512 d"
    let ?c = "blit c (j * 512) ?b"
    have lb: "length ?b = 512" using jk(2) assms(2) by simp
    have lc: "length ?c = length c" using jk(2) lb Suc.prems(3) by simp
    have lt: "length (take (j * 512) c) = j * 512" using jk Suc.prems(3) by simp
    have "take (Suc j * 512) ?c = take (j * 512) c @ ?b"
      unfolding blit_def using lb lt by (simp add: add.commute)
    also have "\<dots> = take (Suc j * 512) d" using Suc.prems(4) by (simp add: chunk_def take_add [symmetric] add.commute)
    finally have t: "take (Suc j * 512) ?c = take (Suc j * 512) d" .
    have dr: "drop (k * 512) ?c = drop (k * 512) c"
      unfolding blit_def using lb lt jk(2) by simp
    have "img_write_loop (Suc fuel) io d (k * 512) (j * 512) c = img_write_loop fuel io d (k * 512) (Suc j * 512) ?c"
      using jk assms(2) n by (simp add: Let_def add.commute)
    then show ?thesis
      using Suc.IH [OF jk(1) _ _ t] Suc.prems(2,3) lc dr by simp
  qed
qed

definition mem_total :: "(nat \<Rightarrow> char list option) \<Rightarrow> bool" where
  "mem_total al \<longleftrightarrow> (\<forall>n > 0. \<exists>m. al n = Some m \<and> length m = n)"

definition mem_sized :: "(nat \<Rightarrow> char list option) \<Rightarrow> bool" where
  "mem_sized al \<longleftrightarrow> (\<forall>n m. al n = Some m \<longrightarrow> length m = n)"

text \<open>The disk attached to a file.\<close>

definition attached :: "char list \<Rightarrow> char list \<Rightarrow> own_disk \<Rightarrow> bool" where
  "attached p x d \<longleftrightarrow> image d = Some x \<and> img_file d = Some p \<and> dub_inv d"

lemma load_file_ok:
  assumes "full_io io" "mem_total al" "fs p = Some c" "p \<noteq> []" "length p \<le> MAX_PATH_LENGTH"
    and "512 \<le> length c" "length c < 2 ^ 31" "length c div 512 \<le> fuel"
  shows "\<exists>d'. load_file fuel io al fs (Some p) d = Some (Inr 0, d')
    \<and> attached p (take (length c div 512 * 512) c) d'"
proof -
  define k where "k = length c div 512"
  have b: "k < 4194304" using assms(7) unfolding k_def by (intro less_mult_imp_div_less) simp
  have k: "k mod 2 ^ 32 = k" "k * 512 mod 2 ^ 32 = k * 512" "k * 512 < 2147483648"
    using b by simp_all
  have k2: "k * 512 \<le> length c" unfolding k_def by (rule div_times_less_eq_dividend)
  have k3: "0 < k" using assms(6) unfolding k_def by (simp add: div_greater_zero_iff)
  from k3 obtain m where m: "al (k * 512) = Some m" "length m = k * 512"
    using assms(2) [unfolded mem_total_def, rule_format, of "k * 512"] by auto
  have r: "img_read_loop fuel io c (k * 512) 0 m = Some (Inr (take (k * 512) c))"
    using img_read_full [OF assms(1) k2 m(2), of 0 fuel] assms(8) by (simp add: k_def)
  show ?thesis
    using assms(3-5) m r k k2
    by (simp add: load_file_def Let_def k_def [symmetric] attached_def dub_inv_def disk_ok_def)
qed

lemma save_file_ok:
  assumes "full_io io" "attached p x d" "fs p = Some c" "length x \<le> length c" "length x div 512 \<le> fuel"
  shows "save_file fuel io d fs = Some (Inr (fs(p \<mapsto> x @ drop (length x) c)))"
proof -
  have d: "length x = bsize d" "bsize d = ssize d * 512" "image d = Some x" "img_file d = Some p"
    using assms(2) by (auto simp: attached_def dub_inv_def)
  have "img_write_loop fuel io x (ssize d * 512) 0 c = Some (Inr (x @ drop (ssize d * 512) c))"
    using img_write_full [OF assms(1), of x "ssize d" 0 fuel c] d assms(4,5) by simp
  then show ?thesis using d assms(3) by (simp add: save_file_def)
qed

lemma img_read_length:
  "img_read_loop fuel io c lim off d = Some (Inr x) \<Longrightarrow> length x = length d"
  by (induction fuel io c lim off d rule: img_read_loop.induct)
    (auto simp: Let_def split: if_splits)

definition files_small :: "files \<Rightarrow> bool" where
  "files_small fs \<longleftrightarrow> (\<forall>p c. fs p = Some c \<longrightarrow> length c < 2 ^ 31)"

lemma unlink_inv: "dub_inv (unlink_file d)"
  by (simp add: unlink_file_def dub_inv_def)

lemma load_file_inv:
  assumes "dub_inv d" "mem_sized al" "files_small fs" "load_file fuel io al fs path d = Some (r, d')"
    and "\<forall>f. r \<noteq> crash f"
  shows "dub_inv d'"
proof -
  obtain nm where nm: "path = Some nm" using assms(4,5) by (cases path) (auto simp: load_file_def)
  let ?d1 = "d\<lparr>fname := take MAX_PATH_LENGTH nm\<rparr>"
  have d1: "dub_inv ?d1" using assms(1) by (cases "own_disk.image d") (simp_all add: dub_inv_def)
  show ?thesis
  proof (cases "nm = [] \<or> fs (fname ?d1) = None")
    case True
    then show ?thesis using assms(4) nm d1 by (auto simp: load_file_def Let_def split: if_splits)
  next
    case False
    then obtain c where c: "fs (fname ?d1) = Some c" by blast
    define k where "k = length c div 512"
    have "length c < 2147483648" using assms(3) c by (simp add: files_small_def)
    then have b: "k < 4194304" unfolding k_def by (intro less_mult_imp_div_less) simp
    then have k: "k mod 2 ^ 32 = k" "k * 512 mod 2 ^ 32 = k * 512" "k * 512 < 2147483648" by simp_all
    show ?thesis
    proof (cases "al (k * 512)")
      case None
      then show ?thesis using assms(4) nm False c k
        by (auto simp: load_file_def Let_def k_def [symmetric] unlink_inv split: if_splits)
    next
      case (Some m)
      have lm: "length m = k * 512" using assms(2) Some by (simp add: mem_sized_def)
      obtain y where y: "img_read_loop fuel io c (k * 512) 0 m = Some y"
        using assms(4) nm False c k Some
        by (auto simp: load_file_def Let_def k_def [symmetric] split: if_splits)
      show ?thesis
      proof (cases y)
        case (Inl e)
        then show ?thesis using assms(4,5) nm False c k Some y
          by (cases e) (auto simp: load_file_def Let_def k_def [symmetric] dub_inv_def disk_ok_def lm split: if_splits)
      next
        case (Inr x)
        then have "length x = k * 512" using img_read_length y lm by force
        then show ?thesis using assms(4,5) nm False c k Some y Inr
          by (auto simp: load_file_def Let_def k_def [symmetric] dub_inv_def disk_ok_def)
      qed
    qed
  qed
qed

section \<open>Correctness\<close>





text \<open>A load that fails is reported as success and has already changed the name of the file; the
  module cannot be unloaded once the disk is detached, nor loaded without the \<open>file\<close>
  parameter.\<close>

lemma load_failure_hidden:
  "new_ioctl fuel io al copy_ok mb (LOAD_DISK (pad_path ''/no'')) (d, Map.empty)
    = Some (Inr 0, No_reply, d\<lparr>fname := ''/no''\<rparr>, Map.empty)"
  by (simp add: new_ioctl_def pad_path_def MAX_PATH_LENGTH_def load_file_def)

lemma exit_after_unlink: "dub_exit fuel io (unlink_file d) fs h = Some (crash NullDeref, unlink_file d, fs, h)"
  by (simp add: dub_exit_def save_file_def unlink_file_def)

lemma init_without_file:
  "d_reg e > 0 \<Longrightarrow> \<exists>d h' n. dub_init fuel io al fs e None h = Some (crash NullDeref, d, h', n)"
  by (simp add: dub_init_def dub_setup_def load_file_def)

text \<open>The path \<open>fchange\<close> builds always fits the array the command carries.\<close>

lemma fchange_path_fits:
  assumes "fchange_path cwd arg = Some p" "length arg \<le> MAX_PATH_LENGTH" "NUL \<notin> set (cwd @ arg)"
  shows "length (pad_path p) = MAX_PATH_LENGTH + 1" "cstr (pad_path p) = p"
proof -
  have l: "length p \<le> MAX_PATH_LENGTH" "NUL \<notin> set p"
    using assms by (auto simp: fchange_path_def MAX_PATH_LENGTH_def split: if_splits)
  then show "length (pad_path p) = MAX_PATH_LENGTH + 1" by (simp add: pad_path_def)
  have "replicate (MAX_PATH_LENGTH + 1 - length p) NUL = NUL # replicate (MAX_PATH_LENGTH - length p) NUL"
    using l(1) by (simp add: Suc_diff_le)
  then show "cstr (pad_path p) = p" using l(2) by (simp add: pad_path_def cstr_terminated)
qed

end
