(* ===== verification/Virt_Net.thy ===== *)
theory Virt_Net
  imports Interfaces Decimal
begin

text \<open>
  \<open>Tasks/network/virt\<close>: a virtual network interface over a physical one. The three versions
  (\<open>virt.c\<close>, \<open>virt1.c\<close>, \<open>virt2.c\<close>) keep their traffic counters in the interface's private area,
  in a static variable and in the interface itself.
\<close>

section \<open>Frames, counters, interfaces\<close>

datatype netdev = Child | Parent

record sk_buff =
  skb_len :: "32 word"
  skb_dev :: netdev
  priority :: nat

record net_stats =
  rx_packets :: "64 word"
  rx_bytes :: "64 word"
  tx_packets :: "64 word"
  tx_bytes :: "64 word"

definition no_traffic :: net_stats where
  "no_traffic = \<lparr>rx_packets = 0, rx_bytes = 0, tx_packets = 0, tx_bytes = 0\<rparr>"

definition count_rx :: "sk_buff \<Rightarrow> net_stats \<Rightarrow> net_stats" where
  "count_rx skb st = st\<lparr>rx_packets := rx_packets st + 1, rx_bytes := rx_bytes st + ucast (skb_len skb)\<rparr>"

definition count_tx :: "sk_buff \<Rightarrow> net_stats \<Rightarrow> net_stats" where
  "count_tx skb st = st\<lparr>tx_packets := tx_packets st + 1, tx_bytes := tx_bytes st + ucast (skb_len skb)\<rparr>"

text \<open>The module's state: whether \<open>child\<close> and \<open>priv->parent\<close> are set, the three places a
  version may count in, the queue, and what was handed to \<open>dev_queue_xmit\<close>.\<close>

record vnet =
  child :: bool
  has_parent :: bool
  priv_stats :: net_stats
  static_stats :: net_stats
  dev_stats :: net_stats
  queue_on :: bool
  mac :: "8 word list"
  sent :: "sk_buff list"

datatype rx_result = RX_HANDLER_ANOTHER | RX_HANDLER_PASS

section \<open>The three versions\<close>

text \<open>\<open>virt.c\<close>.\<close>

definition handle_frame :: "sk_buff \<Rightarrow> vnet \<Rightarrow> rx_result \<times> sk_buff \<times> vnet" where
  "handle_frame skb s =
     (if child s
      then (RX_HANDLER_ANOTHER, skb\<lparr>skb_dev := Child\<rparr>, s\<lparr>priv_stats := count_rx skb (priv_stats s)\<rparr>)
      else (RX_HANDLER_PASS, skb, s))"

definition start_xmit :: "sk_buff \<Rightarrow> vnet \<Rightarrow> vnet" where
  "start_xmit skb s =
     (let s1 = s\<lparr>priv_stats := count_tx skb (priv_stats s)\<rparr> in
      if has_parent s then s1\<lparr>sent := sent s1 @ [skb\<lparr>skb_dev := Parent, priority := 1\<rparr>]\<rparr> else s1)"

definition get_stats :: "vnet \<Rightarrow> net_stats" where
  "get_stats s = priv_stats s"

text \<open>\<open>virt1.c\<close>.\<close>

definition handle_frame1 :: "sk_buff \<Rightarrow> vnet \<Rightarrow> rx_result \<times> sk_buff \<times> vnet" where
  "handle_frame1 skb s =
     (if child s
      then (RX_HANDLER_ANOTHER, skb\<lparr>skb_dev := Child\<rparr>, s\<lparr>static_stats := count_rx skb (static_stats s)\<rparr>)
      else (RX_HANDLER_PASS, skb, s))"

definition start_xmit1 :: "sk_buff \<Rightarrow> vnet \<Rightarrow> vnet" where
  "start_xmit1 skb s =
     (let s1 = s\<lparr>static_stats := count_tx skb (static_stats s)\<rparr> in
      if has_parent s then s1\<lparr>sent := sent s1 @ [skb\<lparr>skb_dev := Parent, priority := 1\<rparr>]\<rparr> else s1)"

definition get_stats1 :: "vnet \<Rightarrow> net_stats" where
  "get_stats1 s = static_stats s"

text \<open>\<open>virt2.c\<close>.\<close>

definition handle_frame2 :: "sk_buff \<Rightarrow> vnet \<Rightarrow> rx_result \<times> sk_buff \<times> vnet" where
  "handle_frame2 skb s =
     (if child s
      then (RX_HANDLER_ANOTHER, skb\<lparr>skb_dev := Child\<rparr>, s\<lparr>dev_stats := count_rx skb (dev_stats s)\<rparr>)
      else (RX_HANDLER_PASS, skb, s))"

definition start_xmit2 :: "sk_buff \<Rightarrow> vnet \<Rightarrow> vnet" where
  "start_xmit2 skb s =
     (let s1 = s\<lparr>dev_stats := count_tx skb (dev_stats s)\<rparr> in
      if has_parent s then s1\<lparr>sent := sent s1 @ [skb\<lparr>skb_dev := Parent, priority := 1\<rparr>]\<rparr> else s1)"

definition get_stats2 :: "vnet \<Rightarrow> net_stats" where
  "get_stats2 s = dev_stats s"

definition vopen :: "vnet \<Rightarrow> vnet" where
  "vopen s = s\<lparr>queue_on := True\<rparr>"

definition vstop :: "vnet \<Rightarrow> vnet" where
  "vstop s = s\<lparr>queue_on := False\<rparr>"

section \<open>Traffic\<close>

datatype net_event = Rx sk_buff | Tx sk_buff | Up | Down

fun net_step :: "(sk_buff \<Rightarrow> vnet \<Rightarrow> rx_result \<times> sk_buff \<times> vnet) \<Rightarrow> (sk_buff \<Rightarrow> vnet \<Rightarrow> vnet)
    \<Rightarrow> net_event \<Rightarrow> vnet \<Rightarrow> vnet" where
  "net_step hf sx (Rx skb) s = snd (snd (hf skb s))"
| "net_step hf sx (Tx skb) s = sx skb s"
| "net_step hf sx Up s = vopen s"
| "net_step hf sx Down s = vstop s"

definition net_run :: "(sk_buff \<Rightarrow> vnet \<Rightarrow> rx_result \<times> sk_buff \<times> vnet) \<Rightarrow> (sk_buff \<Rightarrow> vnet \<Rightarrow> vnet)
    \<Rightarrow> net_event list \<Rightarrow> vnet \<Rightarrow> vnet" where
  "net_run hf sx evs s = fold (net_step hf sx) evs s"

text \<open>What the counters should say.\<close>

fun rx_lens :: "net_event list \<Rightarrow> nat list" where
  "rx_lens [] = []"
| "rx_lens (Rx skb # evs) = unat (skb_len skb) # rx_lens evs"
| "rx_lens (_ # evs) = rx_lens evs"

fun tx_lens :: "net_event list \<Rightarrow> nat list" where
  "tx_lens [] = []"
| "tx_lens (Tx skb # evs) = unat (skb_len skb) # tx_lens evs"
| "tx_lens (_ # evs) = tx_lens evs"

fun tx_frames :: "net_event list \<Rightarrow> sk_buff list" where
  "tx_frames [] = []"
| "tx_frames (Tx skb # evs) = skb\<lparr>skb_dev := Parent, priority := 1\<rparr> # tx_frames evs"
| "tx_frames (_ # evs) = tx_frames evs"

definition expected_stats :: "net_event list \<Rightarrow> net_stats" where
  "expected_stats evs = \<lparr>rx_packets = of_nat (length (rx_lens evs)), rx_bytes = of_nat (sum_list (rx_lens evs)),
     tx_packets = of_nat (length (tx_lens evs)), tx_bytes = of_nat (sum_list (tx_lens evs))\<rparr>"

definition add_stats :: "net_stats \<Rightarrow> net_stats \<Rightarrow> net_stats" where
  "add_stats a b = \<lparr>rx_packets = rx_packets a + rx_packets b, rx_bytes = rx_bytes a + rx_bytes b,
     tx_packets = tx_packets a + tx_packets b, tx_bytes = tx_bytes a + tx_bytes b\<rparr>"

text \<open>The contract of a version: its counters count, its frames go where they should, and it
  does not look at the rest of the state.\<close>

locale virt_version =
  fixes hf :: "sk_buff \<Rightarrow> vnet \<Rightarrow> rx_result \<times> sk_buff \<times> vnet"
    and sx :: "sk_buff \<Rightarrow> vnet \<Rightarrow> vnet"
    and gs :: "vnet \<Rightarrow> net_stats"
  assumes hf_child: "child s \<Longrightarrow> \<exists>s'. hf skb s = (RX_HANDLER_ANOTHER, skb\<lparr>skb_dev := Child\<rparr>, s')
        \<and> gs s' = count_rx skb (gs s) \<and> child s' \<and> has_parent s' = has_parent s \<and> sent s' = sent s"
    and hf_none: "\<not> child s \<Longrightarrow> hf skb s = (RX_HANDLER_PASS, skb, s)"
    and sx_stats: "gs (sx skb s) = count_tx skb (gs s)"
    and sx_state: "child (sx skb s) = child s" "has_parent (sx skb s) = has_parent s"
    and sx_sent: "sent (sx skb s) = sent s @ (if has_parent s then [skb\<lparr>skb_dev := Parent, priority := 1\<rparr>] else [])"
    and gs_queue: "gs (s\<lparr>queue_on := b\<rparr>) = gs s"
begin

lemma run_stats:
  assumes "child s" "has_parent s"
  shows "gs (net_run hf sx evs s) = add_stats (gs s) (expected_stats evs)
    \<and> sent (net_run hf sx evs s) = sent s @ tx_frames evs"
  using assms
proof (induction evs arbitrary: s)
  case Nil
  then show ?case by (simp add: net_run_def add_stats_def expected_stats_def)
next
  case (Cons ev evs)
  have step: "net_run hf sx (ev # evs) s = net_run hf sx evs (net_step hf sx ev s)"
    by (simp add: net_run_def)
  show ?case
  proof (cases ev)
    case (Rx skb)
    obtain s' where "hf skb s = (RX_HANDLER_ANOTHER, skb\<lparr>skb_dev := Child\<rparr>, s')"
      "gs s' = count_rx skb (gs s)" "child s'" "has_parent s' = has_parent s" "sent s' = sent s"
      using hf_child [OF Cons.prems(1)] by blast
    then show ?thesis using Cons.IH [of s'] Cons.prems
      by (simp add: step [unfolded Rx] Rx add_stats_def expected_stats_def count_rx_def ac_simps)
  next
    case (Tx skb)
    show ?thesis using Cons.IH [of "sx skb s"] Cons.prems
      by (simp add: step [unfolded Tx] Tx sx_state sx_stats sx_sent add_stats_def expected_stats_def count_tx_def ac_simps)
  next
    case Up
    show ?thesis using Cons.IH [of "vopen s"] Cons.prems
      by (simp add: step [unfolded Up] Up vopen_def gs_queue add_stats_def expected_stats_def)
  next
    case Down
    show ?thesis using Cons.IH [of "vstop s"] Cons.prems
      by (simp add: step [unfolded Down] Down vstop_def gs_queue add_stats_def expected_stats_def)
  qed
qed

end

interpretation virt0: virt_version handle_frame start_xmit get_stats
  by unfold_locales (auto simp: handle_frame_def start_xmit_def get_stats_def Let_def)

interpretation virt1: virt_version handle_frame1 start_xmit1 get_stats1
  by unfold_locales (auto simp: handle_frame1_def start_xmit1_def get_stats1_def Let_def)

interpretation virt2: virt_version handle_frame2 start_xmit2 get_stats2
  by unfold_locales (auto simp: handle_frame2_def start_xmit2_def get_stats2_def Let_def)

section \<open>Loading and unloading\<close>

text \<open>What the module holds: its interface, its registration, and the one slot the parent has
  for a receive handler (\<open>Some True\<close> is this module's, \<open>Some False\<close> another's).\<close>

record net_held =
  netdevs :: int
  registered :: int
  rx_slot :: "bool option"

datatype link_type = ARPHRD_ETHER | ARPHRD_LOOPBACK | ARPHRD_other

text \<open>\<open>name_unit\<close> is what \<open>dev_alloc_name\<close> returns: the number it put into the name, or an error
  code. The results of the two registrations are not looked at; \<open>reg_ok\<close> is whether the first
  succeeds.\<close>

record net_env =
  alloc_ok :: bool
  parent_dev :: "(link_type \<times> 8 word list) option"
  name_unit :: int
  reg_ok :: bool

definition phoney_mac :: "8 word list" where
  "phoney_mac = map of_nat [0..<6]"

definition new_child :: vnet where
  "new_child = \<lparr>child = True, has_parent = False, priv_stats = no_traffic, static_stats = no_traffic,
     dev_stats = no_traffic, queue_on = False, mac = phoney_mac, sent = []\<rparr>"

definition take_slot :: "bool option \<Rightarrow> bool option" where
  "take_slot slot = (case slot of None \<Rightarrow> Some True | Some x \<Rightarrow> Some x)"

definition virt_init :: "net_env \<Rightarrow> net_held \<Rightarrow> int res \<times> vnet option \<times> net_held" where
  "virt_init e h =
     (if \<not> alloc_ok e then (fail ENOMEM, None, h)
      else (case parent_dev e of
        None \<Rightarrow> (fail ENODEV, None, h)
      | Some (t, addr) \<Rightarrow>
          if t \<noteq> ARPHRD_ETHER \<and> t \<noteq> ARPHRD_LOOPBACK then (fail EINVAL, None, h)
          else (let c = new_child\<lparr>has_parent := True, mac := addr\<rparr> in
            if name_unit e \<noteq> 0 then (fail EIO, None, h)
            else (Inr 0, Some c,
              h\<lparr>netdevs := netdevs h + 1, registered := registered h + (if reg_ok e then 1 else 0),
                rx_slot := take_slot (rx_slot h)\<rparr>))))"

definition virt_exit :: "bool \<Rightarrow> net_held \<Rightarrow> net_held" where
  "virt_exit was_registered h = h\<lparr>rx_slot := None, registered := registered h - (if was_registered then 1 else 0),
     netdevs := netdevs h - 1\<rparr>"

text \<open>The other two versions clear their private area, which holds only the parent; \<open>virt1.c\<close> counts in a
  static variable, \<open>virt2.c\<close> in the new interface, both zero at first.\<close>

definition new_child1 :: vnet where
  "new_child1 = \<lparr>child = True, has_parent = False, priv_stats = no_traffic, static_stats = no_traffic,
     dev_stats = no_traffic, queue_on = False, mac = map of_nat [0..<6], sent = []\<rparr>"

definition virt1_init :: "net_env \<Rightarrow> net_held \<Rightarrow> int res \<times> vnet option \<times> net_held" where
  "virt1_init e h =
     (if \<not> alloc_ok e then (fail ENOMEM, None, h)
      else (case parent_dev e of
        None \<Rightarrow> (fail ENODEV, None, h)
      | Some (t, addr) \<Rightarrow>
          if t \<noteq> ARPHRD_ETHER \<and> t \<noteq> ARPHRD_LOOPBACK then (fail EINVAL, None, h)
          else if name_unit e \<noteq> 0 then (fail EIO, None, h)
          else (Inr 0, Some (new_child1\<lparr>has_parent := True, mac := addr\<rparr>),
            \<lparr>netdevs = netdevs h + 1, registered = (if reg_ok e then registered h + 1 else registered h),
              rx_slot = take_slot (rx_slot h)\<rparr>)))"

definition virt1_exit :: "vnet \<Rightarrow> bool \<Rightarrow> net_held \<Rightarrow> net_held" where
  "virt1_exit c was_registered h =
     (let h1 = (if has_parent c then h\<lparr>rx_slot := None\<rparr> else h);
          h2 = (if was_registered then h1\<lparr>registered := registered h1 - 1\<rparr> else h1) in
      h2\<lparr>netdevs := netdevs h2 - 1\<rparr>)"

definition new_child2 :: vnet where
  "new_child2 = \<lparr>child = True, has_parent = False, priv_stats = no_traffic, static_stats = no_traffic,
     dev_stats = no_traffic, queue_on = False, mac = map of_nat [0..<6], sent = []\<rparr>"

definition virt2_init :: "net_env \<Rightarrow> net_held \<Rightarrow> int res \<times> vnet option \<times> net_held" where
  "virt2_init e h =
     (if \<not> alloc_ok e then (fail ENOMEM, None, h)
      else (case parent_dev e of
        None \<Rightarrow> (fail ENODEV, None, h)
      | Some (t, addr) \<Rightarrow>
          if t \<noteq> ARPHRD_ETHER \<and> t \<noteq> ARPHRD_LOOPBACK then (fail EINVAL, None, h)
          else if name_unit e \<noteq> 0 then (fail EIO, None, h)
          else (Inr 0, Some (new_child2\<lparr>has_parent := True, mac := addr\<rparr>),
            \<lparr>netdevs = netdevs h + 1, registered = (if reg_ok e then registered h + 1 else registered h),
              rx_slot = take_slot (rx_slot h)\<rparr>)))"

definition virt2_exit :: "vnet \<Rightarrow> bool \<Rightarrow> net_held \<Rightarrow> net_held" where
  "virt2_exit c was_registered h =
     (let h1 = (if has_parent c then h\<lparr>rx_slot := None\<rparr> else h);
          h2 = (if was_registered then h1\<lparr>registered := registered h1 - 1\<rparr> else h1) in
      h2\<lparr>netdevs := netdevs h2 - 1\<rparr>)"

definition vopen1 :: "vnet \<Rightarrow> vnet" where
  "vopen1 s = s\<lparr>queue_on := True\<rparr>"

definition vstop1 :: "vnet \<Rightarrow> vnet" where
  "vstop1 s = s\<lparr>queue_on := False\<rparr>"

definition vopen2 :: "vnet \<Rightarrow> vnet" where
  "vopen2 s = s\<lparr>queue_on := True\<rparr>"

definition vstop2 :: "vnet \<Rightarrow> vnet" where
  "vstop2 s = s\<lparr>queue_on := False\<rparr>"

section \<open>Correctness\<close>

lemma virt_inits_agree: "virt1_init e h = virt_init e h" "virt2_init e h = virt_init e h"
  by (cases h; auto simp: virt1_init_def virt2_init_def virt_init_def new_child1_def new_child2_def new_child_def
      phoney_mac_def Let_def split: option.splits)+

lemma virt_exits_agree:
  "has_parent c \<Longrightarrow> virt1_exit c b h = virt_exit b h" "has_parent c \<Longrightarrow> virt2_exit c b h = virt_exit b h"
  by (simp_all add: virt1_exit_def virt2_exit_def virt_exit_def Let_def)

lemma virt_init_child:
  "virt_init e h = (r, Some c, h') \<Longrightarrow> r = Inr 0 \<and> child c \<and> has_parent c \<and> sent c = [] \<and> priv_stats c = no_traffic
    \<and> static_stats c = no_traffic \<and> dev_stats c = no_traffic \<and> (\<exists>t. parent_dev e = Some (t, mac c))"
  by (auto simp: virt_init_def new_child_def Let_def split: if_splits option.splits)

text \<open>After any sequence of frames received and sent while the interface is set up, all three
  versions report the same counters, namely the number of frames and the sum of their lengths in
  each direction (modulo 2^64), and have handed exactly the sent frames, in order, to the parent
  interface.\<close>

theorem virt_versions_agree:
  assumes "child s" "has_parent s" "sent s = []"
    and "priv_stats s = no_traffic" "static_stats s = no_traffic" "dev_stats s = no_traffic"
  shows "get_stats (net_run handle_frame start_xmit evs s) = expected_stats evs
    \<and> get_stats1 (net_run handle_frame1 start_xmit1 evs s) = expected_stats evs
    \<and> get_stats2 (net_run handle_frame2 start_xmit2 evs s) = expected_stats evs
    \<and> sent (net_run handle_frame start_xmit evs s) = tx_frames evs
    \<and> sent (net_run handle_frame1 start_xmit1 evs s) = tx_frames evs
    \<and> sent (net_run handle_frame2 start_xmit2 evs s) = tx_frames evs"
  using virt0.run_stats [OF assms(1,2)] virt1.run_stats [OF assms(1,2)] virt2.run_stats [OF assms(1,2)] assms(3-6)
  by (simp add: get_stats_def get_stats1_def get_stats2_def add_stats_def no_traffic_def)

theorem virt_versions_agree_witness:
  "get_stats (net_run handle_frame start_xmit
      [Up, Rx \<lparr>skb_len = 98, skb_dev = Parent, priority = 0\<rparr>, Tx \<lparr>skb_len = 42, skb_dev = Child, priority = 0\<rparr>]
      (new_child\<lparr>has_parent := True\<rparr>))
    = \<lparr>rx_packets = 1, rx_bytes = 98, tx_packets = 1, tx_bytes = 42\<rparr>"
  using virt_versions_agree [of "new_child\<lparr>has_parent := True\<rparr>"
      "[Up, Rx \<lparr>skb_len = 98, skb_dev = Parent, priority = 0\<rparr>, Tx \<lparr>skb_len = 42, skb_dev = Child, priority = 0\<rparr>]"]
  by (simp add: new_child_def expected_stats_def)

lemma virt_session_facts:
  assumes "virt_init e h = (r, Some c, h')" "rx_slot h = None"
  shows "virt1_init e h = (r, Some c, h')" "virt2_init e h = (r, Some c, h')" "r = Inr 0"
    "\<exists>t. parent_dev e = Some (t, mac c)"
    "get_stats (net_run handle_frame start_xmit evs c) = expected_stats evs"
    "get_stats1 (net_run handle_frame1 start_xmit1 evs c) = expected_stats evs"
    "get_stats2 (net_run handle_frame2 start_xmit2 evs c) = expected_stats evs"
    "sent (net_run handle_frame start_xmit evs c) = tx_frames evs"
    "sent (net_run handle_frame1 start_xmit1 evs c) = tx_frames evs"
    "sent (net_run handle_frame2 start_xmit2 evs c) = tx_frames evs"
    "virt_exit (reg_ok e) h' = h" "virt1_exit c (reg_ok e) h' = h" "virt2_exit c (reg_ok e) h' = h"
proof -
  note c = virt_init_child [OF assms(1)]
  show "virt1_init e h = (r, Some c, h')" "virt2_init e h = (r, Some c, h')" "r = Inr 0"
    "\<exists>t. parent_dev e = Some (t, mac c)"
    using assms(1) c by (simp_all add: virt_inits_agree)
  have z: "add_stats no_traffic x = x" for x by (simp add: add_stats_def no_traffic_def)
  show "get_stats (net_run handle_frame start_xmit evs c) = expected_stats evs"
    "sent (net_run handle_frame start_xmit evs c) = tx_frames evs"
    using virt0.run_stats [of c evs] c by (simp_all add: get_stats_def z)
  show "get_stats1 (net_run handle_frame1 start_xmit1 evs c) = expected_stats evs"
    "sent (net_run handle_frame1 start_xmit1 evs c) = tx_frames evs"
    using virt1.run_stats [of c evs] c by (simp_all add: get_stats1_def z)
  show "get_stats2 (net_run handle_frame2 start_xmit2 evs c) = expected_stats evs"
    "sent (net_run handle_frame2 start_xmit2 evs c) = tx_frames evs"
    using virt2.run_stats [of c evs] c by (simp_all add: get_stats2_def z)
  show x: "virt_exit (reg_ok e) h' = h"
    using assms by (cases h) (auto simp: virt_init_def virt_exit_def take_slot_def Let_def split: if_splits option.splits)
  then show "virt1_exit c (reg_ok e) h' = h" "virt2_exit c (reg_ok e) h' = h"
    using c by (simp_all add: virt_exits_agree)
qed

text \<open>C29: a session with the virtual interface, from the load to the unload, for all three versions: when
  the load yields an interface, it has the parent's hardware address; after any traffic each version
  reports the number of frames and the sum of their lengths in each direction (modulo 2^64) and has
  handed exactly the sent frames, in order, to the parent; and unloading gives back what the load
  took, if the parent had no receive handler before.\<close>

theorem virt_sessions:
  assumes "virt_init e h = (r, Some c, h')" "rx_slot h = None"
  shows "virt1_init e h = (r, Some c, h') \<and> virt2_init e h = (r, Some c, h') \<and> r = Inr 0
    \<and> (\<exists>t. parent_dev e = Some (t, mac c))
    \<and> get_stats (net_run handle_frame start_xmit evs c) = expected_stats evs
    \<and> get_stats1 (net_run handle_frame1 start_xmit1 evs c) = expected_stats evs
    \<and> get_stats2 (net_run handle_frame2 start_xmit2 evs c) = expected_stats evs
    \<and> sent (net_run handle_frame start_xmit evs c) = tx_frames evs
    \<and> sent (net_run handle_frame1 start_xmit1 evs c) = tx_frames evs
    \<and> sent (net_run handle_frame2 start_xmit2 evs c) = tx_frames evs
    \<and> virt_exit (reg_ok e) h' = h \<and> virt1_exit c (reg_ok e) h' = h \<and> virt2_exit c (reg_ok e) h' = h"
  by (intro conjI virt_session_facts [OF assms])

theorem virt_sessions_witness:
  "\<exists>c h'. virt_init \<lparr>alloc_ok = True, parent_dev = Some (ARPHRD_ETHER, [2, 0, 0, 0, 0, 1]), name_unit = 0, reg_ok = True\<rparr>
      \<lparr>netdevs = 0, registered = 0, rx_slot = None\<rparr> = (Inr 0, Some c, h')
    \<and> get_stats1 (net_run handle_frame1 start_xmit1 [Rx \<lparr>skb_len = 98, skb_dev = Parent, priority = 0\<rparr>] c)
      = \<lparr>rx_packets = 1, rx_bytes = 98, tx_packets = 0, tx_bytes = 0\<rparr>"
proof -
  let ?e = "\<lparr>alloc_ok = True, parent_dev = Some (ARPHRD_ETHER, [2, 0, 0, 0, 0, 1 :: 8 word]), name_unit = 0, reg_ok = True\<rparr>"
  let ?h = "\<lparr>netdevs = 0, registered = 0, rx_slot = None\<rparr>"
  obtain r c h' where i: "virt_init ?e ?h = (r, Some c, h')" by (auto simp: virt_init_def Let_def)
  then have "r = Inr 0" "get_stats1 (net_run handle_frame1 start_xmit1 [Rx \<lparr>skb_len = 98, skb_dev = Parent, priority = 0\<rparr>] c)
      = \<lparr>rx_packets = 1, rx_bytes = 98, tx_packets = 0, tx_bytes = 0\<rparr>"
    using virt_sessions [OF i, of "[Rx \<lparr>skb_len = 98, skb_dev = Parent, priority = 0\<rparr>]"]
    by (simp_all add: expected_stats_def)
  then show ?thesis using i by blast
qed

text \<open>A failed load of the virtual interface gives back everything, and so does unloading,
  provided no other module had a receive handler on the parent; the interface takes the parent's
  hardware address.\<close>

theorem virt_load_unload:
  assumes "virt_init e h = (r, c, h')" "rx_slot h = None"
  shows "(\<forall>x. r = fail x \<longrightarrow> h' = h \<and> c = None)
    \<and> (r = Inr 0 \<longrightarrow> virt_exit (reg_ok e) h' = h \<and> (\<exists>t addr v. parent_dev e = Some (t, addr) \<and> c = Some v \<and> mac v = addr))
    \<and> (\<exists>x. r = fail x \<or> r = Inr 0)"
  using assms
  by (cases h) (auto simp: virt_init_def virt_exit_def take_slot_def Let_def split: if_splits option.splits)

theorem virt_load_unload_witness:
  "virt_exit True (snd (snd (virt_init \<lparr>alloc_ok = True, parent_dev = Some (ARPHRD_ETHER, [2, 0, 0, 0, 0, 1]),
      name_unit = 0, reg_ok = True\<rparr> \<lparr>netdevs = 0, registered = 0, rx_slot = None\<rparr>)))
    = \<lparr>netdevs = 0, registered = 0, rx_slot = None\<rparr>"
proof -
  let ?e = "\<lparr>alloc_ok = True, parent_dev = Some (ARPHRD_ETHER, [2, 0, 0, 0, 0, 1 :: 8 word]),
      name_unit = 0, reg_ok = True\<rparr>"
  let ?h = "\<lparr>netdevs = 0, registered = 0, rx_slot = None\<rparr>"
  obtain r c h' where i: "virt_init ?e ?h = (r, c, h')" by (cases "virt_init ?e ?h")
  have "r = Inr 0" using i by (auto simp: virt_init_def Let_def)
  then show ?thesis using virt_load_unload [OF i] i by simp
qed

text \<open>\<open>dev_alloc_name\<close> returns the number it chose, so a second interface (number 1) is taken for
  an error; and if another module holds the parent's receive handler, unloading removes that
  module's handler.\<close>

lemma virt_second_unit_fails:
  "alloc_ok e \<Longrightarrow> parent_dev e = Some (ARPHRD_ETHER, a) \<Longrightarrow> name_unit e = 1 \<Longrightarrow>
    virt_init e h = (fail EIO, None, h)"
  by (simp add: virt_init_def Let_def)

lemma virt_exit_steals_handler:
  assumes "virt_init e h = (Inr 0, c, h')" "rx_slot h = Some False"
  shows "rx_slot (virt_exit b h') = None"
  by (simp add: virt_exit_def)

end
