(* ===== verification/Virt_Filter.thy ===== *)
theory Virt_Filter
  imports Virt_Net
begin

text \<open>
  \<open>Tasks/network/virt-full\<close> and \<open>virt-proto\<close>: virtual interfaces that take from the parent only
  the frames addressed to their own IP address, as a receive handler (\<open>virt-full/virt.c\<close>) or as
  protocol handlers (\<open>virt-proto/virt.c\<close>; \<open>virtl.c\<close> takes every frame). A frame's network header
  is the list of its bytes; \<open>u32\<close> is the value of four of them on the machine the code runs on
  (little-endian).
\<close>

unbundle bit_operations_syntax

section \<open>Addresses\<close>

definition u32 :: "8 word list \<Rightarrow> 32 word" where
  "u32 bs = ucast (bs ! 0) OR push_bit 8 (ucast (bs ! 1)) OR push_bit 16 (ucast (bs ! 2))
     OR push_bit 24 (ucast (bs ! 3))"

definition htons :: "16 word \<Rightarrow> 16 word" where
  "htons w = push_bit 8 w OR drop_bit 8 w"

definition ETH_P_IP :: "16 word" where
  "ETH_P_IP = 0x0800"

definition ETH_P_ARP :: "16 word" where
  "ETH_P_ARP = 0x0806"

text \<open>Dotted notation.\<close>

definition strIP :: "32 word \<Rightarrow> char list" where
  "strIP addr = show_nat (unat (addr AND 0xFF)) @ ''.'' @ show_nat (unat (drop_bit 8 addr AND 0xFF)) @ ''.''
     @ show_nat (unat (drop_bit 16 addr AND 0xFF)) @ ''.'' @ show_nat (unat (drop_bit 24 addr AND 0xFF))"

definition strAR_IP :: "8 word list \<Rightarrow> char list" where
  "strAR_IP addr = show_nat (unat (addr ! 0)) @ ''.'' @ show_nat (unat (addr ! 1)) @ ''.''
     @ show_nat (unat (addr ! 2)) @ ''.'' @ show_nat (unat (addr ! 3))"

section \<open>Frames\<close>

text \<open>\<open>users\<close> is the reference count: \<open>kfree_skb\<close> releases the frame when it drops to zero.\<close>

record frame = sk_buff +
  protocol :: "16 word"
  header :: "8 word list"
  users :: nat

text \<open>Offsets in the IP header and, after the 8 bytes of \<open>struct arphdr\<close>, in the ARP body.\<close>

definition ip_daddr :: "frame \<Rightarrow> 32 word" where
  "ip_daddr f = u32 (chunk 16 4 (header f))"

definition ar_tip :: "frame \<Rightarrow> 8 word list" where
  "ar_tip f = chunk (8 + 6 + 4 + 6) 4 (header f)"

text \<open>The loop \<open>for( i = 0; i < 4; i++ ) \<dots> ip = ip >> 8\<close>, with \<open>ip\<close> an \<open>int\<close>: the number of bytes
  that agree.\<close>

fun tip_match :: "int \<Rightarrow> 8 word list \<Rightarrow> nat" where
  "tip_match ip [] = 0"
| "tip_match ip (b # bs) = (if ip AND 0xFF \<noteq> uint b then 0 else Suc (tip_match (drop_bit 8 ip) bs))"

section \<open>The module's state\<close>

record vfilter =
  child_ip :: "32 word"
  fstats :: net_stats
  fqueue_on :: bool

text \<open>\<open>ifa\<close> is the first address of the interface, if it has one.\<close>

definition vf_open :: "(32 word \<times> 32 word) option \<Rightarrow> vfilter \<Rightarrow> int res \<times> vfilter" where
  "vf_open ifa s = (case ifa of
     None \<Rightarrow> (crash NullDeref, s)
   | Some (addr, netmask) \<Rightarrow>
       if length (strIP addr @ '':'' @ strIP netmask) \<ge> 40 then (crash OutOfBounds, s)
       else (Inr 0, s\<lparr>child_ip := addr, fqueue_on := True\<rparr>))"

definition vf_stop :: "vfilter \<Rightarrow> vfilter" where
  "vf_stop s = s\<lparr>fqueue_on := False\<rparr>"

text \<open>\<open>virt-full/virt.c\<close>.\<close>

definition filter_frame :: "frame \<Rightarrow> vfilter \<Rightarrow> rx_result \<times> frame \<times> vfilter" where
  "filter_frame f s =
     (let take = (RX_HANDLER_ANOTHER, f\<lparr>skb_dev := Child\<rparr>,
            s\<lparr>fstats := count_rx (sk_buff.truncate f) (fstats s)\<rparr>) in
      if protocol f = htons ETH_P_IP
      then (if ip_daddr f \<noteq> child_ip s then (RX_HANDLER_PASS, f, s) else take)
      else if protocol f = htons ETH_P_ARP
      then (if tip_match (sint (child_ip s)) (ar_tip f) < 4 then (RX_HANDLER_PASS, f, s) else take)
      else (RX_HANDLER_PASS, f, s))"

text \<open>\<open>virt-proto/virt.c\<close>: the handlers return the length after giving up their reference.\<close>

definition kfree_len :: "frame \<Rightarrow> nat res \<times> frame" where
  "kfree_len f = (if users f \<le> 1 then crash UseAfterFree else Inr (unat (skb_len f)), f\<lparr>users := users f - 1\<rparr>)"

definition arp_pack_rcv :: "frame \<Rightarrow> vfilter \<Rightarrow> nat res \<times> frame \<times> vfilter" where
  "arp_pack_rcv f s =
     (let (f1, s1) = (if tip_match (sint (child_ip s)) (ar_tip f) \<ge> 4
            then (f\<lparr>skb_dev := Child\<rparr>, s\<lparr>fstats := count_rx (sk_buff.truncate f) (fstats s)\<rparr>)
            else (f, s)) in
      case kfree_len f1 of (r, f2) \<Rightarrow> (r, f2, s1))"

definition ip4_pack_rcv :: "frame \<Rightarrow> vfilter \<Rightarrow> nat res \<times> frame \<times> vfilter" where
  "ip4_pack_rcv f s =
     (let (f1, s1) = (if ip_daddr f = child_ip s
            then (f\<lparr>skb_dev := Child\<rparr>, s\<lparr>fstats := count_rx (sk_buff.truncate f) (fstats s)\<rparr>)
            else (f, s)) in
      case kfree_len f1 of (r, f2) \<Rightarrow> (r, f2, s1))"

text \<open>\<open>virt-proto/virtl.c\<close>.\<close>

definition pack_parent :: "frame \<Rightarrow> vfilter \<Rightarrow> nat res \<times> frame \<times> vfilter" where
  "pack_parent f s = (case kfree_len (f\<lparr>skb_dev := Child\<rparr>) of
     (r, f2) \<Rightarrow> (r, f2, s\<lparr>fstats := count_rx (sk_buff.truncate f) (fstats s)\<rparr>))"

text \<open>The packet handlers the modules install, by protocol; the kernel calls a handler for the
  frames of its protocol.\<close>

definition proto_rcv :: "frame \<Rightarrow> vfilter \<Rightarrow> nat res \<times> frame \<times> vfilter" where
  "proto_rcv f s =
     (if protocol f = htons ETH_P_ARP then arp_pack_rcv f s
      else if protocol f = htons ETH_P_IP then ip4_pack_rcv f s
      else (Inr 0, f, s))"

definition vf_xmit :: "frame \<Rightarrow> vfilter \<Rightarrow> frame \<times> vfilter" where
  "vf_xmit f s = (f\<lparr>skb_dev := Parent, priority := 1\<rparr>, s\<lparr>fstats := count_tx (sk_buff.truncate f) (fstats s)\<rparr>)"

section \<open>The two address comparisons\<close>

lemma bytes4: "length bs = 4 \<Longrightarrow> bs = [bs ! 0, bs ! 1, bs ! 2, bs ! (3::nat)]"
  by (auto simp: length_Suc_conv numeral_eq_Suc)

lemma and_FF: "(w :: 32 word) AND 0xFF = take_bit 8 w" "(i :: int) AND 0xFF = take_bit 8 i"
  by (simp_all add: take_bit_eq_mask mask_eq_exp_minus_1)

lemma bit_byte: "bit (x :: 8 word) n \<Longrightarrow> n < 8"
  using bit_imp_le_length [of x n] by simp

lemma bit_u32:
  "bit (u32 [a, b, c, d]) n \<longleftrightarrow> (if n < 8 then bit a n else if n < 16 then bit b (n - 8)
     else if n < 24 then bit c (n - 16) else n < 32 \<and> bit d (n - 24))"
proof -
  show ?thesis by (auto simp: u32_def bit_simps dest: bit_byte)
qed

lemma u32_bytes:
  "u32 [a, b, c, d] AND 0xFF = ucast a"
  "drop_bit 8 (u32 [a, b, c, d]) AND 0xFF = ucast b"
  "drop_bit 16 (u32 [a, b, c, d]) AND 0xFF = ucast c"
  "drop_bit 24 (u32 [a, b, c, d]) AND 0xFF = ucast d"
  unfolding and_FF by (rule bit_word_eqI, auto simp: bit_u32 bit_simps dest: bit_byte)+

lemma u32_inj:
  assumes "(w :: 32 word) AND 0xFF = ucast a" "drop_bit 8 w AND 0xFF = ucast b"
    "drop_bit 16 w AND 0xFF = ucast c" "drop_bit 24 w AND 0xFF = ucast d"
  shows "u32 [a, b, c, d] = w"
proof (rule bit_word_eqI)
  fix n
  assume n: "n < LENGTH(32)"
  have e: "bit x m = bit w (m + k)" if "drop_bit k w AND 0xFF = ucast (x :: 8 word)" "m < 8" for x m k
    using arg_cong [OF that(1), of "\<lambda>y. bit y m"] that(2) unfolding and_FF
    by (auto simp: bit_simps add.commute)
  show "bit (u32 [a, b, c, d]) n = bit w n"
    using n e [of 0 a n] e [OF assms(2), of "n - 8"] e [OF assms(3), of "n - 16"] e [OF assms(4), of "n - 24"] assms(1)
    by (auto simp: bit_u32)
qed

lemma sint_byte:
  "k \<le> 24 \<Longrightarrow> drop_bit k (sint (w :: 32 word)) AND 0xFF = uint (b :: 8 word) \<longleftrightarrow> drop_bit k w AND 0xFF = ucast b"
proof -
  assume k: "k \<le> 24"
  have "drop_bit k (sint w) AND 0xFF = uint (drop_bit k w AND 0xFF)"
    unfolding and_FF using k by (intro bit_eqI) (auto simp: bit_simps)
  moreover have "uint b = uint (ucast b :: 32 word)" by (simp add: uint_up_ucast is_up)
  ultimately show ?thesis by (simp only: word_uint_eq_iff)
qed

text \<open>The byte-wise loop and the comparison of the two numbers agree.\<close>

lemma tip_match_iff:
  assumes "length bs = 4"
  shows "tip_match (sint ip) bs \<ge> 4 \<longleftrightarrow> u32 bs = ip"
proof -
  obtain a b c d where bs: "bs = [a, b, c, d]" using bytes4 [OF assms] by blast
  have "tip_match (sint ip) bs \<ge> 4 \<longleftrightarrow> sint ip AND 0xFF = uint a \<and> drop_bit 8 (sint ip) AND 0xFF = uint b
      \<and> drop_bit 16 (sint ip) AND 0xFF = uint c \<and> drop_bit 24 (sint ip) AND 0xFF = uint d"
    by (auto simp: bs numeral_eq_Suc)
  also have "\<dots> \<longleftrightarrow> ip AND 0xFF = ucast a \<and> drop_bit 8 ip AND 0xFF = ucast b
      \<and> drop_bit 16 ip AND 0xFF = ucast c \<and> drop_bit 24 ip AND 0xFF = ucast d"
    using sint_byte [of 0 ip a] by (simp add: sint_byte)
  also have "\<dots> \<longleftrightarrow> u32 bs = ip"
    using u32_inj [of ip a b c d] u32_bytes [of a b c d] bs by metis
  finally show ?thesis .
qed

section \<open>Correctness\<close>

text \<open>A frame is for an address if it is an IP packet to it or an ARP request about it.\<close>

definition addressed_to :: "32 word \<Rightarrow> frame \<Rightarrow> bool" where
  "addressed_to ip f \<longleftrightarrow> protocol f = htons ETH_P_IP \<and> u32 (chunk 16 4 (header f)) = ip
     \<or> protocol f = htons ETH_P_ARP \<and> u32 (chunk 24 4 (header f)) = ip"

lemma proto_distinct: "htons ETH_P_IP \<noteq> htons ETH_P_ARP"
  by (simp add: htons_def ETH_P_IP_def ETH_P_ARP_def)

lemma tip_match_header:
  "28 \<le> length (header f) \<Longrightarrow> tip_match (sint ip) (ar_tip f) \<ge> 4 \<longleftrightarrow> u32 (chunk 24 4 (header f)) = ip"
  using tip_match_iff [of "chunk 24 4 (header f)" ip] by (simp add: ar_tip_def)

text \<open>C7: the receive handler of \<open>virt-full\<close> takes exactly the IP and ARP frames whose destination
  is the address of the virtual interface, although it compares the one as numbers and the other
  byte by byte with arithmetic shifts of a signed copy; a frame it takes is counted and moved to
  the virtual interface, any other passes untouched.\<close>

theorem filter_exact:
  assumes "28 \<le> length (header f)"
  shows "filter_frame f s =
    (if addressed_to (child_ip s) f
     then (RX_HANDLER_ANOTHER, f\<lparr>skb_dev := Child\<rparr>, s\<lparr>fstats := count_rx (sk_buff.truncate f) (fstats s)\<rparr>)
     else (RX_HANDLER_PASS, f, s))"
  using tip_match_header [OF assms, of "child_ip s"] proto_distinct
  by (auto simp: filter_frame_def addressed_to_def ip_daddr_def Let_def)

text \<open>An ARP request about 10.0.0.7, whose bytes are the interface's address.\<close>

definition arp_frame :: frame where
  "arp_frame = \<lparr>skb_len = 28, skb_dev = Parent, priority = 0, protocol = htons ETH_P_ARP,
     header = replicate 24 0 @ [10, 0, 0, 7], users = 2\<rparr>"

theorem filter_exact_witness:
  "fst (filter_frame arp_frame \<lparr>child_ip = u32 [10, 0, 0, 7], fstats = no_traffic, fqueue_on = True\<rparr>)
      = RX_HANDLER_ANOTHER
    \<and> fst (filter_frame arp_frame \<lparr>child_ip = u32 [10, 0, 0, 6], fstats = no_traffic, fqueue_on = True\<rparr>)
      = RX_HANDLER_PASS"
proof -
  have l: "28 \<le> length (header arp_frame)" by (simp add: arp_frame_def)
  have a: "addressed_to (u32 [10, 0, 0, 7]) arp_frame"
    by (simp add: addressed_to_def arp_frame_def chunk_def)
  have p: "protocol arp_frame \<noteq> htons ETH_P_IP" using proto_distinct by (simp add: arp_frame_def)
  have "u32 (chunk 24 4 (header arp_frame)) \<noteq> u32 [10, 0, 0, 6]"
    by (simp add: arp_frame_def chunk_def u32_def)
  then have b: "\<not> addressed_to (u32 [10, 0, 0, 6]) arp_frame"
    using p by (simp add: addressed_to_def)
  show ?thesis using filter_exact [OF l] a b by simp
qed

text \<open>The protocol handlers of \<open>virt-proto\<close> count and redirect the same frames as the receive
  handler of \<open>virt-full\<close>; they return the frame's length, provided someone else still holds a
  reference to the frame they have just given up.\<close>

theorem filter_proto_agree:
  assumes "28 \<le> length (header f)" "users f > 1" "proto_rcv f s = (r, f1, s1)" "filter_frame f s = (h, f2, s2)"
  shows "s1 = s2 \<and> skb_dev f1 = skb_dev f2
    \<and> (addressed_to (child_ip s) f \<longrightarrow> r = Inr (unat (skb_len f)) \<and> users f1 = users f - 1)"
  using assms(2-4) tip_match_header [OF assms(1), of "child_ip s"] proto_distinct
  unfolding filter_exact [OF assms(1)]
  by (auto simp: proto_rcv_def arp_pack_rcv_def ip4_pack_rcv_def addressed_to_def ip_daddr_def kfree_len_def
      Let_def split: if_splits)

theorem filter_proto_agree_witness:
  "fstats (snd (snd (proto_rcv arp_frame \<lparr>child_ip = u32 [10, 0, 0, 7], fstats = no_traffic, fqueue_on = True\<rparr>)))
    = fstats (snd (snd (filter_frame arp_frame \<lparr>child_ip = u32 [10, 0, 0, 7], fstats = no_traffic, fqueue_on = True\<rparr>)))"
proof -
  let ?s = "\<lparr>child_ip = u32 [10, 0, 0, 7], fstats = no_traffic, fqueue_on = True\<rparr>"
  obtain r f1 s1 where a: "proto_rcv arp_frame ?s = (r, f1, s1)" by (cases "proto_rcv arp_frame ?s")
  obtain h f2 s2 where b: "filter_frame arp_frame ?s = (h, f2, s2)" by (cases "filter_frame arp_frame ?s")
  have "28 \<le> length (header arp_frame)" "users arp_frame > 1" by (simp_all add: arp_frame_def)
  from filter_proto_agree [OF this a b] show ?thesis using a b by simp
qed

text \<open>With the last reference the handlers read the frame after it is released.\<close>

lemma proto_use_after_free:
  "users f = 1 \<Longrightarrow> fst (pack_parent f s) = crash UseAfterFree"
  by (simp add: pack_parent_def kfree_len_def)

lemma unat_byte: "unat (b :: 8 word) < 256"
proof -
  have "unat b < 2 ^ LENGTH(8)" by (rule unsigned_less)
  then show ?thesis by simp
qed

lemma length_show_byte: "length (show_nat (unat (b :: 8 word))) \<le> 3"
proof -
  have "unat b < 10 ^ 3" using unat_byte [of b] by simp
  then show ?thesis by (rule length_show_nat) simp
qed

lemma unat_byte_up: "unat (ucast (b :: 8 word) :: 32 word) = unat b"
  using unat_byte [of b] by (simp add: unsigned_ucast_eq take_bit_nat_eq_self)

lemma strIP_bytes: "strIP (u32 [a, b, c, d]) = strAR_IP [a, b, c, d]"
  unfolding strIP_def u32_bytes by (simp add: strAR_IP_def unat_byte_up)

lemma length_strIP: "length (strIP ip) \<le> 15"
proof -
  have e: "u32 [ucast ip, ucast (drop_bit 8 ip), ucast (drop_bit 16 ip), ucast (drop_bit 24 ip)] = ip"
    by (rule u32_inj; unfold and_FF; rule bit_word_eqI, auto simp: bit_simps)
  have "length (strIP (u32 [ucast ip, ucast (drop_bit 8 ip), ucast (drop_bit 16 ip), ucast (drop_bit 24 ip)])) \<le> 15"
    unfolding strIP_bytes strAR_IP_def
    using length_show_byte [of "ucast ip"] length_show_byte [of "ucast (drop_bit 8 ip)"]
      length_show_byte [of "ucast (drop_bit 16 ip)"] length_show_byte [of "ucast (drop_bit 24 ip)"]
    by simp
  then show ?thesis unfolding e .
qed

text \<open>The dotted text of any address has at most 15 characters and is the same whether it is
  made from the number or from the bytes, so the fixed buffers of \<open>open\<close> always hold it; \<open>open\<close>
  of an interface with an address succeeds and records it.\<close>

theorem strIP_fits:
  "length (strIP ip) \<le> 15 \<and> strIP (u32 [a, b, c, d]) = strAR_IP [a, b, c, d]
    \<and> vf_open (Some (ip, netmask)) s = (Inr 0, s\<lparr>child_ip := ip, fqueue_on := True\<rparr>)"
proof -
  have "length (strIP ip @ '':'' @ strIP netmask) < 40" using length_strIP [of ip] length_strIP [of netmask] by simp
  then show ?thesis using length_strIP [of ip] by (simp add: vf_open_def strIP_bytes)
qed

text \<open>An interface without an address cannot be opened: the list of addresses is empty.\<close>

lemma open_without_address: "vf_open None s = (crash NullDeref, s)"
  by (simp add: vf_open_def)

section \<open>Loading and unloading\<close>

text \<open>\<open>hooks\<close> are the protocols for which packet handlers are installed on the parent
  interface.\<close>

record filter_held = net_held +
  hooks :: "16 word list"

definition ETH_P_ALL :: "16 word" where
  "ETH_P_ALL = 0x0003"

text \<open>Up to \<open>register_netdev\<close> the three modules do the same.\<close>

definition make_child :: "net_env \<Rightarrow> vnet res" where
  "make_child e =
     (if \<not> alloc_ok e then fail ENOMEM
      else (case parent_dev e of
        None \<Rightarrow> fail ENODEV
      | Some (t, addr) \<Rightarrow>
          if t \<noteq> ARPHRD_ETHER \<and> t \<noteq> ARPHRD_LOOPBACK then fail EINVAL
          else if name_unit e \<noteq> 0 then fail EIO
          else Inr (new_child\<lparr>has_parent := True, mac := addr\<rparr>)))"

definition enter_child :: "net_env \<Rightarrow> filter_held \<Rightarrow> filter_held" where
  "enter_child e h = h\<lparr>netdevs := netdevs h + 1, registered := registered h + (if reg_ok e then 1 else 0)\<rparr>"

definition drop_child :: "bool \<Rightarrow> filter_held \<Rightarrow> filter_held" where
  "drop_child was_registered h = h\<lparr>registered := registered h - (if was_registered then 1 else 0),
     netdevs := netdevs h - 1\<rparr>"

definition full_init :: "net_env \<Rightarrow> filter_held \<Rightarrow> vnet res \<times> filter_held" where
  "full_init e h = (case make_child e of
     Inl f \<Rightarrow> (Inl f, h)
   | Inr c \<Rightarrow> (Inr c, (enter_child e h)\<lparr>rx_slot := take_slot (rx_slot h)\<rparr>))"

definition full_exit :: "bool \<Rightarrow> filter_held \<Rightarrow> filter_held" where
  "full_exit was_registered h = drop_child was_registered (h\<lparr>rx_slot := None\<rparr>)"

definition proto_init :: "net_env \<Rightarrow> filter_held \<Rightarrow> vnet res \<times> filter_held" where
  "proto_init e h = (case make_child e of
     Inl f \<Rightarrow> (Inl f, h)
   | Inr c \<Rightarrow> (Inr c, (enter_child e h)\<lparr>hooks := htons ETH_P_IP # htons ETH_P_ARP # hooks h\<rparr>))"

definition proto_exit :: "bool \<Rightarrow> filter_held \<Rightarrow> filter_held" where
  "proto_exit was_registered h =
     drop_child was_registered (h\<lparr>hooks := remove1 (htons ETH_P_IP) (remove1 (htons ETH_P_ARP) (hooks h))\<rparr>)"

definition virtl_init :: "net_env \<Rightarrow> filter_held \<Rightarrow> vnet res \<times> filter_held" where
  "virtl_init e h = (case make_child e of
     Inl f \<Rightarrow> (Inl f, h)
   | Inr c \<Rightarrow> (Inr c, (enter_child e h)\<lparr>hooks := htons ETH_P_ALL # hooks h\<rparr>))"

definition virtl_exit :: "bool \<Rightarrow> filter_held \<Rightarrow> filter_held" where
  "virtl_exit was_registered h = drop_child was_registered (h\<lparr>hooks := remove1 (htons ETH_P_ALL) (hooks h)\<rparr>)"

text \<open>\<open>virt.c\<close> of \<open>Tasks/network/virt\<close> makes its interface in the same way.\<close>

lemma virt_init_make_child:
  "virt_init e h = (case make_child e of
     Inl f \<Rightarrow> (Inl f, None, h)
   | Inr c \<Rightarrow> (Inr 0, Some c, h\<lparr>netdevs := netdevs h + 1,
       registered := registered h + (if reg_ok e then 1 else 0), rx_slot := take_slot (rx_slot h)\<rparr>))"
  by (auto simp: virt_init_def make_child_def Let_def split: option.splits)

text \<open>The three filtering modules load under exactly the same conditions, with an interface
  that has the parent's hardware address; a failed load leaves nothing behind, and unloading
  removes what was installed, the receive handler (if the parent had none before) or the packet
  handlers, and no handler of another module.\<close>

theorem filters_load_unload:
  assumes "rx_slot h = None" "full_init e h = (r0, h0)" "proto_init e h = (r1, h1)" "virtl_init e h = (r2, h2)"
  shows "r1 = r0 \<and> r2 = r0
    \<and> (case r0 of
        Inl f \<Rightarrow> h0 = h \<and> h1 = h \<and> h2 = h
      | Inr c \<Rightarrow> (\<exists>t. parent_dev e = Some (t, mac c))
          \<and> full_exit (reg_ok e) h0 = h \<and> proto_exit (reg_ok e) h1 = h \<and> virtl_exit (reg_ok e) h2 = h)"
proof (cases "make_child e")
  case (Inl f)
  then have "full_init e h = (Inl f, h)" "proto_init e h = (Inl f, h)" "virtl_init e h = (Inl f, h)"
    by (simp_all add: full_init_def proto_init_def virtl_init_def)
  then show ?thesis using assms(2-4) by auto
next
  case (Inr c)
  then have "\<exists>t. parent_dev e = Some (t, mac c)" by (auto simp: make_child_def split: if_splits option.splits)
  moreover have "full_init e h = (Inr c, (enter_child e h)\<lparr>rx_slot := take_slot (rx_slot h)\<rparr>)"
    "proto_init e h = (Inr c, (enter_child e h)\<lparr>hooks := htons ETH_P_IP # htons ETH_P_ARP # hooks h\<rparr>)"
    "virtl_init e h = (Inr c, (enter_child e h)\<lparr>hooks := htons ETH_P_ALL # hooks h\<rparr>)"
    using Inr by (simp_all add: full_init_def proto_init_def virtl_init_def)
  moreover have "htons ETH_P_ARP \<noteq> htons ETH_P_IP" using proto_distinct by simp
  ultimately show ?thesis
    using assms
    by (cases h) (auto simp: full_exit_def proto_exit_def virtl_exit_def enter_child_def drop_child_def take_slot_def)
qed

theorem filters_load_unload_witness:
  "proto_exit True (snd (proto_init \<lparr>alloc_ok = True, parent_dev = Some (ARPHRD_ETHER, [2, 0, 0, 0, 0, 1]),
      name_unit = 0, reg_ok = True\<rparr> \<lparr>netdevs = 0, registered = 0, rx_slot = None, hooks = [htons ETH_P_ARP]\<rparr>))
    = \<lparr>netdevs = 0, registered = 0, rx_slot = None, hooks = [htons ETH_P_ARP]\<rparr>"
proof -
  let ?e = "\<lparr>alloc_ok = True, parent_dev = Some (ARPHRD_ETHER, [2, 0, 0, 0, 0, 1 :: 8 word]),
      name_unit = 0, reg_ok = True\<rparr>"
  let ?h = "\<lparr>netdevs = 0, registered = 0, rx_slot = None, hooks = [htons ETH_P_ARP]\<rparr>"
  obtain r0 h0 where a: "full_init ?e ?h = (r0, h0)" by fastforce
  obtain r1 h1 where b: "proto_init ?e ?h = (r1, h1)" by fastforce
  obtain r2 h2 where c: "virtl_init ?e ?h = (r2, h2)" by fastforce
  obtain v where "r0 = Inr v" using a by (auto simp: full_init_def make_child_def)
  then show ?thesis using filters_load_unload [OF _ a b c] b by simp
qed

end
