(* ===== verification/Net_Modules.thy ===== *)
theory Net_Modules
  imports Virt_Filter
begin

text \<open>
  \<open>Tasks/network/net/mulnet.c\<close>: up to four stub interfaces; \<open>netproto\<close>: packet handlers (\<open>net_proto.c\<close>,
  \<open>net_proto2.c\<close>, \<open>trn_proto.c\<close>). The drivers with one interface are in \<open>Net_Drivers\<close>.
\<close>

section \<open>Interfaces as the kernel keeps them\<close>

text \<open>Interfaces are known by numbers: those allocated and not yet freed, and those registered.
  Freeing what is not allocated, or unregistering it, touches released memory.\<close>

record net_kernel =
  live :: "nat set"
  regd :: "nat set"

definition free_netdev :: "nat \<Rightarrow> net_kernel \<Rightarrow> net_kernel res" where
  "free_netdev d k = (if d \<notin> live k then crash DoubleFree else Inr (k\<lparr>live := live k - {d}\<rparr>))"

definition unregister_netdev :: "nat \<Rightarrow> net_kernel \<Rightarrow> net_kernel res" where
  "unregister_netdev d k = (if d \<notin> live k then crash UseAfterFree else Inr (k\<lparr>regd := regd k - {d}\<rparr>))"

text \<open>The outcome of one \<open>alloc_netdev\<close> (the new interface) and one \<open>register_netdev\<close>.\<close>

record netdev_env =
  new_dev :: "nat option"
  register_ok :: bool

section \<open>Several interfaces (mulnet.c)\<close>

definition ETH_ALEN :: nat where
  "ETH_ALEN = 6"

definition mul_setup :: "nat \<Rightarrow> 8 word list" where
  "mul_setup ipos = map (\<lambda>j. of_nat (j + ipos)) [0..<ETH_ALEN]"

text \<open>The name pattern goes into an array of 20 bytes.\<close>

definition mul_prefix :: "char list option \<Rightarrow> bool \<Rightarrow> nat \<Rightarrow> char list res" where
  "mul_prefix title dig ipos =
     (let t = (case title of None \<Rightarrow> ''fict'' | Some x \<Rightarrow> x); p = t @ ''%d'' in
      if 20 \<le> length p then crash OutOfBounds
      else Inr (if dig then p else t @ [char_of (97 + ipos)]))"

record mulnet =
  adev :: "(nat \<times> char list \<times> 8 word list) list"
  kern :: net_kernel

text \<open>The error path: it goes through the earlier positions, but always names the interface that
  could not be registered.\<close>

fun mul_undo :: "nat \<Rightarrow> nat \<Rightarrow> nat \<Rightarrow> net_kernel \<Rightarrow> net_kernel res" where
  "mul_undo d ipos 0 k = Inr k"
| "mul_undo d ipos (Suc j) k =
     (case (if j \<noteq> ipos then unregister_netdev d k else Inr k) of
        Inl e \<Rightarrow> Inl e
      | Inr k1 \<Rightarrow> (case free_netdev d k1 of Inl e \<Rightarrow> Inl e | Inr k2 \<Rightarrow> mul_undo d ipos j k2))"

fun mul_loop :: "char list option \<Rightarrow> bool \<Rightarrow> nat \<Rightarrow> netdev_env list \<Rightarrow> mulnet \<Rightarrow> int res \<times> mulnet" where
  "mul_loop title dig ipos [] s = (Inr 0, s)"
| "mul_loop title dig ipos (e # es) s = (case mul_prefix title dig ipos of
     Inl f \<Rightarrow> (Inl f, s)
   | Inr nm \<Rightarrow> (case new_dev e of
       None \<Rightarrow> (crash NullDeref, s)
     | Some d \<Rightarrow>
         (let s1 = s\<lparr>adev := adev s @ [(d, nm, mul_setup ipos)], kern := (kern s)\<lparr>live := insert d (live (kern s))\<rparr>\<rparr> in
          if register_ok e
          then mul_loop title dig (Suc ipos) es (s1\<lparr>kern := (kern s1)\<lparr>regd := insert d (regd (kern s1))\<rparr>\<rparr>)
          else (case mul_undo d ipos (Suc ipos) (kern s1) of
              Inl f \<Rightarrow> (Inl f, s1) | Inr k \<Rightarrow> (fail ELNRNG, s1\<lparr>kern := k\<rparr>)))))"

text \<open>\<open>e i\<close> are the outcomes for the \<open>i\<close>-th interface; \<open>md\<close> is the way of naming, which kernels
  before 3.17 do not have.\<close>

definition NET_NAME_RENAMED :: int where
  "NET_NAME_RENAMED = 4"

definition mul_init :: "int option \<Rightarrow> int \<Rightarrow> char list option \<Rightarrow> bool \<Rightarrow> (nat \<Rightarrow> netdev_env) \<Rightarrow> net_kernel \<Rightarrow> int res \<times> mulnet" where
  "mul_init md num title dig e k =
     (let s = \<lparr>adev = [], kern = k\<rparr> in
      if num < 0 \<or> num > 4 then (fail EINVAL, s)
      else if (case md of None \<Rightarrow> False | Some m \<Rightarrow> m < 0 \<or> m > NET_NAME_RENAMED) then (fail EINVAL, s)
      else (case mul_prefix title True 0 of
          Inl f \<Rightarrow> (Inl f, s) | Inr _ \<Rightarrow> mul_loop title dig 0 (map e [0..<nat num]) s))"

fun mul_exit :: "(nat \<times> char list \<times> 8 word list) list \<Rightarrow> net_kernel \<Rightarrow> net_kernel res" where
  "mul_exit [] k = Inr k"
| "mul_exit ((d, _, _) # ds) k = (case unregister_netdev d k of
     Inl e \<Rightarrow> Inl e
   | Inr k1 \<Rightarrow> (case free_netdev d k1 of Inl e \<Rightarrow> Inl e | Inr k2 \<Rightarrow> mul_exit ds k2))"

section \<open>Packet handlers (netproto)\<close>

definition test_pack_rcv :: "frame \<Rightarrow> nat res \<times> frame" where
  "test_pack_rcv f = kfree_len f"

definition test_pack_rcv_1 :: "frame \<Rightarrow> nat res \<times> frame" where
  "test_pack_rcv_1 f = kfree_len f"

definition test_pack_rcv_2 :: "frame \<Rightarrow> nat res \<times> frame" where
  "test_pack_rcv_2 f = kfree_len f"

definition test_proto_rcv :: "frame \<Rightarrow> nat" where
  "test_proto_rcv f = unat (skb_len f)"

text \<open>The handlers of \<open>net_proto2.c\<close> are bound to an interface found by \<open>__dev_get_by_name\<close>, which
  takes no reference; its exit gives up two. \<open>refs\<close> is the interface's reference count.\<close>

record proto2 =
  bound :: "nat option"
  packs :: nat
  refs :: int

definition proto2_init :: "char list option \<Rightarrow> (char list \<Rightarrow> nat option) \<Rightarrow> proto2 \<Rightarrow> int res \<times> proto2" where
  "proto2_init link lookup s = (case link of
     None \<Rightarrow> (Inr 0, s\<lparr>packs := packs s + 2\<rparr>)
   | Some l \<Rightarrow> (case lookup l of
       None \<Rightarrow> (fail EINVAL, s)
     | Some d \<Rightarrow> (Inr 0, s\<lparr>bound := Some d, packs := packs s + 2\<rparr>)))"

definition proto2_exit :: "proto2 \<Rightarrow> proto2" where
  "proto2_exit s = s\<lparr>refs := (if bound s \<noteq> None then refs s - 2 else refs s), packs := packs s - 2\<rparr>"

definition trn_init :: "int \<Rightarrow> bool \<Rightarrow> int \<times> bool" where
  "trn_init ret added = (if ret < 0 then (ret, added) else (0, True))"

section \<open>Correctness\<close>

text \<open>The interfaces the allocations yield are new and different from each other.\<close>

definition fresh_devs :: "(nat \<Rightarrow> netdev_env) \<Rightarrow> nat \<Rightarrow> net_kernel \<Rightarrow> bool" where
  "fresh_devs e n k \<longleftrightarrow> (\<forall>i < n. \<exists>d. new_dev (e i) = Some d \<and> d \<notin> live k \<and> d \<notin> regd k)
     \<and> (\<forall>i < n. \<forall>j < n. i \<noteq> j \<longrightarrow> new_dev (e i) \<noteq> new_dev (e j))"

definition dev_no :: "(nat \<Rightarrow> netdev_env) \<Rightarrow> nat \<Rightarrow> nat" where
  "dev_no e i = the (new_dev (e i))"

lemma fresh_devsD:
  assumes "fresh_devs e n k" "i < n"
  shows "new_dev (e i) = Some (dev_no e i)" "dev_no e i \<notin> live k" "dev_no e i \<notin> regd k"
    and "j < n \<Longrightarrow> dev_no e i = dev_no e j \<longleftrightarrow> i = j"
  using assms unfolding fresh_devs_def dev_no_def by (metis option.sel)+

definition with_devs :: "nat set \<Rightarrow> net_kernel \<Rightarrow> net_kernel" where
  "with_devs ds k = \<lparr>live = live k \<union> ds, regd = regd k \<union> ds\<rparr>"

definition mul_state :: "char list \<Rightarrow> bool \<Rightarrow> (nat \<Rightarrow> netdev_env) \<Rightarrow> nat \<Rightarrow> net_kernel \<Rightarrow> mulnet" where
  "mul_state t dig e i k = \<lparr>adev = map (\<lambda>j. (dev_no e j, if dig then t @ ''%d'' else t @ [char_of (97 + j)], mul_setup j)) [0..<i],
     kern = with_devs (dev_no e ` {0..<i}) k\<rparr>"

lemma mul_loop_ok:
  assumes "fresh_devs e n k" "\<forall>i < n. register_ok (e i)" "mul_prefix title True 0 = Inr (t @ ''%d'')"
  shows "i \<le> n \<Longrightarrow> mul_loop title dig i (map e [i..<n]) (mul_state t dig e i k) = (Inr 0, mul_state t dig e n k)"
proof (induction "n - i" arbitrary: i)
  case 0
  then show ?case by simp
next
  case (Suc m)
  then have i: "i < n" "[i..<n] = i # [Suc i..<n]" by (simp_all add: upt_rec)
  have p: "mul_prefix title dig i = Inr (if dig then t @ ''%d'' else t @ [char_of (97 + i)])"
    using assms(3) by (auto simp: mul_prefix_def Let_def split: if_splits)
  have "mul_loop title dig i (map e [i..<n]) (mul_state t dig e i k)
      = mul_loop title dig (Suc i) (map e [Suc i..<n]) (mul_state t dig e (Suc i) k)"
    using assms(2) i fresh_devsD(1) [OF assms(1) i(1)]
    by (simp add: p Let_def mul_state_def with_devs_def atLeast0_lessThan_Suc)
  then show ?case using Suc by simp
qed

lemma mul_undo_first: "d \<notin> live k \<Longrightarrow> mul_undo d 0 (Suc 0) (k\<lparr>live := insert d (live k)\<rparr>) = Inr k"
  by (simp add: free_netdev_def)

lemma mul_undo_later:
  "d \<in> live k \<Longrightarrow> mul_undo d (Suc i) (Suc (Suc i)) k = crash UseAfterFree"
  by (simp add: free_netdev_def unregister_netdev_def)

lemma mul_loop_fail:
  assumes "fresh_devs e n k" "m < n" "\<forall>i < m. register_ok (e i)" "\<not> register_ok (e m)"
    and "mul_prefix title True 0 = Inr (t @ ''%d'')"
  shows "i \<le> m \<Longrightarrow> fst (mul_loop title dig i (map e [i..<n]) (mul_state t dig e i k))
      = (if m = 0 then fail ELNRNG else crash UseAfterFree)
    \<and> (m = 0 \<longrightarrow> kern (snd (mul_loop title dig i (map e [i..<n]) (mul_state t dig e i k))) = k)"
proof (induction "m - i" arbitrary: i)
  case 0
  then have i: "i = m" "[i..<n] = m # [Suc m..<n]" using assms(2) by (simp_all add: upt_rec)
  have p: "mul_prefix title dig m = Inr (if dig then t @ ''%d'' else t @ [char_of (97 + m)])"
    using assms(5) by (auto simp: mul_prefix_def Let_def split: if_splits)
  note f = fresh_devsD [OF assms(1,2)]
  show ?case
  proof (cases "m = 0")
    case True
    then show ?thesis using assms(4) f(1,2) p i
      by (cases k) (simp add: Let_def mul_state_def with_devs_def free_netdev_def)
  next
    case False
    then obtain m' where m': "m = Suc m'" by (cases m) auto
    show ?thesis using assms(4) f(1) p i unfolding m'
      by (simp add: Let_def mul_state_def with_devs_def mul_undo_later del: mul_undo.simps upt_Suc)
  qed
next
  case (Suc q)
  then have i: "i < m" "i < n" "[i..<n] = i # [Suc i..<n]" using assms(2) by (simp_all add: upt_rec)
  have p: "mul_prefix title dig i = Inr (if dig then t @ ''%d'' else t @ [char_of (97 + i)])"
    using assms(5) by (auto simp: mul_prefix_def Let_def split: if_splits)
  have "mul_loop title dig i (map e [i..<n]) (mul_state t dig e i k)
      = mul_loop title dig (Suc i) (map e [Suc i..<n]) (mul_state t dig e (Suc i) k)"
    using assms(3) i fresh_devsD(1) [OF assms(1) i(2)]
    by (simp add: p Let_def mul_state_def with_devs_def atLeast0_lessThan_Suc)
  then show ?case using Suc i(1) by simp
qed

lemma mul_exit_all:
  assumes "fresh_devs e n k"
  shows "i \<le> n \<Longrightarrow> mul_exit (map (\<lambda>j. (dev_no e j, x j, y j)) [i..<n]) (with_devs (dev_no e ` {i..<n}) k) = Inr k"
proof (induction "n - i" arbitrary: i)
  case 0
  then show ?case by (cases k) (simp add: with_devs_def)
next
  case (Suc m)
  then have i: "i < n" "[i..<n] = i # [Suc i..<n]" by (simp_all add: upt_rec)
  have "dev_no e i \<notin> dev_no e ` {Suc i..<n}"
  proof
    assume "dev_no e i \<in> dev_no e ` {Suc i..<n}"
    then obtain x where "x < n" "Suc i \<le> x" "dev_no e i = dev_no e x" by auto
    then show False using fresh_devsD(4) [OF assms i(1), of x] by simp
  qed
  moreover have "{i..<n} = insert i {Suc i..<n}" using i(1) by auto
  ultimately have "(live k \<union> dev_no e ` {i..<n}) - {dev_no e i} = live k \<union> dev_no e ` {Suc i..<n}"
    "(regd k \<union> dev_no e ` {i..<n}) - {dev_no e i} = regd k \<union> dev_no e ` {Suc i..<n}"
    using fresh_devsD(2,3) [OF assms i(1)] by auto
  then have "mul_exit (map (\<lambda>j. (dev_no e j, x j, y j)) [i..<n]) (with_devs (dev_no e ` {i..<n}) k)
      = mul_exit (map (\<lambda>j. (dev_no e j, x j, y j)) [Suc i..<n]) (with_devs (dev_no e ` {Suc i..<n}) k)"
    using i by (simp add: unregister_netdev_def free_netdev_def with_devs_def)
  then show ?case using Suc by simp
qed

text \<open>\<open>mulnet\<close> with a title of at most 17 characters and up to four interfaces: if every
  registration succeeds it has made and registered them all in order, and unloading frees them all; if the first registration fails nothing is left; if a
  later one fails, the error path touches released memory.\<close>

theorem mulnet_load:
  assumes "fresh_devs e n k" "n \<le> 4" "length (case title of None \<Rightarrow> ''fict'' | Some x \<Rightarrow> x) \<le> 17"
    and "m \<le> n" "\<forall>i < m. register_ok (e i)" "m < n \<longrightarrow> \<not> register_ok (e m)"
    and "mul_init md (int n) title dig e k = (r, s)"
    and "md = None \<or> md = Some v \<and> 0 \<le> v \<and> v \<le> NET_NAME_RENAMED"
  shows "if m = n then r = Inr 0 \<and> map fst (adev s) = map (dev_no e) [0..<n] \<and> mul_exit (adev s) (kern s) = Inr k
    else if m = 0 then r = fail ELNRNG \<and> kern s = k
    else r = crash UseAfterFree"
proof -
  define t where "t = (case title of None \<Rightarrow> ''fict'' | Some x \<Rightarrow> x)"
  have p: "mul_prefix title True 0 = Inr (t @ ''%d'')"
    using assms(3) by (simp add: mul_prefix_def Let_def t_def)
  have s0: "\<lparr>adev = [], kern = k\<rparr> = mul_state t dig e 0 k"
    by (cases k) (simp add: mul_state_def with_devs_def)
  have l: "mul_loop title dig 0 (map e [0..<n]) (mul_state t dig e 0 k) = (r, s)"
    using assms(2,7,8) p unfolding mul_init_def Let_def s0 by (auto split: if_splits)
  show ?thesis
  proof (cases "m = n")
    case True
    then have "(r, s) = (Inr 0, mul_state t dig e n k)"
      using mul_loop_ok [OF assms(1) _ p, of 0 dig] assms(5) l by simp
    moreover have "mul_exit (adev (mul_state t dig e n k)) (kern (mul_state t dig e n k)) = Inr k"
      using mul_exit_all [OF assms(1), of 0] by (simp add: mul_state_def)
    moreover have "map fst (adev (mul_state t dig e n k)) = map (dev_no e) [0..<n]"
      by (simp add: mul_state_def comp_def)
    ultimately show ?thesis using True by simp
  next
    case False
    then show ?thesis
      using mul_loop_fail [OF assms(1) _ assms(5) _ p, of 0 dig] assms(4,6) l by (auto split: if_splits)
  qed
qed

theorem mulnet_load_witness:
  "mul_exit (adev (snd (mul_init (Some 1) 2 None True (\<lambda>i. \<lparr>new_dev = Some i, register_ok = True\<rparr>) \<lparr>live = {}, regd = {}\<rparr>)))
      (kern (snd (mul_init (Some 1) 2 None True (\<lambda>i. \<lparr>new_dev = Some i, register_ok = True\<rparr>) \<lparr>live = {}, regd = {}\<rparr>)))
    = Inr \<lparr>live = {}, regd = {}\<rparr>"
proof -
  let ?e = "\<lambda>i. \<lparr>new_dev = Some i, register_ok = True\<rparr>"
  let ?k = "\<lparr>live = {}, regd = {}\<rparr>"
  obtain r s where i: "mul_init (Some 1) (int 2) None True ?e ?k = (r, s)" by (cases "mul_init (Some 1) (int 2) None True ?e ?k")
  have "fresh_devs ?e 2 ?k" by (simp add: fresh_devs_def)
  from mulnet_load [OF this _ _ _ _ _ i, of 2 1] show ?thesis using i by (simp add: NET_NAME_RENAMED_def)
qed

text \<open>Unloading \<open>net_proto2\<close> gives up two references to an interface it never took one of.\<close>

lemma proto2_refs_lost:
  "lookup l = Some d \<Longrightarrow> refs (proto2_exit (snd (proto2_init (Some l) lookup s))) = refs s - 2"
  by (simp add: proto2_init_def proto2_exit_def)

end
