(* ===== verification/Search.thy ===== *)
theory Search
  imports Decimal "HOL-Library.Word"
begin

text \<open>
  Searches for a limit by doubling and bisection: \<open>Tasks/+TASKS/memmax\<close> (the largest block of
  memory that can be allocated, \<open>memmax.c\<close>, and the same search for a number, \<open>iter.c\<close>) and
  \<open>Tasks/memory/mtest/memmax.c\<close> (doubling only). Sizes are 64-bit words; a loop that may not end
  has a fuel argument, and None is the value of a run that has used it up.
\<close>

section \<open>Searching a number (iter.c)\<close>

text \<open>\<open>request\<close> reads lines until one holds a number and nothing else; \<open>ss\<close> is \<open>sscanf\<close> with
  \<open>%llu%s\<close>: how many items it converts, and the number.\<close>

fun request :: "(char list \<Rightarrow> nat \<times> 64 word) \<Rightarrow> char list list \<Rightarrow> (64 word \<times> char list list) option" where
  "request ss [] = None"
| "request ss (l # ls) =
     (let buf = butlast l; (n, targ) = ss buf in
      if n \<noteq> 1 then request ss ls
      else if buf \<noteq> show_nat (unat targ) then request ss ls
      else Some (targ, ls))"

definition ok :: "64 word \<Rightarrow> 64 word \<Rightarrow> bool" where
  "ok val lim \<longleftrightarrow> lim < val"

fun iter_up :: "(64 word \<Rightarrow> bool) \<Rightarrow> nat \<Rightarrow> 64 word \<Rightarrow> 64 word option" where
  "iter_up p 0 limh = None"
| "iter_up p (Suc k) limh = (if \<not> p limh then Some limh else iter_up p k (limh * 2))"

fun iter_narrow :: "64 word \<Rightarrow> nat \<Rightarrow> 64 word \<Rightarrow> 64 word \<Rightarrow> 64 word option" where
  "iter_narrow val 0 liml limh = None"
| "iter_narrow val (Suc k) liml limh =
     (let midle = (limh + liml) div 2 in
      if limh = val \<or> limh - liml < 2 then Some limh
      else if ok val midle then iter_narrow val k midle limh
      else iter_narrow val k liml midle)"

definition iter_search :: "nat \<Rightarrow> 64 word \<Rightarrow> 64 word option" where
  "iter_search fuel val = (case iter_up (ok val) fuel 1 of
     None \<Rightarrow> None | Some limh \<Rightarrow> iter_narrow val fuel (limh div 2) limh)"

section \<open>The largest allocation (+TASKS/memmax/memmax.c)\<close>

definition PAGE_SIZE :: "64 word" where
  "PAGE_SIZE = 4096"

text \<open>\<open>p n\<close> is whether \<open>n\<close> bytes can be allocated (and are given back at once).\<close>

fun mem_narrow :: "(64 word \<Rightarrow> bool) \<Rightarrow> nat \<Rightarrow> 64 word \<Rightarrow> 64 word \<Rightarrow> 64 word option" where
  "mem_narrow p 0 liml limh = None"
| "mem_narrow p (Suc k) liml limh =
     (let midle = limh div 2 + liml div 2; res = p midle in
      if limh = midle \<or> midle - liml < 2 then Some (if res then midle else liml)
      else if res then mem_narrow p k midle limh
      else mem_narrow p k liml midle)"

datatype mem_outcome = IllegalMode | Maximal "64 word"

definition mem_init :: "(64 word \<Rightarrow> bool) \<Rightarrow> (64 word \<Rightarrow> bool) \<Rightarrow> nat \<Rightarrow> int \<Rightarrow> mem_outcome option" where
  "mem_init kmal vmal fuel mode =
     (if mode > 1 then Some IllegalMode
      else (let p = (if mode = 0 then kmal else vmal) in
        case iter_up p fuel PAGE_SIZE of
          None \<Rightarrow> None
        | Some limh \<Rightarrow> map_option Maximal (mem_narrow p fuel (limh div 2) limh)))"

section \<open>Doubling only (memory/mtest/memmax.c)\<close>

text \<open>What is printed: order, size and success of each attempt.\<close>

fun mtest_loop :: "(nat \<Rightarrow> 64 word \<Rightarrow> bool) \<Rightarrow> nat \<Rightarrow> nat \<Rightarrow> 64 word \<Rightarrow> (nat \<times> 64 word \<times> bool) list option" where
  "mtest_loop p 0 order sz = None"
| "mtest_loop p (Suc k) order sz =
     (if \<not> p order sz then Some [(order, sz, False)]
      else map_option (\<lambda>out. (order, sz, True) # out) (mtest_loop p k (Suc order) (sz * 2)))"

definition mtest_init :: "(nat \<Rightarrow> 64 word \<Rightarrow> bool) \<Rightarrow> (nat \<Rightarrow> 64 word \<Rightarrow> bool) \<Rightarrow> (nat \<Rightarrow> 64 word \<Rightarrow> bool)
    \<Rightarrow> nat \<Rightarrow> int \<Rightarrow> (nat \<times> 64 word \<times> bool) list option" where
  "mtest_init kmal pages vmal fuel mode =
     (if mode < 0 \<or> mode > 2 then Some []
      else mtest_loop (if mode = 0 then kmal else if mode = 1 then pages else vmal) fuel 0 PAGE_SIZE)"

section \<open>Numbers and words\<close>

lemma unat_double: "unat (w :: 64 word) < 2 ^ 63 \<Longrightarrow> unat (w * 2) = 2 * unat w"
  by (simp add: unat_word_ariths)

lemma unat_half: "unat ((w :: 64 word) div 2) = unat w div 2"
  by (simp add: unat_div)

text \<open>The doubling ends as soon as a power of two times the start passes the limit, and then the
  half of it is below the limit or it is the start.\<close>

lemma iter_up_ok:
  assumes "\<And>w. unat w \<le> m \<Longrightarrow> p w" "\<And>w. m < unat w \<Longrightarrow> \<not> p w"
    and "m < 2 ^ 63" "0 < unat s" "m < unat s * 2 ^ k" "unat s * 2 ^ k \<le> 2 ^ 63 * 2" "k < fuel"
  shows "\<exists>h. iter_up p fuel s = Some h \<and> m < unat h \<and> (h = s \<or> unat h \<le> 2 * m \<and> even (unat h))
    \<and> (\<exists>j \<le> k. unat h = unat s * 2 ^ j)"
  using assms(4-)
proof (induction k arbitrary: s fuel)
  case 0
  then obtain f where "fuel = Suc f" by (cases fuel) auto
  then show ?case using 0 assms(2) [of s] by (intro exI [of _ s]) auto
next
  case (Suc k)
  then obtain f where f: "fuel = Suc f" by (cases fuel) auto
  show ?case
  proof (cases "p s")
    case False
    then show ?thesis using assms(1) [of s] f by (intro exI [of _ s]) (auto simp: not_le [symmetric])
  next
    case True
    then have l: "unat s \<le> m" using assms(2) by (metis not_le)
    then have d: "unat (s * 2) = 2 * unat s" using assms(3) by (intro unat_double) simp
    obtain h where h: "iter_up p f (s * 2) = Some h" "m < unat h"
      "h = s * 2 \<or> unat h \<le> 2 * m \<and> even (unat h)" "\<exists>j \<le> k. unat h = unat (s * 2) * 2 ^ j"
      using Suc.IH [of "s * 2" f] Suc.prems d f by (auto simp: mult.assoc mult.left_commute)
    obtain j where j: "j \<le> k" "unat h = unat (s * 2) * 2 ^ j" using h(4) by blast
    have "unat h = unat s * 2 ^ Suc j" using j(2) d by simp
    moreover have "unat h \<le> 2 * m \<and> even (unat h)" using h(3) d l by auto
    ultimately show ?thesis using h(1,2) True f j(1) by (intro exI [of _ h]) (auto intro!: exI [of _ "Suc j"])
  qed
qed

text \<open>Doubling from a power of two past the limit wraps to 0, and from there it goes on for ever.\<close>

lemma iter_up_zero: "p 0 \<Longrightarrow> iter_up p fuel 0 = None"
  by (induction fuel) simp_all

lemma iter_up_wraps:
  assumes "\<And>w. w \<le> 2 ^ 63 \<Longrightarrow> p w" "unat s = 2 ^ j" "j \<le> 63"
  shows "iter_up p fuel s = None"
  using assms(2,3)
proof (induction fuel arbitrary: s j)
  case (Suc fuel)
  have "(2 :: nat) ^ j \<le> 2 ^ 63" using Suc.prems(2) by (intro power_increasing) simp_all
  then have le: "s \<le> 2 ^ 63" using Suc.prems(1) by (simp add: word_le_nat_alt)
  show ?case
  proof (cases "j = 63")
    case True
    then have "s * 2 = 0" using Suc.prems by (simp add: unat_eq_zero [symmetric] unat_word_ariths)
    then show ?thesis using le assms(1) iter_up_zero [of p] by simp
  next
    case False
    then have "(2 :: nat) ^ j < 2 ^ 63" using Suc.prems(2) by (intro power_strict_increasing) simp_all
    then have "unat (s * 2) = 2 ^ Suc j" using Suc.prems(1) by (subst unat_double) simp_all
    then show ?thesis using Suc.IH [of "s * 2" "Suc j"] False Suc.prems le assms(1) by simp
  qed
qed simp

lemma iter_narrow_ok:
  assumes "unat liml < unat val" "unat val \<le> unat limh" "unat limh \<le> 2 ^ 63"
    "unat limh - unat liml \<le> 2 ^ j" "j < k"
  shows "iter_narrow val k liml limh = Some val"
  using assms
proof (induction j arbitrary: k liml limh)
  case 0
  then obtain k' where "k = Suc k'" by (cases k) auto
  moreover have "limh = val" using 0 by (simp add: word_unat_eq_iff)
  ultimately show ?case by (simp add: Let_def)
next
  case (Suc j)
  then obtain k' where k: "k = Suc k'" by (cases k) auto
  define mi where "mi = (limh + liml) div 2"
  have "unat (limh + liml) = unat limh + unat liml"
    using Suc.prems(1-3) by (subst unat_add_lem [THEN iffD1]) auto
  then have m: "unat mi = (unat limh + unat liml) div 2" by (simp add: mi_def unat_half)
  show ?case
  proof (cases "limh = val")
    case True
    then show ?thesis by (simp add: k Let_def)
  next
    case False
    have d: "unat (limh - liml) = unat limh - unat liml" using Suc.prems(1,2) by (simp add: unat_sub word_le_nat_alt)
    have ne: "unat limh \<noteq> unat val" using False by (simp add: word_unat_eq_iff)
    then have big: "\<not> limh - liml < 2" using Suc.prems(1,2) d by (simp add: word_less_nat_alt)
    show ?thesis
    proof (cases "ok val mi")
      case True
      then have "iter_narrow val k' mi limh = Some val"
        using Suc.prems m by (intro Suc.IH) (auto simp: k ok_def word_less_nat_alt)
      then show ?thesis using False big True by (simp add: k mi_def [symmetric] Let_def)
    next
      case no: False
      then have "iter_narrow val k' liml mi = Some val"
        using Suc.prems m by (intro Suc.IH) (auto simp: k ok_def word_less_nat_alt)
      then show ?thesis using False big no by (simp add: k mi_def [symmetric] Let_def)
    qed
  qed
qed

text \<open>The interval is always as long as a power of two and aligned to it, so that the halves lose no
  remainder and the last midpoint decides.\<close>

lemma mem_narrow_ok:
  assumes "\<And>w. p w \<longleftrightarrow> unat w \<le> unat m" "unat liml \<le> unat m" "unat m < unat limh" "unat limh \<le> 2 ^ 63"
    "unat limh = unat liml + 2 ^ Suc j" "2 ^ Suc j dvd unat liml" "j < k"
  shows "mem_narrow p k liml limh = Some m"
  using assms(2-)
proof (induction j arbitrary: k liml limh)
  case (0 k liml limh)
  then obtain k' where k: "k = Suc k'" by (cases k) auto
  define mi where "mi = limh div 2 + liml div 2"
  have m: "unat mi = unat liml + 1"
    using 0 unfolding mi_def by (subst unat_add_lem [THEN iffD1]) (auto simp: unat_half)
  have "unat (mi - liml) = 1" using m by (simp add: unat_sub word_le_nat_alt)
  then have "mem_narrow p k liml limh = Some (if p mi then mi else liml)"
    by (simp add: k mi_def [symmetric] Let_def word_less_nat_alt)
  moreover have "unat m = (if p mi then unat mi else unat liml)" using 0 m by (simp add: assms(1))
  ultimately show ?case by (cases "p mi") (simp_all add: word_unat_eq_iff)
next
  case (Suc j)
  then obtain k' where k: "k = Suc k'" by (cases k) auto
  define mi where "mi = limh div 2 + liml div 2"
  have e: "2 * (unat liml div 2) = unat liml" using Suc.prems(5) by (auto intro: dvd_trans)
  have m: "unat mi = unat liml + 2 ^ Suc j"
    using Suc.prems(3,4) e unfolding mi_def by (subst unat_add_lem [THEN iffD1]) (auto simp: unat_half)
  have d: "unat (mi - liml) = 2 ^ Suc j" using m by (simp add: unat_sub word_le_nat_alt)
  have "(2 :: nat) \<le> 2 ^ Suc j" by simp
  then have big: "\<not> mi - liml < 2" using d by (simp add: word_less_nat_alt del: power_Suc)
  have ne: "limh \<noteq> mi" using m Suc.prems(4) by auto
  have al: "2 ^ Suc j dvd unat liml" using Suc.prems(5) by (rule dvd_trans [rotated]) simp
  show ?case
  proof (cases "p mi")
    case True
    then have "mem_narrow p k' mi limh = Some m"
      using Suc.prems m al by (intro Suc.IH) (auto simp: k assms(1) simp del: dvd_power_iff)
    then show ?thesis using True big ne by (simp add: k mi_def [symmetric] Let_def)
  next
    case no: False
    then have "mem_narrow p k' liml mi = Some m"
      using Suc.prems m al by (intro Suc.IH) (auto simp: k assms(1))
    then show ?thesis using no big ne by (simp add: k mi_def [symmetric] Let_def)
  qed
qed

text \<open>The number searched for by \<open>main\<close>.\<close>

lemma iter_start:
  assumes "1 \<le> unat val" "unat val \<le> 2 ^ 63" "64 \<le> fuel"
  shows "\<exists>h. iter_up (ok val) fuel 1 = Some h \<and> unat (h div 2) < unat val \<and> unat val \<le> unat h
    \<and> unat h \<le> 2 ^ 63"
proof -
  have ok_below: "unat w \<le> unat val - 1 \<Longrightarrow> ok val w" for w using assms(1) by (simp add: ok_def word_less_nat_alt)
  have ok_above: "unat val - 1 < unat w \<Longrightarrow> \<not> ok val w" for w using assms(1) by (simp add: ok_def word_less_nat_alt)
  obtain h j where h: "iter_up (ok val) fuel 1 = Some h" "unat val - 1 < unat h"
      "h = 1 \<or> unat h \<le> 2 * (unat val - 1) \<and> even (unat h)" "j \<le> 63" "unat h = unat (1 :: 64 word) * 2 ^ j"
    using iter_up_ok [of "unat val - 1" "ok val" 1 63 fuel, OF ok_below ok_above] assms by fastforce
  have "(2 :: nat) ^ j \<le> 2 ^ 63" using h(4) by (intro power_increasing) simp_all
  then have "unat h \<le> 2 ^ 63" using h(5) by simp
  moreover have "unat (h div 2) < unat val" using h(3) assms(1) by (auto simp: unat_half)
  ultimately show ?thesis using h(1,2) assms(1) by auto
qed

text \<open>The search of \<open>iter.c\<close> ends and finds the number wanted, for every number from 1 to 2^63; for a
  larger one the doubling wraps to 0 and the loop never ends, and 0 is reported as 1.\<close>

theorem iter_finds:
  "(1 \<le> val \<and> val \<le> 2 ^ 63 \<longrightarrow> iter_search 66 val = Some val)
   \<and> (2 ^ 63 < val \<longrightarrow> iter_search fuel val = None)
   \<and> iter_search 66 0 = Some 1"
proof (intro conjI impI)
  assume v: "1 \<le> val \<and> val \<le> 2 ^ 63"
  then have u: "1 \<le> unat val" "unat val \<le> 2 ^ 63" by (simp_all add: word_le_nat_alt)
  obtain h where h: "iter_up (ok val) 66 1 = Some h" "unat (h div 2) < unat val" "unat val \<le> unat h" "unat h \<le> 2 ^ 63"
    using iter_start [OF u, of 66] by auto
  then have "iter_narrow val 66 (h div 2) h = Some val" by (intro iter_narrow_ok [of _ _ _ 63]) simp_all
  then show "iter_search 66 val = Some val" using h(1) by (simp add: iter_search_def)
next
  assume "2 ^ 63 < val"
  then have "iter_up (ok val) fuel 1 = None" by (intro iter_up_wraps [of _ _ 0]) (auto simp: ok_def)
  then show "iter_search fuel val = None" by (simp add: iter_search_def)
next
  show "iter_search 66 0 = Some 1" by (simp add: iter_search_def ok_def eval_nat_numeral)
qed

lemma iter_finds_witness:
  "iter_search 66 5 = Some 5 \<and> iter_search 1000 (2 ^ 63 + 1) = None"
  using iter_finds [of 5 0] iter_finds [of "2 ^ 63 + 1" 1000] by simp_all

text \<open>The line that \<open>request\<close> accepts is the decimal text of the number it returns.\<close>

lemma request_exact:
  "request ss ls = Some (v, rest) \<Longrightarrow> \<exists>l \<in> set ls. butlast l = show_nat (unat v) \<and> (\<exists>used. ls = used @ [l] @ rest)"
proof (induction ls)
  case (Cons a ls)
  show ?case
  proof (cases "\<exists>t. ss (butlast a) = (1, t) \<and> butlast a = show_nat (unat t)")
    case True
    then show ?thesis using Cons.prems by (auto simp: Let_def intro!: exI [of _ "[]"])
  next
    case False
    then have "request ss ls = Some (v, rest)"
      using Cons.prems by (auto simp: Let_def split: prod.splits if_splits)
    then obtain l used where "l \<in> set ls" "butlast l = show_nat (unat v)" "ls = used @ [l] @ rest"
      using Cons.IH by blast
    then show ?thesis by (auto intro!: bexI [of _ l] exI [of _ "a # used"])
  qed
qed simp



text \<open>When not even a page can be allocated the module reports half a page, which it never tried.\<close>

lemma memmax_nothing: "mem_init (\<lambda>w. False) vm 66 0 = Some (Maximal 2048)"
  by code_simp

lemma mtest_last_fails:
  "mtest_loop p k order sz = Some out \<Longrightarrow> out \<noteq> [] \<and> \<not> snd (snd (last out)) \<and> (\<forall>x \<in> set (butlast out). snd (snd x))"
proof (induction k arbitrary: order sz out)
  case (Suc k)
  show ?case
  proof (cases "p order sz")
    case True
    then obtain o' where "mtest_loop p k (Suc order) (sz * 2) = Some o'" "out = (order, sz, True) # o'"
      using Suc.prems by auto
    then show ?thesis using Suc.IH by fastforce
  qed (use Suc.prems in auto)
qed simp

end
