(* ===== verification/Irq_Counter.thy ===== *)
theory Irq_Counter
  imports Interfaces Decimal
begin

text \<open>
  Counting interrupts, \<open>Tasks/+TASKS/irq\<close>: \<open>irqcntp.c\<close> (a counter as a node of /proc), \<open>irqcntpv.c\<close>
  (the same, counting in the handler, in a tasklet or in a work queue), \<open>irqcnts.c\<close> (an attribute of a
  class in /sys) and \<open>irqs.c\<close> (logged at intervals). The counter is a 64-bit word that wraps. The
  interrupt core, tasklets and work queues are the kernel's: what is used of them is the bit that says
  that a tasklet or a work item is pending, which a second request does not set twice.
\<close>

section \<open>State\<close>

datatype bottom = TopHalf | Tasklet | Work

text \<open>What the modules hold of the kernel's: the installed handler, the entries of /proc (or class
  and attribute), the work queue; the pending bits, the counter and the static of \<open>node_read\<close>.\<close>

record irq_state =
  counter :: "64 word"
  hnd :: "bottom option"
  entries :: "char list list"
  wq :: bool
  tsk_pending :: bool
  wrk_pending :: bool
  read_count :: "32 word"

definition irq_fresh :: irq_state where
  "irq_fresh = \<lparr>counter = 0, hnd = None, entries = [], wq = False, tsk_pending = False,
     wrk_pending = False, read_count = 1\<rparr>"

section \<open>Interrupts and deferred work\<close>

definition handler_irq :: "irq_state \<Rightarrow> irq_state" where
  "handler_irq s = s\<lparr>counter := counter s + 1\<rparr>"

definition handler_tsk :: "irq_state \<Rightarrow> irq_state" where
  "handler_tsk s = s\<lparr>tsk_pending := True\<rparr>"

definition handler_wrk :: "irq_state \<Rightarrow> irq_state" where
  "handler_wrk s = s\<lparr>wrk_pending := True\<rparr>"

definition irq_tsk :: "irq_state \<Rightarrow> irq_state" where
  "irq_tsk s = s\<lparr>counter := counter s + 1\<rparr>"

definition irq_wrk :: "irq_state \<Rightarrow> irq_state" where
  "irq_wrk s = s\<lparr>counter := counter s + 1\<rparr>"

text \<open>The kernel runs the installed handler at an interrupt, and the pending work some time later;
  the pending bit is cleared before the work runs.\<close>

datatype irq_event = Interrupt | RunTasklet | RunWork

fun irq_step :: "irq_event \<Rightarrow> irq_state \<Rightarrow> irq_state" where
  "irq_step Interrupt s = (case hnd s of None \<Rightarrow> s
     | Some TopHalf \<Rightarrow> handler_irq s | Some Tasklet \<Rightarrow> handler_tsk s | Some Work \<Rightarrow> handler_wrk s)"
| "irq_step RunTasklet s = (if tsk_pending s then irq_tsk (s\<lparr>tsk_pending := False\<rparr>) else s)"
| "irq_step RunWork s = (if wrk_pending s then irq_wrk (s\<lparr>wrk_pending := False\<rparr>) else s)"

text \<open>The runs that find an interrupt since the run before: what the deferred modes count.\<close>

fun bursts :: "irq_event \<Rightarrow> bool \<Rightarrow> irq_event list \<Rightarrow> nat" where
  "bursts r p [] = 0"
| "bursts r p (e # es) =
     (if e = Interrupt then bursts r True es
      else if e = r \<and> p then Suc (bursts r False es) else bursts r p es)"

lemma hnd_step [simp]: "hnd (irq_step e s) = hnd s"
  by (cases e) (auto simp: handler_irq_def handler_tsk_def handler_wrk_def irq_tsk_def irq_wrk_def
      split: option.splits bottom.splits)

lemma count_top:
  "hnd s = Some TopHalf \<Longrightarrow> \<not> tsk_pending s \<Longrightarrow> \<not> wrk_pending s \<Longrightarrow>
    counter (fold irq_step evs s) = counter s + of_nat (count_list evs Interrupt)"
proof (induction evs arbitrary: s)
  case (Cons e evs)
  then show ?case by (cases e) (auto simp: handler_irq_def algebra_simps)
qed simp

lemma count_tasklet:
  "hnd s = Some Tasklet \<Longrightarrow> \<not> wrk_pending s \<Longrightarrow>
    counter (fold irq_step evs s) = counter s + of_nat (bursts RunTasklet (tsk_pending s) evs)"
proof (induction evs arbitrary: s)
  case (Cons e evs)
  then show ?case by (cases e) (auto simp: handler_tsk_def irq_tsk_def algebra_simps)
qed simp

lemma count_work:
  "hnd s = Some Work \<Longrightarrow> \<not> tsk_pending s \<Longrightarrow>
    counter (fold irq_step evs s) = counter s + of_nat (bursts RunWork (wrk_pending s) evs)"
proof (induction evs arbitrary: s)
  case (Cons e evs)
  then show ?case by (cases e) (auto simp: handler_wrk_def irq_wrk_def algebra_simps)
qed simp

lemma bursts_le: "bursts r p evs \<le> count_list evs Interrupt + (if p then 1 else 0)"
proof (induction evs arbitrary: p)
  case (Cons e evs)
  show ?case using Cons.IH [of True] Cons.IH [of False] Cons.IH [of p] by auto
qed simp

text \<open>Loaded in mode i the counter grows by one for each interrupt; in modes t and w by one for each
  run of the tasklet or of the work item that finds an interrupt since the run before, so never by more
  than the interrupts. It is a 64-bit number that wraps.\<close>

theorem irq_counts:
  assumes "\<not> tsk_pending s" "\<not> wrk_pending s"
  shows "counter (fold irq_step evs (s\<lparr>hnd := Some TopHalf\<rparr>)) = counter s + of_nat (count_list evs Interrupt)
    \<and> counter (fold irq_step evs (s\<lparr>hnd := Some Tasklet\<rparr>)) = counter s + of_nat (bursts RunTasklet False evs)
    \<and> counter (fold irq_step evs (s\<lparr>hnd := Some Work\<rparr>)) = counter s + of_nat (bursts RunWork False evs)
    \<and> bursts r False evs \<le> count_list evs Interrupt"
  using assms bursts_le [of r False evs] by (simp_all add: count_top count_tasklet count_work)

theorem irq_counts_witness:
  "counter (fold irq_step [Interrupt, Interrupt, RunTasklet, RunTasklet, Interrupt] (irq_fresh\<lparr>hnd := Some Tasklet\<rparr>)) = 1"
  using irq_counts [of irq_fresh "[Interrupt, Interrupt, RunTasklet, RunTasklet, Interrupt]" RunTasklet]
  by (simp add: irq_fresh_def)

section \<open>Reading the counter\<close>

definition irq_text :: "irq_state \<Rightarrow> char list" where
  "irq_text s = show_nat (unat (counter s)) @ [NL]"

text \<open>Every other read is an end of file, whoever reads; the length asked for is not looked at. The
  result is the number returned, and the caller's position (unchanged by an error).\<close>

definition node_read :: "ucopy \<Rightarrow> nat \<Rightarrow> irq_state \<Rightarrow> (char list \<times> nat) res \<times> irq_state" where
  "node_read uc pos s =
     (let s' = s\<lparr>read_count := read_count s + 1\<rparr> in
      if odd (unat (read_count s')) then (Inr ([], 0), s')
      else (let buf_msg = irq_text s in
        if uc 0 (length buf_msg) \<noteq> 0 then (fail EFAULT, s')
        else (Inr (buf_msg, length buf_msg), s')))"

text \<open>The attribute in /sys: the text is copied to the page and its length is returned.\<close>

definition attr_read :: "char list \<Rightarrow> irq_state \<Rightarrow> (nat \<times> char list) res" where
  "attr_read buf s = (if length (irq_text s) + 1 > length buf then crash OutOfBounds
     else Inr (strlen (blit buf 0 (irq_text s @ [NUL])), blit buf 0 (irq_text s @ [NUL])))"

section \<open>Loading and unloading\<close>

definition NAME_DIR :: "char list" where
  "NAME_DIR = ''irq_counter''"

definition NAME_NODE :: "char list" where
  "NAME_NODE = ''irq_counter/counter''"

text \<open>\<open>%02d\<close>, and the name of the handler in an array of 12 bytes.\<close>

definition show_02d :: "int \<Rightarrow> char list" where
  "show_02d i = (if 0 \<le> i \<and> i < 10 then ''0'' @ show_int i else show_int i)"

definition dev_name :: "int \<Rightarrow> char list res" where
  "dev_name irq = (let n = ''handler-'' @ show_02d irq in
     if length n + 1 > 12 then crash OutOfBounds else Inr n)"

record irq_env =
  irq :: int
  smode :: char
  req_ret :: int
  wq_ok :: bool
  dir_ok :: bool
  file_ret :: int

text \<open>The directory and the node, and the error path that gives back the handler.\<close>

definition free_irq :: "irq_state \<Rightarrow> irq_state" where
  "free_irq s = s\<lparr>hnd := None\<rparr>"

definition make_node :: "irq_env \<Rightarrow> irq_state \<Rightarrow> int \<times> irq_state" where
  "make_node e s =
     (if \<not> dir_ok e then (-2, free_irq s)
      else (let s1 = s\<lparr>entries := NAME_DIR # entries s\<rparr> in
        if file_ret e \<noteq> 0 then (-2, free_irq (s1\<lparr>entries := remove1 NAME_DIR (entries s1)\<rparr>))
        else (0, s1\<lparr>entries := NAME_NODE # entries s1\<rparr>)))"

definition request_irq :: "irq_env \<Rightarrow> bottom \<Rightarrow> irq_state \<Rightarrow> int \<times> irq_state" where
  "request_irq e b s = (if req_ret e \<noteq> 0 then (req_ret e, s) else (0, s\<lparr>hnd := Some b\<rparr>))"

definition irqcntp_init :: "irq_env \<Rightarrow> irq_state \<Rightarrow> (int \<times> irq_state) res" where
  "irqcntp_init e s = (case dev_name (irq e) of Inl x \<Rightarrow> Inl x | Inr dev \<Rightarrow>
     Inr (let (ret, s1) = request_irq e TopHalf s in
       if ret \<noteq> 0 then (ret, s1) else make_node e s1))"

definition irqcntp_exit :: "irq_state \<Rightarrow> irq_state" where
  "irqcntp_exit s = free_irq (s\<lparr>entries := remove1 NAME_DIR (remove1 NAME_NODE (entries s))\<rparr>)"

definition irqcntpv_init :: "irq_env \<Rightarrow> irq_state \<Rightarrow> (int \<times> irq_state) res" where
  "irqcntpv_init e s = (case dev_name (irq e) of Inl x \<Rightarrow> Inl x | Inr dev \<Rightarrow>
     Inr (let (ret, s1) =
         (if smode e = CHR ''i'' then request_irq e TopHalf s
          else if smode e = CHR ''t'' then request_irq e Tasklet s
          else if smode e = CHR ''w'' then
            (if wq_ok e then
               (let (ret, s1) = request_irq e Work (s\<lparr>wq := True\<rparr>) in
                (ret, if ret \<noteq> 0 then s1\<lparr>wq := False\<rparr> else s1))
             else (-56, s))
          else (-22, s)) in
       if ret \<noteq> 0 then (ret, s1) else make_node e s1))"

text \<open>Unloading in mode t goes on into the case for mode w. Flushing runs the work that is pending.\<close>

definition flush_destroy :: "irq_state \<Rightarrow> irq_state res" where
  "flush_destroy s = (if \<not> wq s then crash NullDeref else Inr ((irq_step RunWork s)\<lparr>wq := False\<rparr>))"

definition irqcntpv_exit :: "char \<Rightarrow> irq_state \<Rightarrow> irq_state res" where
  "irqcntpv_exit m s =
     (let s1 = irqcntp_exit s in
      if m = CHR ''t'' then flush_destroy (irq_step RunTasklet s1)
      else if m = CHR ''w'' then flush_destroy s1
      else Inr s1)"

text \<open>\<open>irqcnts.c\<close>: when the class cannot be made \<open>ret\<close> is still 0. The class pointer is then an error
  code, which is not a class.\<close>

definition irqcnts_init :: "irq_env \<Rightarrow> irq_state \<Rightarrow> (int \<times> irq_state) res" where
  "irqcnts_init e s = (case dev_name (irq e) of Inl x \<Rightarrow> Inl x | Inr dev \<Rightarrow>
     Inr (let (ret, s1) = request_irq e TopHalf s in
       if ret \<noteq> 0 then (ret, s1)
       else if \<not> dir_ok e then (ret, free_irq s1)
       else (let s2 = s1\<lparr>entries := NAME_DIR # entries s1\<rparr>; ret = file_ret e in
         if ret \<noteq> 0 then (ret, free_irq (s2\<lparr>entries := remove1 NAME_DIR (entries s2)\<rparr>))
         else (0, s2\<lparr>entries := NAME_NODE # entries s2\<rparr>))))"

definition irqcnts_exit :: "irq_state \<Rightarrow> irq_state res" where
  "irqcnts_exit s =
     (if NAME_DIR \<notin> set (entries s) then crash NullDeref
      else Inr (free_irq (s\<lparr>entries := remove1 NAME_DIR (remove1 NAME_NODE (entries s))\<rparr>)))"

text \<open>Names that fit: numbers of at most three characters.\<close>

lemma dev_name_fits: "-99 \<le> i \<Longrightarrow> i \<le> 999 \<Longrightarrow> \<exists>n. dev_name i = Inr n"
proof -
  assume i: "-99 \<le> i" "i \<le> 999"
  have "i < 0 \<Longrightarrow> length (show_nat (nat (- i))) \<le> 2" "0 \<le> i \<Longrightarrow> length (show_nat (nat i)) \<le> 3"
    "i < 10 \<Longrightarrow> length (show_nat (nat i)) \<le> 1"
    using i by (auto intro!: length_show_nat simp: nat_less_iff)
  then show ?thesis by (auto simp: dev_name_def show_02d_def show_int_def)
qed

lemma dev_name_overflows: "dev_name 1000 = crash OutOfBounds" "dev_name (-100) = crash OutOfBounds"
  by code_simp+

text \<open>The two versions that can be unloaded safely whenever they were loaded.\<close>

abbreviation run_init :: "(irq_env \<Rightarrow> irq_state \<Rightarrow> (int \<times> irq_state) res) \<Rightarrow> irq_env \<Rightarrow> irq_state \<Rightarrow> int \<times> irq_state" where
  "run_init f e s \<equiv> (case f e s of Inr x \<Rightarrow> x | Inl _ \<Rightarrow> (-1, s))"

definition irq_res :: "irq_state \<Rightarrow> bottom option \<times> char list list \<times> bool" where
  "irq_res s = (hnd s, entries s, wq s)"

lemma make_node_cases:
  "make_node e s = (r, s') \<Longrightarrow>
    (r < 0 \<and> irq_res s' = (None, entries s, wq s))
    \<or> (r = 0 \<and> irq_res s' = (hnd s, NAME_NODE # NAME_DIR # entries s, wq s)
        \<and> irq_res (irqcntp_exit s') = (None, entries s, wq s)
        \<and> tsk_pending s' = tsk_pending s \<and> wrk_pending s' = wrk_pending s)"
  by (auto simp: make_node_def irq_res_def free_irq_def irqcntp_exit_def Let_def split: if_splits)

lemma irqcntp_balanced:
  assumes "run_init irqcntp_init e s = (r, s')" "hnd s = None" "req_ret e \<le> 0"
  shows "(r < 0 \<longrightarrow> irq_res s' = irq_res s) \<and> (0 \<le> r \<longrightarrow> irq_res (irqcntp_exit s') = irq_res s)"
  using assms make_node_cases [of e "s\<lparr>hnd := Some TopHalf\<rparr>"]
  by (auto simp: irqcntp_init_def request_irq_def irq_res_def split: sum.splits if_splits)

lemma flush_ok: "wq s \<Longrightarrow> \<exists>s2. flush_destroy s = Inr s2 \<and> irq_res s2 = (hnd s, entries s, False)"
  by (simp add: flush_destroy_def irq_res_def irq_wrk_def)

text \<open>\<open>irqcntpv\<close>, loaded on a name that fits: a refused load takes nothing in modes i and t, but in mode
  w the work queue stays if the directory or the node cannot be made; a successful load is undone by
  unloading in modes i and w, while in mode t unloading flushes a work queue that was never made.\<close>

theorem irqcntpv_cycle:
  assumes "irqcntpv_init e s = Inr (r, s')" "hnd s = None" "\<not> wq s" "req_ret e \<le> 0"
  shows "r < 0 \<and> irq_res s' = (None, entries s, smode e = CHR ''w'' \<and> wq_ok e \<and> req_ret e = 0)
    \<or> r = 0 \<and> (if smode e = CHR ''t'' then irqcntpv_exit (smode e) s' = crash NullDeref
        else \<exists>s2. irqcntpv_exit (smode e) s' = Inr s2 \<and> irq_res s2 = irq_res s)"
proof -
  obtain dev where dev: "dev_name (irq e) = Inr dev" using assms(1) by (auto simp: irqcntpv_init_def split: sum.splits)
  have mn: "make_node e (s\<lparr>wq := q, hnd := Some b\<rparr>) = (r, s') \<Longrightarrow>
      r < 0 \<and> irq_res s' = (None, entries s, q) \<or> r = 0 \<and> wq s' = q \<and> irq_res (irqcntp_exit s') = (None, entries s, q)" for b q
    using make_node_cases [of e "s\<lparr>wq := q, hnd := Some b\<rparr>" r s'] by (auto simp: irq_res_def)
  consider "smode e = CHR ''i''" | "smode e = CHR ''t''" | "smode e = CHR ''w''"
    | "smode e \<noteq> CHR ''i''" "smode e \<noteq> CHR ''t''" "smode e \<noteq> CHR ''w''" by blast
  then show ?thesis
  proof cases
    case 1
    have [simp]: "s\<lparr>wq := False\<rparr> = s" using assms(3) by simp
    show ?thesis using assms dev 1 mn [where b = TopHalf and q = False]
      by (auto simp: irqcntpv_init_def request_irq_def irqcntpv_exit_def irq_res_def split: if_splits)
  next
    case 2
    have [simp]: "s\<lparr>wq := False\<rparr> = s" using assms(3) by simp
    show ?thesis using assms dev 2 mn [where b = Tasklet and q = False]
      by (auto simp: irqcntpv_init_def request_irq_def irqcntpv_exit_def irq_res_def flush_destroy_def
          irqcntp_exit_def free_irq_def irq_tsk_def Let_def split: if_splits)
  next
    case 3
    show ?thesis using assms dev 3 mn [where b = Work and q = True] flush_ok [of "irqcntp_exit s'"]
      by (auto simp: irqcntpv_init_def request_irq_def irqcntpv_exit_def irq_res_def split: if_splits)
  next
    case 4
    then show ?thesis using assms dev by (auto simp: irqcntpv_init_def irq_res_def)
  qed
qed

abbreviation irq_env_ok :: irq_env where
  "irq_env_ok \<equiv> \<lparr>irq = 16, smode = CHR ''t'', req_ret = 0, wq_ok = True, dir_ok = True, file_ret = 0\<rparr>"

theorem irqcntpv_cycle_witness:
  "\<exists>s'. irqcntpv_init irq_env_ok irq_fresh = Inr (0, s') \<and> irqcntpv_exit CHR ''t'' s' = crash NullDeref"
proof -
  have d: "dev_name 16 = Inr ''handler-16''" by code_simp
  obtain s' where i: "irqcntpv_init irq_env_ok irq_fresh = Inr (0, s')"
    by (simp add: irqcntpv_init_def d request_irq_def make_node_def irq_fresh_def Let_def)
  from irqcntpv_cycle [OF this] i show ?thesis by (auto simp: irq_fresh_def)
qed

text \<open>\<open>irqcnts\<close>: after a failed \<open>class_create\<close> the load is reported as done with the handler given back,
  and unloading then removes the attribute of a class that is not one. Otherwise load and unload match.\<close>

lemma irqcnts_class_fails:
  assumes "dev_name (irq e) = Inr dev" "req_ret e = 0" "\<not> dir_ok e" "NAME_DIR \<notin> set (entries s)"
  shows "\<exists>s'. irqcnts_init e s = Inr (0, s') \<and> hnd s' = None \<and> irqcnts_exit s' = crash NullDeref"
  using assms by (simp add: irqcnts_init_def request_irq_def irqcnts_exit_def free_irq_def)

lemma irqcnts_balanced:
  assumes "irqcnts_init e s = Inr (r, s')" "dir_ok e" "hnd s = None" "req_ret e \<le> 0" "file_ret e \<le> 0"
  shows "(r < 0 \<longrightarrow> irq_res s' = irq_res s)
    \<and> (0 \<le> r \<longrightarrow> (\<exists>s2. irqcnts_exit s' = Inr s2 \<and> irq_res s2 = irq_res s))"
  using assms by (auto simp: irqcnts_init_def request_irq_def irqcnts_exit_def free_irq_def irq_res_def
      Let_def NAME_DIR_def NAME_NODE_def split: sum.splits if_splits)

text \<open>A reader of the node that is alone gets the text and then the end of file, and leaves the static as
  it was; a read that cannot be copied is not made up for: the next reader gets the end of file first.\<close>

lemma node_read_pair:
  assumes "odd (unat (read_count s))" "uc 0 (length (irq_text s)) = 0"
  shows "\<exists>s1 s2. node_read uc 0 s = (Inr (irq_text s, length (irq_text s)), s1)
    \<and> node_read uc (length (irq_text s)) s1 = (Inr ([], 0), s2)
    \<and> counter s2 = counter s \<and> odd (unat (read_count s2))"
proof -
  have "odd (unat (w + 1)) \<longleftrightarrow> even (unat w)" for w :: "32 word"
    by (simp add: unat_word_ariths dvd_mod_iff)
  moreover have "odd (unat (2 + w)) \<longleftrightarrow> odd (unat w)" for w :: "32 word"
    by (simp add: unat_word_ariths dvd_mod_iff)
  ultimately show ?thesis using assms by (simp add: node_read_def irq_text_def Let_def add.commute [of 1])
qed

section \<open>Logging at intervals (irqs.c)\<close>

text \<open>Times are counted in jiffies, a 64-bit word; \<open>delay\<close> is a 32-bit parameter in seconds that loading
  turns into jiffies. \<open>shown\<close> is the log: the time and the counter.\<close>

record irqs_state =
  icounter :: "64 word"
  inext :: "64 word"
  delay :: "32 word"
  shown :: "(64 word \<times> 64 word) list"

definition time_after :: "64 word \<Rightarrow> 64 word \<Rightarrow> bool" where
  "time_after a b \<longleftrightarrow> sint (b - a) < 0"

definition irqs_handler :: "64 word \<Rightarrow> irqs_state \<Rightarrow> irqs_state" where
  "irqs_handler jiffies s =
     (let s1 = s\<lparr>icounter := icounter s + 1\<rparr> in
      if time_after jiffies (inext s1)
      then s1\<lparr>shown := shown s1 @ [(jiffies, icounter s1)], inext := jiffies + ucast (delay s1)\<rparr>
      else s1)"

definition irqs_init :: "32 word \<Rightarrow> int \<Rightarrow> int \<Rightarrow> 64 word \<Rightarrow> irqs_state \<Rightarrow> (int \<times> irqs_state) res" where
  "irqs_init HZ n ret jiffies s = (case dev_name n of Inl x \<Rightarrow> Inl x | Inr dev \<Rightarrow>
     Inr (if ret \<noteq> 0 then (ret, s)
       else (let s1 = s\<lparr>delay := delay s * HZ\<rparr> in (0, s1\<lparr>inext := jiffies + ucast (delay s1)\<rparr>))))"

text \<open>For times below 2^63 the comparison is the one of the numbers.\<close>

lemma time_after_ok:
  assumes "unat a < 2 ^ 63" "unat b < 2 ^ 63"
  shows "time_after a b \<longleftrightarrow> unat b < unat a"
proof -
  have s: "sint w = uint w \<and> uint w < 2 ^ 63" if "unat w < 2 ^ 63" for w :: "64 word"
  proof -
    have u: "uint w < 2 ^ 63" using that by (simp only: of_nat_less_iff [where 'a = int, symmetric] of_nat_unat) simp
    then have "signed_take_bit 63 (uint w) = uint w"
      using uint_ge_0 [of w] by (intro signed_take_bit_int_eq_self) linarith+
    then show ?thesis using u by (simp add: sint_uint)
  qed
  have "signed_take_bit 63 (uint b - uint a) = uint b - uint a"
    using s [OF assms(1)] s [OF assms(2)] uint_ge_0 [of a] uint_ge_0 [of b]
    by (intro signed_take_bit_int_eq_self) linarith+
  then have "sint (b - a) = uint b - uint a"
    using s [OF assms(1)] s [OF assms(2)] by (simp add: sint_word_diff)
  then show ?thesis by (simp add: time_after_def word_less_def [symmetric] word_less_nat_alt [symmetric])
qed

lemma ucast_delay: "unat (ucast (d :: 32 word) :: 64 word) = unat d" "unat d < 2 ^ 32"
proof -
  show l: "unat d < 2 ^ 32" using unsigned_less [of d, where ?'a = nat] by simp
  show "unat (ucast d :: 64 word) = unat d"
    using l by (simp add: unsigned_ucast_eq take_bit_nat_eq_self)
qed

text \<open>The log of a run: the times of consecutive entries are more than \<open>delay\<close> apart.\<close>

fun spaced :: "nat \<Rightarrow> nat list \<Rightarrow> bool" where
  "spaced d (t # u # ts) \<longleftrightarrow> t + d < u \<and> spaced d (u # ts)"
| "spaced d _ \<longleftrightarrow> True"

lemma spaced_snoc: "spaced d (ts @ [t]) \<longleftrightarrow> spaced d ts \<and> (ts \<noteq> [] \<longrightarrow> last ts + d < t)"
  by (induction d ts rule: spaced.induct) auto

definition irqs_inv :: "irqs_state \<Rightarrow> bool" where
  "irqs_inv s \<longleftrightarrow> spaced (unat (delay s)) (map (\<lambda>(t, c). unat t) (shown s))
    \<and> (shown s \<noteq> [] \<longrightarrow> unat (inext s) = unat (fst (last (shown s))) + unat (delay s))
    \<and> unat (inext s) < 2 ^ 63"

lemma irqs_inv_step:
  assumes "irqs_inv s" "unat j < 2 ^ 62"
  shows "irqs_inv (irqs_handler j s) \<and> delay (irqs_handler j s) = delay s
    \<and> icounter (irqs_handler j s) = icounter s + 1"
proof -
  note d = ucast_delay [of "delay s"]
  have j: "unat (j + ucast (delay s)) = unat j + unat (delay s)"
    using d assms(2) by (subst unat_add_lem [THEN iffD1]) simp_all
  have ta: "time_after j (inext s) \<longleftrightarrow> unat (inext s) < unat j"
    using assms by (intro time_after_ok) (auto simp: irqs_inv_def)
  show ?thesis
    using assms ta j d by (auto simp: irqs_inv_def irqs_handler_def spaced_snoc last_map case_prod_beta)
qed

lemma irqs_inv_run:
  "irqs_inv s \<Longrightarrow> (\<forall>j \<in> set js. unat j < 2 ^ 62) \<Longrightarrow>
    irqs_inv (fold irqs_handler js s) \<and> delay (fold irqs_handler js s) = delay s
    \<and> icounter (fold irqs_handler js s) = icounter s + of_nat (length js)"
proof (induction js arbitrary: s)
  case (Cons j js)
  then show ?case using irqs_inv_step [of s j] by (auto simp: algebra_simps)
qed simp

text \<open>After \<open>irqs.c\<close> is loaded, every interrupt is counted, and the log entries are more than the
  delay (a 32-bit number of jiffies) apart, as long as the clock stays below 2^62.\<close>

theorem irqs_log_spaced:
  assumes "irqs_init HZ n 0 j0 \<lparr>icounter = 0, inext = 0, delay = secs, shown = []\<rparr> = Inr (r, s)"
    and "unat j0 < 2 ^ 62" "\<forall>j \<in> set js. unat j < 2 ^ 62"
  shows "icounter (fold irqs_handler js s) = of_nat (length js)
    \<and> spaced (unat (secs * HZ)) (map (\<lambda>(t, c). unat t) (shown (fold irqs_handler js s)))"
proof -
  note d = ucast_delay [of "secs * HZ"]
  have "unat (j0 + ucast (secs * HZ)) = unat j0 + unat (secs * HZ)"
    using d assms(2) by (subst unat_add_lem [THEN iffD1]) simp_all
  then have "irqs_inv s" "delay s = secs * HZ" "icounter s = 0"
    using assms(1,2) d by (auto simp: irqs_init_def irqs_inv_def split: sum.splits)
  then show ?thesis using irqs_inv_run [of s js] assms(3) by (auto simp: irqs_inv_def)
qed

theorem irqs_log_spaced_witness:
  "\<exists>s. irqs_init 100 1 0 0 \<lparr>icounter = 0, inext = 0, delay = 1, shown = []\<rparr> = Inr (0, s)
    \<and> icounter (fold irqs_handler [50, 101, 150, 210] s) = 4"
proof -
  have "dev_name 1 = Inr ''handler-01''" by code_simp
  then obtain s where "irqs_init 100 1 0 0 \<lparr>icounter = 0, inext = 0, delay = 1, shown = []\<rparr> = Inr (0, s)"
    by (simp add: irqs_init_def)
  then show ?thesis using irqs_log_spaced [of 100 1 0 1 0 s "[50, 101, 150, 210]"] by auto
qed

end
