(* ===== verification/Sys_Table.thy ===== *)
theory Sys_Table
  imports Interfaces Decimal
begin

text \<open>
  Changing the kernel's table of system calls, \<open>Tasks/sys_call_table\<close>: looking symbols up (\<open>find.c\<close>),
  the write protection of the processor (\<open>CR0.c\<close>), modules that put a handler into the table
  (\<open>add_sys/add-sys.c\<close>, \<open>new_sys/mod_wrchg.c\<close>, \<open>hidden/hidden.c\<close>) and back (\<open>hidden/restore.c\<close>), the
  search for unused entries (\<open>add_sys/ni-test.c\<close>) and the three modules that print the table
  (\<open>call_table\<close>). The code is for 32-bit processors: addresses are 32-bit words.
\<close>

unbundle bit_operations_syntax

type_synonym addr = "32 word"

section \<open>Symbols (find.c)\<close>

text \<open>The kernel's symbols in the order in which \<open>kallsyms_on_each_symbol\<close> hands them to a function,
  until that returns a number other than 0. The nested function stores into the static of
  \<open>find_sym\<close>, which keeps its value from call to call.\<close>

type_synonym symbols = "(char list \<times> addr) list"

definition symb_fn :: "char list \<Rightarrow> char list \<Rightarrow> addr \<Rightarrow> addr \<Rightarrow> int \<times> addr" where
  "symb_fn data nm a faddr = (if data = nm then (1, a) else (0, faddr))"

fun each_symbol :: "(char list \<Rightarrow> addr \<Rightarrow> 's \<Rightarrow> int \<times> 's) \<Rightarrow> symbols \<Rightarrow> 's \<Rightarrow> int \<times> 's" where
  "each_symbol f [] s = (0, s)"
| "each_symbol f ((nm, a) # syms) s =
     (let (r, s') = f nm a s in if r \<noteq> 0 then (r, s') else each_symbol f syms s')"

definition find_sym :: "symbols \<Rightarrow> char list \<Rightarrow> addr \<Rightarrow> addr" where
  "find_sym syms nm faddr = snd (each_symbol (symb_fn nm) syms faddr)"

text \<open>A symbol that is missing has the address of the one looked up before.\<close>

lemma find_sym_map_of:
  "find_sym syms nm faddr = (case map_of syms nm of None \<Rightarrow> faddr | Some a \<Rightarrow> a)"
  by (induction syms) (auto simp: find_sym_def symb_fn_def split: option.splits)

section \<open>Write protection (CR0.c)\<close>

text \<open>The table's memory, the control register, and the blocks of the kernel's heap.\<close>

record kernel =
  mem :: "addr \<Rightarrow> addr"
  cr0 :: "32 word"
  heap :: "addr list"

definition rw_enable :: "kernel \<Rightarrow> kernel" where
  "rw_enable k = k\<lparr>cr0 := cr0 k AND 0xfffeffff\<rparr>"

definition rw_disable :: "kernel \<Rightarrow> kernel" where
  "rw_disable k = k\<lparr>cr0 := cr0 k OR 0x00010000\<rparr>"

text \<open>\<open>taddr[ nr ]\<close>; the table lies in memory that is read-only while the bit WP is set.\<close>

definition slot :: "addr \<Rightarrow> nat \<Rightarrow> addr" where
  "slot taddr nr = taddr + 4 * of_nat nr"

definition entry :: "addr \<Rightarrow> nat \<Rightarrow> kernel \<Rightarrow> addr" where
  "entry taddr nr k = mem k (slot taddr nr)"

definition set_entry :: "addr \<Rightarrow> nat \<Rightarrow> addr \<Rightarrow> kernel \<Rightarrow> kernel res" where
  "set_entry taddr nr v k = (if bit (cr0 k) 16 then crash OutOfBounds
     else Inr (k\<lparr>mem := (mem k)(slot taddr nr := v)\<rparr>))"

text \<open>The sequence the modules share: protection off, store, protection on.\<close>

abbreviation patch :: "addr \<Rightarrow> nat \<Rightarrow> addr \<Rightarrow> kernel \<Rightarrow> kernel res" where
  "patch taddr nr v k \<equiv> map_sum id rw_disable (set_entry taddr nr v (rw_enable k))"

lemma bit_rw_enable [simp]: "\<not> bit (cr0 (rw_enable k)) 16"
  by (simp add: rw_enable_def bit_and_iff bit_numeral_word_iff)

lemma or_and_not: "(\<And>n. bit w n \<Longrightarrow> bit x n) \<Longrightarrow> (x AND NOT w) OR w = x" for x w :: "32 word"
  by (intro bit_word_eqI) (auto simp: bit_or_iff bit_and_iff bit_not_iff)

lemma rw_disable_enable: "bit (cr0 k) 16 \<Longrightarrow> (cr0 k AND 0xfffeffff) OR 0x00010000 = cr0 k"
proof -
  assume b: "bit (cr0 k) 16"
  have m: "NOT 0x00010000 = (0xfffeffff :: 32 word)" by simp
  have "(0x00010000 :: 32 word) = 2 ^ 16" by simp
  then have "bit (0x00010000 :: 32 word) n \<Longrightarrow> n = 16" for n by (simp only: bit_exp_iff)
  then show ?thesis using b or_and_not [of "0x00010000" "cr0 k"] unfolding m by metis
qed

lemma patch_ok:
  "patch taddr nr v k = Inr (k\<lparr>mem := (mem k)(slot taddr nr := v),
    cr0 := (cr0 k AND 0xfffeffff) OR 0x00010000\<rparr>)"
  using bit_rw_enable [of k]
  by (simp add: set_entry_def rw_enable_def rw_disable_def del: bit_rw_enable)

section \<open>Adding a call (add_sys/add-sys.c)\<close>

definition NR_own :: nat where
  "NR_own = 223"

record sysmod =
  kern :: kernel
  faddr :: addr
  taddr :: addr
  old_sys_addr :: addr

text \<open>The handler: the text is copied into a static array of 80 bytes, and the number of bytes that
  could not be copied is returned.\<close>

definition new_sys_call :: "ucopy \<Rightarrow> char list \<Rightarrow> char list \<Rightarrow> (nat \<times> char list) res" where
  "new_sys_call uc buf_msg buf =
     (if length buf \<ge> 80 then crash OutOfBounds
      else Inr (uc 0 (length buf), (blit buf_msg 0 (from_user uc 0 buf))[length buf := NUL]))"

text \<open>Loading: the statics of a module start afresh. \<open>h\<close> is the address of the handler.\<close>

definition new_sys_init :: "symbols \<Rightarrow> addr \<Rightarrow> sysmod \<Rightarrow> (int \<times> sysmod) res" where
  "new_sys_init syms h s0 =
     (let s = s0\<lparr>faddr := find_sym syms ''sys_call_table'' 0\<rparr>; s = s\<lparr>taddr := faddr s\<rparr> in
      if taddr s = 0 then Inr (-22, s)
      else (let s = s\<lparr>old_sys_addr := entry (taddr s) NR_own (kern s)\<rparr>;
                s = s\<lparr>faddr := find_sym syms ''sys_ni_syscall'' (faddr s)\<rparr>; waddr = faddr s in
        if waddr = 0 then Inr (-22, s)
        else if old_sys_addr s \<noteq> waddr then Inr (-22, s)
        else map_sum id (\<lambda>k. (0, s\<lparr>kern := k\<rparr>)) (patch (taddr s) NR_own h (kern s))))"

definition new_sys_exit :: "sysmod \<Rightarrow> sysmod res" where
  "new_sys_exit s = map_sum id (\<lambda>k. s\<lparr>kern := k\<rparr>) (patch (taddr s) NR_own (old_sys_addr s) (kern s))"

section \<open>Replacing a call (new_sys/mod_wrchg.c, mod_wrc.c)\<close>

definition NR_write :: nat where
  "NR_write = 4"

text \<open>What is written in all, and the result; \<open>sw\<close> is the old handler.\<close>

definition new_sys_write :: "(nat \<Rightarrow> char list \<Rightarrow> int) \<Rightarrow> nat \<Rightarrow> char list \<Rightarrow> int \<times> (nat \<times> char list) list" where
  "new_sys_write sw fd buf =
     (let prefix = '':-) ''; out = (if fd = 1 then [(1, prefix)] else []) in (sw fd buf, out @ [(fd, buf)]))"

definition wrchg_init :: "symbols \<Rightarrow> addr \<Rightarrow> sysmod \<Rightarrow> (int \<times> sysmod) res" where
  "wrchg_init syms h s0 =
     (let s = s0\<lparr>faddr := find_sym syms ''sys_call_table'' 0\<rparr>; s = s\<lparr>taddr := faddr s\<rparr> in
      if taddr s = 0 then Inr (-22, s)
      else (let s = s\<lparr>old_sys_addr := entry (taddr s) NR_write (kern s)\<rparr>;
                s = s\<lparr>faddr := find_sym syms ''sys_write'' (faddr s)\<rparr>; waddr = faddr s in
        if waddr = 0 then Inr (-22, s)
        else if old_sys_addr s \<noteq> waddr then Inr (-22, s)
        else map_sum id (\<lambda>k. (0, s\<lparr>kern := k\<rparr>)) (patch (taddr s) NR_write h (kern s))))"

definition wrchg_exit :: "sysmod \<Rightarrow> sysmod res" where
  "wrchg_exit s = map_sum id (\<lambda>k. s\<lparr>kern := k\<rparr>) (patch (taddr s) NR_write (old_sys_addr s) (kern s))"

text \<open>\<open>mod_wrc.c\<close>: one call of the handler with the text and its terminator; loading always fails.\<close>

definition wr_init :: "symbols \<Rightarrow> (addr \<Rightarrow> char list) \<Rightarrow> int \<times> (nat \<times> char list) list" where
  "wr_init syms show =
     (let (n, waddr) = each_symbol (symb_fn ''sys_write'') syms 0 in
      (-1, if n \<noteq> 0 then [(1, show waddr @ [NUL])] else []))"

section \<open>A hidden call (hidden/hidden.c, restore.c)\<close>

definition NR_list :: "nat list" where
  "NR_list = [223, 222, 127, 130, 137]"

text \<open>The error code is combined with the number of characters \<open>printk\<close> has printed. \<open>blk\<close> is the block
  that \<open>kmalloc\<close> yields for the copy of the handler; loading always fails, and leaves the copy.\<close>

definition EINVAL_or :: "32 word \<Rightarrow> int" where
  "EINVAL_or n = sint (- 22 OR n :: 32 word)"

definition hidden_init :: "nat \<Rightarrow> symbols \<Rightarrow> 32 word \<Rightarrow> addr option \<Rightarrow> kernel \<Rightarrow> (int \<times> kernel) res" where
  "hidden_init SYSCALL syms printed blk k =
     (let NR = NR_list ! SYSCALL; fa = find_sym syms ''sys_call_table'' 0; taddr = fa in
      if taddr = 0 then Inr (EINVAL_or printed, k)
      else (let waddr = find_sym syms ''sys_ni_syscall'' fa in
        if waddr = 0 then Inr (EINVAL_or printed, k)
        else if entry taddr NR k \<noteq> waddr then Inr (EINVAL_or printed, k)
        else (case blk of None \<Rightarrow> Inr (EINVAL_or printed, k)
          | Some b \<Rightarrow> map_sum id (\<lambda>k'. (-1, k')) (patch taddr NR b (k\<lparr>heap := b # heap k\<rparr>)))))"

definition kfree :: "addr \<Rightarrow> kernel \<Rightarrow> kernel res" where
  "kfree p k = (if p = 0 then Inr k else if p \<notin> set (heap k) then crash DoubleFree
     else Inr (k\<lparr>heap := remove1 p (heap k)\<rparr>))"

definition restore_init :: "nat \<Rightarrow> symbols \<Rightarrow> 32 word \<Rightarrow> kernel \<Rightarrow> (int \<times> kernel) res" where
  "restore_init SYSCALL syms printed k =
     (let NR = NR_list ! SYSCALL; fa = find_sym syms ''sys_call_table'' 0; taddr = fa in
      if taddr = 0 then Inr (EINVAL_or printed, k)
      else (let waddr = find_sym syms ''sys_ni_syscall'' fa in
        if waddr = 0 then Inr (EINVAL_or printed, k)
        else (let old_sys_addr = entry taddr NR k in
          if old_sys_addr \<noteq> waddr then
            (case kfree old_sys_addr k of Inl x \<Rightarrow> Inl x
             | Inr k1 \<Rightarrow> map_sum id (\<lambda>k'. (-1, k')) (patch taddr NR waddr k1))
          else Inr (-1, k))))"

section \<open>The table is restored\<close>

text \<open>No step of a module meets the write protection: loads and unloads have a result.\<close>

abbreviation run_ini :: "('e \<Rightarrow> 's \<Rightarrow> (int \<times> 's) res) \<Rightarrow> 'e \<Rightarrow> 's \<Rightarrow> int \<times> 's" where
  "run_ini f e s \<equiv> (case f e s of Inr x \<Rightarrow> x | Inl _ \<Rightarrow> (0, s))"

abbreviation run_ext :: "('s \<Rightarrow> 's res) \<Rightarrow> 's \<Rightarrow> 's" where
  "run_ext f s \<equiv> (case f s of Inr x \<Rightarrow> x | Inl _ \<Rightarrow> s)"

lemma new_sys_defined: "\<exists>x. new_sys_init syms h s = Inr x" "\<exists>x. new_sys_exit s = Inr x"
  by (auto simp: new_sys_init_def new_sys_exit_def patch_ok Let_def)

lemma wrchg_defined: "\<exists>x. wrchg_init syms h s = Inr x" "\<exists>x. wrchg_exit s = Inr x"
  by (auto simp: wrchg_init_def wrchg_exit_def patch_ok Let_def)

interpretation add_sys: lifecycle "run_ini (\<lambda>(syms, h). new_sys_init syms h)" "\<lambda>_ s. s" "run_ext new_sys_exit"
    "\<lambda>s. mem (kern s)"
  by unfold_locales
    (auto simp: new_sys_init_def new_sys_exit_def patch_ok entry_def Let_def split: if_splits)

interpretation wrchg: lifecycle "run_ini (\<lambda>(syms, h). wrchg_init syms h)" "\<lambda>_ s. s" "run_ext wrchg_exit"
    "\<lambda>s. mem (kern s)"
  by unfold_locales
    (auto simp: wrchg_init_def wrchg_exit_def patch_ok entry_def Let_def split: if_splits)


abbreviation syms_example :: symbols where
  "syms_example \<equiv> [(''sys_ni_syscall'', 7), (''sys_call_table'', 0x1000), (''sys_write'', 9)]"

abbreviation kern_example :: kernel where
  "kern_example \<equiv> \<lparr>mem = (\<lambda>_. 7), cr0 = 0x80010000, heap = []\<rparr>"


text \<open>The handler of the hidden module survives it, and \<open>restore\<close> takes it out again.\<close>

lemma bit_WP_or [simp]: "bit ((w :: 32 word) OR 0x00010000) 16"
  by (simp add: bit_or_iff bit_numeral_word_iff)

text \<open>\<open>hidden\<close> puts the copy of the handler into the unused entry and its load is refused; \<open>restore\<close>
  then gives the block back and restores the entry, so that memory, heap and protection are what they
  were. \<open>restore\<close> on an entry that another module has taken frees memory that was never allocated.\<close>

theorem hidden_restore:
  assumes "map_of syms ''sys_call_table'' = Some t" "map_of syms ''sys_ni_syscall'' = Some ni"
    and "t \<noteq> 0" "ni \<noteq> 0" "b \<noteq> 0" "b \<noteq> ni" "b \<notin> set (heap k)" "bit (cr0 k) 16"
    and "entry t (NR_list ! n) k = ni"
  shows "\<exists>k1. hidden_init n syms p (Some b) k = Inr (-1, k1) \<and> entry t (NR_list ! n) k1 = b
    \<and> restore_init n syms q k1 = Inr (-1, k)
    \<and> restore_init n syms q (k1\<lparr>heap := heap k\<rparr>) = crash DoubleFree"
  using assms rw_disable_enable [of k]
  by (auto simp: hidden_init_def restore_init_def find_sym_map_of patch_ok entry_def kfree_def Let_def)

theorem hidden_restore_witness:
  "\<exists>k1. hidden_init 0 syms_example 0 (Some 99) kern_example = Inr (-1, k1) \<and> restore_init 0 syms_example 0 k1 = Inr (-1, kern_example)"
  using hidden_restore [where syms = syms_example and t = "0x1000" and ni = 7 and b = 99 and k = kern_example and n = 0 and p = 0 and q = 0] by (auto simp: entry_def bit_numeral_word_iff)

lemma NR_list_length: "length NR_list = 5" by (simp add: NR_list_def)

section \<open>Unused entries (add_sys/ni-test.c)\<close>

definition ni_symb_fn :: "char list \<Rightarrow> addr \<Rightarrow> addr \<times> addr \<Rightarrow> int \<times> (addr \<times> addr)" where
  "ni_symb_fn nm a s = (0, if nm = ''sys_call_table'' then (a, snd s)
     else if nm = ''sys_ni_syscall'' then (fst s, a) else s)"

text \<open>\<open>%03d\<close> of an index below 1000, and the text built in an array of 200 bytes.\<close>

definition show_03d :: "nat \<Rightarrow> char list" where
  "show_03d i = replicate (3 - length (show_nat i)) CHR ''0'' @ show_nat i"

fun show_entries :: "(nat \<Rightarrow> addr) \<Rightarrow> addr \<Rightarrow> nat list \<Rightarrow> nat \<Rightarrow> char list \<Rightarrow> (nat \<times> char list) res" where
  "show_entries tab anif [] ni buf = Inr (ni, buf)"
| "show_entries tab anif (i # is) ni buf =
     (if tab i = anif
      then (let buf' = buf @ show_03d i @ '', '' in
        if length buf' + 1 > 200 then crash OutOfBounds else show_entries tab anif is (ni + 1) buf')
      else show_entries tab anif is ni buf)"

definition SYS_NR_MAX_OLD :: nat where
  "SYS_NR_MAX_OLD = 340"

definition ni_init :: "symbols \<Rightarrow> kernel \<Rightarrow> (int \<times> (nat \<times> char list)) res" where
  "ni_init syms k =
     (let (r, asct, anif) = each_symbol ni_symb_fn syms (0, 0) in
      if asct = 0 \<or> anif = 0 then Inr (-14, (0, []))
      else map_sum id (\<lambda>x. (-1, x))
        (show_entries (\<lambda>i. entry asct i k) anif [0..<SYS_NR_MAX_OLD + 1] 0 []))"

lemma length_show_03d: "i < 1000 \<Longrightarrow> length (show_03d i) = 3"
  using length_show_nat [of i 3] by (auto simp: show_03d_def)

lemma show_entries_result:
  assumes "\<forall>i \<in> set is. i < 1000" "length buf = 5 * ni" "ni \<le> 39"
  shows "show_entries tab anif is ni buf =
    (let found = filter (\<lambda>i. tab i = anif) is in
     if ni + length found > 39 then crash OutOfBounds
     else Inr (ni + length found, buf @ concat (map (\<lambda>i. show_03d i @ '', '') found)))"
  using assms
proof (induction "is" arbitrary: ni buf)
  case (Cons i "is")
  then show ?case by (cases "tab i = anif") (auto simp: length_show_03d Let_def)
qed simp

section \<open>Printing the table (call_table)\<close>

text \<open>Ten entries are added to a text of 17 characters in an array of 120 bytes; \<open>ptr\<close> is the format
  \<open>%p\<close>.\<close>

fun table_text :: "(addr \<Rightarrow> char list) \<Rightarrow> (nat \<Rightarrow> addr) \<Rightarrow> nat list \<Rightarrow> char list \<Rightarrow> char list res" where
  "table_text ptr a [] table = Inr table"
| "table_text ptr a (i # is) table =
     (let table' = table @ ptr (a i) @ '' '' in
      if length table' + 1 > 120 then crash OutOfBounds else table_text ptr a is table')"

definition print_table :: "(addr \<Rightarrow> char list) \<Rightarrow> (nat \<Rightarrow> addr) \<Rightarrow> char list res" where
  "print_table ptr a = table_text ptr a [0..<10] ''sys_call_table : ''"

lemma table_text_fits:
  assumes "\<And>w. length (ptr w) = n"
  shows "table_text ptr a is t = (if is \<noteq> [] \<and> length t + length is * (n + 1) + 1 > 120 then crash OutOfBounds
    else Inr (t @ concat (map (\<lambda>i. ptr (a i) @ '' '') is)))"
  by (induction "is" arbitrary: t) (auto simp: assms Let_def)

text \<open>The array is large enough for the eight digits of a 32-bit pointer and not for the sixteen of a
  64-bit one.\<close>

lemma print_table_fits:
  "(\<And>w. length (ptr w) = 8) \<Longrightarrow>
    print_table ptr a = Inr (''sys_call_table : '' @ concat (map (\<lambda>i. ptr (a i) @ '' '') [0..<10]))"
  "(\<And>w. length (ptr w) = 16) \<Longrightarrow> print_table ptr a = crash OutOfBounds"
  by (auto simp: print_table_def table_text_fits [of ptr 8] table_text_fits [of ptr 16])

text \<open>\<open>mod_kct.c\<close> uses \<open>kallsyms_lookup_name\<close>, \<open>mod_koes.c\<close> iterates, counting the symbols.\<close>

definition kct_init :: "(char list \<Rightarrow> addr) \<Rightarrow> (addr \<Rightarrow> char list) \<Rightarrow> kernel \<Rightarrow> (int \<times> char list) res" where
  "kct_init lookup ptr k =
     (let sct = lookup ''sys_call_table'' in
      if sct \<noteq> 0 then map_sum id (\<lambda>t. (-1, t)) (print_table ptr (\<lambda>i. entry sct i k)) else Inr (-1, []))"

definition koes_symb_fn :: "char list \<Rightarrow> char list \<Rightarrow> addr \<Rightarrow> nat \<times> addr \<Rightarrow> int \<times> (nat \<times> addr)" where
  "koes_symb_fn data nm a s = (if data = nm then (1, (fst s + 1, a)) else (0, (fst s + 1, snd s)))"

definition koes_init :: "symbols \<Rightarrow> (addr \<Rightarrow> char list) \<Rightarrow> kernel \<Rightarrow> (int \<times> nat \<times> char list) res" where
  "koes_init syms ptr k =
     (let (n, nsym, taddr) = each_symbol (koes_symb_fn ''sys_call_table'') syms (0, 0) in
      if n \<noteq> 0 then map_sum id (\<lambda>t. (-1, nsym, t)) (print_table ptr (\<lambda>i. entry taddr i k))
      else Inr (-1, nsym, []))"

lemma koes_finds:
  "each_symbol (koes_symb_fn nm) syms (j, x) =
    (case map_of syms nm of None \<Rightarrow> (0, j + length syms, x)
     | Some a \<Rightarrow> (1, j + Suc (length (takeWhile (\<lambda>s. fst s \<noteq> nm) syms)), a))"
  by (induction syms arbitrary: j) (auto simp: koes_symb_fn_def split: option.splits)

subsection \<open>Reading the symbols as a file (mod_rct.c)\<close>

definition hex_dig :: "char list" where
  "hex_dig = ''0123456789abcdef''"

text \<open>The loop ends at the first character that \<open>strchr\<close> does not find, and it finds the zero byte.\<close>

fun hex2adr :: "addr \<Rightarrow> char list \<Rightarrow> addr res" where
  "hex2adr rs [] = crash OutOfBounds"
| "hex2adr rs (c # p) = (case strchr hex_dig c of None \<Rightarrow> Inr rs
     | Some d \<Rightarrow> hex2adr (push_bit 4 rs + of_nat d) p)"

definition NR_close :: nat where
  "NR_close = 6"

definition verify_close :: "addr \<Rightarrow> addr \<Rightarrow> kernel \<Rightarrow> bool" where
  "verify_close sys_close a k \<longleftrightarrow> entry a NR_close k = sys_close"

text \<open>The address, and what is printed when it is valid.\<close>

definition put_table :: "addr \<Rightarrow> (addr \<Rightarrow> char list) \<Rightarrow> kernel \<Rightarrow> char list \<Rightarrow> (addr \<times> char list option) res" where
  "put_table sys_close ptr k b = (case hex2adr 0 b of Inl x \<Rightarrow> Inl x
     | Inr a \<Rightarrow> if \<not> verify_close sys_close a k then Inr (a, None)
       else map_sum id (\<lambda>t. (a, Some t)) (print_table ptr (\<lambda>i. entry a i k)))"

text \<open>A line is read byte by byte into an array of 256; \<open>bad n\<close> is whether the read at offset \<open>n\<close> fails.
  The result is the line, whether the end of file was met, the offset and the rest of the file.\<close>

fun read_line :: "(nat \<Rightarrow> bool) \<Rightarrow> nat \<Rightarrow> char list \<Rightarrow> char list \<Rightarrow> (char list \<times> bool \<times> nat \<times> char list) res" where
  "read_line bad n line rest =
     (if bad n then fail EIO
      else if length line \<ge> 255 then crash OutOfBounds
      else (case rest of [] \<Rightarrow> Inr (line, True, n, [])
        | c # cs \<Rightarrow> if c = NL then Inr (line @ [c], False, n + 1, cs) else read_line bad (n + 1) (line @ [c]) cs))"

fun strstr :: "char list \<Rightarrow> char list \<Rightarrow> bool" where
  "strstr [] t \<longleftrightarrow> t = []"
| "strstr (c # s) t \<longleftrightarrow> take (length t) (c # s) = t \<or> strstr s t"

declare read_line.simps [simp del]

lemma read_line_shorter: "read_line bad n line rest = Inr (l, False, n', rest') \<Longrightarrow> length rest' < length rest"
proof (induction bad n line rest rule: read_line.induct)
  case (1 bad n line rest)
  show ?case
  proof (cases rest)
    case Nil
    then show ?thesis using "1.prems" by (subst (asm) read_line.simps) (auto split: if_splits)
  next
    case (Cons c cs)
    then show ?thesis using "1.prems" "1.IH" [OF _ _ Cons]
      by (subst (asm) read_line.simps) (auto split: if_splits)
  qed
qed

text \<open>The whole file: the error code and what \<open>put_table\<close> found for each line that has the name.\<close>

function stread :: "(char list \<Rightarrow> 'a res) \<Rightarrow> (nat \<Rightarrow> bool) \<Rightarrow> nat \<Rightarrow> char list \<Rightarrow> (int \<times> 'a list) res" where
  "stread put bad n file = (case read_line bad n [] file of
     Inl (Errno e) \<Rightarrow> Inr (-5, [])
   | Inl (Fault f) \<Rightarrow> crash f
   | Inr (line, True, n', rest) \<Rightarrow> Inr (-1, [])
   | Inr (line, False, n', rest) \<Rightarrow>
       if strstr line ''sys_call_table''
       then (case put (line @ [NUL]) of Inl x \<Rightarrow> Inl x
         | Inr t \<Rightarrow> map_sum id (\<lambda>(r, ts). (r, t # ts)) (stread put bad n' rest))
       else stread put bad n' rest)"
  by pat_completeness auto
termination by (relation "measure (\<lambda>(put, bad, n, file). length file)") (auto dest: read_line_shorter)

definition rct_init :: "bool \<Rightarrow> addr \<Rightarrow> (addr \<Rightarrow> char list) \<Rightarrow> kernel \<Rightarrow> (nat \<Rightarrow> bool) \<Rightarrow> char list
    \<Rightarrow> (int \<times> (addr \<times> char list option) list) res" where
  "rct_init opened sys_close ptr k bad file =
     (if \<not> opened then Inr (-2, []) else stread (put_table sys_close ptr k) bad 0 file)"

lemma hex2adr_digits:
  "set ds \<subseteq> set hex_dig \<Longrightarrow> hex2adr rs (ds @ p) =
    hex2adr (foldl (\<lambda>r c. push_bit 4 r + of_nat (the (strchr hex_dig c))) rs ds) p"
  by (induction ds arbitrary: rs) (auto simp: hex_dig_def)

lemma hex_dig_props: "distinct hex_dig" "length hex_dig = 16" "NUL \<notin> set hex_dig"
  by (simp_all add: hex_dig_def)

lemma fold_hex_show:
  "foldl (\<lambda>r c. push_bit 4 r + of_nat (the (strchr hex_dig c))) 0 (show_base hex_dig n) = (of_nat n :: addr)"
proof (induction n rule: less_induct)
  case (less n)
  show ?case
  proof (cases "n < 16")
    case True
    then show ?thesis using strchr_nth [of hex_dig n] by (subst show_base.simps) (simp add: hex_dig_props)
  next
    case False
    have "strchr hex_dig (hex_dig ! (n mod 16)) = Some (n mod 16)" by (rule strchr_nth) (simp_all add: hex_dig_props)
    moreover have "push_bit 4 (of_nat (n div 16)) + of_nat (n mod 16) = (of_nat n :: addr)"
    proof -
      have "of_nat n = (of_nat (16 * (n div 16) + n mod 16) :: addr)" by simp
      also have "\<dots> = push_bit 4 (of_nat (n div 16)) + of_nat (n mod 16)"
        by (simp only: of_nat_add of_nat_mult) (simp add: push_bit_eq_mult)
      finally show ?thesis by simp
    qed
    ultimately show ?thesis using False less.IH [of "n div 16"]
      by (subst show_base.simps) (simp add: hex_dig_props)
  qed
qed

lemma fold_hex_zeros:
  "foldl (\<lambda>r c. push_bit 4 r + of_nat (the (strchr hex_dig c))) 0 (replicate z CHR ''0'' @ ds)
    = (foldl (\<lambda>r c. push_bit 4 r + of_nat (the (strchr hex_dig c))) 0 ds :: addr)"
  by (induction z) (simp_all add: hex_dig_def)

text \<open>A line of the file: the address in hexadecimal, with leading zeros, the type and the name.\<close>

fun sym_line :: "nat \<times> addr \<times> char \<times> char list \<Rightarrow> char list" where
  "sym_line (z, a, t, nm) = (replicate z CHR ''0'' @ show_base hex_dig (unat a)) @ '' '' @ [t] @ '' '' @ nm @ [NL]"

lemma hex2adr_line: "hex2adr 0 (sym_line (z, a, t, nm) @ r) = Inr a"
proof -
  have "set (replicate z CHR ''0'' @ show_base hex_dig (unat a)) \<subseteq> set hex_dig"
    using show_base_set [of hex_dig "unat a"] by (auto simp: hex_dig_def)
  from hex2adr_digits [OF this, of 0] show ?thesis
    by (simp only: sym_line.simps append.assoc fold_hex_zeros fold_hex_show)
      (simp only: append.assoc [symmetric], simp add: fold_hex_zeros fold_hex_show hex_dig_def)
qed

lemma read_line_whole:
  assumes "NL \<notin> set l" "length pre + length l < 255"
  shows "read_line (\<lambda>_. False) n pre (l @ NL # rest) = Inr (pre @ l @ [NL], False, n + length l + 1, rest)"
  using assms
proof (induction l arbitrary: n pre)
  case Nil
  then show ?case by (subst read_line.simps) simp
next
  case (Cons c l)
  then show ?case by (subst read_line.simps) auto
qed

lemma read_line_eof: "read_line (\<lambda>_. False) n [] [] = Inr ([], True, n, [])"
  by (subst read_line.simps) simp

declare stread.simps [simp del]

lemma stread_lines:
  assumes "\<forall>l \<in> set ls. NL \<notin> set l \<and> length l < 255"
    and "\<And>l. l \<in> set ls \<Longrightarrow> strstr (l @ [NL]) ''sys_call_table'' \<Longrightarrow> put ((l @ [NL]) @ [NUL]) = Inr (f l)"
  shows "stread put (\<lambda>_. False) n (concat (map (\<lambda>l. l @ [NL]) ls)) =
    Inr (-1, map f (filter (\<lambda>l. strstr (l @ [NL]) ''sys_call_table'') ls))"
  using assms
proof (induction ls arbitrary: n)
  case Nil
  then show ?case by (subst stread.simps) (simp add: read_line_eof)
next
  case (Cons l ls)
  have IH: "stread put (\<lambda>_. False) m (concat (map (\<lambda>l. l @ [NL]) ls)) =
      Inr (-1, map f (filter (\<lambda>l. strstr (l @ [NL]) ''sys_call_table'') ls))" for m
    using Cons.prems by (intro Cons.IH) auto
  have r: "read_line (\<lambda>_. False) n [] (l @ NL # concat (map (\<lambda>l. l @ [NL]) ls)) =
      Inr (l @ [NL], False, n + length l + 1, concat (map (\<lambda>l. l @ [NL]) ls))"
    using Cons.prems(1) read_line_whole [of l "[]"] by simp
  show ?case
  proof (cases "strstr (l @ [NL]) ''sys_call_table''")
    case True
    then have "put (l @ [NL, NUL]) = Inr (f l)" using Cons.prems(2) [of l] by simp
    then show ?thesis using True r IH by (subst stread.simps) simp
  next
    case False
    then show ?thesis using r IH by (subst stread.simps) simp
  qed
qed

text \<open>Read from a file of symbol lines of at most 255 characters, \<open>mod_rct\<close> finds the address on
  every line that has the name, checks it by the entry of \<open>close\<close> and prints ten entries of each table that
  is confirmed; its load is always refused.\<close>

theorem rct_finds_table:
  assumes "\<forall>(z, a, t, nm) \<in> set syms. NL \<notin> set (t # nm) \<and> length (sym_line (z, a, t, nm)) \<le> 255"
    and "\<And>w. length (ptr w) = 8"
  shows "rct_init True sys_close ptr k (\<lambda>_. False) (concat (map sym_line syms)) = Inr (-1,
    map (\<lambda>(z, a, t, nm). (a, if entry a NR_close k = sys_close
          then Some (''sys_call_table : '' @ concat (map (\<lambda>i. ptr (entry a i k) @ '' '') [0..<10])) else None))
      (filter (\<lambda>s. strstr (sym_line s) ''sys_call_table'') syms))"
proof -
  have hex: "NL \<notin> set (show_base hex_dig n)" for n using show_base_set [of hex_dig n] by (auto simp: hex_dig_def)
  have bl: "butlast (sym_line s) @ [NL] = sym_line s" for s by (cases s) (simp add: butlast_append)
  have bl2: "butlast (sym_line s) @ [NL, NUL] = sym_line s @ [NUL]" for s by (cases s) (simp add: butlast_append)
  let ?f = "\<lambda>l. projr (put_table sys_close ptr k (l @ [NL, NUL]))"
  have put: "put_table sys_close ptr k (sym_line (z, a, t, nm) @ [NUL]) = Inr (a, if entry a NR_close k = sys_close
      then Some (''sys_call_table : '' @ concat (map (\<lambda>i. ptr (entry a i k) @ '' '') [0..<10])) else None)" for z a t nm
    using print_table_fits(1) [OF assms(2)] by (simp add: put_table_def hex2adr_line verify_close_def del: sym_line.simps)
  have all: "\<forall>l \<in> set (map (butlast \<circ> sym_line) syms). NL \<notin> set l \<and> length l < 255"
    using assms(1) hex by (fastforce simp: butlast_append)
  have "concat (map sym_line syms) = concat (map (\<lambda>l. l @ [NL]) (map (butlast \<circ> sym_line) syms))"
    by (simp add: bl comp_def del: sym_line.simps)
  moreover have "stread (put_table sys_close ptr k) (\<lambda>_. False) 0 (concat (map (\<lambda>l. l @ [NL]) (map (butlast \<circ> sym_line) syms)))
      = Inr (-1, map ?f (filter (\<lambda>l. strstr (l @ [NL]) ''sys_call_table'') (map (butlast \<circ> sym_line) syms)))"
    using all put by (intro stread_lines) (auto simp: bl bl2 simp del: sym_line.simps)
  ultimately show ?thesis
    using put by (auto simp: bl bl2 rct_init_def filter_map comp_def case_prod_beta simp del: sym_line.simps)
qed

theorem rct_finds_table_witness:
  "rct_init True 7 (\<lambda>w. ''c0abcdef'') kern_example (\<lambda>_. False)
     (concat (map sym_line [(0, 0xc0010000, CHR ''T'', ''printk''), (0, 0xc0543210, CHR ''R'', ''sys_call_table'')]))
   = Inr (-1, [(0xc0543210, Some (''sys_call_table : '' @ concat (map (\<lambda>i. ''c0abcdef '') [0..<10])))])"
proof -
  have len: "length (show_base hex_dig 0xc0010000) = 8" "length (show_base hex_dig 0xc0543210) = 8"
    by (simp_all add: show_base.simps hex_dig_def)
  have no: "\<not> strstr (sym_line (0, 0xc0010000, CHR ''T'', ''printk'')) ''sys_call_table''"
    and yes: "strstr (sym_line (0, 0xc0543210, CHR ''R'', ''sys_call_table'')) ''sys_call_table''"
    by (simp_all add: show_base.simps hex_dig_def)
  show ?thesis
    by (subst rct_finds_table)
      (use len no yes in \<open>auto simp: entry_def\<close>)
qed

end
