(* ===== verification/Plugin.thy ===== *)
theory Plugin
  imports Sys_Table
begin

text \<open>
  Modules that load modules, \<open>Tasks/load_module\<close>: the name of a module (\<open>common.c\<close>), a module that
  loads and unloads another (\<open>master/master.c\<close>), and a system call that reads a number and loads the
  module that knows its base (\<open>plugin/master.c\<close> with \<open>dec.c\<close>, \<open>oct.c\<close>, \<open>hex.c\<close>). \<open>find.c\<close> and \<open>CR0.c\<close>
  are those of \<open>Sys_Table\<close>. A \<open>long\<close> has 32 bits, as the code is for 32-bit processors.
\<close>

section \<open>The name of a module (common.c)\<close>

text \<open>Between the last slash and the last point of the path, into an array of 40 bytes.\<close>

definition set_mod_name :: "char list \<Rightarrow> char list res" where
  "set_mod_name path = (case (strrchr path CHR ''/'', strrchr path CHR ''.'') of
     (Some i, Some pe) \<Rightarrow>
       (let pb = i + 1 in
        if pe < pb \<or> pe - pb + 4 > 40 then crash OutOfBounds
        else Inr (take (pe - pb) (drop pb path) @ ''.ko''))
   | _ \<Rightarrow> crash NullDeref)"

lemma mod_name_exact:
  assumes "CHR ''/'' \<notin> set base" "CHR ''/'' \<notin> set ext" "CHR ''.'' \<notin> set ext" "length base \<le> 36"
  shows "set_mod_name (dir @ ''/'' @ base @ ''.'' @ ext) = Inr (base @ ''.ko'')"
proof -
  have "strrchr (dir @ ''/'' @ base @ ''.'' @ ext) CHR ''/'' = Some (length dir)"
    using assms strrchr_last [of "CHR ''/''" "base @ ''.'' @ ext" dir] by simp
  moreover have "strrchr (dir @ ''/'' @ base @ ''.'' @ ext) CHR ''.'' = Some (length dir + 1 + length base)"
    using assms strrchr_last [of "CHR ''.''" ext "dir @ ''/'' @ base"] by simp
  ultimately show ?thesis using assms(4) by (simp add: set_mod_name_def)
qed

section \<open>Numbers in three bases (dec.c, oct.c, hex.c)\<close>

text \<open>The loops stop at the terminating zero byte; \<open>val\<close> is the value of a digit.\<close>

fun translate_loop :: "(char \<Rightarrow> nat option) \<Rightarrow> int \<Rightarrow> int \<Rightarrow> char list \<Rightarrow> int res" where
  "translate_loop val base rs [] = crash OutOfBounds"
| "translate_loop val base rs (c # p) =
     (if c = NUL then Inr rs
      else (case val c of None \<Rightarrow> Inr (- 22)
        | Some d \<Rightarrow> translate_loop val base (wrap_int (rs * base + int d)) p))"

definition dec_dig :: "char list" where "dec_dig = ''0123456789''"
definition oct_dig :: "char list" where "oct_dig = ''01234567''"
definition digh :: "char list" where "digh = ''0123456789ABCDEF''"
definition digl :: "char list" where "digl = ''0123456789abcdef''"

definition dec_translate :: "char list \<Rightarrow> int res" where
  "dec_translate buf = translate_loop (strchr dec_dig) 10 0 buf"

definition oct_translate :: "char list \<Rightarrow> int res" where
  "oct_translate buf = translate_loop (strchr oct_dig) 8 0 buf"

definition hex_val :: "char \<Rightarrow> nat option" where
  "hex_val c = (case strchr digh c of Some d \<Rightarrow> Some d | None \<Rightarrow> strchr digl c)"

definition hex_translate :: "char list \<Rightarrow> int res" where
  "hex_translate buf = translate_loop hex_val 16 0 buf"

text \<open>\<open>add_sys/dec.c\<close> has the decimal routine under another name.\<close>

definition translate :: "char list \<Rightarrow> int res" where
  "translate buf = translate_loop (strchr ''0123456789'') 10 0 buf"

lemma translate_loop_append:
  assumes "\<forall>c \<in> set ds. c \<noteq> NUL \<and> val c \<noteq> None"
  shows "translate_loop val b rs (ds @ p) =
    translate_loop val b (foldl (\<lambda>r c. wrap_int (r * b + int (the (val c)))) rs ds) p"
  using assms by (induction ds arbitrary: rs) auto

lemma translate_show:
  assumes dig: "2 \<le> length dig" "NUL \<notin> set dig" "\<And>d. d < length dig \<Longrightarrow> val (dig ! d) = Some d"
    and n: "n < 2 ^ 31"
  shows "translate_loop val (int (length dig)) 0 (show_base dig n @ NUL # r) = Inr (int n)"
proof -
  let ?f = "\<lambda>r c. wrap_int (r * int (length dig) + int (the (val c)))"
  have f: "foldl ?f 0 (show_base dig n) = int n" using n
  proof (induction n rule: less_induct)
    case (less n)
    show ?case
    proof (cases "n < length dig")
      case True
      then show ?thesis using dig less.prems by (subst show_base.simps) (simp add: wrap_int_id)
    next
      case False
      have m: "n div length dig < n" "n mod length dig < length dig"
        using dig(1) False by (auto intro!: div_less_dividend mod_less_divisor)
      have "int (n div length dig) * int (length dig) + int (n mod length dig) = int n"
        by (metis div_mult_mod_eq of_nat_add of_nat_mult)
      moreover have "foldl ?f 0 (show_base dig (n div length dig)) = int (n div length dig)"
        using less.IH [OF m(1)] m(1) less.prems by simp
      ultimately have "foldl ?f 0 (show_base dig n) = wrap_int (int n)"
        using False m(2) dig by (subst show_base.simps) simp
      then show ?thesis using less.prems by (simp add: wrap_int_id)
    qed
  qed
  have "val c \<noteq> None" if "c \<in> set dig" for c using that dig(3) by (metis in_set_conv_nth option.simps(3))
  then have "\<forall>c \<in> set (show_base dig n). c \<noteq> NUL \<and> val c \<noteq> None"
    using show_base_set [OF dig(1), of n] dig(2) by auto
  from translate_loop_append [OF this] show ?thesis using f by simp
qed

lemma dig_lengths: "length dec_dig = 10" "length oct_dig = 8" "length digh = 16" "length digl = 16"
  by (simp_all add: dec_dig_def oct_dig_def digh_def digl_def)

lemma dec_show: "n < 2 ^ 31 \<Longrightarrow> dec_translate (show_base dec_dig n @ NUL # r) = Inr (int n)"
  using translate_show [of dec_dig "strchr dec_dig" n r] strchr_nth [of dec_dig]
  by (simp add: dec_translate_def dec_dig_def)

lemma oct_show: "n < 2 ^ 31 \<Longrightarrow> oct_translate (show_base oct_dig n @ NUL # r) = Inr (int n)"
  using translate_show [of oct_dig "strchr oct_dig" n r] strchr_nth [of oct_dig]
  by (simp add: oct_translate_def oct_dig_def)

lemma hex_show: "n < 2 ^ 31 \<Longrightarrow> hex_translate (show_base digh n @ NUL # r) = Inr (int n)"
  "n < 2 ^ 31 \<Longrightarrow> hex_translate (show_base digl n @ NUL # r) = Inr (int n)"
proof -
  have h: "hex_val (digh ! d) = Some d" if "d < 16" for d
    using that strchr_nth [of digh d] by (simp add: hex_val_def digh_def)
  have "\<forall>d \<in> set [0..<16]. hex_val (digl ! d) = Some d" by code_simp
  then have l: "hex_val (digl ! d) = Some d" if "d < 16" for d using that by simp
  show "n < 2 ^ 31 \<Longrightarrow> hex_translate (show_base digh n @ NUL # r) = Inr (int n)"
    using translate_show [of digh hex_val n r] h by (simp add: hex_translate_def digh_def)
  show "n < 2 ^ 31 \<Longrightarrow> hex_translate (show_base digl n @ NUL # r) = Inr (int n)"
    using translate_show [of digl hex_val n r] l by (simp add: hex_translate_def digl_def)
qed

section \<open>Loading and unloading a slave (plugin/master.c)\<close>

text \<open>What the kernel holds: the slaves that are loaded (latest first), open files, allocated buffers; the
  module's statics, with the addresses of the two system calls it uses.\<close>

record master = sysmod +
  slaves :: "char list list"
  files :: nat
  bufs :: nat
  p_init :: addr
  p_delete :: addr
  buf_msg :: "char list"

text \<open>The file and the memory for it.\<close>

record file_env =
  opened :: bool
  flen :: int
  mem_ok :: bool
  nread :: int

text \<open>The kernel around it: files, the two calls (by the address they are called at, the slaves loaded and
  the name), the symbols while some slaves are loaded, and the code at an address.\<close>

record plug_env =
  fenv :: "char list \<Rightarrow> file_env"
  ini_call :: "addr \<Rightarrow> char list list \<Rightarrow> char list \<Rightarrow> int"
  del_call :: "addr \<Rightarrow> char list list \<Rightarrow> char list \<Rightarrow> int"
  ksyms :: "char list list \<Rightarrow> symbols"
  code :: "addr \<Rightarrow> char list \<Rightarrow> int res"

text \<open>The name without what follows the last point.\<close>

definition strip_ext :: "char list \<Rightarrow> char list" where
  "strip_ext f = (case strrchr f CHR ''.'' of None \<Rightarrow> f | Some i \<Rightarrow> take i f)"

definition load_slave :: "plug_env \<Rightarrow> char list \<Rightarrow> master \<Rightarrow> int \<times> master" where
  "load_slave e fname s =
     (let fe = fenv e fname in
      if \<not> opened fe then (-2, s)
      else (let s1 = s\<lparr>files := files s + 1\<rparr> in
        if flen fe \<le> 0 then (-22, s1)
        else if \<not> mem_ok fe then (-12, s1\<lparr>files := files s1 - 1\<rparr>)
        else (let s2 = s1\<lparr>bufs := bufs s1 + 1\<rparr> in
          if nread fe \<noteq> flen fe then (-5, s2\<lparr>bufs := bufs s2 - 1, files := files s2 - 1\<rparr>)
          else (let s3 = s2\<lparr>files := files s2 - 1\<rparr>;
                    rs = ini_call e (p_init s3) (slaves s3) fname;
                    s4 = (if rs < 0 then s3 else s3\<lparr>slaves := strip_ext fname # slaves s3\<rparr>) in
            (rs, s4\<lparr>bufs := bufs s4 - 1\<rparr>)))))"

definition unload_slave :: "plug_env \<Rightarrow> char list \<Rightarrow> master \<Rightarrow> int \<times> master" where
  "unload_slave e fname s =
     (let nm = strip_ext fname; rs = del_call e (p_delete s) (slaves s) nm in
      (rs, if rs < 0 then s else s\<lparr>slaves := remove1 nm (slaves s)\<rparr>))"

section \<open>The system call (plugin/master.c)\<close>

definition slave_name :: "char list list" where
  "slave_name = [''dec.ko'', ''oct.ko'', ''hex.ko'']"

definition select_slave :: "char list \<Rightarrow> nat option" where
  "select_slave b = (if b ! 0 = CHR ''0'' then (if b ! 1 = CHR ''x'' then Some 2 else Some 1)
     else if strchr ''123456789'' (b ! 0) \<noteq> None then Some 0 else None)"

definition sys_str_translate :: "plug_env \<Rightarrow> ucopy \<Rightarrow> char list \<Rightarrow> master \<Rightarrow> (int \<times> master) res" where
  "sys_str_translate e uc buf s0 =
     (if length buf \<ge> 80 then crash OutOfBounds
      else (let s = s0\<lparr>buf_msg := (blit (buf_msg s0) 0 (from_user uc 0 buf))[length buf := NUL]\<rparr>;
                b = buf_msg s in
        case select_slave b of None \<Rightarrow> Inr (-22, s)
        | Some i \<Rightarrow>
            (let mod_file = slave_name ! i; par1 = drop i b; (rs, s1) = load_slave e mod_file s in
             if rs < 0 then Inr (rs, s1)
             else (let s2 = s1\<lparr>faddr := find_sym (ksyms e (slaves s1)) ''str_translate'' (faddr s1)\<rparr> in
               if faddr s2 = 0 then Inr (-22, s2)
               else (case code e (faddr s2) par1 of Inl x \<Rightarrow> Inl x
                 | Inr trs \<Rightarrow>
                     if trs < 0 then Inr (trs, s2)
                     else (let (rs, s3) = unload_slave e mod_file s2 in
                       Inr (if rs < 0 then rs else trs, s3)))))))"

section \<open>Loading the master\<close>

definition NR_str_trans :: nat where
  "NR_str_trans = 223"

definition master_init :: "symbols \<Rightarrow> addr \<Rightarrow> master \<Rightarrow> (int \<times> master) res" where
  "master_init syms h s0 =
     (let s = s0\<lparr>faddr := find_sym syms ''sys_call_table'' 0\<rparr>; s = s\<lparr>taddr := faddr s\<rparr> in
      if taddr s = 0 then Inr (-22, s)
      else (let s = s\<lparr>old_sys_addr := entry (taddr s) NR_str_trans (kern s)\<rparr>;
                s = s\<lparr>faddr := find_sym syms ''sys_ni_syscall'' (faddr s)\<rparr> in
        if faddr s = 0 then Inr (-22, s)
        else if old_sys_addr s \<noteq> faddr s then Inr (-22, s)
        else (let s = s\<lparr>faddr := find_sym syms ''sys_init_module'' (faddr s)\<rparr> in
          if faddr s = 0 then Inr (-22, s)
          else (let s = s\<lparr>p_init := faddr s\<rparr>;
                    s = s\<lparr>faddr := find_sym syms ''sys_delete_module'' (faddr s)\<rparr> in
            if faddr s = 0 then Inr (-22, s)
            else (let s = s\<lparr>p_delete := faddr s\<rparr> in
              map_sum id (\<lambda>k. (0, s\<lparr>kern := k\<rparr>)) (patch (taddr s) NR_str_trans h (kern s)))))))"

definition master_exit :: "master \<Rightarrow> master res" where
  "master_exit s = map_sum id (\<lambda>k. s\<lparr>kern := k\<rparr>) (patch (taddr s) NR_str_trans (old_sys_addr s) (kern s))"

interpretation plugin: lifecycle "run_ini (\<lambda>(syms, h). master_init syms h)"
    "\<lambda>(e, uc, buf) s. case sys_str_translate e uc buf s of Inr (r, s') \<Rightarrow> s' | Inl _ \<Rightarrow> s"
    "run_ext master_exit" "\<lambda>s. mem (kern s)"
proof unfold_locales
  show "mem (kern (run_ext master_exit
      ((case x of (e, uc, buf) \<Rightarrow> \<lambda>s. case sys_str_translate e uc buf s of Inr (r, s') \<Rightarrow> s' | Inl _ \<Rightarrow> s) s)))
      = mem (kern (run_ext master_exit s))" for x s
  proof -
    have "sys_str_translate e uc buf s = Inr (r, s') \<Longrightarrow>
        kern s' = kern s \<and> taddr s' = taddr s \<and> old_sys_addr s' = old_sys_addr s" for e uc buf r s'
      by (auto simp: sys_str_translate_def load_slave_def unload_slave_def Let_def
          split: if_splits option.splits sum.splits prod.splits)
    then show ?thesis by (auto simp: master_exit_def patch_ok split: sum.splits prod.splits)
  qed
qed (auto simp: master_init_def master_exit_def patch_ok entry_def Let_def split: if_splits)

text \<open>Whatever the history of loads, failed loads, system calls and unloads, once the master is
  unloaded the table of system calls is what it was.\<close>

theorem plugin_table_restored:
  assumes "mod_run (run_ini (\<lambda>(syms, h). master_init syms h))
      (\<lambda>(e, uc, buf) s. case sys_str_translate e uc buf s of Inr (r, s') \<Rightarrow> s' | Inl _ \<Rightarrow> s)
      (run_ext master_exit) evs (False, s) = (False, s')"
  shows "mem (kern s') = mem (kern s)"
  using assms by (rule plugin.no_leak)

abbreviation master_example :: master where
  "master_example \<equiv> \<lparr>kern = kern_example, faddr = 0, taddr = 0, old_sys_addr = 0, slaves = [], files = 0, bufs = 0,
     p_init = 0, p_delete = 0, buf_msg = replicate 80 NUL\<rparr>"

theorem plugin_table_restored_witness:
  "\<exists>s'. mod_run (run_ini (\<lambda>(syms, h). master_init syms h))
      (\<lambda>(e, uc, buf) s. case sys_str_translate e uc buf s of Inr (r, s') \<Rightarrow> s' | Inl _ \<Rightarrow> s)
      (run_ext master_exit) ([Load (syms_example, 42)] @ [Unload]) (False, master_example) = (False, s')
    \<and> mem (kern s') = (\<lambda>_. 7)"
proof -
  obtain s' where "mod_run (run_ini (\<lambda>(syms, h). master_init syms h))
      (\<lambda>(e, uc, buf) s. case sys_str_translate e uc buf s of Inr (r, s') \<Rightarrow> s' | Inl _ \<Rightarrow> s)
      (run_ext master_exit) ([Load (syms_example, 42)] @ [Unload]) (False, master_example) = (False, s')"
    by (meson mod_run_unload)
  from plugin_table_restored [OF this] this show ?thesis by simp
qed

section \<open>What the call returns\<close>

text \<open>The kernel a call can succeed in: the three files can be read, the two system calls accept them
  when no slave is loaded, and while one is loaded its routine is found under its name.\<close>

definition plug_ok :: "plug_env \<Rightarrow> addr \<Rightarrow> addr \<Rightarrow> bool" where
  "plug_ok e pi pd \<longleftrightarrow> (\<forall>(f, tr) \<in> set [(''dec.ko'', dec_translate), (''oct.ko'', oct_translate), (''hex.ko'', hex_translate)].
     opened (fenv e f) \<and> 0 < flen (fenv e f) \<and> mem_ok (fenv e f) \<and> nread (fenv e f) = flen (fenv e f)
     \<and> ini_call e pi [] f = 0 \<and> del_call e pd [strip_ext f] (strip_ext f) = 0
     \<and> (case map_of (ksyms e [strip_ext f]) ''str_translate'' of None \<Rightarrow> False
         | Some a \<Rightarrow> a \<noteq> 0 \<and> code e a = tr))"

lemma buf_text:
  assumes "length inp < length b"
  shows "\<exists>r. (blit b 0 inp)[length inp := NUL] = inp @ NUL # r"
proof -
  have "drop (length inp) b = b ! length inp # drop (Suc (length inp)) b" using assms by (simp add: Cons_nth_drop_Suc)
  then show ?thesis by (simp add: blit_def list_update_append)
qed

lemma strip_names [simp]:
  "strip_ext ''dec.ko'' = ''dec''" "strip_ext ''oct.ko'' = ''oct''" "strip_ext ''hex.ko'' = ''hex''"
  by (simp_all add: strip_ext_def)

lemma load_slave_ok:
  assumes "plug_ok e (p_init s) (p_delete s)" "slaves s = []" "i < 3"
  shows "load_slave e (slave_name ! i) s = (0, s\<lparr>slaves := [strip_ext (slave_name ! i)]\<rparr>)"
proof -
  have "slave_name ! i \<in> {''dec.ko'', ''oct.ko'', ''hex.ko''}"
    using assms(3) by (auto simp: slave_name_def less_Suc_eq numeral_3_eq_3)
  then show ?thesis using assms(1,2) by (auto simp: plug_ok_def load_slave_def Let_def)
qed

text \<open>A call whose text selects slave \<open>i\<close>, and what comes of it.\<close>

lemma sys_call_selected:
  assumes ok: "plug_ok e (p_init s) (p_delete s)" "slaves s = []" "i < 3"
    and sz: "length inp < 80" "length (buf_msg s) = 80"
    and sel: "\<And>r. select_slave (inp @ NUL # r) = Some i"
    and tr: "\<And>r. ([dec_translate, oct_translate, hex_translate] ! i) (drop i (inp @ NUL # r)) = Inr v"
  shows "\<exists>s'. sys_str_translate e copy_ok inp s = Inr (v, s') \<and> files s' = files s \<and> bufs s' = bufs s
    \<and> p_init s' = p_init s \<and> p_delete s' = p_delete s \<and> length (buf_msg s') = 80
    \<and> slaves s' = (if v < 0 then [strip_ext (slave_name ! i)] else [])"
proof -
  obtain r where r: "(blit (buf_msg s) 0 inp)[length inp := NUL] = inp @ NUL # r"
    using buf_text [of inp "buf_msg s"] sz by auto
  have len: "length (inp @ NUL # r) = 80" using arg_cong [OF r, of length] sz by simp
  let ?s = "s\<lparr>buf_msg := inp @ NUL # r\<rparr>"
  have ld: "load_slave e (slave_name ! i) ?s = (0, ?s\<lparr>slaves := [strip_ext (slave_name ! i)]\<rparr>)"
    using ok by (intro load_slave_ok) simp_all
  have nm: "(slave_name ! i, [dec_translate, oct_translate, hex_translate] ! i) \<in>
      {(''dec.ko'', dec_translate), (''oct.ko'', oct_translate), (''hex.ko'', hex_translate)}"
    using ok(3) by (auto simp: slave_name_def less_Suc_eq numeral_3_eq_3)
  then obtain a where a: "map_of (ksyms e [strip_ext (slave_name ! i)]) ''str_translate'' = Some a" "a \<noteq> 0"
      "code e a = [dec_translate, oct_translate, hex_translate] ! i"
      "del_call e (p_delete s) [strip_ext (slave_name ! i)] (strip_ext (slave_name ! i)) = 0"
    using ok(1) by (auto simp: plug_ok_def split: option.splits)
  show ?thesis
    using r len ld a sel [of r] tr [of r] sz
    by (simp add: sys_str_translate_def Let_def find_sym_map_of unload_slave_def)
qed

lemma one_to_nine: "0 < d \<Longrightarrow> d < 10 \<Longrightarrow> strchr ''123456789'' (dec_dig ! d) \<noteq> None \<and> dec_dig ! d \<noteq> CHR ''0''"
proof -
  have "\<forall>d \<in> set [1..<10]. strchr ''123456789'' (dec_dig ! d) \<noteq> None \<and> dec_dig ! d \<noteq> CHR ''0''" by code_simp
  then show "0 < d \<Longrightarrow> d < 10 \<Longrightarrow> ?thesis" by simp
qed

lemma number_translated:
  assumes "plug_ok e (p_init s) (p_delete s)" "slaves s = []" "length (buf_msg s) = 80" "n < 2 ^ 31"
    and inp: "0 < n \<and> inp = show_base dec_dig n \<or> inp = ''0'' @ show_base oct_dig n
      \<or> inp = ''0x'' @ show_base digh n \<or> inp = ''0x'' @ show_base digl n"
    and "length inp < 80"
  shows "\<exists>s'. sys_str_translate e copy_ok inp s = Inr (int n, s') \<and> slaves s' = [] \<and> files s' = files s
    \<and> bufs s' = bufs s \<and> p_init s' = p_init s \<and> p_delete s' = p_delete s \<and> length (buf_msg s') = 80"
proof -
  have "\<exists>i < 3. (\<forall>r. select_slave (inp @ NUL # r) = Some i)
      \<and> (\<forall>r. ([dec_translate, oct_translate, hex_translate] ! i) (drop i (inp @ NUL # r)) = Inr (int n))"
    using inp
  proof (elim disjE)
    assume i: "0 < n \<and> inp = show_base dec_dig n"
    obtain d r where "show_base dec_dig n = dec_dig ! d # r" "d < 10" "0 < d"
      using show_base_hd [of dec_dig n] i by (auto simp: dig_lengths)
    then show ?thesis using one_to_nine [of d] i dec_show [OF assms(4)]
      by (intro exI [of _ 0]) (auto simp: select_slave_def)
  next
    assume i: "inp = ''0'' @ show_base oct_dig n"
    obtain d r where dr: "show_base oct_dig n = oct_dig ! d # r" "d < 8"
      using show_base_hd [of oct_dig n] by (auto simp: dig_lengths)
    have "oct_dig ! d \<in> set oct_dig" using dr(2) by (simp add: dig_lengths)
    then have "oct_dig ! d \<noteq> CHR ''x''" by (auto simp: oct_dig_def)
    then show ?thesis using i dr oct_show [OF assms(4)]
      by (intro exI [of _ 1]) (auto simp: select_slave_def)
  qed (use hex_show [OF assms(4)] in \<open>auto simp: select_slave_def intro!: exI [of _ 2]\<close>)
  then obtain i where "i < 3" "\<And>r. select_slave (inp @ NUL # r) = Some i"
    "\<And>r. ([dec_translate, oct_translate, hex_translate] ! i) (drop i (inp @ NUL # r)) = Inr (int n)" by blast
  from sys_call_selected [OF assms(1,2) this(1) assms(6,3) this(2,3)] show ?thesis by fastforce
qed

text \<open>C12: every number below 2^31, written in decimal without a leading zero, in octal after 0 or in
  hexadecimal (either case) after 0x, is the result of the system call, and no slave, file or buffer is
  left behind, so the call can be repeated.\<close>

theorem plugin_translates:
  assumes "plug_ok e (p_init s) (p_delete s)" "slaves s = []" "length (buf_msg s) = 80" "n < 2 ^ 31"
    and inp: "0 < n \<and> inp = show_base dec_dig n \<or> inp = ''0'' @ show_base oct_dig n
      \<or> inp = ''0x'' @ show_base digh n \<or> inp = ''0x'' @ show_base digl n"
    and "length inp < 80"
  shows "\<exists>s'. sys_str_translate e copy_ok inp s = Inr (int n, s') \<and> slaves s' = [] \<and> files s' = files s
    \<and> bufs s' = bufs s \<and> p_init s' = p_init s \<and> p_delete s' = p_delete s \<and> length (buf_msg s') = 80"
  using assms by (rule number_translated)

abbreviation plug_example :: plug_env where
  "plug_example \<equiv> \<lparr>fenv = (\<lambda>f. \<lparr>opened = True, flen = 5000, mem_ok = True, nread = 5000\<rparr>),
     ini_call = (\<lambda>p ms f. if ms = [] then 0 else -17), del_call = (\<lambda>p ms f. if f \<in> set ms then 0 else -2),
     ksyms = (\<lambda>ms. (''init_mm'', 5) # concat (map (\<lambda>m. [(''str_translate'',
        if m = ''dec'' then 100 else if m = ''oct'' then 200 else 300)]) ms)),
     code = (\<lambda>a. if a = 100 then dec_translate else if a = 200 then oct_translate else hex_translate)\<rparr>"

lemma plug_example_ok: "plug_ok plug_example pi pd"
  by (auto simp: plug_ok_def)

theorem plugin_translates_witness:
  "\<exists>s'. sys_str_translate plug_example copy_ok ''0x1f'' master_example = Inr (31, s') \<and> slaves s' = []"
proof -
  have "show_base digl 31 = ''1f''" by (simp add: show_base.simps digl_def)
  then have "\<exists>s'. sys_str_translate plug_example copy_ok ''0x1f'' master_example = Inr (int 31, s') \<and> slaves s' = []
      \<and> files s' = files master_example \<and> bufs s' = bufs master_example \<and> p_init s' = p_init master_example
      \<and> p_delete s' = p_delete master_example \<and> length (buf_msg s') = 80"
    by (intro plugin_translates [OF plug_example_ok]) simp_all
  then show ?thesis by auto
qed

text \<open>A text that is not a number is refused, but the slave stays loaded; as long as the kernel refuses a
  second module with the same symbol, the call then fails for every text.\<close>

lemma plugin_bad_digit:
  assumes "plug_ok e (p_init s) (p_delete s)" "slaves s = []" "length (buf_msg s) = 80"
    and "d \<in> set [1..<10]" "c \<noteq> NUL" "c \<notin> set dec_dig"
  shows "\<exists>s'. sys_str_translate e copy_ok [dec_dig ! d, c] s = Inr (-22, s') \<and> slaves s' = [''dec'']"
proof -
  have d: "0 < d" "d < 10" using assms(4) by auto
  have "strchr dec_dig (dec_dig ! d) = Some d" using d by (intro strchr_nth) (simp_all add: dec_dig_def)
  moreover have "dec_dig ! d \<noteq> NUL" using d nth_mem [of d dec_dig] by (auto simp: dec_dig_def)
  ultimately have "dec_translate (dec_dig ! d # c # NUL # r) = Inr (-22)" for r
    using assms(5,6) strchr_None [of c dec_dig] by (simp add: dec_translate_def)
  then show ?thesis
    using sys_call_selected [OF assms(1,2), of 0 "[dec_dig ! d, c]" "-22"] one_to_nine [OF d] assms(3)
    by (auto simp: select_slave_def slave_name_def)
qed

lemma plugin_stuck:
  assumes "\<And>f. f \<in> set slave_name \<Longrightarrow> ini_call e (p_init s) (slaves s) f < 0" "length (buf_msg s) = 80" "length inp < 80"
  shows "\<exists>r s'. sys_str_translate e uc inp s = Inr (r, s') \<and> r < 0 \<and> slaves s' = slaves s"
proof -
  let ?s = "s\<lparr>buf_msg := (blit (buf_msg s) 0 (from_user uc 0 inp))[length inp := NUL]\<rparr>"
  have "fst (load_slave e (slave_name ! i) ?s) < 0 \<and> slaves (snd (load_slave e (slave_name ! i) ?s)) = slaves s" if "i < 3" for i
  proof -
    have "slave_name ! i \<in> set slave_name" using that by (intro nth_mem) (simp add: slave_name_def)
    then show ?thesis using assms(1) [of "slave_name ! i"] by (auto simp: load_slave_def Let_def)
  qed
  moreover have "select_slave b = Some i \<Longrightarrow> i < 3" for b i by (auto simp: select_slave_def split: if_splits)
  ultimately show ?thesis using assms(3)
    by (cases "select_slave (buf_msg ?s)") (force simp: sys_str_translate_def Let_def split: prod.splits)+
qed

text \<open>The file stays open when its length cannot be found.\<close>

lemma load_slave_leaks_file:
  "opened (fenv e f) \<Longrightarrow> flen (fenv e f) \<le> 0 \<Longrightarrow> load_slave e f s = (-22, s\<lparr>files := files s + 1\<rparr>)"
  by (simp add: load_slave_def Let_def)

lemma load_slave_balanced:
  "0 < flen (fenv e f) \<Longrightarrow> files (snd (load_slave e f s)) = files s \<and> bufs (snd (load_slave e f s)) = bufs s"
  by (auto simp: load_slave_def Let_def)

text \<open>A text of no characters is taken for a decimal number and gives 0.\<close>

lemma plugin_empty:
  assumes "plug_ok e (p_init s) (p_delete s)" "slaves s = []" "length (buf_msg s) = 80"
  shows "\<exists>s'. sys_str_translate e copy_ok [] s = Inr (0, s') \<and> slaves s' = []"
  using sys_call_selected [OF assms(1,2), of 0 "[]" 0] assms(3)
  by (auto simp: select_slave_def dec_translate_def)

section \<open>A module that loads another (master/master.c)\<close>

text \<open>The slave's file name is a parameter, kept in an array of 80 bytes; the state is that of the master
  above, of which the table is not used.\<close>

definition base_name :: "char list \<Rightarrow> char list" where
  "base_name file = (case strrchr file CHR ''/'' of None \<Rightarrow> file | Some i \<Rightarrow> drop (i + 1) file)"

definition mm_init :: "plug_env \<Rightarrow> char list \<Rightarrow> master \<Rightarrow> (int \<times> char list \<times> master) res" where
  "mm_init e file s0 =
     (let s = s0\<lparr>faddr := find_sym (ksyms e (slaves s0)) ''sys_init_module'' 0\<rparr> in
      if faddr s = 0 then Inr (-22, [], s)
      else if length file \<ge> 80 then crash OutOfBounds
      else (let fe = fenv e file in
        if \<not> opened fe then Inr (-2, file, s)
        else (let s1 = s\<lparr>files := files s + 1\<rparr>;
                  close = (\<lambda>(r, s). Inr (r, file, s\<lparr>files := files s - 1\<rparr>)) in
          if flen fe \<le> 0 then close (-22, s1)
          else if \<not> mem_ok fe then close (-12, s1)
          else (let s2 = s1\<lparr>bufs := bufs s1 + 1\<rparr>;
                    free = (\<lambda>(r, s). close (r, s\<lparr>bufs := bufs s - 1\<rparr>)) in
            if nread fe \<noteq> flen fe then free (-5, s2)
            else (let rs = ini_call e (faddr s2) (slaves s2) file in
              if rs < 0 then free (rs, s2)
              else free (rs, s2\<lparr>slaves := strip_ext (base_name file) # slaves s2\<rparr>))))))"

definition mm_exit :: "plug_env \<Rightarrow> char list \<Rightarrow> master \<Rightarrow> master res" where
  "mm_exit e sname s =
     (let slave_mod = base_name sname in
      case strrchr slave_mod CHR ''.'' of None \<Rightarrow> crash NullDeref
      | Some i \<Rightarrow>
        (let nm = take i slave_mod; s1 = s\<lparr>faddr := find_sym (ksyms e (slaves s)) ''sys_delete_module'' (faddr s)\<rparr> in
         if faddr s1 = 0 then Inr s1
         else (let rs = del_call e (faddr s1) (slaves s1) nm in
           Inr (if rs < 0 then s1 else s1\<lparr>slaves := remove1 nm (slaves s1)\<rparr>))))"

text \<open>The master that loads a slave when it is loaded gives back the file and the buffer on every path;
  if the load is refused no slave is added, and after a load that succeeds unloading removes the slave that
  was added, provided that its file name has a point and that the kernel lets it go.\<close>

theorem master_cycle:
  assumes "mm_init e file s = Inr (r, nm, s')"
  shows "files s' = files s \<and> bufs s' = bufs s \<and> (r < 0 \<longrightarrow> slaves s' = slaves s)
    \<and> (0 \<le> r \<longrightarrow> (\<exists>m. slaves s' = m # slaves s
        \<and> (CHR ''.'' \<notin> set file \<longrightarrow> mm_exit e nm s' = crash NullDeref)
        \<and> (CHR ''.'' \<in> set (base_name file)
            \<and> (\<forall>p. \<not> del_call e p (slaves s') m < 0) \<longrightarrow> (\<exists>s2. mm_exit e nm s' = Inr s2 \<and> (faddr s2 \<noteq> 0 \<longrightarrow> slaves s2 = slaves s)))))"
proof -
  have b: "files s' = files s \<and> bufs s' = bufs s \<and> (r < 0 \<longrightarrow> slaves s' = slaves s)
      \<and> (0 \<le> r \<longrightarrow> nm = file \<and> slaves s' = strip_ext (base_name file) # slaves s)"
    using assms by (auto simp: mm_init_def Let_def split: if_splits)
  have "CHR ''.'' \<notin> set file \<Longrightarrow> strrchr (base_name file) CHR ''.'' = None"
    by (auto simp: strrchr_None base_name_def dest: in_set_dropD split: option.splits)
  moreover have "CHR ''.'' \<in> set (base_name file) \<Longrightarrow> \<exists>i. strrchr (base_name file) CHR ''.'' = Some i \<and> strip_ext (base_name file) = take i (base_name file)"
    using strrchr_None [of "base_name file" "CHR ''.''"] by (auto simp: strip_ext_def)
  ultimately show ?thesis using b
    by (cases "strrchr (base_name file) CHR ''.''") (auto simp: mm_exit_def Let_def)
qed

theorem master_cycle_witness:
  "\<exists>s'. mm_init (plug_example\<lparr>ksyms := (\<lambda>_. syms_example @ [(''sys_init_module'', 11), (''sys_delete_module'', 12)])\<rparr>)
        ''./slave.ko'' master_example = Inr (0, ''./slave.ko'', s')
    \<and> slaves s' = [''slave''] \<and> files s' = 0"
proof -
  let ?e = "plug_example\<lparr>ksyms := (\<lambda>_. syms_example @ [(''sys_init_module'', 11), (''sys_delete_module'', 12)])\<rparr>"
  have "\<exists>s'. mm_init ?e ''./slave.ko'' master_example = Inr (0, ''./slave.ko'', s') \<and> slaves s' = [''slave'']"
    by (simp add: mm_init_def find_sym_map_of strip_ext_def base_name_def)
  then obtain s' where "mm_init ?e ''./slave.ko'' master_example = Inr (0, ''./slave.ko'', s')" "slaves s' = [''slave'']"
    by blast
  then show ?thesis using master_cycle [of ?e "''./slave.ko''" master_example 0 "''./slave.ko''" s'] by auto
qed

end
