(* ===== verification/Signal_Dev.thy ===== *)
theory Signal_Dev
  imports Interfaces Decimal
begin

text \<open>
  The device of \<open>Tasks/signal\<close> that sends signals (\<open>ioctl_signal.c\<close>, \<open>ioctl.h\<close>), the generic entry
  points it is built on (\<open>miscdev.h\<close>: a device whose content is a block of 64 KiB), and the program that
  drives it (\<open>ioctl.c\<close>). Conversions between \<open>int\<close>, \<open>size_t\<close> and \<open>loff_t\<close> are written out; a
  \<open>size_t\<close> has 64 bits.
\<close>

section \<open>The generic device (miscdev.h)\<close>

definition ramdisk_size :: int where
  "ramdisk_size = 16 * 4096"

text \<open>A value converted to \<open>size_t\<close>.\<close>

definition to_size :: "int \<Rightarrow> int" where
  "to_size x = x mod 2 ^ 64"

record misc_state =
  ramdisk :: "char list"
  f_pos :: int
  counter :: int

definition mycdrv_generic_open :: "misc_state \<Rightarrow> int \<times> misc_state" where
  "mycdrv_generic_open s = (0, s\<lparr>counter := counter s + 1\<rparr>)"

definition mycdrv_generic_release :: "misc_state \<Rightarrow> int \<times> misc_state" where
  "mycdrv_generic_release s = (0, s)"

text \<open>How much is transferred: the room is an \<open>int\<close>, which the comparison converts to unsigned.\<close>

definition bytes_to_do :: "int \<Rightarrow> int \<Rightarrow> int" where
  "bytes_to_do pos lbuf = (let maxbytes = wrap_int (ramdisk_size - pos) in
     if to_size maxbytes > lbuf then wrap_int lbuf else maxbytes)"

text \<open>The result: the bytes delivered (read) and the number returned. An access outside the block is a
  fault.\<close>

definition mycdrv_generic_read :: "ucopy \<Rightarrow> int \<Rightarrow> misc_state \<Rightarrow> ((char list \<times> int) \<times> misc_state) res" where
  "mycdrv_generic_read uc lbuf s =
     (let n = bytes_to_do (f_pos s) lbuf in
      if n < 0 \<or> f_pos s < 0 \<or> f_pos s + n > int (length (ramdisk s)) then crash OutOfBounds
      else (let src = chunk (nat (f_pos s)) (nat n) (ramdisk s); nbytes = n - int (uc 0 (nat n)) in
        Inr ((to_user uc 0 src, nbytes), s\<lparr>f_pos := f_pos s + nbytes\<rparr>)))"

definition mycdrv_generic_write :: "ucopy \<Rightarrow> char list \<Rightarrow> misc_state \<Rightarrow> (int \<times> misc_state) res" where
  "mycdrv_generic_write uc buf s =
     (let n = bytes_to_do (f_pos s) (int (length buf)) in
      if n < 0 \<or> f_pos s < 0 \<or> f_pos s + n > int (length (ramdisk s)) then crash OutOfBounds
      else (let src = from_user uc 0 (take (nat n) buf); nbytes = n - int (uc 0 (nat n)) in
        Inr (nbytes, s\<lparr>ramdisk := blit (ramdisk s) (nat (f_pos s)) src, f_pos := f_pos s + nbytes\<rparr>)))"

datatype whence = SEEK_SET | SEEK_CUR | SEEK_END | OtherWhence

text \<open>The comparison with the size is one of unsigned numbers, so that a negative target is not less.\<close>

definition mycdrv_generic_lseek :: "int \<Rightarrow> whence \<Rightarrow> misc_state \<Rightarrow> (int \<times> misc_state) res" where
  "mycdrv_generic_lseek offset orig s =
     (case (case orig of SEEK_SET \<Rightarrow> Some (wrap_long offset) | SEEK_CUR \<Rightarrow> Some (wrap_long (f_pos s + offset))
        | SEEK_END \<Rightarrow> Some (wrap_long (ramdisk_size + offset)) | OtherWhence \<Rightarrow> None) of
        None \<Rightarrow> fail EINVAL
      | Some testpos \<Rightarrow>
          (let testpos = (if to_size testpos < ramdisk_size then testpos else ramdisk_size);
               testpos = (if testpos \<ge> 0 then testpos else 0) in
           Inr (testpos, s\<lparr>f_pos := testpos\<rparr>)))"

text \<open>What the module holds: the registration and the block.\<close>

record misc_mod =
  registered :: bool
  blocks :: nat

definition my_generic_init :: "int \<Rightarrow> misc_mod \<Rightarrow> int \<times> misc_mod" where
  "my_generic_init reg s =
     (let s1 = s\<lparr>blocks := blocks s + 1\<rparr> in
      if reg \<noteq> 0 then (-16, s1) else (0, s1\<lparr>registered := True\<rparr>))"

definition my_generic_exit :: "misc_mod \<Rightarrow> misc_mod" where
  "my_generic_exit s = s\<lparr>registered := False, blocks := blocks s - 1\<rparr>"

lemma generic_load_unload:
  "\<not> registered s \<Longrightarrow> my_generic_init 0 s = (0, s') \<Longrightarrow> my_generic_exit s' = s"
  "reg \<noteq> 0 \<Longrightarrow> my_generic_init reg s = (-16, s\<lparr>blocks := blocks s + 1\<rparr>)"
  by (auto simp: my_generic_init_def my_generic_exit_def)

subsection \<open>Positions stay inside the block\<close>

definition pos_ok :: "misc_state \<Rightarrow> bool" where
  "pos_ok s \<longleftrightarrow> 0 \<le> f_pos s \<and> f_pos s \<le> ramdisk_size \<and> int (length (ramdisk s)) = ramdisk_size"

lemma bytes_to_do_ok:
  "0 \<le> pos \<Longrightarrow> pos \<le> ramdisk_size \<Longrightarrow> 0 \<le> lbuf \<Longrightarrow> bytes_to_do pos lbuf = min lbuf (ramdisk_size - pos)"
  by (auto simp: bytes_to_do_def ramdisk_size_def wrap_int_id to_size_def Let_def)

lemma to_size_bound: "0 \<le> wrap_long x \<Longrightarrow> to_size (wrap_long x) < n \<Longrightarrow> wrap_long x \<le> n"
proof -
  assume a: "0 \<le> wrap_long x" "to_size (wrap_long x) < n"
  have "wrap_long x < 2 ^ 63" using in_long_wrap [of x] by (simp add: in_long_def)
  then have "to_size (wrap_long x) = wrap_long x" using a(1) by (simp add: to_size_def)
  then show "wrap_long x \<le> n" using a(2) by simp
qed

lemma seek_result:
  assumes "mycdrv_generic_lseek offset orig s = Inr (p, s')" "pos_ok s"
  shows "pos_ok s' \<and> f_pos s' = p \<and> ramdisk s' = ramdisk s"
  using assms by (auto simp: mycdrv_generic_lseek_def pos_ok_def Let_def ramdisk_size_def
      split: option.splits whence.splits if_splits dest: to_size_bound)

text \<open>A target before the start of the block is the end of it, not the start.\<close>

lemma seek_negative:
  "- (2 ^ 63) \<le> x \<Longrightarrow> x < 0 \<Longrightarrow> mycdrv_generic_lseek x SEEK_SET s = Inr (ramdisk_size, s\<lparr>f_pos := ramdisk_size\<rparr>)"
proof -
  assume x: "- (2 ^ 63) \<le> x" "x < 0"
  have "x mod 2 ^ 64 = (x + 2 ^ 64) mod 2 ^ 64" by simp
  also have "\<dots> = x + 2 ^ 64" using x by (intro mod_pos_pos_trivial) simp_all
  finally have "\<not> to_size x < ramdisk_size" using x by (simp add: to_size_def ramdisk_size_def)
  then show ?thesis using x wrap_long_id [of x] by (simp add: mycdrv_generic_lseek_def Let_def ramdisk_size_def)
qed

datatype file_op = Read ucopy nat | Write ucopy "char list" | Seek int whence

fun file_step :: "file_op \<Rightarrow> misc_state \<Rightarrow> misc_state res" where
  "file_step (Read uc n) s = map_sum id snd (mycdrv_generic_read uc (int n) s)"
| "file_step (Write uc buf) s = map_sum id snd (mycdrv_generic_write uc buf s)"
| "file_step (Seek off orig) s = map_sum id snd (mycdrv_generic_lseek off orig s)"

text \<open>A copy leaves at most what it was asked to copy; a request for \<open>SEEK_DATA\<close> and the like is refused and
  changes nothing.\<close>

fun op_ok :: "file_op \<Rightarrow> bool" where
  "op_ok (Read uc n) \<longleftrightarrow> (\<forall>k. uc 0 k \<le> k)"
| "op_ok (Write uc buf) \<longleftrightarrow> (\<forall>k. uc 0 k \<le> k)"
| "op_ok (Seek off orig) \<longleftrightarrow> True"

fun file_run :: "file_op list \<Rightarrow> misc_state \<Rightarrow> misc_state res" where
  "file_run [] s = Inr s"
| "file_run (x # xs) s = (case file_step x s of Inr s' \<Rightarrow> file_run xs s' | Inl (Errno e) \<Rightarrow> file_run xs s
     | Inl (Fault f) \<Rightarrow> crash f)"

lemma file_step_ok:
  assumes "pos_ok s" "op_ok x"
  shows "(\<exists>s'. file_step x s = Inr s' \<and> pos_ok s') \<or> file_step x s = fail EINVAL"
proof (cases x)
  case (Read uc n)
  have b: "bytes_to_do (f_pos s) (int n) = min (int n) (ramdisk_size - f_pos s)"
    using assms(1) by (intro bytes_to_do_ok) (auto simp: pos_ok_def)
  have "int (uc 0 (nat m)) \<le> m" if "0 \<le> m" for m
    using assms(2) Read that by (metis nat_0_le of_nat_le_iff op_ok.simps(1))
  from this [of "min (int n) (ramdisk_size - f_pos s)"]
  have "int (uc 0 (nat (min (int n) (ramdisk_size - f_pos s)))) \<le> min (int n) (ramdisk_size - f_pos s)"
    using assms(1) by (simp add: pos_ok_def)
  then show ?thesis using assms(1) Read b by (auto simp: mycdrv_generic_read_def pos_ok_def Let_def)
next
  case (Write uc buf)
  have b: "bytes_to_do (f_pos s) (int (length buf)) = min (int (length buf)) (ramdisk_size - f_pos s)"
    using assms(1) by (intro bytes_to_do_ok) (auto simp: pos_ok_def)
  have "int (uc 0 (nat m)) \<le> m" if "0 \<le> m" for m
    using assms(2) Write that by (metis nat_0_le of_nat_le_iff op_ok.simps(2))
  from this [of "min (int (length buf)) (ramdisk_size - f_pos s)"]
  have "int (uc 0 (nat (min (int (length buf)) (ramdisk_size - f_pos s)))) \<le> min (int (length buf)) (ramdisk_size - f_pos s)"
    using assms(1) by (simp add: pos_ok_def)
  moreover have "length (blit (ramdisk s) (nat (f_pos s)) (from_user uc 0
      (take (nat (min (int (length buf)) (ramdisk_size - f_pos s))) buf))) = length (ramdisk s)"
    using assms(1) by (intro length_blit) (auto simp: pos_ok_def min_def)
  ultimately show ?thesis using assms(1) Write b by (auto simp: mycdrv_generic_write_def pos_ok_def Let_def)
next
  case (Seek off orig)
  show ?thesis
  proof (cases "mycdrv_generic_lseek off orig s")
    case (Inl e)
    then show ?thesis using Seek by (auto simp: mycdrv_generic_lseek_def Let_def split: option.splits whence.splits)
  next
    case (Inr p)
    then show ?thesis using Seek seek_result [of off orig s] assms(1) by (cases p) auto
  qed
qed

text \<open>From any position inside the block, no sequence of reads, writes and seeks reads or writes outside
  it, and the position stays inside.\<close>

theorem misc_dev_safe:
  assumes "pos_ok s" "\<forall>x \<in> set ops. op_ok x"
  shows "\<exists>s'. file_run ops s = Inr s' \<and> pos_ok s'"
  using assms
proof (induction ops arbitrary: s)
  case (Cons x xs)
  then show ?case using file_step_ok [of s x] by auto
qed simp

theorem misc_dev_safe_witness:
  "\<exists>s'. file_run [Write copy_ok ''abc'', Seek (-5) SEEK_SET, Read copy_ok 10]
      \<lparr>ramdisk = replicate 65536 NUL, f_pos = 65535, counter = 1\<rparr> = Inr s' \<and> pos_ok s'"
  by (rule misc_dev_safe) (simp_all add: pos_ok_def ramdisk_size_def)

text \<open>A position beyond the block, which the entry points never set, would make the room negative and the
  transfer as long as the caller asks.\<close>

lemma beyond_end: "0 < n \<Longrightarrow> n < 1000 \<Longrightarrow> length (ramdisk s) = 65536 \<Longrightarrow> f_pos s = 65537 \<Longrightarrow>
    mycdrv_generic_read uc n s = crash OutOfBounds"
proof -
  have "wrap_int (- 1) = - 1" by (rule wrap_int_id) simp
  then show "0 < n \<Longrightarrow> n < 1000 \<Longrightarrow> length (ramdisk s) = 65536 \<Longrightarrow> f_pos s = 65537 \<Longrightarrow>
    mycdrv_generic_read uc n s = crash OutOfBounds"
    by (simp add: mycdrv_generic_read_def bytes_to_do_def ramdisk_size_def to_size_def Let_def wrap_int_id)
qed

text \<open>What was written at a position is what a read from there delivers, and the rest of the block is
  untouched.\<close>

theorem misc_write_read:
  assumes "pos_ok s" "f_pos s + int (length buf) \<le> ramdisk_size"
  shows "\<exists>s1 s2. mycdrv_generic_write copy_ok buf s = Inr (int (length buf), s1)
    \<and> mycdrv_generic_lseek (f_pos s) SEEK_SET s1 = Inr (f_pos s, s2)
    \<and> (\<exists>s3. mycdrv_generic_read copy_ok (int (length buf)) s2 = Inr ((buf, int (length buf)), s3) \<and> f_pos s3 = f_pos s1)
    \<and> take (nat (f_pos s)) (ramdisk s2) = take (nat (f_pos s)) (ramdisk s)
    \<and> drop (nat (f_pos s) + length buf) (ramdisk s2) = drop (nat (f_pos s) + length buf) (ramdisk s)"
proof -
  have p: "0 \<le> f_pos s" "f_pos s \<le> ramdisk_size" "int (length (ramdisk s)) = ramdisk_size"
    using assms(1) by (auto simp: pos_ok_def)
  let ?s1 = "s\<lparr>ramdisk := blit (ramdisk s) (nat (f_pos s)) buf, f_pos := f_pos s + int (length buf)\<rparr>"
  have fits: "nat (f_pos s) + length buf \<le> length (ramdisk s)" using p assms(2) by simp
  have w: "mycdrv_generic_write copy_ok buf s = Inr (int (length buf), ?s1)"
    using p assms(2) by (simp add: mycdrv_generic_write_def bytes_to_do_ok Let_def)
  have l: "mycdrv_generic_lseek (f_pos s) SEEK_SET ?s1 = Inr (f_pos s, ?s1\<lparr>f_pos := f_pos s\<rparr>)"
    using p by (auto simp: mycdrv_generic_lseek_def ramdisk_size_def to_size_def wrap_long_id Let_def)
  have r: "mycdrv_generic_read copy_ok (int (length buf)) (?s1\<lparr>f_pos := f_pos s\<rparr>) =
      Inr ((buf, int (length buf)), ?s1\<lparr>f_pos := f_pos s + int (length buf)\<rparr>)"
    using p assms(2) fits by (simp add: mycdrv_generic_read_def bytes_to_do_ok chunk_blit_same Let_def)
  show ?thesis using w l r fits by (auto simp: blit_def)
qed

theorem misc_write_read_witness:
  "\<exists>s1 s2 s3. mycdrv_generic_write copy_ok ''abc'' \<lparr>ramdisk = replicate 65536 NUL, f_pos = 100, counter = 1\<rparr> = Inr (3, s1)
    \<and> mycdrv_generic_lseek 100 SEEK_SET s1 = Inr (100, s2)
    \<and> mycdrv_generic_read copy_ok 3 s2 = Inr ((''abc'', 3), s3)"
  using misc_write_read [of "\<lparr>ramdisk = replicate 65536 NUL, f_pos = 100, counter = 1\<rparr>" "''abc''"]
  by (auto simp: pos_ok_def ramdisk_size_def)

section \<open>Sending signals (ioctl_signal.c)\<close>

datatype ioc = MYIOC_SETPID | MYIOC_SETSIG | MYIOC_SENDSIG | OtherCmd

definition SIGDEFAULT :: int where
  "SIGDEFAULT = 9"

record sig_state =
  sig_pid :: int
  sig_tsk :: "int option"
  sig_tosend :: int
  sent :: "(int \<times> int) list"

definition sig_fresh :: sig_state where
  "sig_fresh = \<lparr>sig_pid = 0, sig_tsk = None, sig_tosend = SIGDEFAULT, sent = []\<rparr>"

text \<open>A task is named by its process number; \<open>live\<close> is the kernel's table of processes, \<open>current\<close> the
  caller. \<open>sent\<close> are the signals handed to \<open>send_sig\<close>, whose result is only logged.\<close>

definition mycdrv_ioctl :: "(int \<Rightarrow> bool) \<Rightarrow> int \<Rightarrow> ioc \<Rightarrow> int \<Rightarrow> sig_state \<Rightarrow> int \<times> sig_state" where
  "mycdrv_ioctl live current cmd arg s = (case cmd of
     MYIOC_SETPID \<Rightarrow>
       (let s1 = s\<lparr>sig_pid := wrap_int arg\<rparr> in
        (0, s1\<lparr>sig_tsk := (if live (sig_pid s1) then Some (sig_pid s1) else None)\<rparr>))
   | MYIOC_SETSIG \<Rightarrow> (0, s\<lparr>sig_tosend := wrap_int arg\<rparr>)
   | MYIOC_SENDSIG \<Rightarrow>
       (let s1 = (if sig_tsk s = None then s\<lparr>sig_tsk := Some current, sig_pid := current\<rparr> else s) in
        (0, s1\<lparr>sent := sent s1 @ [(the (sig_tsk s1), sig_tosend s1)]\<rparr>))
   | OtherCmd \<Rightarrow> (-22, s))"

text \<open>The program: \<open>argv\<close> holds its arguments, the node's name is left out.\<close>

definition sig_client :: "(int \<Rightarrow> bool) \<Rightarrow> int \<Rightarrow> char list list \<Rightarrow> sig_state \<Rightarrow> int list \<times> sig_state" where
  "sig_client live getpid argv s0 =
     (let atoi = (\<lambda>a. wrap_int (atol a));
          sig = (if length argv > 1 then atoi (argv ! 1) else SIGDEFAULT);
          pid = (if length argv > 2 then atoi (argv ! 2) else getpid);
          (r1, s1) = mycdrv_ioctl live getpid MYIOC_SETPID pid s0;
          (r2, s2) = mycdrv_ioctl live getpid MYIOC_SETSIG sig s1;
          (r3, s3) = mycdrv_ioctl live getpid MYIOC_SENDSIG 0 s2 in ([r1, r2, r3], s3))"

text \<open>Whatever was set before, the program with a signal and a process number sends that signal to that
  process; when there is no such process it sends it to itself, and all three calls report success.\<close>

theorem sig_client_sends:
  assumes "\<bar>sig\<bar> < 2 ^ 31" "\<bar>pid\<bar> < 2 ^ 31"
  shows "\<exists>s'. sig_client live self [prog, show_int sig, show_int pid] s = ([0, 0, 0], s')
    \<and> sent s' = sent s @ [(if live pid then pid else self, sig)]"
proof -
  have "wrap_int (atol (show_int i)) = i" if "\<bar>i\<bar> < 2 ^ 31" for i
    using that by (simp add: atol_show_int wrap_long_abs wrap_int_id)
  then show ?thesis using assms by (simp add: sig_client_def mycdrv_ioctl_def wrap_int_id Let_def)
qed

theorem sig_client_sends_witness:
  "\<exists>s'. sig_client (\<lambda>p. p = 100) 200 [''ioctl'', ''10'', ''300''] sig_fresh = ([0, 0, 0], s') \<and> sent s' = [(200, 10)]"
proof -
  have "show_int 10 = ''10''" "show_int 300 = ''300''" by code_simp+
  then show ?thesis using sig_client_sends [of 10 300 "\<lambda>p. p = 100" 200 "''ioctl''" sig_fresh]
    by (simp add: sig_fresh_def)
qed

end
