(* ===== verification/Mem_Tests.thy ===== *)
theory Mem_Tests
  imports Interfaces "HOL-Library.Multiset"
begin

text \<open>
  Tests of the kernel's allocators, \<open>Tasks/memory\<close>: objects from a slab cache (\<open>slab/slab.c\<close>), from
  the allocators of a memory pool (\<open>slab/pool.c\<close>), and a linked list (\<open>list/mod_list.c\<close>). Each takes
  resources when it is loaded and has to give them all back, on its error paths too. Objects are named
  by their addresses.
\<close>

section \<open>What is held\<close>

text \<open>The array of pointers, the cache, the pool, the objects that are allocated, and how often the
  constructor has run.\<close>

record held =
  line :: "nat option list option"
  cache :: bool
  pool :: bool
  objs :: "nat list"
  sco :: int

definition nothing :: held where
  "nothing = \<lparr>line = None, cache = False, pool = False, objs = [], sco = 0\<rparr>"

text \<open>The kernel's answers: the array, the cache, the pool, and the address of the i-th object.\<close>

record mem_env =
  line_ok :: bool
  cache_ok :: bool
  pool_ok :: bool
  obj_at :: "nat \<Rightarrow> nat option"

text \<open>The constructor: the object holds its own address.\<close>

definition co :: "nat \<Rightarrow> (nat \<Rightarrow> nat) \<times> held \<Rightarrow> (nat \<Rightarrow> nat) \<times> held" where
  "co p st = ((fst st)(p := p), (snd st)\<lparr>sco := sco (snd st) + 1\<rparr>)"

text \<open>The loop that fills the array: it stops at the first object that cannot be had.\<close>

fun alloc_loop :: "(nat \<Rightarrow> nat option) \<Rightarrow> nat \<Rightarrow> nat \<Rightarrow> nat option list \<Rightarrow> nat list \<Rightarrow> bool \<times> nat option list \<times> nat list" where
  "alloc_loop oa 0 i ln os = (True, ln, os)"
| "alloc_loop oa (Suc k) i ln os = (case oa i of None \<Rightarrow> (False, ln, os)
     | Some p \<Rightarrow> alloc_loop oa k (Suc i) (ln[i := Some p]) (p # os))"

text \<open>Giving the objects of the array back. \<open>null_ok\<close> is whether a null pointer may be freed.\<close>

fun free_loop :: "bool \<Rightarrow> nat option list \<Rightarrow> nat list \<Rightarrow> nat list res" where
  "free_loop null_ok [] os = Inr os"
| "free_loop null_ok (None # ln) os = (if null_ok then free_loop null_ok ln os else crash NullDeref)"
| "free_loop null_ok (Some p # ln) os =
     (if p \<notin> set os then crash DoubleFree else free_loop null_ok ln (remove1 p os))"

lemma alloc_loop_ok:
  assumes "\<And>j. i \<le> j \<Longrightarrow> j < i + k \<Longrightarrow> oa j \<noteq> None" "length ln = i + k"
  shows "alloc_loop oa k i ln os =
    (True, take i ln @ map oa [i..<i + k], rev (map (the \<circ> oa) [i..<i + k]) @ os)"
  using assms
proof (induction k arbitrary: i ln os)
  case (Suc k)
  then obtain p where p: "oa i = Some p" by fastforce
  have "alloc_loop oa k (Suc i) (ln[i := Some p]) (p # os) =
      (True, take (Suc i) (ln[i := Some p]) @ map oa [Suc i..<Suc i + k],
       rev (map (the \<circ> oa) [Suc i..<Suc i + k]) @ p # os)"
    using Suc.prems by (intro Suc.IH) auto
  moreover have "take (Suc i) (ln[i := Some p]) = take i ln @ [Some p]"
    using Suc.prems(2) by (simp add: take_Suc_conv_app_nth)
  moreover have "[i..<i + Suc k] = i # [Suc i..<Suc i + k]" by (simp add: upt_conv_Cons)
  ultimately show ?case using p by simp
qed simp

lemma alloc_loop_fails:
  assumes "oa j = None" "i \<le> j" "j < i + k" "\<And>j'. i \<le> j' \<Longrightarrow> j' < j \<Longrightarrow> oa j' \<noteq> None" "length ln = i + k"
    "\<And>j'. i \<le> j' \<Longrightarrow> j' < i + k \<Longrightarrow> ln ! j' = None"
  shows "alloc_loop oa k i ln os =
    (False, take i ln @ map oa [i..<j] @ replicate (i + k - j) None, rev (map (the \<circ> oa) [i..<j]) @ os)"
  using assms
proof (induction k arbitrary: i ln os)
  case (Suc k)
  show ?case
  proof (cases "i = j")
    case True
    have "drop i ln = replicate (Suc k) None"
      using Suc.prems(5,6) by (intro nth_equalityI) (auto simp: nth_replicate simp del: replicate_Suc)
    then have "ln = take i ln @ replicate (Suc k) None" by (metis append_take_drop_id)
    then show ?thesis using True Suc.prems(1) by simp
  next
    case False
    then obtain p where p: "oa i = Some p" using Suc.prems(2) Suc.prems(4) [of i] by fastforce
    have "alloc_loop oa k (Suc i) (ln[i := Some p]) (p # os) =
      (False, take (Suc i) (ln[i := Some p]) @ map oa [Suc i..<j] @ replicate (Suc i + k - j) None,
       rev (map (the \<circ> oa) [Suc i..<j]) @ p # os)"
      using Suc.prems False by (intro Suc.IH) auto
    moreover have "take (Suc i) (ln[i := Some p]) = take i ln @ [Some p]"
      using Suc.prems(5) by (simp add: take_Suc_conv_app_nth)
    moreover have "[i..<j] = i # [Suc i..<j]" using False Suc.prems(2) by (simp add: upt_conv_Cons)
    ultimately show ?thesis using p by simp
  qed
qed simp

lemma free_loop_all:
  "\<forall>p \<in> set ps. p \<noteq> None \<Longrightarrow> mset os = mset (map the ps) + M \<Longrightarrow>
    (\<exists>os'. free_loop b (ps @ qs) os = free_loop b qs os' \<and> mset os' = M)"
proof (induction ps arbitrary: os)
  case (Cons q ps)
  then obtain p where q: "q = Some p" by auto
  then have "p \<in># mset os" using Cons.prems(2) by simp
  then have "mset (remove1 p os) = mset (map the ps) + M" using Cons.prems(2) q by simp
  then obtain os' where "free_loop b (ps @ qs) (remove1 p os) = free_loop b qs os'" "mset os' = M"
    using Cons.IH [of "remove1 p os"] Cons.prems(1) by auto
  then show ?case using q \<open>p \<in># mset os\<close> by auto
qed auto

lemma free_loop_nulls: "free_loop b (replicate n None) os = (if b \<or> n = 0 then Inr os else crash NullDeref)"
  by (induction n) auto

text \<open>The two loops together, whether or not all objects could be had.\<close>

lemma alloc_free:
  assumes "alloc_loop oa n 0 (replicate n None) [] = (okay, ln, os)"
  shows "okay = (\<forall>i < n. oa i \<noteq> None) \<and> length ln = n
    \<and> free_loop b ln os = (if okay \<or> b then Inr [] else crash NullDeref)"
proof (cases "\<forall>i < n. oa i \<noteq> None")
  case True
  then have al: "alloc_loop oa n 0 (replicate n None) [] = (True, map oa [0..<n], rev (map (the \<circ> oa) [0..<n]))"
    using alloc_loop_ok [of 0 n oa "replicate n None" "[]"] by auto
  have "\<exists>os'. free_loop b (map oa [0..<n] @ []) (rev (map (the \<circ> oa) [0..<n])) = free_loop b [] os' \<and> mset os' = {#}"
    using True by (intro free_loop_all) auto
  then show ?thesis using al True assms by auto
next
  case False
  define j where "j = (LEAST i. i < n \<and> oa i = None)"
  have j: "j < n" "oa j = None" using LeastI_ex [of "\<lambda>i. i < n \<and> oa i = None"] False by (auto simp: j_def)
  have before: "oa i \<noteq> None" if "i < j" for i
    using not_less_Least [of i "\<lambda>i. i < n \<and> oa i = None"] that j(1) by (auto simp: j_def)
  have al: "alloc_loop oa n 0 (replicate n None) [] =
      (False, map oa [0..<j] @ replicate (n - j) None, rev (map (the \<circ> oa) [0..<j]))"
    using alloc_loop_fails [of oa j 0 n "replicate n None" "[]"] j before by auto
  have "\<exists>os'. free_loop b (map oa [0..<j] @ replicate (n - j) None) (rev (map (the \<circ> oa) [0..<j])) =
      free_loop b (replicate (n - j) None) os' \<and> mset os' = {#}"
    using before by (intro free_loop_all) auto
  then show ?thesis using al False assms j(1) by (auto simp: free_loop_nulls)
qed

section \<open>Objects from a slab cache (slab/slab.c)\<close>

text \<open>\<open>psz\<close> is the size of a pointer. The error path frees every place of the array, the empty ones too, which
  \<open>kmem_cache_free\<close> does not allow; \<open>null_ok\<close> is whether \<open>kmem_cache_destroy\<close> accepts a null pointer.\<close>

definition slab_destroy :: "bool \<Rightarrow> held \<Rightarrow> held res" where
  "slab_destroy null_ok h = (if cache h then Inr (h\<lparr>cache := False\<rparr>) else if null_ok then Inr h else crash NullDeref)"

definition slab_init :: "bool \<Rightarrow> nat \<Rightarrow> nat \<Rightarrow> nat \<Rightarrow> mem_env \<Rightarrow> held \<Rightarrow> (int \<times> held) res" where
  "slab_init null_ok psz sz number e h =
     (if sz < psz then Inr (-22, h)
      else if \<not> line_ok e then Inr (-12, h)
      else (let ln0 = replicate number None; h1 = h\<lparr>line := Some ln0\<rparr> in
        if \<not> cache_ok e
        then map_sum id (\<lambda>h. (-12, h\<lparr>line := None\<rparr>)) (slab_destroy null_ok h1)
        else (let (okay, ln, os) = alloc_loop (obj_at e) number 0 ln0 [] in
          if okay then Inr (0, h1\<lparr>cache := True, line := Some ln, objs := os\<rparr>)
          else (case free_loop False ln os of Inl x \<Rightarrow> Inl x
            | Inr os' \<Rightarrow> map_sum id (\<lambda>h. (-12, h\<lparr>line := None\<rparr>))
                (slab_destroy null_ok (h1\<lparr>cache := True, line := Some ln, objs := os'\<rparr>))))))"

definition slab_cleanup :: "bool \<Rightarrow> held \<Rightarrow> held res" where
  "slab_cleanup null_ok h = (case free_loop False (the (line h)) (objs h) of Inl x \<Rightarrow> Inl x
     | Inr os \<Rightarrow> map_sum id (\<lambda>h. h\<lparr>line := None\<rparr>) (slab_destroy null_ok (h\<lparr>objs := os\<rparr>)))"

text \<open>The slab module holds nothing after a refused load, and nothing after it is unloaded; if an object
  cannot be had its error path frees a null pointer. With its default size of 7 it is always refused where
  pointers have 8 bytes.\<close>

theorem slab_balanced:
  assumes "8 \<le> sz" "cache_ok e \<or> null_ok"
  shows "slab_init null_ok 8 7 n e nothing = Inr (-22, nothing)
    \<and> (if \<not> line_ok e \<or> \<not> cache_ok e then slab_init null_ok 8 sz n e nothing = Inr (-12, nothing)
       else if \<forall>i < n. obj_at e i \<noteq> None
       then \<exists>h. slab_init null_ok 8 sz n e nothing = Inr (0, h) \<and> slab_cleanup null_ok h = Inr nothing
       else slab_init null_ok 8 sz n e nothing = crash NullDeref)"
proof -
  obtain okay ln os where al: "alloc_loop (obj_at e) n 0 (replicate n None) [] = (okay, ln, os)"
    by (cases "alloc_loop (obj_at e) n 0 (replicate n None) []") auto
  from alloc_free [OF this, of False] show ?thesis
    using al assms by (auto simp: slab_init_def slab_cleanup_def slab_destroy_def nothing_def Let_def)
qed

theorem slab_balanced_witness:
  "slab_init True 8 16 3 \<lparr>line_ok = True, cache_ok = True, pool_ok = True, obj_at = (\<lambda>i. if i < 2 then Some (100 * i) else None)\<rparr> nothing
    = crash NullDeref"
proof -
  let ?e = "\<lparr>line_ok = True, cache_ok = True, pool_ok = True, obj_at = (\<lambda>i. if i < 2 then Some (100 * i) else None)\<rparr> :: mem_env"
  have "\<not> (\<forall>i < 3. obj_at ?e i \<noteq> None)" by (auto intro!: exI [of _ 2])
  then show ?thesis using slab_balanced [of 16 ?e True 3] by (auto split: if_splits)
qed

section \<open>Objects for a pool (slab/pool.c)\<close>

text \<open>The pool is made but the objects come from its allocator, the cache or \<open>kmalloc\<close>.\<close>

definition pool_create :: "int \<Rightarrow> mem_env \<Rightarrow> held \<Rightarrow> held" where
  "pool_create mode e h =
     (if mode = 0 then (if \<not> cache_ok e then h else h\<lparr>cache := True, pool := pool_ok e\<rparr>)
      else if mode = 1 then h\<lparr>pool := pool_ok e\<rparr>
      else h)"

definition pool_destroy :: "int \<Rightarrow> held \<Rightarrow> held" where
  "pool_destroy mode h =
     (let h1 = (if pool h then h\<lparr>pool := False\<rparr> else h) in
      if mode = 0 \<and> cache h1 then h1\<lparr>cache := False\<rparr> else h1)"

text \<open>\<open>obj_test\<close> writes each of its values to the first byte.\<close>

fun obj_test_loop :: "nat \<Rightarrow> nat \<Rightarrow> int \<Rightarrow> int list \<Rightarrow> int list" where
  "obj_test_loop i 0 ind obj = obj"
| "obj_test_loop i (Suc k) ind obj = obj_test_loop (Suc i) k ind (obj[0 := (ind + int i) mod 256])"

definition obj_test :: "nat \<Rightarrow> int list \<Rightarrow> int \<Rightarrow> int \<times> int list" where
  "obj_test sz obj ind = (1, obj_test_loop 0 sz ind obj)"

lemma obj_test_first_byte:
  "obj \<noteq> [] \<Longrightarrow> obj_test (Suc k) obj ind = (1, obj[0 := (ind + int k) mod 256])"
proof -
  have "obj \<noteq> [] \<Longrightarrow> obj_test_loop i (Suc k) ind obj = obj[0 := (ind + int (i + k)) mod 256]" for i obj
  proof (induction k arbitrary: i obj)
    case (Suc k)
    then show ?case using Suc.IH [of "obj[0 := (ind + int i) mod 256]" "Suc i"] by (simp add: algebra_simps)
  qed simp
  from this [of obj 0] show "obj \<noteq> [] \<Longrightarrow> ?thesis" by (simp add: obj_test_def)
qed

text \<open>Loading, which always fails; \<open>kfree\<close> accepts a null pointer and \<open>kmem_cache_free\<close> does not. The average
  is over the number of objects.\<close>

definition pool_init :: "int \<Rightarrow> nat \<Rightarrow> mem_env \<Rightarrow> held \<Rightarrow> (int \<times> held) res" where
  "pool_init mode number e h =
     (if mode \<noteq> 0 \<and> mode \<noteq> 1 then Inr (-22, h)
      else if \<not> line_ok e then Inr (-12, h\<lparr>line := None\<rparr>)
      else (let ln0 = replicate number None; h1 = pool_create mode e (h\<lparr>line := Some ln0\<rparr>) in
        if \<not> pool h1 then Inr (-12, (pool_destroy mode h1)\<lparr>line := None\<rparr>)
        else (let (okay, ln, os) = alloc_loop (obj_at e) number 0 ln0 [];
                  finish = (\<lambda>r. map_sum id (\<lambda>os'. (r, (pool_destroy mode (h1\<lparr>line := Some ln, objs := os'\<rparr>))\<lparr>line := None\<rparr>))
                    (free_loop (mode = 1) ln os)) in
          if \<not> okay then finish (-12)
          else if number = 0 then crash DivZero
          else finish (-1))))"

text \<open>The pool module, whose load always fails, has given everything back on every path; only an object
  that cannot be had from a cache makes it free a null pointer, and a number of 0 divides by zero.\<close>

theorem pool_balanced:
  "(\<exists>r < 0. pool_init mode n e nothing = Inr (r, nothing))
   \<or> pool_init mode n e nothing = crash NullDeref \<and> mode = 0 \<and> (\<exists>i < n. obj_at e i = None)
   \<or> pool_init mode n e nothing = crash DivZero \<and> n = 0"
proof -
  obtain okay ln os where al: "alloc_loop (obj_at e) n 0 (replicate n None) [] = (okay, ln, os)"
    by (cases "alloc_loop (obj_at e) n 0 (replicate n None) []") auto
  have okay: "okay \<longleftrightarrow> (\<forall>i < n. obj_at e i \<noteq> None)"
    and fr: "free_loop (mode = 1) ln os = (if okay \<or> mode = 1 then Inr [] else crash NullDeref)"
    using alloc_free [OF al, of "mode = 1"] by auto
  note defs = pool_init_def pool_create_def pool_destroy_def nothing_def
  show ?thesis
  proof (cases okay)
    case True
    then show ?thesis using al fr by (auto simp: defs Let_def)
  next
    case False
    then have "\<exists>i < n. obj_at e i = None" using okay by auto
    then show ?thesis using al fr False by (auto simp: defs Let_def)
  qed
qed

section \<open>A linked list (list/mod_list.c)\<close>

text \<open>Nodes are added at the head. \<open>ok\<close> is whether the i-th node can be had; the heap holds the nodes by
  their numbers.\<close>

fun list_build :: "(nat \<Rightarrow> bool) \<Rightarrow> nat \<Rightarrow> nat \<Rightarrow> nat list \<Rightarrow> nat list \<Rightarrow> bool \<times> nat list \<times> nat list" where
  "list_build ok 0 i l heap = (True, l, heap)"
| "list_build ok (Suc k) i l heap =
     (if \<not> ok i then (False, l, heap) else list_build ok k (Suc i) (i # l) (i # heap))"

text \<open>Deleting each node from the list and freeing it.\<close>

fun list_free :: "nat list \<Rightarrow> nat list \<Rightarrow> nat list res" where
  "list_free [] heap = Inr heap"
| "list_free (i # l) heap = (if i \<notin> set heap then crash DoubleFree else list_free l (remove1 i heap))"

definition test_lists :: "(nat \<Rightarrow> bool) \<Rightarrow> int \<Rightarrow> nat list \<Rightarrow> (nat list \<times> nat list) res" where
  "test_lists ok sz heap =
     (let (okay, l, heap1) = list_build ok (nat sz) 0 [] heap; printed = (if okay then l else []) in
      map_sum id (\<lambda>h. (printed, h)) (list_free l heap1))"

lemma list_free_same: "list_free l (l @ heap) = Inr heap"
  by (induction l) auto

lemma list_build_result:
  "list_build ok k i l (l @ heap) = (okay, l', heap') \<Longrightarrow>
    heap' = l' @ heap \<and> okay = (\<forall>j. i \<le> j \<and> j < i + k \<longrightarrow> ok j) \<and> (okay \<longrightarrow> l' = rev [i..<i + k] @ l)"
proof (induction k arbitrary: i l)
  case (Suc k)
  show ?case
  proof (cases "ok i")
    case False
    then show ?thesis using Suc.prems by (auto intro!: exI [of _ i])
  next
    case True
    have u: "[i..<i + Suc k] = i # [Suc i..<Suc i + k]" by (simp add: upt_conv_Cons)
    have "list_build ok k (Suc i) (i # l) ((i # l) @ heap) = (okay, l', heap')" using Suc.prems True by simp
    from Suc.IH [OF this] show ?thesis using True u
      by (auto simp: Suc_le_eq) (metis le_eq_less_or_eq)+
  qed
qed auto

text \<open>The list is printed in the reverse of the order in which its nodes were made, and not at all if
  one could not be had; in either case all nodes are freed, each once.\<close>

theorem list_reversed:
  "test_lists ok sz heap = Inr (if \<forall>j < nat sz. ok j then rev [0..<nat sz] else [], heap)"
proof -
  obtain okay l h1 where b: "list_build ok (nat sz) 0 [] heap = (okay, l, h1)"
    by (cases "list_build ok (nat sz) 0 [] heap") auto
  from list_build_result [of ok "nat sz" 0 "[]" heap] b
  have "h1 = l @ heap" "okay = (\<forall>j < nat sz. ok j)" "okay \<longrightarrow> l = rev [0..<nat sz]" by auto
  then show ?thesis using b by (auto simp: test_lists_def list_free_same)
qed

end
