(* ===== verification/Threads.thy ===== *)
theory Threads
  imports Decimal "HOL-Library.Multiset"
begin

text \<open>
  Kernel threads, \<open>Tasks/+TASKS/synch\<close>: \<open>pamix.c\<close> starts threads that count in a shared block of
  memory, lets them run, stops them with \<open>kthread_stop\<close> and frees the block; \<open>pamixad.c\<close> stops them with
  an atomic counter, \<open>pamixab.c\<close> with a bit and a pause; \<open>pamixx.c\<close> and \<open>pamixm.c\<close> add a lock. The module
  and its threads are a system of interleaved steps. \<open>Tasks/thread/mlock\<close>: nested loops with a semaphore
  at one level.
\<close>

section \<open>The system\<close>

text \<open>Where a thread is in \<open>thread_func\<close>: before the test of the loop, before taking the lock, before the
  increment, before giving the lock back, after the loop, ended.\<close>

datatype pc = Check | Acquire | Work | Release | Leaving | Done

text \<open>Where \<open>pa_init\<close> is: the pause, before stopping thread i, waiting for thread i, waiting for all, the
  pause of \<open>pamixab.c\<close>, before freeing the block, at the end.\<close>

datatype mpc = Running | Stopping nat | Waiting nat | WaitAll | Sleeping | Freeing | Finished

text \<open>How the threads are told to stop: \<open>kthread_stop\<close> (\<open>pamix.c\<close>, \<open>pamixx.c\<close>, \<open>pamixm.c\<close>), the counter
  (\<open>pamixad.c\<close>), the bit (\<open>pamixab.c\<close>).\<close>

datatype kind = Kstop | Counter | Bit

record sys =
  pcs :: "pc list"
  data :: "64 word list"
  lock :: "nat option"
  stop :: "bool list"
  final :: nat
  mst :: mpc
  freed :: bool
  fault :: bool

definition start :: "nat \<Rightarrow> sys" where
  "start thr = \<lparr>pcs = replicate thr Check, data = replicate thr 0, lock = None, stop = replicate thr False,
     final = 0, mst = Running, freed = False, fault = False\<rparr>"

definition should_stop :: "kind \<Rightarrow> nat \<Rightarrow> sys \<Rightarrow> bool" where
  "should_stop k i s = (if k = Kstop then stop s ! i else final s \<noteq> 0)"

text \<open>A step of thread i; None when it cannot go on. An increment after the block was freed is a fault.\<close>

definition thread_step :: "kind \<Rightarrow> bool \<Rightarrow> nat \<Rightarrow> sys \<Rightarrow> sys option" where
  "thread_step k act i s =
     (if i \<ge> length (pcs s) then None
      else (case pcs s ! i of
        Check \<Rightarrow> Some (s\<lparr>pcs := (pcs s)[i := if should_stop k i s then Leaving else if act then Acquire else Work]\<rparr>)
      | Acquire \<Rightarrow> if lock s = None then Some (s\<lparr>lock := Some i, pcs := (pcs s)[i := Work]\<rparr>) else None
      | Work \<Rightarrow> Some (s\<lparr>data := (data s)[i := data s ! i + 1], fault := fault s \<or> freed s,
          pcs := (pcs s)[i := if act then Release else Check]\<rparr>)
      | Release \<Rightarrow> Some (s\<lparr>lock := None, pcs := (pcs s)[i := Check]\<rparr>)
      | Leaving \<Rightarrow> Some (s\<lparr>final := (if k = Counter then final s + 1 else final s), pcs := (pcs s)[i := Done]\<rparr>)
      | Done \<Rightarrow> None))"

text \<open>A step of \<open>pa_init\<close>, after the threads were started.\<close>

definition master_step :: "kind \<Rightarrow> sys \<Rightarrow> sys option" where
  "master_step k s = (let thr = length (pcs s) in case mst s of
     Running \<Rightarrow> (case k of
         Kstop \<Rightarrow> Some (s\<lparr>mst := (if 0 < thr then Stopping 0 else Freeing)\<rparr>)
       | Counter \<Rightarrow> Some (s\<lparr>final := final s + 1, mst := WaitAll\<rparr>)
       | Bit \<Rightarrow> Some (s\<lparr>final := 1, mst := Sleeping\<rparr>))
   | Stopping i \<Rightarrow> Some (s\<lparr>stop := (stop s)[i := True], mst := Waiting i\<rparr>)
   | Waiting i \<Rightarrow> if pcs s ! i = Done then Some (s\<lparr>mst := (if i + 1 < thr then Stopping (i + 1) else Freeing)\<rparr>) else None
   | WaitAll \<Rightarrow> if final s < thr + 1 then None else Some (s\<lparr>mst := Freeing\<rparr>)
   | Sleeping \<Rightarrow> Some (s\<lparr>mst := Freeing\<rparr>)
   | Freeing \<Rightarrow> Some (s\<lparr>freed := True, mst := Finished\<rparr>)
   | Finished \<Rightarrow> None)"

datatype who = Thread nat | Master

fun sys_step :: "kind \<Rightarrow> bool \<Rightarrow> who \<Rightarrow> sys \<Rightarrow> sys option" where
  "sys_step k act (Thread i) s = thread_step k act i s"
| "sys_step k act Master s = master_step k s"

inductive reach :: "kind \<Rightarrow> bool \<Rightarrow> nat \<Rightarrow> sys \<Rightarrow> bool" for k act thr where
  reach_start: "reach k act thr (start thr)"
| reach_step: "reach k act thr s \<Longrightarrow> sys_step k act w s = Some s' \<Longrightarrow> reach k act thr s'"

section \<open>Invariants\<close>

definition gone :: "sys \<Rightarrow> nat" where
  "gone s = count (mset (pcs s)) Done"

lemma gone_update:
  "i < length ps \<Longrightarrow> ps ! i \<noteq> Done \<Longrightarrow>
    count (mset (ps[i := p])) Done = count (mset ps) Done + (if p = Done then 1 else 0)"
  by (auto simp: mset_update)

lemma count_all: "count (mset ps) x = length ps \<longleftrightarrow> (\<forall>p \<in> set ps. p = x)"
proof (induction ps)
  case (Cons p ps)
  have "count (mset ps) x \<le> length ps" by (metis count_le_size size_mset)
  then show ?case using Cons by auto
qed simp

text \<open>Sizes, and the lock: it is held exactly by the thread between taking it and giving it back.\<close>

definition lock_inv :: "bool \<Rightarrow> nat \<Rightarrow> sys \<Rightarrow> bool" where
  "lock_inv act thr s \<longleftrightarrow> length (pcs s) = thr \<and> length (stop s) = thr \<and> length (data s) = thr
    \<and> (if act then \<forall>i < thr. (pcs s ! i \<in> {Work, Release}) = (lock s = Some i)
       else lock s = None \<and> (\<forall>i < thr. pcs s ! i \<notin> {Acquire, Release}))
    \<and> (\<forall>i. lock s = Some i \<longrightarrow> i < thr)"

lemma lock_inv_thread:
  assumes "lock_inv act thr s" "thread_step k act i s = Some s'"
  shows "lock_inv act thr s'"
proof -
  have i: "i < thr" using assms by (auto simp: thread_step_def lock_inv_def split: if_splits)
  show ?thesis
  proof (cases "pcs s ! i")
    case Check
    then show ?thesis using assms i by (cases act) (auto simp: thread_step_def lock_inv_def nth_list_update split: if_splits)
  next
    case Acquire
    then show ?thesis using assms i
      by (cases act) (auto simp: thread_step_def lock_inv_def nth_list_update split: if_splits)
  next
    case Work
    then show ?thesis using assms i by (cases act) (auto simp: thread_step_def lock_inv_def nth_list_update split: if_splits)
  next
    case Release
    then have "act \<Longrightarrow> lock s = Some i" "act \<Longrightarrow> ia < thr \<Longrightarrow> ia \<noteq> i \<Longrightarrow> pcs s ! ia \<notin> {Work, Release}" for ia
      using assms(1) i by (auto simp: lock_inv_def)
    then show ?thesis using Release assms i by (cases act) (auto simp: thread_step_def lock_inv_def nth_list_update split: if_splits)
  next
    case Leaving
    then show ?thesis using assms i by (cases act) (auto simp: thread_step_def lock_inv_def nth_list_update split: if_splits)
  next
    case Done
    then show ?thesis using assms i by (simp add: thread_step_def lock_inv_def)
  qed
qed

lemma lock_inv_master: "lock_inv act thr s \<Longrightarrow> master_step k s = Some s' \<Longrightarrow> lock_inv act thr s'"
  by (auto simp: master_step_def lock_inv_def Let_def split: mpc.splits kind.splits if_splits)

lemma reach_lock_inv: "reach k act thr s \<Longrightarrow> lock_inv act thr s"
proof (induction rule: reach.induct)
  case reach_start
  then show ?case by (auto simp: lock_inv_def start_def)
next
  case (reach_step s w s')
  then show ?case by (cases w) (auto intro: lock_inv_thread lock_inv_master)
qed

text \<open>\<open>kthread_stop\<close>: the threads before the one that is being stopped have ended.\<close>

definition stop_inv :: "sys \<Rightarrow> bool" where
  "stop_inv s \<longleftrightarrow> (case mst s of Running \<Rightarrow> True
     | Stopping j \<Rightarrow> j < length (pcs s) \<and> (\<forall>i < j. pcs s ! i = Done)
     | Waiting j \<Rightarrow> j < length (pcs s) \<and> stop s ! j \<and> (\<forall>i < j. pcs s ! i = Done)
     | Freeing \<Rightarrow> \<forall>i < length (pcs s). pcs s ! i = Done
     | Finished \<Rightarrow> \<forall>i < length (pcs s). pcs s ! i = Done
     | _ \<Rightarrow> False) \<and> (freed s \<longrightarrow> mst s = Finished) \<and> \<not> fault s"

lemma stop_inv_thread:
  assumes "stop_inv s" "thread_step Kstop act i s = Some s'"
  shows "stop_inv s'"
proof -
  have i: "i < length (pcs s)" "pcs s ! i \<noteq> Done" using assms(2) by (auto simp: thread_step_def split: if_splits)
  have same: "mst s' = mst s" "freed s' = freed s" "stop s' = stop s" "length (pcs s') = length (pcs s)"
    using assms(2) by (auto simp: thread_step_def split: if_splits pc.splits)
  have ended: "pcs s' ! j = Done" if "pcs s ! j = Done" for j
    using assms(2) i that by (cases "j = i") (auto simp: thread_step_def split: if_splits pc.splits)
  have "\<not> freed s" using assms(1) i by (auto simp: stop_inv_def)
  then have "fault s' = fault s" using assms(2) by (auto simp: thread_step_def split: if_splits pc.splits)
  then show ?thesis using assms(1) same ended by (auto simp: stop_inv_def split: mpc.splits)
qed

lemma stop_inv_master:
  assumes "stop_inv s" "master_step Kstop s = Some s'" "length (stop s) = length (pcs s)"
  shows "stop_inv s'"
proof -
  have last: "pcs s ! i = Done" if "\<forall>i < j. pcs s ! i = Done" "pcs s ! j = Done" "i < length (pcs s)" "length (pcs s) \<le> Suc j" for i j
    using that by (cases "i = j") auto
  show ?thesis
    using assms by (auto simp: stop_inv_def master_step_def Let_def less_Suc_eq not_less split: mpc.splits if_splits)
      (use last in blast)
qed

text \<open>The counter: it is the number of threads that have ended, and one more once they were told to.\<close>

definition count_inv :: "sys \<Rightarrow> bool" where
  "count_inv s \<longleftrightarrow> final s = gone s + (if mst s = Running then 0 else 1)
    \<and> (mst s = Running \<longrightarrow> (\<forall>i < length (pcs s). pcs s ! i \<notin> {Leaving, Done}))
    \<and> (case mst s of Stopping j \<Rightarrow> False | Waiting j \<Rightarrow> False | Sleeping \<Rightarrow> False
       | Freeing \<Rightarrow> gone s = length (pcs s) | Finished \<Rightarrow> gone s = length (pcs s) | _ \<Rightarrow> True)
    \<and> (freed s \<longrightarrow> mst s = Finished) \<and> \<not> fault s"

lemma gone_le: "gone s \<le> length (pcs s)"
  unfolding gone_def by (metis count_le_size size_mset)

lemma gone_all: "gone s = length (pcs s) \<longleftrightarrow> (\<forall>i < length (pcs s). pcs s ! i = Done)"
  unfolding gone_def count_all by (simp add: all_set_conv_all_nth)

lemma count_inv_thread:
  assumes "count_inv s" "thread_step Counter act i s = Some s'"
  shows "count_inv s'"
proof -
  have i: "i < length (pcs s)" "pcs s ! i \<noteq> Done" using assms(2) by (auto simp: thread_step_def split: if_splits)
  then have "gone s \<noteq> length (pcs s)" by (auto simp: gone_all)
  then have m: "mst s = Running \<or> mst s = WaitAll" "\<not> freed s"
    using assms(1) by (auto simp: count_inv_def split: mpc.splits)
  have r: "mst s = Running \<Longrightarrow> pcs s ! i \<notin> {Leaving, Done} \<and> final s = 0"
    using assms(1) i(1) by (auto simp: count_inv_def gone_def count_eq_zero_iff in_set_conv_nth)
  show ?thesis
    using assms m i r gone_update [OF i]
    by (auto simp: thread_step_def count_inv_def gone_def should_stop_def nth_list_update split: if_splits pc.splits)
qed

lemma count_inv_master:
  assumes "count_inv s" "master_step Counter s = Some s'"
  shows "count_inv s'"
  using assms gone_le [of s] by (auto simp: count_inv_def master_step_def gone_def Let_def split: mpc.splits if_splits)

lemma reach_stop_inv: "reach Kstop act thr s \<Longrightarrow> stop_inv s"
proof (induction rule: reach.induct)
  case reach_start
  then show ?case by (simp add: stop_inv_def start_def)
next
  case (reach_step s w s')
  then show ?case using reach_lock_inv [OF reach_step.hyps(1)]
    by (cases w) (auto simp: lock_inv_def intro: stop_inv_thread stop_inv_master)
qed

lemma reach_count_inv: "reach Counter act thr s \<Longrightarrow> count_inv s"
proof (induction rule: reach.induct)
  case reach_start
  then show ?case by (simp add: count_inv_def start_def gone_def)
next
  case (reach_step s w s')
  then show ?case by (cases w) (auto intro: count_inv_thread count_inv_master)
qed

lemma reach_bit: "reach Bit act thr s \<Longrightarrow> mst s \<in> {Running, Sleeping, Freeing, Finished}"
proof (induction rule: reach.induct)
  case (reach_step s w s')
  then show ?case by (cases w) (auto simp: master_step_def thread_step_def Let_def split: if_splits pc.splits)
qed (simp add: start_def)

section \<open>Safety and progress\<close>


text \<open>A run given by who makes each step.\<close>

fun run_who :: "kind \<Rightarrow> bool \<Rightarrow> who list \<Rightarrow> sys \<Rightarrow> sys option" where
  "run_who k act [] s = Some s"
| "run_who k act (w # ws) s = (case sys_step k act w s of None \<Rightarrow> None | Some s' \<Rightarrow> run_who k act ws s')"

lemma reach_run: "reach k act thr s \<Longrightarrow> run_who k act ws s = Some s' \<Longrightarrow> reach k act thr s'"
  by (induction ws arbitrary: s) (auto split: option.splits intro: reach_step)


text \<open>With the bit and a pause nothing makes \<open>pa_init\<close> wait for a thread that has passed its test.\<close>

lemma bit_unsafe: "\<exists>s. reach Bit False 1 s \<and> fault s"
proof -
  obtain s where s: "run_who Bit False [Thread 0, Master, Master, Master, Thread 0] (start 1) = Some s" "fault s"
    by (simp add: start_def thread_step_def master_step_def should_stop_def)
  from reach_run [OF reach_start s(1)] s(2) show ?thesis by blast
qed

lemma some_thread_steps:
  assumes "lock_inv act thr s" "i < thr" "pcs s ! i \<noteq> Done"
  shows "\<exists>j s'. thread_step k act j s = Some s'"
proof (cases "thread_step k act i s")
  case None
  then have w: "pcs s ! i = Acquire" "lock s \<noteq> None"
    using assms by (auto simp: thread_step_def lock_inv_def split: if_splits pc.splits)
  then obtain j where j: "lock s = Some j" by auto
  have act: "act" using assms(1,2) w(1) by (auto simp: lock_inv_def split: if_splits)
  then have "j < thr" "pcs s ! j \<in> {Work, Release}" using assms(1) j by (auto simp: lock_inv_def)
  then have "\<exists>s'. thread_step k act j s = Some s'" using assms(1) by (auto simp: thread_step_def lock_inv_def)
  then show ?thesis by blast
qed blast



section \<open>The result as a text (pamix.c)\<close>

text \<open>The counters, as signed numbers, in a static array of 120 bytes.\<close>

fun pa_text :: "64 word list \<Rightarrow> char list \<Rightarrow> char list res" where
  "pa_text [] s = Inr s"
| "pa_text (d # ds) s =
     (let s' = s @ show_int (sint d) @ (if ds \<noteq> [] then '', '' else [NL]) in
      if length s' + 1 > 120 then crash OutOfBounds else pa_text ds s')"

text \<open>Thirty-eight threads are enough to overflow it, whatever they have counted.\<close>

lemma pa_text_overflows: "ds \<noteq> [] \<Longrightarrow> 120 < length s + 3 * length ds \<Longrightarrow> pa_text ds s = crash OutOfBounds"
proof (induction ds arbitrary: s)
  case (Cons d ds)
  have "show_int (sint d) \<noteq> []" by (auto simp: show_int_def)
  then have l: "1 \<le> length (show_int (sint d))" by (cases "show_int (sint d)") auto
  show ?case
  proof (cases "ds = []")
    case True
    then show ?thesis using Cons.prems l by (simp add: Let_def)
  next
    case False
    then show ?thesis using Cons.IH [of "s @ show_int (sint d) @ '', ''"] Cons.prems l by (simp add: Let_def)
  qed
qed simp

lemma pa_init_overflows: "38 \<le> length ds \<Longrightarrow> pa_text ds ''rezults: '' = crash OutOfBounds"
  by (intro pa_text_overflows) auto

text \<open>\<open>pamixm.c\<close> and \<open>pamixx.c\<close> add up the counters and show the sum behind them.\<close>

fun pa_sum_text :: "64 word list \<Rightarrow> 64 word \<Rightarrow> char list \<Rightarrow> char list res" where
  "pa_sum_text [] sm s =
     (let s' = s @ '' => '' @ show_int (sint sm) @ [NL] in if length s' + 1 > 120 then crash OutOfBounds else Inr s')"
| "pa_sum_text (d # ds) sm s =
     (let s' = s @ show_int (sint d) @ (if ds \<noteq> [] then '', '' else []) in
      if length s' + 1 > 120 then crash OutOfBounds else pa_sum_text ds (sm + d) s')"

text \<open>The whole init function but for the steps of the threads: \<open>dm\<close> and \<open>pm\<close> are whether the two blocks can
  be had, \<open>ds\<close> what the threads have counted when they are stopped. The result, the line, and how many of
  the blocks are still held at the end.\<close>

definition pa_init :: "bool \<Rightarrow> bool \<Rightarrow> bool \<Rightarrow> 64 word list \<Rightarrow> (int \<times> char list) res \<times> nat" where
  "pa_init summed dm pm ds =
     (if \<not> dm \<or> \<not> pm then (fail ENOMEM, 0)
      else (case (if summed then pa_sum_text ds 0 ''rezults: '' else pa_text ds ''rezults: '') of
        Inl x \<Rightarrow> (Inl x, 2) | Inr s \<Rightarrow> (Inr (-1, s), 0)))"

lemma pa_sum_text_sum:
  "pa_sum_text ds sm s = Inr t \<Longrightarrow> \<exists>u. t = s @ u @ '' => '' @ show_int (sint (sm + sum_list ds)) @ [NL] \<and> length t < 120"
proof (induction ds arbitrary: sm s)
  case (Cons d ds)
  then show ?case by (fastforce simp: Let_def add.assoc split: if_splits)
qed (auto simp: Let_def split: if_splits)

text \<open>What the module says is the sum of what its threads counted, modulo 2^64 and as a signed number; the
  blocks are given back whether the load got that far or not.\<close>

lemma pa_init_sum:
  assumes "pa_init True dm pm ds = (Inr (r, t), n)"
  shows "r = -1 \<and> n = 0 \<and> (\<exists>u. t = ''rezults: '' @ u @ '' => '' @ show_int (sint (sum_list ds)) @ [NL])"
  using assms pa_sum_text_sum [of ds 0 "''rezults: ''" t] by (auto simp: pa_init_def split: if_splits sum.splits)

section \<open>Nested loops with a semaphore (thread/mlock/mlock.c)\<close>

text \<open>What a thread does: the units of work, and the order in which it takes the semaphore and gives it
  back. The semaphore can be taken once.\<close>

datatype sem = Down | Up

fun loop_func :: "int \<Rightarrow> nat \<Rightarrow> nat \<Rightarrow> nat \<times> sem list" where
  "loop_func sync rep 0 = (1, if sync = 0 then [Down, Up] else [])"
| "loop_func sync rep (Suc lvl) =
     (let (n, tr) = foldl (\<lambda>(n, tr) i. let (m, t) = loop_func sync rep lvl in (n + m, tr @ t)) (0, []) [0..<rep] in
      (n, if sync = int (Suc lvl) then Down # tr @ [Up] else tr))"

text \<open>A thread starts another until its number is used up.\<close>

function thread_units :: "(nat \<times> sem list) \<Rightarrow> int \<Rightarrow> (nat \<times> sem list) list" where
  "thread_units work parent_num =
     (let num = parent_num - 1 in work # (if num > 0 then thread_units work num else []))"
  by pat_completeness auto
termination by (relation "measure (\<lambda>(w, n). nat n)") auto

declare thread_units.simps [simp del]

definition test_mlock :: "int \<Rightarrow> nat \<Rightarrow> int \<Rightarrow> nat \<Rightarrow> (nat \<times> sem list) list" where
  "test_mlock num rep sync max_level =
     (let sync = (if sync > int max_level then -1 else sync) in thread_units (loop_func sync rep max_level) num)"

lemma loop_foldl: "foldl (\<lambda>(n, tr) i. case x of (m, t) \<Rightarrow> (n + m, tr @ t)) (a, b) is =
    (a + length is * fst x, b @ concat (replicate (length is) (snd x)))"
  by (induction "is" arbitrary: a b) (auto simp: case_prod_beta)

lemma count_list_concat_replicate: "count_list (concat (replicate k xs)) x = k * count_list xs x"
  by (induction k) auto

text \<open>Each taking is followed at once by giving back: no thread waits for a semaphore it holds.\<close>

fun never_nested :: "sem list \<Rightarrow> bool" where
  "never_nested [] \<longleftrightarrow> True"
| "never_nested (Down # Up # tr) \<longleftrightarrow> never_nested tr"
| "never_nested _ \<longleftrightarrow> False"

lemma never_nested_append: "never_nested xs \<Longrightarrow> never_nested ys \<Longrightarrow> never_nested (xs @ ys)"
  by (induction xs rule: never_nested.induct) auto

lemma never_nested_concat: "never_nested xs \<Longrightarrow> never_nested (concat (replicate k xs))"
  by (induction k) (auto intro: never_nested_append)

lemma loop_below: "int lvl < sync \<Longrightarrow> snd (loop_func sync rep lvl) = []"
  by (induction lvl) (auto simp: loop_foldl)

lemma loop_result:
  "fst (loop_func sync rep lvl) = rep ^ lvl \<and> never_nested (snd (loop_func sync rep lvl))
   \<and> count_list (snd (loop_func sync rep lvl)) Down =
      (if 0 \<le> sync \<and> sync \<le> int lvl then rep ^ nat (int lvl - sync) else 0)"
proof (induction lvl)
  case 0
  then show ?case by auto
next
  case (Suc lvl)
  have st: "loop_func sync rep (Suc lvl) = (rep * fst (loop_func sync rep lvl),
      if sync = int (Suc lvl) then Down # concat (replicate rep (snd (loop_func sync rep lvl))) @ [Up]
      else concat (replicate rep (snd (loop_func sync rep lvl))))"
    by (simp add: loop_foldl)
  consider "sync = int (Suc lvl)" | "0 \<le> sync" "sync \<le> int lvl" | "sync < 0 \<or> int (Suc lvl) < sync" by linarith
  then show ?case
  proof cases
    case 1
    then have "snd (loop_func sync rep lvl) = []" by (intro loop_below) simp
    then show ?thesis using 1 st Suc.IH by simp
  next
    case 2
    have e: "nat (int (Suc lvl) - sync) = Suc (nat (int lvl - sync))" using 2 by simp
    show ?thesis using 2 st Suc.IH unfolding e by (auto simp: count_list_concat_replicate never_nested_concat)
  next
    case 3
    then show ?thesis using st Suc.IH by (auto simp: count_list_concat_replicate never_nested_concat)
  qed
qed

lemma thread_units_replicate: "thread_units work n = replicate (if n \<le> 1 then 1 else nat n) work"
proof (induction work n rule: thread_units.induct)
  case (1 work n)
  show ?case
  proof (cases "n - 1 > 0")
    case True
    then have "nat n = Suc (nat (n - 1))" by simp
    then show ?thesis using 1 [OF refl True] True by (subst thread_units.simps) (auto simp: Let_def)
  qed (subst thread_units.simps, simp add: Let_def)
qed

text \<open>The test runs as many threads as asked for (at least one); each does rep^max_level units of work and
  takes the semaphore rep^(max_level - sync) times when the level of synchronisation is one of the loops'
  (not at all otherwise), never twice without giving it back.\<close>

theorem mlock_counts:
  "test_mlock num rep sync max_level = replicate (if num \<le> 1 then 1 else nat num)
      (loop_func (if sync > int max_level then -1 else sync) rep max_level)
   \<and> fst (loop_func sync rep max_level) = rep ^ max_level
   \<and> never_nested (snd (loop_func sync rep max_level))
   \<and> count_list (snd (loop_func sync rep max_level)) Down =
      (if 0 \<le> sync \<and> sync \<le> int max_level then rep ^ nat (int max_level - sync) else 0)"
  using loop_result [of sync rep max_level] thread_units_replicate by (auto simp: test_mlock_def)

end
