(* ===== verification/Fsel.thy ===== *)
theory Fsel
  imports Interfaces "HOL-Library.Multiset"
begin

unbundle bit_operations_syntax

text \<open>
  \<open>fuse/fsel.c\<close>: sixteen files of a file system in user space that a producer thread fills with one
  byte after another, whose readers may wait with \<open>poll\<close>, and \<open>fuse/fselclient.c\<close>, which waits on all of
  them with \<open>select\<close>. A poll handle of libfuse is a number; destroying it twice, or notifying through a
  destroyed one, is a fault. The producer's round, \<open>read\<close> and \<open>poll\<close> hold \<open>fsel_mutex\<close> from their first
  access to the counters to their last, so that each is one step; \<open>open\<close> and \<open>release\<close> do not, and are
  taken to be called one at a time.
\<close>

section \<open>State\<close>

text \<open>The static data. \<open>idx\<close> and \<open>nr\<close> are the producer's variables, \<open>destroyed\<close> and \<open>notified\<close> the
  handles given to \<open>fuse_pollhandle_destroy\<close> and \<open>fuse_notify_poll\<close>, newest first.\<close>

record fsel =
  open_mask :: "32 word"
  fuse_set :: bool
  notify_mask :: "32 word"
  poll_handle :: "nat option list"
  cnt :: "nat list"
  polled_zero :: "32 word"
  idx :: nat
  nr :: nat
  destroyed :: "nat list"
  notified :: "nat list"

definition hex_map :: string where
  "hex_map = ''0123456789ABCDEF''"

definition FSEL_CNT_MAX :: nat where
  "FSEL_CNT_MAX = 10"

definition FSEL_FILES :: nat where
  "FSEL_FILES = 16"

definition fsel_init :: fsel where
  "fsel_init = \<lparr>open_mask = 0, fuse_set = False, notify_mask = 0,
     poll_handle = replicate FSEL_FILES None, cnt = replicate FSEL_FILES 0, polled_zero = 0,
     idx = 0, nr = 1, destroyed = [], notified = []\<rparr>"

lemmas fsel_consts = FSEL_FILES_def FSEL_CNT_MAX_def

text \<open>The mask \<open>1 << idx\<close>.\<close>

definition shl1 :: "nat \<Rightarrow> 32 word" where
  "shl1 i = push_bit i 1"

section \<open>Operations on files\<close>

definition isxdigit :: "char \<Rightarrow> bool" where
  "isxdigit c \<longleftrightarrow> c \<in> set ''0123456789ABCDEFabcdef''"

definition islower :: "char \<Rightarrow> bool" where
  "islower c \<longleftrightarrow> c \<in> set ''abcdefghijklmnopqrstuvwxyz''"

definition path_index :: "string \<Rightarrow> int" where
  "path_index path =
     (if length path \<noteq> 2 \<or> path ! 0 \<noteq> CHR ''/'' \<or> \<not> isxdigit (path ! 1) \<or> islower (path ! 1) then - 1
      else let ch = (of_char (path ! 1) :: int) in
        if ch \<le> of_char CHR ''9'' then ch - of_char CHR ''0'' else ch - of_char CHR ''A'' + 10)"

text \<open>The attributes that are set: whether it is a directory, its permissions, links and size.\<close>

record attrs =
  is_dir :: bool
  perms :: nat
  nlink :: nat
  st_size :: nat

definition fsel_getattr :: "string \<Rightarrow> fsel \<Rightarrow> attrs res" where
  "fsel_getattr path s =
     (if path = ''/'' then Inr \<lparr>is_dir = True, perms = 365, nlink = 2, st_size = 0\<rparr>
      else let i = path_index path in
        if i < 0 then fail ENOENT
        else Inr \<lparr>is_dir = False, perms = 292, nlink = 1, st_size = cnt s ! nat i\<rparr>)"

text \<open>The names handed to \<open>filler\<close>, whose result is not looked at.\<close>

definition fsel_readdir :: "string \<Rightarrow> string list res" where
  "fsel_readdir path =
     (if path \<noteq> ''/'' then fail ENOENT else Inr (map (\<lambda>i. [hex_map ! i]) [0..<FSEL_FILES]))"

text \<open>\<open>open\<close> hands back the file handle.\<close>

definition fsel_open :: "string \<Rightarrow> 32 word \<Rightarrow> fsel \<Rightarrow> (nat \<times> fsel) res" where
  "fsel_open path flags s =
     (let i = path_index path in
      if i < 0 then fail ENOENT
      else if flags AND 3 \<noteq> 0 then fail EACCES
      else if open_mask s AND shl1 (nat i) \<noteq> 0 then fail EBUSY
      else Inr (nat i, s\<lparr>open_mask := open_mask s OR shl1 (nat i)\<rparr>))"

definition fsel_release :: "nat \<Rightarrow> fsel \<Rightarrow> fsel" where
  "fsel_release fh s = s\<lparr>open_mask := open_mask s AND NOT (shl1 fh)\<rparr>"

definition fsel_read :: "nat \<Rightarrow> nat \<Rightarrow> fsel \<Rightarrow> string \<times> fsel" where
  "fsel_read fh sz s =
     (let n = (if cnt s ! fh < sz then cnt s ! fh else sz) in
      (replicate n (hex_map ! fh), s\<lparr>cnt := (cnt s)[fh := cnt s ! fh - n]\<rparr>))"

definition destroy_handle :: "nat \<Rightarrow> fsel \<Rightarrow> fsel res" where
  "destroy_handle ph s =
     (if ph \<in> set (destroyed s) then crash DoubleFree else Inr (s\<lparr>destroyed := ph # destroyed s\<rparr>))"

definition notify_poll :: "nat \<Rightarrow> fsel \<Rightarrow> fsel res" where
  "notify_poll ph s =
     (if ph \<in> set (destroyed s) then crash UseAfterFree else Inr (s\<lparr>notified := ph # notified s\<rparr>))"

text \<open>The context is asked for at the first poll; \<open>ctx\<close> says whether \<open>fuse_get_context\<close> has one.\<close>

definition learn_fuse :: "bool \<Rightarrow> fsel \<Rightarrow> fsel" where
  "learn_fuse ctx s = (if fuse_set s then s else s\<lparr>fuse_set := ctx\<rparr>)"

text \<open>A new handle takes the place of the one that is stored.\<close>

definition store_handle :: "nat \<Rightarrow> nat \<Rightarrow> fsel \<Rightarrow> fsel res" where
  "store_handle fh ph s =
     (case (case poll_handle s ! fh of None \<Rightarrow> Inr s | Some old \<Rightarrow> destroy_handle old s) of
        Inl e \<Rightarrow> Inl e
      | Inr s' \<Rightarrow> Inr (s'\<lparr>notify_mask := notify_mask s' OR shl1 fh,
                        poll_handle := (poll_handle s')[fh := Some ph]\<rparr>))"

text \<open>The result is whether \<open>POLLIN\<close> is reported.\<close>

definition fsel_poll :: "nat \<Rightarrow> nat option \<Rightarrow> bool \<Rightarrow> fsel \<Rightarrow> (bool \<times> fsel) res" where
  "fsel_poll fh ph ctx s =
     (case (case ph of None \<Rightarrow> Inr (learn_fuse ctx s) | Some p \<Rightarrow> store_handle fh p (learn_fuse ctx s)) of
        Inl e \<Rightarrow> Inl e
      | Inr s' \<Rightarrow>
          if cnt s' ! fh \<noteq> 0 then Inr (True, s'\<lparr>polled_zero := 0\<rparr>)
          else Inr (False, s'\<lparr>polled_zero := polled_zero s' + 1\<rparr>))"

section \<open>The producer\<close>

definition produce_one :: "nat \<Rightarrow> fsel \<Rightarrow> fsel res" where
  "produce_one t s =
     (if cnt s ! t = FSEL_CNT_MAX then Inr s
      else let s1 = s\<lparr>cnt := (cnt s)[t := cnt s ! t + 1]\<rparr> in
        if fuse_set s1 \<and> notify_mask s1 AND shl1 t \<noteq> 0 then
          (case poll_handle s1 ! t of
             None \<Rightarrow> crash NullDeref
           | Some ph \<Rightarrow>
               (case notify_poll ph s1 of
                  Inl e \<Rightarrow> Inl e
                | Inr s2 \<Rightarrow>
                    (case destroy_handle ph s2 of
                       Inl e \<Rightarrow> Inl e
                     | Inr s3 \<Rightarrow> Inr (s3\<lparr>notify_mask := notify_mask s3 AND NOT (shl1 t),
                                       poll_handle := (poll_handle s3)[t := None]\<rparr>))))
        else Inr s1)"

fun produce_loop :: "nat \<Rightarrow> nat \<Rightarrow> fsel \<Rightarrow> fsel res" where
  "produce_loop 0 t s = Inr s"
| "produce_loop (Suc k) t s =
     (case produce_one t s of
        Inl e \<Rightarrow> Inl e
      | Inr s1 \<Rightarrow> produce_loop k ((t + FSEL_FILES div nr s1) mod FSEL_FILES) s1)"

definition producer_round :: "fsel \<Rightarrow> fsel res" where
  "producer_round s =
     (case produce_loop (nr s) (idx s) s of
        Inl e \<Rightarrow> Inl e
      | Inr s1 \<Rightarrow>
          let s2 = s1\<lparr>idx := (idx s1 + 1) mod FSEL_FILES\<rparr> in
          Inr (if idx s2 = 0 then s2\<lparr>nr := (nr s2 * 2) mod 7\<rparr> else s2))"

section \<open>Runs\<close>

text \<open>What may happen, in any order: calls of the library and rounds of the producer.\<close>

datatype fsel_event = EOpen string "32 word" | ERelease nat | ERead nat nat
  | EPoll nat "nat option" bool | EProduce

fun fsel_do :: "fsel_event \<Rightarrow> fsel \<Rightarrow> fsel res" where
  "fsel_do (EOpen path flags) s =
     (case fsel_open path flags s of
        Inl (Errno e) \<Rightarrow> Inr s | Inl (Fault f) \<Rightarrow> crash f | Inr (fh, s') \<Rightarrow> Inr s')"
| "fsel_do (ERelease fh) s = Inr (fsel_release fh s)"
| "fsel_do (ERead fh sz) s = Inr (snd (fsel_read fh sz s))"
| "fsel_do (EPoll fh ph ctx) s = map_sum id snd (fsel_poll fh ph ctx s)"
| "fsel_do EProduce s = producer_round s"

fun fsel_run :: "fsel_event list \<Rightarrow> fsel \<Rightarrow> fsel res" where
  "fsel_run [] s = Inr s"
| "fsel_run (ev # evs) s =
     (case fsel_do ev s of Inl e \<Rightarrow> Inl e | Inr s' \<Rightarrow> fsel_run evs s')"

text \<open>The handle in \<open>fi->fh\<close> is one that \<open>open\<close> returned.\<close>

fun valid_event :: "fsel_event \<Rightarrow> bool" where
  "valid_event (ERelease fh) = (fh < FSEL_FILES)"
| "valid_event (ERead fh sz) = (fh < FSEL_FILES)"
| "valid_event (EPoll fh ph ctx) = (fh < FSEL_FILES)"
| "valid_event ev = True"

fun event_handles :: "fsel_event \<Rightarrow> nat list" where
  "event_handles (EPoll fh (Some p) ctx) = [p]"
| "event_handles ev = []"

text \<open>The poll handles the library passed, and those the server keeps.\<close>

definition handles :: "fsel_event list \<Rightarrow> nat list" where
  "handles evs = concat (map event_handles evs)"

definition held :: "fsel \<Rightarrow> nat list" where
  "held s = List.map_filter id (poll_handle s)"

section \<open>Masks and handles\<close>

lemma mask_test: "i < 32 \<Longrightarrow> m AND shl1 i \<noteq> 0 \<longleftrightarrow> bit (m :: 32 word) i"
  by (simp add: shl1_def push_bit_of_1 and_exp_eq_0_iff_not_bit)

lemma mask_set: "i < 32 \<Longrightarrow> bit ((m :: 32 word) OR shl1 i) j \<longleftrightarrow> bit m j \<or> j = i"
  by (auto simp: shl1_def bit_simps)

lemma mask_clear: "i < 32 \<Longrightarrow> bit ((m :: 32 word) AND NOT (shl1 i)) j \<longleftrightarrow> bit m j \<and> j \<noteq> i"
  by (auto simp: shl1_def bit_simps dest: bit_imp_le_length)

lemma mset_map_filter_update:
  assumes "i < length xs"
  shows "mset (List.map_filter id (xs[i := v])) + mset (List.map_filter id [xs ! i])
    = mset (List.map_filter id xs) + mset (List.map_filter id [v])"
proof -
  have "List.map_filter id xs
      = List.map_filter id (take i xs) @ List.map_filter id [xs ! i] @ List.map_filter id (drop (Suc i) xs)"
    by (subst id_take_nth_drop [OF assms]) (simp add: List.map_filter_def)
  moreover have "List.map_filter id (xs[i := v])
      = List.map_filter id (take i xs) @ List.map_filter id [v] @ List.map_filter id (drop (Suc i) xs)"
    by (subst upd_conv_take_nth_drop [OF assms]) (simp add: List.map_filter_def)
  ultimately show ?thesis by simp
qed

section \<open>The invariant\<close>

text \<open>No counter exceeds its bound, the mask marks exactly the files with a stored handle, and every
  handle of the list \<open>given\<close> is either still kept or destroyed, but once only.\<close>

definition fsel_inv :: "nat list \<Rightarrow> fsel \<Rightarrow> bool" where
  "fsel_inv given s \<longleftrightarrow> length (cnt s) = FSEL_FILES \<and> length (poll_handle s) = FSEL_FILES
     \<and> (\<forall>i < FSEL_FILES. cnt s ! i \<le> FSEL_CNT_MAX)
     \<and> (\<forall>i < FSEL_FILES. bit (notify_mask s) i \<longleftrightarrow> poll_handle s ! i \<noteq> None)
     \<and> mset (destroyed s) + mset (held s) = mset given
     \<and> idx s < FSEL_FILES \<and> nr s \<in> {1, 2, 4}"

lemma fsel_inv_init: "fsel_inv [] fsel_init"
  by (simp add: fsel_inv_def fsel_init_def held_def List.map_filter_def fsel_consts)

lemma held_replace:
  assumes "i < length (poll_handle s)" "poll_handle s ! i = Some old"
  shows "add_mset old (mset (List.map_filter id ((poll_handle s)[i := v])))
    = mset (held s) + mset (List.map_filter id [v])"
  using mset_map_filter_update [OF assms(1), of v] assms(2) by (simp add: held_def)

lemma held_store:
  assumes "i < length (poll_handle s)" "poll_handle s ! i = None"
  shows "mset (List.map_filter id ((poll_handle s)[i := v])) = mset (held s) + mset (List.map_filter id [v])"
  using mset_map_filter_update [OF assms(1), of v] assms(2) by (simp add: held_def)

text \<open>A stored handle has not been destroyed.\<close>

lemma stored_alive:
  assumes "fsel_inv given s" "distinct given" "i < FSEL_FILES" "poll_handle s ! i = Some ph"
  shows "ph \<notin> set (destroyed s)"
proof -
  have "Some ph \<in> set (poll_handle s)"
    using assms by (metis fsel_inv_def nth_mem)
  then have "ph \<in> set (held s)"
    by (force simp: held_def List.map_filter_def)
  moreover have "mset (destroyed s @ held s) = mset given"
    using assms(1) by (simp add: fsel_inv_def)
  then have "distinct (destroyed s @ held s)"
    using assms(2) by (metis mset_eq_imp_distinct_iff)
  ultimately show ?thesis by auto
qed

lemma produce_one_inv:
  assumes "fsel_inv given s" "distinct given" "t < FSEL_FILES"
  shows "\<exists>s'. produce_one t s = Inr s' \<and> fsel_inv given s' \<and> idx s' = idx s \<and> nr s' = nr s"
proof (cases "cnt s ! t = FSEL_CNT_MAX \<or> \<not> fuse_set s \<or> poll_handle s ! t = None")
  case True
  then show ?thesis
    using assms mask_test [of t "notify_mask s"]
    by (auto simp: produce_one_def fsel_inv_def Let_def held_def fsel_consts nth_list_update le_less_Suc_eq
        less_Suc_eq_le)
next
  case False
  then obtain ph where ph: "poll_handle s ! t = Some ph" by auto
  have b: "notify_mask s AND shl1 t \<noteq> 0"
    using assms ph mask_test [of t "notify_mask s"] by (auto simp: fsel_inv_def fsel_consts)
  have a: "ph \<notin> set (destroyed s)" by (rule stored_alive [OF assms ph])
  have l: "t < length (poll_handle s)" using assms by (simp add: fsel_inv_def)
  have m: "add_mset ph (mset (destroyed s) + mset (List.map_filter id ((poll_handle s)[t := None]))) = mset given"
    using assms(1) held_replace [OF l ph, of None] by (simp add: fsel_inv_def flip: union_mset_add_mset_right)
  show ?thesis
    using assms False ph a b m
    by (auto simp: produce_one_def fsel_inv_def Let_def notify_poll_def destroy_handle_def held_def
        fsel_consts nth_list_update mask_clear)
qed

lemma produce_loop_inv:
  assumes "fsel_inv given s" "distinct given" "t < FSEL_FILES"
  shows "\<exists>s'. produce_loop k t s = Inr s' \<and> fsel_inv given s' \<and> idx s' = idx s \<and> nr s' = nr s"
  using assms
proof (induction k arbitrary: t s)
  case (Suc k)
  obtain s1 where "produce_one t s = Inr s1" "fsel_inv given s1" "idx s1 = idx s" "nr s1 = nr s"
    using produce_one_inv [OF Suc.prems] by auto
  then show ?case
    using Suc.IH [of s1 "(t + FSEL_FILES div nr s1) mod FSEL_FILES"] Suc.prems
    by (simp add: FSEL_FILES_def)
qed simp

lemma producer_round_inv:
  assumes "fsel_inv given s" "distinct given"
  shows "\<exists>s'. producer_round s = Inr s' \<and> fsel_inv given s' \<and> idx s' = (idx s + 1) mod FSEL_FILES"
proof -
  have "idx s < FSEL_FILES" using assms(1) by (simp add: fsel_inv_def)
  then obtain s1 where s1: "produce_loop (nr s) (idx s) s = Inr s1" "fsel_inv given s1" "idx s1 = idx s"
    using produce_loop_inv [OF assms] by blast
  then have "fsel_inv given (s1\<lparr>idx := (idx s1 + 1) mod FSEL_FILES\<rparr>)"
    "nr s1 \<in> {1, 2, 4}"
    by (auto simp: fsel_inv_def held_def FSEL_FILES_def)
  then show ?thesis
    using s1 by (auto simp: producer_round_def Let_def fsel_inv_def held_def)
qed

text \<open>A call of \<open>poll\<close> takes over the handle it is given.\<close>

lemma learn_fuse_inv: "fsel_inv given (learn_fuse ctx s) = fsel_inv given s"
  by (simp add: learn_fuse_def fsel_inv_def held_def)

lemma store_handle_inv:
  assumes "fsel_inv given s" "distinct (given @ [p])" "fh < FSEL_FILES"
  shows "\<exists>s'. store_handle fh p s = Inr s' \<and> fsel_inv (given @ [p]) s' \<and> cnt s' = cnt s
    \<and> fuse_set s' = fuse_set s \<and> idx s' = idx s \<and> notified s' = notified s
    \<and> poll_handle s' = (poll_handle s)[fh := Some p]"
proof (cases "poll_handle s ! fh")
  case None
  then show ?thesis
    using assms held_store [OF _ None, of "Some p"]
    by (auto simp: store_handle_def held_def fsel_inv_def fsel_consts mask_set nth_list_update)
next
  case old: (Some q)
  have l: "fh < length (poll_handle s)" using assms by (simp add: fsel_inv_def)
  have "q \<notin> set (destroyed s)"
    using stored_alive [OF assms(1) _ assms(3) old] assms(2) by simp
  moreover have "add_mset q (mset (destroyed s) + mset (List.map_filter id ((poll_handle s)[fh := Some p])))
      = add_mset p (mset given)"
    using assms(1) held_replace [OF l old, of "Some p"]
    by (simp add: fsel_inv_def flip: union_mset_add_mset_right)
  ultimately show ?thesis
    using assms old
    by (auto simp: store_handle_def destroy_handle_def held_def fsel_inv_def fsel_consts mask_set
        nth_list_update)
qed

lemma fsel_poll_inv:
  assumes "fsel_inv given s" "distinct (given @ event_handles (EPoll fh ph ctx))" "fh < FSEL_FILES"
  shows "\<exists>s'. fsel_poll fh ph ctx s = Inr (cnt s ! fh \<noteq> 0, s')
    \<and> fsel_inv (given @ event_handles (EPoll fh ph ctx)) s' \<and> cnt s' = cnt s \<and> idx s' = idx s
    \<and> fuse_set s' = (fuse_set s \<or> ctx) \<and> notified s' = notified s
    \<and> poll_handle s' = (case ph of None \<Rightarrow> poll_handle s | Some p \<Rightarrow> (poll_handle s)[fh := Some p])"
proof (cases ph)
  case None
  then show ?thesis using assms by (auto simp: fsel_poll_def learn_fuse_def fsel_inv_def held_def)
next
  case (Some p)
  then obtain s1 where s1: "store_handle fh p (learn_fuse ctx s) = Inr s1" "fsel_inv (given @ [p]) s1"
    "cnt s1 = cnt s" "idx s1 = idx s" "fuse_set s1 = (fuse_set s \<or> ctx)" "notified s1 = notified s"
    "poll_handle s1 = (poll_handle s)[fh := Some p]"
    using store_handle_inv [of given "learn_fuse ctx s" p fh] assms
    by (auto simp: learn_fuse_inv) (auto simp: learn_fuse_def split: if_splits)
  have i: "fsel_inv g (s1\<lparr>polled_zero := z\<rparr>) = fsel_inv g s1" for g z
    by (simp add: fsel_inv_def held_def)
  show ?thesis using s1 Some by (simp add: fsel_poll_def i)
qed

lemma fsel_read_inv: "fsel_inv given s \<Longrightarrow> fh < FSEL_FILES \<Longrightarrow> fsel_inv given (snd (fsel_read fh sz s))"
  by (auto simp: fsel_read_def fsel_inv_def held_def nth_list_update fsel_consts)

lemma fsel_open_inv: "fsel_inv given s \<Longrightarrow> fsel_open path flags s = Inr (fh, s') \<Longrightarrow> fsel_inv given s'"
  by (auto simp: fsel_open_def fsel_inv_def held_def Let_def split: if_splits)

lemma fsel_do_inv:
  assumes "fsel_inv given s" "distinct (given @ event_handles ev)" "valid_event ev"
  shows "\<exists>s'. fsel_do ev s = Inr s' \<and> fsel_inv (given @ event_handles ev) s'"
proof (cases ev)
  case (EOpen path flags)
  then show ?thesis
    using assms fsel_open_inv [OF assms(1)]
    by (auto split: sum.splits stop.splits) (auto simp: fsel_open_def Let_def split: if_splits)
next
  case (ERelease fh)
  then show ?thesis using assms by (simp add: fsel_release_def fsel_inv_def held_def)
next
  case (ERead fh sz)
  then show ?thesis using assms fsel_read_inv by simp
next
  case (EPoll fh ph ctx)
  then show ?thesis using fsel_poll_inv [of given s fh ph ctx] assms by auto
next
  case EProduce
  then show ?thesis using producer_round_inv [OF assms(1)] assms(2) by auto
qed

lemma fsel_run_inv:
  assumes "fsel_inv given s" "distinct (given @ handles evs)" "\<forall>ev \<in> set evs. valid_event ev"
  shows "\<exists>s'. fsel_run evs s = Inr s' \<and> fsel_inv (given @ handles evs) s'"
  using assms
proof (induction evs arbitrary: given s)
  case (Cons ev evs)
  have "distinct (given @ event_handles ev)" using Cons.prems(2) by (auto simp: handles_def)
  then obtain s1 where s1: "fsel_do ev s = Inr s1" "fsel_inv (given @ event_handles ev) s1"
    using fsel_do_inv [OF Cons.prems(1), of ev] Cons.prems(3) by auto
  have "distinct ((given @ event_handles ev) @ handles evs)" using Cons.prems(2) by (simp add: handles_def)
  then show ?case using Cons.IH [OF s1(2)] Cons.prems(3) s1(1) by (simp add: handles_def)
qed (simp add: handles_def)

section \<open>Waiting\<close>

text \<open>A reader waits for file \<open>i\<close> with a handle until the handle has been notified.\<close>

definition waits :: "nat \<Rightarrow> nat \<Rightarrow> fsel \<Rightarrow> bool" where
  "waits i ph s \<longleftrightarrow> ph \<in> set (notified s) \<or> poll_handle s ! i = Some ph \<and> cnt s ! i = 0 \<and> fuse_set s"

lemma produce_one_waits:
  assumes "fsel_inv given s" "waits i ph s" "i < FSEL_FILES" "t < FSEL_FILES" "produce_one t s = Inr s'"
  shows "waits i ph s'" "t = i \<or> ph \<in> set (notified s) \<Longrightarrow> ph \<in> set (notified s')"
proof -
  have "bit (notify_mask s) i \<longleftrightarrow> poll_handle s ! i \<noteq> None" "length (cnt s) = 16" "length (poll_handle s) = 16"
    using assms(1,3) by (simp_all add: fsel_inv_def fsel_consts)
  then show "waits i ph s'" "t = i \<or> ph \<in> set (notified s) \<Longrightarrow> ph \<in> set (notified s')"
    using assms(2-5) mask_test [of t "notify_mask s"]
    by (auto simp: produce_one_def waits_def notify_poll_def destroy_handle_def fsel_consts Let_def
        nth_list_update split: if_splits option.splits sum.splits)
qed

lemma produce_loop_waits:
  assumes "fsel_inv given s" "distinct given" "waits i ph s" "i < FSEL_FILES" "t < FSEL_FILES"
    and "produce_loop k t s = Inr s'"
  shows "waits i ph s' \<and> (k > 0 \<and> t = i \<or> ph \<in> set (notified s) \<longrightarrow> ph \<in> set (notified s'))"
  using assms
proof (induction k arbitrary: t s)
  case (Suc k)
  obtain s1 where s1: "produce_one t s = Inr s1" "fsel_inv given s1"
    using produce_one_inv [OF Suc.prems(1,2,5)] by auto
  note w = produce_one_waits [OF Suc.prems(1,3,4,5) s1(1)]
  show ?case
    using Suc.IH [of s1 "(t + FSEL_FILES div nr s1) mod FSEL_FILES"] s1 w Suc.prems
    by (auto simp: FSEL_FILES_def)
qed simp

text \<open>The rounds until the producer comes to file \<open>i\<close>.\<close>

definition distance :: "nat \<Rightarrow> fsel \<Rightarrow> nat" where
  "distance i s = (i + FSEL_FILES - idx s) mod FSEL_FILES"

lemma distance_step:
  assumes "i < FSEL_FILES" "idx s < FSEL_FILES" "i \<noteq> idx s" "idx s' = (idx s + 1) mod FSEL_FILES"
  shows "Suc (distance i s') = distance i s"
proof -
  have "i < 16" "idx s < 16" using assms by (simp_all add: FSEL_FILES_def)
  then show ?thesis
    using assms(3,4)
    by (cases "idx s = 15"; cases "i < idx s") (auto simp: distance_def FSEL_FILES_def mod_if)
qed

lemma producer_round_waits:
  assumes "fsel_inv given s" "distinct given" "waits i ph s" "i < FSEL_FILES" "producer_round s = Inr s'"
  shows "waits i ph s' \<and> (ph \<in> set (notified s') \<or> Suc (distance i s') = distance i s)
    \<and> (ph \<in> set (notified s) \<longrightarrow> ph \<in> set (notified s'))"
proof -
  have b: "idx s < FSEL_FILES" "nr s > 0" using assms(1) by (auto simp: fsel_inv_def)
  then obtain s1 where s1: "produce_loop (nr s) (idx s) s = Inr s1" "idx s1 = idx s"
    using produce_loop_inv [OF assms(1,2)] by blast
  have s': "poll_handle s' = poll_handle s1" "cnt s' = cnt s1" "fuse_set s' = fuse_set s1"
    "notified s' = notified s1" "idx s' = (idx s1 + 1) mod FSEL_FILES"
    using assms(5) s1(1) by (auto simp: producer_round_def Let_def split: if_splits)
  show ?thesis
    using produce_loop_waits [OF assms(1-4) b(1) s1(1)] b distance_step [OF assms(4) b(1), of s'] s' s1(2)
    by (auto simp: waits_def)
qed

fun polls :: "nat \<Rightarrow> fsel_event \<Rightarrow> bool" where
  "polls i (EPoll fh ph ctx) \<longleftrightarrow> fh = i \<and> ph \<noteq> None"
| "polls i ev \<longleftrightarrow> False"

lemma quiet_waits:
  assumes "fsel_inv given s" "distinct (given @ event_handles ev)" "valid_event ev" "i < FSEL_FILES"
    and "waits i ph s" "\<not> polls i ev" "ev \<noteq> EProduce" "fsel_do ev s = Inr s'"
  shows "waits i ph s' \<and> distance i s' = distance i s \<and> notified s' = notified s"
proof (cases ev)
  case (EOpen path flags)
  then show ?thesis
    using assms(5,8) by (auto simp: fsel_open_def Let_def waits_def distance_def split: if_splits)
next
  case (ERead fh sz)
  then show ?thesis
    using assms(1,3,4,5,8)
    by (auto simp: fsel_read_def Let_def waits_def distance_def fsel_inv_def nth_list_update)
next
  case (EPoll fh p ctx)
  then obtain s1 where "fsel_poll fh p ctx s = Inr (cnt s ! fh \<noteq> 0, s1)" "cnt s1 = cnt s" "idx s1 = idx s"
    "fuse_set s1 = (fuse_set s \<or> ctx)" "notified s1 = notified s"
    "poll_handle s1 = (case p of None \<Rightarrow> poll_handle s | Some p \<Rightarrow> (poll_handle s)[fh := Some p])"
    using fsel_poll_inv [OF assms(1), of fh p ctx] assms(2,3) by auto
  then show ?thesis
    using EPoll assms(5,6,8) by (auto simp: waits_def distance_def split: option.splits)
qed (use assms in \<open>auto simp: fsel_release_def waits_def distance_def\<close>)

lemma run_waits:
  assumes "fsel_inv given s" "distinct (given @ handles evs)" "\<forall>ev \<in> set evs. valid_event ev \<and> \<not> polls i ev"
    and "i < FSEL_FILES" "waits i ph s" "fsel_run evs s = Inr s'"
    and "ph \<in> set (notified s) \<or> distance i s < length (filter ((=) EProduce) evs)"
  shows "ph \<in> set (notified s')"
  using assms
proof (induction evs arbitrary: given s)
  case (Cons ev evs)
  have d: "distinct (given @ event_handles ev)" "distinct ((given @ event_handles ev) @ handles evs)"
    using Cons.prems(2) by (auto simp: handles_def)
  obtain s1 where s1: "fsel_do ev s = Inr s1" "fsel_inv (given @ event_handles ev) s1"
    using fsel_do_inv [OF Cons.prems(1) d(1)] Cons.prems(3) by auto
  have "waits i ph s1 \<and> (ph \<in> set (notified s1) \<or> distance i s1 < length (filter ((=) EProduce) evs))"
  proof (cases "ev = EProduce")
    case True
    then show ?thesis
      using producer_round_waits [OF Cons.prems(1) _ Cons.prems(5,4), of s1] Cons.prems(2,7) s1(1) by auto
  next
    case False
    then show ?thesis
      using quiet_waits [OF Cons.prems(1) d(1) _ Cons.prems(4,5) _ False s1(1)] Cons.prems(3,7) by auto
  qed
  then show ?case
    using Cons.IH [OF s1(2) d(2)] Cons.prems(3,4,6) s1(1) by simp
qed simp

section \<open>Opening\<close>

text \<open>The sixteen one-character names stand for the sixteen files, and no other path does.\<close>

lemma index_hex: "i < FSEL_FILES \<Longrightarrow> path_index [CHR ''/'', hex_map ! i] = int i"
proof -
  have "\<forall>i < 16. path_index [CHR ''/'', hex_map ! i] = int i" by code_simp
  then show "i < FSEL_FILES \<Longrightarrow> path_index [CHR ''/'', hex_map ! i] = int i" by (simp add: FSEL_FILES_def)
qed

lemma hex_index:
  assumes "path_index path \<ge> 0"
  shows "\<exists>i < FSEL_FILES. path = [CHR ''/'', hex_map ! i] \<and> path_index path = int i"
proof -
  obtain a c where p: "path = [a, c]"
    using assms by (auto simp: path_index_def numeral_2_eq_2 length_Suc_conv split: if_splits)
  then have "a = CHR ''/''" "isxdigit c" "\<not> islower c"
    using assms by (auto simp: path_index_def split: if_splits)
  then have "c \<in> set hex_map" by (auto simp: isxdigit_def islower_def hex_map_def)
  moreover have "length hex_map = FSEL_FILES" by (simp add: hex_map_def FSEL_FILES_def)
  ultimately obtain i where "i < FSEL_FILES" "c = hex_map ! i"
    by (metis in_set_conv_nth)
  then show ?thesis using index_hex p \<open>a = _\<close> by auto
qed

text \<open>One opener at a time of each file.\<close>

definition open_file :: "nat \<Rightarrow> fsel \<Rightarrow> fsel option" where
  "open_file i s =
     (case fsel_open [CHR ''/'', hex_map ! (i mod FSEL_FILES)] 0 s of Inr (fh, s') \<Rightarrow> Some s' | Inl e \<Rightarrow> None)"

definition open_count :: "nat \<Rightarrow> fsel \<Rightarrow> int" where
  "open_count i s = (if bit (open_mask s) (i mod FSEL_FILES) then 1 else 0)"

lemma open_hex:
  "i < FSEL_FILES \<Longrightarrow> fsel_open [CHR ''/'', hex_map ! i] 0 s
    = (if bit (open_mask s) i then fail EBUSY else Inr (i, s\<lparr>open_mask := open_mask s OR shl1 i\<rparr>))"
  using mask_test [of i "open_mask s"] index_hex [of i]
  by (simp add: fsel_open_def fsel_consts)

lemma mod_files: "i mod FSEL_FILES < FSEL_FILES" "i mod FSEL_FILES < 32"
proof -
  show "i mod FSEL_FILES < FSEL_FILES" by (simp add: FSEL_FILES_def)
  then show "i mod FSEL_FILES < 32" by (simp add: FSEL_FILES_def)
qed

interpretation fsel_excl: exclusive "open_file i" "fsel_release (i mod FSEL_FILES)" "open_count i" "\<lambda>_. True"
  by unfold_locales
    (auto simp: open_file_def open_count_def fsel_release_def open_hex mod_files mask_set mask_clear
      split: if_splits)

section \<open>The client\<close>

text \<open>\<open>main\<close> of \<open>fselclient.c\<close>: it opens all files, then shows for every file that \<open>select\<close> found ready how
  many bytes a read of up to 4096 returned. The server's open handle stands for the descriptor.\<close>

fun client_open :: "nat list \<Rightarrow> fsel \<Rightarrow> (nat list \<times> fsel) res" where
  "client_open [] s = Inr ([], s)"
| "client_open (i # is) s =
     (case fsel_open [CHR ''/'', hex_map ! i] 0 s of
        Inl e \<Rightarrow> Inl e
      | Inr (fd, s1) \<Rightarrow> map_sum id (\<lambda>(fds, s2). (fd # fds, s2)) (client_open is s1))"

fun client_row :: "(nat \<Rightarrow> bool) \<Rightarrow> nat list \<Rightarrow> fsel \<Rightarrow> nat option list \<times> fsel" where
  "client_row rfds [] s = ([], s)"
| "client_row rfds (fd # fds) s =
     (if \<not> rfds fd then (let (row, s') = client_row rfds fds s in (None # row, s'))
      else let (xs, s1) = fsel_read fd 4096 s; (row, s') = client_row rfds fds s1 in
        (Some (length xs) # row, s'))"

lemma client_open_ok:
  "distinct is \<Longrightarrow> \<forall>i \<in> set is. i < FSEL_FILES \<and> \<not> bit (open_mask s) i \<Longrightarrow>
    \<exists>s'. client_open is s = Inr (is, s') \<and> cnt s' = cnt s
      \<and> (\<forall>i < FSEL_FILES. bit (open_mask s') i \<longleftrightarrow> bit (open_mask s) i \<or> i \<in> set is)"
proof (induction "is" arbitrary: s)
  case (Cons i "is")
  let ?s = "s\<lparr>open_mask := open_mask s OR shl1 i\<rparr>"
  have "\<forall>j \<in> set is. j < FSEL_FILES \<and> \<not> bit (open_mask ?s) j"
    using Cons.prems by (auto simp: mask_set FSEL_FILES_def)
  then obtain s' where "client_open is ?s = Inr (is, s')" "cnt s' = cnt ?s"
    "\<forall>i < FSEL_FILES. bit (open_mask s') i \<longleftrightarrow> bit (open_mask ?s) i \<or> i \<in> set is"
    using Cons.IH [of ?s] Cons.prems(1) by auto
  then show ?case
    using Cons.prems(2) by (auto simp: open_hex mask_set FSEL_FILES_def)
qed simp

text \<open>A row shows the bytes of every file that \<open>select\<close> found ready, and empties these files.\<close>

lemma client_row_drains:
  assumes "distinct fds" "\<forall>fd \<in> set fds. cnt s ! fd \<le> 4096" "\<forall>fd \<in> set fds. fd < length (cnt s)"
  shows "fst (client_row rfds fds s) = map (\<lambda>fd. if rfds fd then Some (cnt s ! fd) else None) fds
    \<and> (\<forall>i < length (cnt s). cnt (snd (client_row rfds fds s)) ! i
        = (if i \<in> set fds \<and> rfds i then 0 else cnt s ! i))"
  using assms
proof (induction fds arbitrary: s)
  case (Cons fd fds)
  show ?case
  proof (cases "rfds fd")
    case False
    then show ?thesis using Cons.IH [of s] Cons.prems by (auto simp: Let_def split_beta)
  next
    case True
    let ?s = "snd (fsel_read fd 4096 s)"
    have c: "cnt ?s = (cnt s)[fd := 0]" "length (fst (fsel_read fd 4096 s)) = cnt s ! fd"
      using Cons.prems(2) by (auto simp: fsel_read_def Let_def)
    have "\<forall>fd' \<in> set fds. cnt ?s ! fd' = cnt s ! fd'"
      using Cons.prems(1) c(1) by (metis distinct.simps(2) nth_list_update_neq)
    then show ?thesis
      using Cons.IH [of ?s] Cons.prems c True
      by (auto simp: Let_def split_beta nth_list_update)
  qed
qed simp

section \<open>Properties\<close>

text \<open>C15: Whatever calls the library makes (with poll handles that are not used twice) and whenever the producer
  runs, no poll handle is destroyed twice, used after it was destroyed, missing, or lost; a file never
  holds more than ten bytes; and a handle is kept for exactly the files marked in the mask.\<close>

theorem fsel_safe:
  assumes "distinct (handles evs)" "\<forall>ev \<in> set evs. valid_event ev"
  shows "\<exists>s. fsel_run evs fsel_init = Inr s
    \<and> (\<forall>i < FSEL_FILES. cnt s ! i \<le> 10 \<and> (bit (notify_mask s) i \<longleftrightarrow> poll_handle s ! i \<noteq> None))
    \<and> mset (destroyed s) + mset (held s) = mset (handles evs)"
  using fsel_run_inv [OF fsel_inv_init, of evs] assms
  by (auto simp: fsel_inv_def FSEL_CNT_MAX_def)

theorem fsel_safe_witness:
  "\<exists>s. fsel_run [EProduce, EPoll 1 (Some 7) True, EPoll 1 (Some 8) True, EProduce] fsel_init = Inr s
    \<and> (\<forall>i < FSEL_FILES. cnt s ! i \<le> 10 \<and> (bit (notify_mask s) i \<longleftrightarrow> poll_handle s ! i \<noteq> None))
    \<and> mset (destroyed s) + mset (held s) = {#7, 8#}"
  using fsel_safe [of "[EProduce, EPoll 1 (Some 7) True, EPoll 1 (Some 8) True, EProduce]"]
  by (auto simp: handles_def FSEL_FILES_def)

text \<open>C14: No wakeup is lost. A reader that polls an empty file, while the library's context is known, is notified
  before the producer has run sixteen more times, whatever other calls come between, as long as
  nobody else polls that file with a handle of his own.\<close>

theorem fsel_wakeup:
  assumes "fsel_run evs0 fsel_init = Inr s0" "fsel_poll i (Some ph) True s0 = Inr (False, s1)"
    and "distinct (handles evs0 @ ph # handles evs)" "i < FSEL_FILES"
    and "\<forall>ev \<in> set (evs0 @ evs). valid_event ev" "\<forall>ev \<in> set evs. \<not> polls i ev"
    and "16 \<le> length (filter ((=) EProduce) evs)"
  shows "\<exists>s2. fsel_run evs s1 = Inr s2 \<and> ph \<in> set (notified s2)"
proof -
  have s0: "fsel_inv (handles evs0) s0"
    using fsel_run_inv [OF fsel_inv_init, of evs0] assms(1,3,5) by auto
  then have s1: "fsel_inv (handles evs0 @ [ph]) s1" "waits i ph s1"
    using fsel_poll_inv [of "handles evs0" s0 i "Some ph" True] assms(2-4)
    by (auto simp: waits_def fsel_inv_def)
  obtain s2 where s2: "fsel_run evs s1 = Inr s2"
    using fsel_run_inv [OF s1(1), of evs] assms(3,5) by auto
  have "distance i s1 < 16" by (simp add: distance_def FSEL_FILES_def)
  then show ?thesis
    using run_waits [OF s1(1) _ _ assms(4) s1(2) s2] assms(3,5,6,7) s2 by auto
qed

theorem fsel_wakeup_witness:
  "\<exists>s0 s1 s2. fsel_run [EProduce] fsel_init = Inr s0 \<and> fsel_poll 3 (Some 7) True s0 = Inr (False, s1)
    \<and> fsel_run (replicate 16 EProduce) s1 = Inr s2 \<and> 7 \<in> set (notified s2)"
proof -
  obtain s0 where s0: "fsel_run [EProduce] fsel_init = Inr s0" "cnt s0 ! 3 = 0"
    by (auto simp: producer_round_def produce_one_def fsel_init_def fsel_consts Let_def)
  then have i: "fsel_inv [] s0"
    using fsel_run_inv [OF fsel_inv_init, of "[EProduce]"] by (auto simp: handles_def)
  obtain s1 where s1: "fsel_poll 3 (Some 7) True s0 = Inr (False, s1)"
    using fsel_poll_inv [OF i, of 3 "Some 7" True] s0(2) by (auto simp: FSEL_FILES_def)
  have "handles [EProduce] = []" "handles (replicate 16 EProduce) = []"
    by (simp_all add: handles_def)
  then have "\<exists>s2. fsel_run (replicate 16 EProduce) s1 = Inr s2 \<and> 7 \<in> set (notified s2)"
    using fsel_wakeup [OF s0(1) s1, of "replicate 16 EProduce"] by (simp add: FSEL_FILES_def)
  then show ?thesis using s0(1) s1 by blast
qed

end
