(* ===== verification/Cuse_Buffer.thy ===== *)
theory Cuse_Buffer
  imports Prelude
begin

unbundle bit_operations_syntax

text \<open>
  \<open>fuse/cusexmp.c\<close> with \<open>fuse/fioc.h\<close>: a character device in user space that is a resizable buffer, with
  reads and writes at a position, and ioctls that read the size, set it, and transfer data. The device
  does not see the client's memory: it answers an ioctl with a retry that names the parts it needs, and
  is called again with them. Sizes and positions are 64-bit words.
\<close>

section \<open>The buffer\<close>

record cuse =
  cbuf :: "char list"
  csize :: "64 word"

definition cuse_init :: cuse where
  "cuse_init = \<lparr>cbuf = [], csize = 0\<rparr>"

text \<open>\<open>realloc\<close> may fail for a given size; what it adds to a block is arbitrary. For size 0 it frees the
  block and returns a null pointer, which is no failure; null pointer and empty block are both \<open>[]\<close>.\<close>

record heap_env =
  realloc_ok :: "64 word \<Rightarrow> bool"
  junk :: "nat \<Rightarrow> char"

definition realloc :: "heap_env \<Rightarrow> char list \<Rightarrow> 64 word \<Rightarrow> char list option" where
  "realloc env b n =
     (if n = 0 then None
      else if realloc_ok env n then Some (take (unat n) b @ map (junk env) [length b..<unat n]) else None)"

text \<open>The first component is the value returned, 0 or an error code.\<close>

definition cusexmp_resize :: "heap_env \<Rightarrow> 64 word \<Rightarrow> cuse \<Rightarrow> errno option \<times> cuse" where
  "cusexmp_resize env new_size s =
     (if new_size = csize s then (None, s)
      else case (realloc env (cbuf s) new_size) of
        None \<Rightarrow> if new_size \<noteq> 0 then (Some ENOMEM, s) else (None, s\<lparr>cbuf := [], csize := 0\<rparr>)
      | Some new_buf \<Rightarrow>
          let new_buf' = (if csize s < new_size
                then blit new_buf (unat (csize s)) (replicate (unat (new_size - csize s)) NUL) else new_buf)
          in (None, s\<lparr>cbuf := new_buf', csize := new_size\<rparr>))"

definition cusexmp_expand :: "heap_env \<Rightarrow> 64 word \<Rightarrow> cuse \<Rightarrow> errno option \<times> cuse" where
  "cusexmp_expand env new_size s =
     (if csize s < new_size then cusexmp_resize env new_size s else (None, s))"

section \<open>Replies\<close>

text \<open>The addresses and lengths of parts of the client's memory.\<close>

type_synonym iov = "64 word \<times> 64 word"

datatype reply = ReplyErr errno | ReplyBuf "char list" | ReplyWrite "64 word"
  | ReplyRetry "iov list" "iov list" | ReplyIoctl "32 word" "64 word option"
  | ReplyIov "32 word" "64 word" "64 word" "char list"

text \<open>\<open>cusexmp_buf + off\<close> with \<open>size\<close> bytes, or bytes copied there; both only inside the block.\<close>

definition buf_read :: "cuse \<Rightarrow> 64 word \<Rightarrow> 64 word \<Rightarrow> char list res" where
  "buf_read s off n =
     (if length (cbuf s) < unat off + unat n then crash OutOfBounds
      else Inr (chunk (unat off) (unat n) (cbuf s)))"

definition buf_write :: "64 word \<Rightarrow> char list \<Rightarrow> cuse \<Rightarrow> cuse res" where
  "buf_write off xs s =
     (if length (cbuf s) < unat off + length xs then crash OutOfBounds
      else Inr (s\<lparr>cbuf := blit (cbuf s) (unat off) xs\<rparr>))"

text \<open>The part of a request that lies inside the buffer.\<close>

definition clip :: "cuse \<Rightarrow> 64 word \<Rightarrow> 64 word \<Rightarrow> 64 word \<times> 64 word" where
  "clip s off n =
     (let off' = (if csize s \<le> off then csize s else off) in
      (off', if csize s - off' < n then csize s - off' else n))"

definition cusexmp_read :: "64 word \<Rightarrow> 64 word \<Rightarrow> cuse \<Rightarrow> reply res" where
  "cusexmp_read n off s =
     (let (off', n') = clip s off n in map_sum id ReplyBuf (buf_read s off' n'))"

definition cusexmp_write :: "heap_env \<Rightarrow> char list \<Rightarrow> 64 word \<Rightarrow> cuse \<Rightarrow> (reply \<times> cuse) res" where
  "cusexmp_write env xs off s =
     (case cusexmp_expand env (off + of_nat (length xs)) s of
        (Some e, s1) \<Rightarrow> Inr (ReplyErr ENOMEM, s1)
      | (None, s1) \<Rightarrow> map_sum id (\<lambda>s2. (ReplyWrite (of_nat (length xs)), s2)) (buf_write off xs s1))"

section \<open>Ioctls\<close>

text \<open>\<open>struct fioc_rw_arg\<close>, 40 bytes.\<close>

record fioc_rw_arg =
  offset :: "64 word"
  abuf :: "64 word"
  asize :: "64 word"
  prev_size :: "64 word"
  new_size :: "64 word"

text \<open>The input of a call: none, a number, or the argument followed by data.\<close>

datatype ioctl_in = NoIn | InSize "64 word" | InArg fioc_rw_arg "char list"

fun in_bufsz :: "ioctl_in \<Rightarrow> nat" where
  "in_bufsz NoIn = 0"
| "in_bufsz (InSize n) = 8"
| "in_bufsz (InArg a xs) = 40 + length xs"

text \<open>\<open>*(size_t * )in_buf\<close>\<close>

fun in_size :: "ioctl_in \<Rightarrow> 64 word res" where
  "in_size NoIn = crash NullDeref"
| "in_size (InSize n) = Inr n"
| "in_size (InArg a xs) = Inr (offset a)"

text \<open>\<open>*(struct fioc_rw_arg * )in_buf\<close> and what follows it.\<close>

fun in_arg :: "ioctl_in \<Rightarrow> (fioc_rw_arg \<times> char list) res" where
  "in_arg NoIn = crash NullDeref"
| "in_arg (InSize n) = crash OutOfBounds"
| "in_arg (InArg a xs) = Inr (a, xs)"

definition in_iov0 :: "64 word \<Rightarrow> iov" where
  "in_iov0 addr = (addr, 40)"

definition out_iov2 :: "64 word \<Rightarrow> iov list" where
  "out_iov2 addr = [(addr + 24, 8), (addr + 32, 8)]"

definition fioc_do_rw :: "heap_env \<Rightarrow> 64 word \<Rightarrow> ioctl_in \<Rightarrow> nat \<Rightarrow> bool \<Rightarrow> cuse \<Rightarrow> (reply \<times> cuse) res" where
  "fioc_do_rw env addr inp out_bufsz is_read s =
     (if in_bufsz inp = 0 then Inr (ReplyRetry [in_iov0 addr] [], s)
      else case in_arg inp of
        Inl e \<Rightarrow> Inl e
      | Inr (arg, xs) \<Rightarrow>
          if is_read \<and> out_bufsz = 0 then
            Inr (ReplyRetry [in_iov0 addr] (out_iov2 addr @ [(abuf arg, asize arg)]), s)
          else if \<not> is_read \<and> asize arg \<noteq> 0 \<and> length xs = 0 then
            Inr (ReplyRetry [in_iov0 addr, (abuf arg, asize arg)] (out_iov2 addr), s)
          else let cur_size = csize s in
            if is_read then
              let (off, n) = clip s (offset arg) (asize arg) in
              map_sum id (\<lambda>ys. (ReplyIov (ucast n) cur_size (csize s) ys, s)) (buf_read s off n)
            else
              case cusexmp_expand env (offset arg + of_nat (length xs)) s of
                (Some e, s1) \<Rightarrow> Inr (ReplyErr ENOMEM, s1)
              | (None, s1) \<Rightarrow>
                  map_sum id (\<lambda>s2. (ReplyIov (of_nat (length xs)) cur_size (csize s2) [], s2))
                    (buf_write (offset arg) xs s1))"

definition FIOC_GET_SIZE :: "32 word" where "FIOC_GET_SIZE = 0x80084500"
definition FIOC_SET_SIZE :: "32 word" where "FIOC_SET_SIZE = 0x40084501"
definition FIOC_READ :: "32 word" where "FIOC_READ = 0x4502"
definition FIOC_WRITE :: "32 word" where "FIOC_WRITE = 0x4503"

lemmas fioc_defs = FIOC_GET_SIZE_def FIOC_SET_SIZE_def FIOC_READ_def FIOC_WRITE_def

text \<open>\<open>is_compat\<close> is the flag \<open>FUSE_IOCTL_COMPAT\<close>.\<close>

definition cusexmp_ioctl :: "heap_env \<Rightarrow> 32 word \<Rightarrow> 64 word \<Rightarrow> bool \<Rightarrow> ioctl_in \<Rightarrow> nat \<Rightarrow> cuse \<Rightarrow> (reply \<times> cuse) res" where
  "cusexmp_ioctl env cmd addr is_compat inp out_bufsz s =
     (if is_compat then Inr (ReplyErr ENOSYS, s)
      else if cmd = FIOC_GET_SIZE then
        (if out_bufsz = 0 then Inr (ReplyRetry [] [(addr, 8)], s)
         else Inr (ReplyIoctl 0 (Some (csize s)), s))
      else if cmd = FIOC_SET_SIZE then
        (if in_bufsz inp = 0 then Inr (ReplyRetry [(addr, 8)] [], s)
         else map_sum id (\<lambda>n. (ReplyIoctl 0 None, snd (cusexmp_resize env n s))) (in_size inp))
      else if cmd = FIOC_READ \<or> cmd = FIOC_WRITE then
        fioc_do_rw env addr inp out_bufsz (cmd = FIOC_READ) s
      else Inr (ReplyErr EINVAL, s))"

section \<open>Starting the device\<close>

record cusexmp_param =
  major :: nat
  minor :: nat
  pname :: "string option"
  is_help :: bool

text \<open>What \<open>fuse_opt_parse\<close> calls for an option: key 0 is \<open>-h\<close> and \<open>--help\<close>. The result is 1 for an
  argument to keep, otherwise the argument \<open>-ho\<close> is added to those passed on.\<close>

definition cusexmp_process_arg :: "int \<Rightarrow> cusexmp_param \<times> string list \<Rightarrow> int \<times> cusexmp_param \<times> string list" where
  "cusexmp_process_arg key st =
     (case st of (param, outargs) \<Rightarrow>
        if key = 0 then (0, param\<lparr>is_help := True\<rparr>, outargs @ [''-ho'']) else (1, param, outargs))"

text \<open>The text that \<open>main\<close> hands to \<open>cuse_lowlevel_main\<close>, in an array of 128 characters; \<open>None\<close> is the
  return with 1.\<close>

definition cusexmp_main :: "cusexmp_param option \<Rightarrow> string option" where
  "cusexmp_main parsed =
     (case parsed of
        None \<Rightarrow> None
      | Some param \<Rightarrow>
          if is_help param then Some ''DEVNAME=''
          else case pname param of
            None \<Rightarrow> None
          | Some n \<Rightarrow> Some (''DEVNAME='' @ take (128 - 9) n))"

section \<open>Every operation\<close>

definition cuse_inv :: "cuse \<Rightarrow> bool" where
  "cuse_inv s \<longleftrightarrow> length (cbuf s) = unat (csize s)"

lemma cuse_inv_less: "cuse_inv s \<Longrightarrow> length (cbuf s) < 2 ^ 64"
  unfolding cuse_inv_def by (simp, rule order_less_le_trans [OF unsigned_less]) simp

definition pad :: "nat \<Rightarrow> char list \<Rightarrow> char list" where
  "pad n b = take n b @ replicate (n - length b) NUL"

lemma length_pad [simp]: "length (pad n b) = n"
  by (simp add: pad_def)

lemma pad_same: "length b = n \<Longrightarrow> pad n b = b"
  by (simp add: pad_def)

lemma nth_pad: "i < n \<Longrightarrow> pad n b ! i = (if i < length b then b ! i else NUL)"
  by (simp add: pad_def nth_append)

lemma resize_outcome:
  assumes "cuse_inv s"
  shows "cusexmp_resize env n s
    = (if n = csize s \<or> n = 0 \<or> realloc_ok env n then (None, \<lparr>cbuf = pad (unat n) (cbuf s), csize = n\<rparr>)
       else (Some ENOMEM, s))"
proof -
  have l: "length (cbuf s) = unat (csize s)" using assms by (simp add: cuse_inv_def)
  show ?thesis
  proof (cases "csize s < n")
    case True
    then have u: "unat (csize s) < unat n" "unat (n - csize s) = unat n - unat (csize s)"
      by (simp_all add: word_less_nat_alt unat_sub_if')
    then show ?thesis
      using True l by (auto simp: cusexmp_resize_def realloc_def blit_def pad_def Let_def)
  next
    case False
    then have "unat n \<le> unat (csize s)" by (simp add: word_le_nat_alt not_less)
    then show ?thesis
      using False l by (auto simp: cusexmp_resize_def realloc_def pad_def Let_def)
  qed
qed

lemma resize_inv: "cuse_inv s \<Longrightarrow> cuse_inv (snd (cusexmp_resize env n s))"
  by (simp add: resize_outcome) (simp add: cuse_inv_def)

lemma expand_outcome:
  assumes "cuse_inv s"
  shows "cusexmp_expand env n s
    = (if n \<le> csize s then (None, s)
       else if realloc_ok env n then (None, \<lparr>cbuf = pad (unat n) (cbuf s), csize = n\<rparr>)
       else (Some ENOMEM, s))"
  using resize_outcome [OF assms, of env n] by (auto simp: cusexmp_expand_def)

text \<open>A transfer stays inside the buffer unless its end, as a number of 64 bits, wraps around.\<close>

definition fits :: "64 word \<Rightarrow> nat \<Rightarrow> bool" where
  "fits off n \<longleftrightarrow> unat off + n < 2 ^ 64"

lemma fits_end: "fits off n \<Longrightarrow> unat (off + of_nat n) = unat off + n"
  by (simp add: fits_def unat_word_ariths unat_of_nat)

lemma write_outcome:
  assumes "cuse_inv s" "fits off (length xs)"
  shows "cusexmp_write env xs off s
    = (let m = max (length (cbuf s)) (unat off + length xs); n = off + of_nat (length xs) in
       if n \<le> csize s \<or> realloc_ok env n
       then Inr (ReplyWrite (of_nat (length xs)),
              \<lparr>cbuf = blit (pad m (cbuf s)) (unat off) xs, csize = of_nat m\<rparr>)
       else Inr (ReplyErr ENOMEM, s))"
proof -
  define n :: "64 word" where "n = off + of_nat (length xs)"
  have n: "unat n = unat off + length xs"
    unfolding n_def by (rule fits_end [OF assms(2)])
  have l: "length (cbuf s) = unat (csize s)" using assms(1) by (simp add: cuse_inv_def)
  have m: "max (length (cbuf s)) (unat off + length xs) = (if n \<le> csize s then unat (csize s) else unat n)"
    using l n by (auto simp: word_le_nat_alt)
  have w: "buf_write off xs \<lparr>cbuf = pad k b, csize = c\<rparr>
      = Inr \<lparr>cbuf = blit (pad k b) (unat off) xs, csize = c\<rparr>" if "unat n \<le> k" for k b c
    using that n by (simp add: buf_write_def)
  have s: "s = \<lparr>cbuf = pad (unat (csize s)) (cbuf s), csize = csize s\<rparr>"
    using l by (simp add: pad_same)
  show ?thesis
  proof (cases "n \<le> csize s")
    case True
    then have "unat n \<le> unat (csize s)" by (simp add: word_le_nat_alt)
    then have "buf_write off xs s = Inr \<lparr>cbuf = blit (pad (unat (csize s)) (cbuf s)) (unat off) xs, csize = csize s\<rparr>"
      by (subst s) (rule w)
    then show ?thesis
      using True by (simp add: cusexmp_write_def expand_outcome [OF assms(1)] m Let_def flip: n_def)
  next
    case False
    then show ?thesis
      by (simp add: cusexmp_write_def expand_outcome [OF assms(1)] m Let_def w flip: n_def)
  qed
qed

lemma clip_bounds:
  assumes "cuse_inv s" "clip s off n = (off', n')"
  shows "unat off' = min (length (cbuf s)) (unat off)"
    and "unat n' = min (length (cbuf s) - min (length (cbuf s)) (unat off)) (unat n)"
proof -
  have l: "length (cbuf s) = unat (csize s)" using assms(1) by (simp add: cuse_inv_def)
  have c: "off' = min (csize s) off" "n' = min (csize s - off') n"
    using assms(2) by (auto simp: clip_def Let_def min_def split: if_splits)
  have um: "unat (min a b) = min (unat a) (unat b)" for a b :: "64 word"
    by (simp add: min_def word_le_nat_alt)
  show o: "unat off' = min (length (cbuf s)) (unat off)" by (simp add: c(1) um l)
  have "off' \<le> csize s" by (simp add: c(1))
  then have "unat (csize s - off') = unat (csize s) - unat off'" by (rule unat_sub)
  then show "unat n' = min (length (cbuf s) - min (length (cbuf s)) (unat off)) (unat n)"
    by (simp only: c(2) um l o)
qed

lemma clip_read:
  assumes "cuse_inv s" "clip s off n = (off', n')"
  shows "buf_read s off' n' = Inr (chunk (unat off) (unat n) (cbuf s))"
  using clip_bounds [OF assms] by (auto simp: buf_read_def chunk_def min_def)

lemma read_outcome:
  "cuse_inv s \<Longrightarrow> cusexmp_read n off s = Inr (ReplyBuf (chunk (unat off) (unat n) (cbuf s)))"
  by (simp add: cusexmp_read_def clip_read split: prod.split)

section \<open>The buffer as a file\<close>

text \<open>The abstract file: its size, and its bytes, zero beyond the size.\<close>

type_synonym afile = "nat \<times> (nat \<Rightarrow> char)"

definition cuse_file :: "cuse \<Rightarrow> afile" where
  "cuse_file s = (length (cbuf s), \<lambda>i. if i < length (cbuf s) then cbuf s ! i else NUL)"

datatype cuse_op = CWrite "64 word" "char list" | CRead "64 word" "64 word" | CSetSize "64 word"

fun file_op :: "cuse_op \<Rightarrow> afile \<Rightarrow> char list \<times> afile" where
  "file_op (CWrite off xs) (sz, f) = ([], max sz (unat off + length xs),
     \<lambda>i. if unat off \<le> i \<and> i < unat off + length xs then xs ! (i - unat off) else f i)"
| "file_op (CRead off n) (sz, f) = (map f [unat off..<min sz (unat off + unat n)], sz, f)"
| "file_op (CSetSize n) (sz, f) = ([], unat n, \<lambda>i. if i < unat n then f i else NUL)"

fun cuse_do :: "heap_env \<Rightarrow> cuse_op \<Rightarrow> cuse \<Rightarrow> (char list \<times> cuse) res" where
  "cuse_do env (CWrite off xs) s = map_sum id (\<lambda>(r, s'). ([], s')) (cusexmp_write env xs off s)"
| "cuse_do env (CRead off n) s =
     map_sum id (\<lambda>r. (case r of ReplyBuf ys \<Rightarrow> ys | _ \<Rightarrow> [], s)) (cusexmp_read n off s)"
| "cuse_do env (CSetSize n) s =
     map_sum id (\<lambda>(r, s'). ([], s')) (cusexmp_ioctl env FIOC_SET_SIZE 0 False (InSize n) 0 s)"

fun cuse_run :: "heap_env \<Rightarrow> cuse_op list \<Rightarrow> cuse \<Rightarrow> (char list list \<times> cuse) res" where
  "cuse_run env [] s = Inr ([], s)"
| "cuse_run env (p # ps) s =
     (case cuse_do env p s of
        Inl e \<Rightarrow> Inl e
      | Inr (out, s1) \<Rightarrow> map_sum id (\<lambda>(outs, s2). (out # outs, s2)) (cuse_run env ps s1))"

fun file_run :: "cuse_op list \<Rightarrow> afile \<Rightarrow> char list list \<times> afile" where
  "file_run [] v = ([], v)"
| "file_run (p # ps) v = (let (out, v1) = file_op p v; (outs, v2) = file_run ps v1 in (out # outs, v2))"

fun op_fits :: "cuse_op \<Rightarrow> bool" where
  "op_fits (CWrite off xs) = fits off (length xs)"
| "op_fits p = True"

lemma set_size: "cusexmp_ioctl env FIOC_SET_SIZE a False (InSize n) k s
    = Inr (ReplyIoctl 0 None, snd (cusexmp_resize env n s))"
  by (simp add: cusexmp_ioctl_def fioc_defs)

lemma cuse_op_refines:
  assumes "cuse_inv s" "\<forall>n. realloc_ok env n" "op_fits p"
  shows "\<exists>s'. cuse_do env p s = Inr (fst (file_op p (cuse_file s)), s') \<and> cuse_inv s'
    \<and> cuse_file s' = snd (file_op p (cuse_file s))"
proof (cases p)
  case (CWrite off xs)
  define m where "m = max (length (cbuf s)) (unat off + length xs)"
  have "m < 2 ^ 64" using assms(3) CWrite cuse_inv_less [OF assms(1)] by (simp add: m_def fits_def)
  then have "unat (of_nat m :: 64 word) = m" by (simp add: unat_of_nat)
  moreover have "unat off + length xs \<le> m" by (simp add: m_def)
  ultimately show ?thesis
    using CWrite assms write_outcome [OF assms(1), of off xs env]
    by (auto simp: cuse_inv_def cuse_file_def Let_def nth_blit nth_pad fun_eq_iff simp flip: m_def)
      (simp add: m_def)+
next
  case (CRead off n)
  have "chunk (unat off) (unat n) (cbuf s)
      = map (\<lambda>i. if i < length (cbuf s) then cbuf s ! i else NUL)
          [unat off..<min (length (cbuf s)) (unat off + unat n)]"
    by (rule nth_equalityI) (auto simp: chunk_def)
  then show ?thesis
    using CRead assms(1) read_outcome [OF assms(1), of n off] by (simp add: cuse_file_def)
next
  case (CSetSize n)
  then show ?thesis
    using assms(1,2) by (auto simp: set_size resize_outcome cuse_inv_def cuse_file_def nth_pad)
qed

section \<open>The dialogue of an ioctl\<close>

text \<open>What the kernel does with a retry: it fetches the parts of the client's memory that the device
  asked for (the argument at \<open>addr\<close>, and the data at the address in the argument) and calls again.\<close>

definition fetch :: "64 word \<Rightarrow> fioc_rw_arg \<Rightarrow> char list \<Rightarrow> iov list \<Rightarrow> ioctl_in" where
  "fetch addr arg xs iovs =
     (if iovs = [in_iov0 addr] then InArg arg []
      else if iovs = [in_iov0 addr, (abuf arg, asize arg)] then InArg arg xs
      else NoIn)"

fun dialogue :: "nat \<Rightarrow> heap_env \<Rightarrow> 32 word \<Rightarrow> 64 word \<Rightarrow> fioc_rw_arg \<Rightarrow> char list \<Rightarrow> ioctl_in \<Rightarrow> nat \<Rightarrow> cuse
    \<Rightarrow> (reply \<times> cuse) res option" where
  "dialogue 0 env cmd addr arg xs inp outsz s = None"
| "dialogue (Suc k) env cmd addr arg xs inp outsz s =
     (case cusexmp_ioctl env cmd addr False inp outsz s of
        Inr (ReplyRetry ins outs, s') \<Rightarrow>
          dialogue k env cmd addr arg xs (fetch addr arg xs ins) (sum_list (map (\<lambda>v. unat (snd v)) outs)) s'
      | r \<Rightarrow> Some r)"

text \<open>The ioctl's answer to a transfer, in terms of the reply to the plain call.\<close>

definition iov_reply :: "64 word \<Rightarrow> 64 word \<Rightarrow> reply \<Rightarrow> reply" where
  "iov_reply old new r =
     (case r of ReplyWrite n \<Rightarrow> ReplyIov (ucast n) old new []
      | ReplyBuf ys \<Rightarrow> ReplyIov (of_nat (length ys)) old new ys
      | _ \<Rightarrow> r)"

lemma ucast_of_nat_64: "(ucast (of_nat n :: 64 word) :: 32 word) = of_nat n"
  by transfer (simp add: take_bit_take_bit)

lemma dialogue_write:
  assumes "length xs = unat (asize arg)"
  shows "dialogue 3 env FIOC_WRITE addr arg xs NoIn 0 s
    = Some (map_sum id (\<lambda>(r, s'). (iov_reply (csize s) (csize s') r, s')) (cusexmp_write env xs (offset arg) s))"
proof -
  have once: "fioc_do_rw env addr (InArg arg xs) k False s
      = map_sum id (\<lambda>(r, s'). (iov_reply (csize s) (csize s') r, s')) (cusexmp_write env xs (offset arg) s)"
    if "asize arg = 0 \<or> xs \<noteq> []" for k
  proof -
    obtain e s1 where "cusexmp_expand env (offset arg + of_nat (length xs)) s = (e, s1)" by fastforce
    then show ?thesis
      using that by (cases e; cases "buf_write (offset arg) xs s1")
        (auto simp: fioc_do_rw_def cusexmp_write_def iov_reply_def ucast_of_nat_64)
  qed
  have final: "fioc_do_rw env addr (InArg arg xs) k False s \<noteq> Inr (ReplyRetry ins outs, s')"
    if "asize arg = 0 \<or> xs \<noteq> []" for k ins outs s'
  proof -
    obtain e s1 where "cusexmp_expand env (offset arg + of_nat (length xs)) s = (e, s1)" by fastforce
    then show ?thesis
      using that by (cases e; cases "buf_write (offset arg) xs s1") (auto simp: fioc_do_rw_def)
  qed
  have stop: "dialogue (Suc k) env FIOC_WRITE addr arg xs (InArg arg xs) out s
      = Some (fioc_do_rw env addr (InArg arg xs) out False s)" if "asize arg = 0 \<or> xs \<noteq> []" for k out
    using final [OF that, of out]
    by (auto simp: cusexmp_ioctl_def fioc_defs split: sum.split prod.split reply.split)
  show ?thesis
  proof (cases "asize arg = 0")
    case True
    then have "xs = []" using assms by simp
    then show ?thesis
      using True stop [of 1] once
      by (simp add: numeral_3_eq_3 cusexmp_ioctl_def fioc_do_rw_def [of _ _ NoIn] fioc_defs fetch_def)
  next
    case False
    then have "xs \<noteq> []" using assms by (auto simp: unat_eq_0)
    then show ?thesis
      using False stop [of 0] once
      by (simp add: numeral_3_eq_3 cusexmp_ioctl_def fioc_do_rw_def [of _ _ NoIn]
          fioc_do_rw_def [of _ _ "InArg arg []"] fioc_defs fetch_def in_iov0_def)
  qed
qed

lemma dialogue_read:
  assumes "cuse_inv s"
  shows "dialogue 3 env FIOC_READ addr arg xs NoIn 0 s
    = Some (map_sum id (\<lambda>r. (iov_reply (csize s) (csize s) r, s)) (cusexmp_read (asize arg) (offset arg) s))"
proof -
  obtain off' n' where c: "clip s (offset arg) (asize arg) = (off', n')" by fastforce
  let ?ys = "chunk (unat (offset arg)) (unat (asize arg)) (cbuf s)"
  have l: "length ?ys = unat n'"
    using clip_bounds [OF assms c] by auto
  have n': "ucast n' = (of_nat (length ?ys) :: 32 word)"
    unfolding l by simp
  have "cusexmp_ioctl env FIOC_READ addr False (InArg arg []) (Suc k) s
      = Inr (ReplyIov (of_nat (length ?ys)) (csize s) (csize s) ?ys, s)" for k
    by (simp add: cusexmp_ioctl_def fioc_do_rw_def fioc_defs c clip_read [OF assms c] n')
  from this [of "15 + unat (asize arg)"] show ?thesis
    using read_outcome [OF assms, of "asize arg" "offset arg"]
    by (simp add: numeral_3_eq_3 cusexmp_ioctl_def [of _ _ _ _ NoIn] fioc_do_rw_def [of _ _ NoIn]
        cusexmp_ioctl_def [of _ _ _ _ _ 0] fioc_do_rw_def [of _ _ _ 0] fioc_defs fetch_def in_iov0_def out_iov2_def iov_reply_def)
qed

lemma write_wraps:
  assumes "cuse_inv s" "length xs < 2 ^ 64" "\<not> fits off (length xs)" "\<forall>n. realloc_ok env n"
  shows "cusexmp_write env xs off s = crash OutOfBounds"
proof -
  let ?n = "off + of_nat (length xs) :: 64 word"
  obtain e s1 where e: "cusexmp_expand env ?n s = (e, s1)" by fastforce
  then have s1: "cusexmp_expand env ?n s = (None, s1)" "cuse_inv s1"
    using assms(1,4) by (auto simp: expand_outcome cuse_inv_def split: if_splits)
  have "length (cbuf s1) < 2 ^ 64"
    by (rule cuse_inv_less [OF s1(2)])
  then show ?thesis
    using s1(1) assms(3) by (simp add: cusexmp_write_def buf_write_def fits_def)
qed

section \<open>Properties\<close>

text \<open>C13: The device is a file in memory: as long as memory can be had, and no write ends beyond 2^64, any
  sequence of writes at any positions, reads and changes of the size by ioctl returns what an abstract
  file of bytes, zero where nothing was written, returns, and leaves the device in the file's state.\<close>

theorem cuse_refines:
  assumes "cuse_inv s" "\<forall>n. realloc_ok env n" "\<forall>p \<in> set ps. op_fits p"
  shows "\<exists>outs s'. cuse_run env ps s = Inr (outs, s') \<and> cuse_inv s'
    \<and> file_run ps (cuse_file s) = (outs, cuse_file s')"
  using assms
proof (induction ps arbitrary: s)
  case (Cons p ps)
  obtain s1 where s1: "cuse_do env p s = Inr (fst (file_op p (cuse_file s)), s1)" "cuse_inv s1"
    "cuse_file s1 = snd (file_op p (cuse_file s))"
    using cuse_op_refines [OF Cons.prems(1,2)] Cons.prems(3) by auto
  then obtain outs s2 where "cuse_run env ps s1 = Inr (outs, s2)" "cuse_inv s2"
    "file_run ps (cuse_file s1) = (outs, cuse_file s2)"
    using Cons.IH [OF s1(2)] Cons.prems(2,3) by auto
  then show ?case using s1 by (simp add: Let_def split_beta)
qed simp

theorem cuse_refines_witness:
  "\<exists>outs s'. cuse_run \<lparr>realloc_ok = \<lambda>_. True, junk = \<lambda>_. CHR ''?''\<rparr>
      [CWrite 2 ''ab'', CRead 1 9, CSetSize 3, CRead 0 3] cuse_init = Inr (outs, s')
    \<and> outs = [[], [NUL, CHR ''a'', CHR ''b''], [], [NUL, NUL, CHR ''a'']]"
proof -
  let ?ps = "[CWrite 2 ''ab'', CRead 1 9, CSetSize 3, CRead 0 3]"
  have "fst (file_run ?ps (cuse_file cuse_init)) = [[], [NUL, CHR ''a'', CHR ''b''], [], [NUL, NUL, CHR ''a'']]"
    by (simp add: cuse_file_def cuse_init_def upt_rec)
  then show ?thesis
    using cuse_refines [of cuse_init "\<lparr>realloc_ok = \<lambda>_. True, junk = \<lambda>_. CHR ''?''\<rparr>" ?ps]
    by (auto simp: cuse_inv_def cuse_init_def fits_def simp del: file_run.simps cuse_run.simps)
qed

text \<open>C18: The ioctls for transfers end after at most three calls, and do what the plain read and write at the
  position in their argument do, to the reply and to the device; in addition they report the device's
  size before and after.\<close>

theorem cuse_dialogue:
  assumes "cuse_inv s" "length xs = unat (asize arg)"
  shows "dialogue 3 env FIOC_WRITE addr arg xs NoIn 0 s
      = Some (map_sum id (\<lambda>(r, s'). (iov_reply (csize s) (csize s') r, s')) (cusexmp_write env xs (offset arg) s))
    \<and> dialogue 3 env FIOC_READ addr arg xs NoIn 0 s
      = Some (map_sum id (\<lambda>r. (iov_reply (csize s) (csize s) r, s)) (cusexmp_read (asize arg) (offset arg) s))"
  using dialogue_write [OF assms(2)] dialogue_read [OF assms(1)] by blast

theorem cuse_dialogue_witness:
  "dialogue 3 \<lparr>realloc_ok = \<lambda>_. False, junk = \<lambda>_. NUL\<rparr> FIOC_READ 64
      \<lparr>offset = 1, abuf = 4096, asize = 2, prev_size = 0, new_size = 0\<rparr> ''??'' NoIn 0 \<lparr>cbuf = ''abc'', csize = 3\<rparr>
    = Some (Inr (ReplyIov 2 3 3 ''bc'', \<lparr>cbuf = ''abc'', csize = 3\<rparr>))"
proof -
  let ?s = "\<lparr>cbuf = ''abc'', csize = 3\<rparr>"
  have i: "cuse_inv ?s" by (simp add: cuse_inv_def)
  have "chunk (unat (1 :: 64 word)) (unat (2 :: 64 word)) ''abc'' = ''bc''"
    by (simp, simp only: chunk_def numeral_2_eq_2) simp
  then show ?thesis
    using conjunct2 [OF cuse_dialogue [OF i, of "''??''"
      "\<lparr>offset = 1, abuf = 4096, asize = 2, prev_size = 0, new_size = 0\<rparr>"
      "\<lparr>realloc_ok = \<lambda>_. False, junk = \<lambda>_. NUL\<rparr>" 64]]
    by (simp add: read_outcome [OF i] iov_reply_def del: dialogue.simps)
qed

text \<open>While memory can be had a write leaves the buffer exactly if its end wraps around in 64 bits: then the
  buffer is not extended and the bytes go beyond it. When memory runs out the write is refused and the
  device is as before.\<close>

theorem cuse_write_bounds:
  assumes "cuse_inv s" "length xs < 2 ^ 64"
  shows "((\<forall>n. realloc_ok env n) \<longrightarrow>
      (cusexmp_write env xs off s = crash OutOfBounds \<longleftrightarrow> 2 ^ 64 \<le> unat off + length xs))
    \<and> (unat off + length xs < 2 ^ 64 \<and> length (cbuf s) < unat off + length xs
        \<and> \<not> realloc_ok env (off + of_nat (length xs)) \<longrightarrow>
      cusexmp_write env xs off s = Inr (ReplyErr ENOMEM, s))"
proof (cases "fits off (length xs)")
  case True
  then have "unat (off + of_nat (length xs)) = unat off + length xs" by (rule fits_end)
  then show ?thesis
    using write_outcome [OF assms(1) True, of env] True assms(1)
    by (auto simp: fits_def Let_def word_le_nat_alt cuse_inv_def)
next
  case False
  then show ?thesis using write_wraps [OF assms False] by (simp add: fits_def)
qed

theorem cuse_write_bounds_witness:
  "cusexmp_write \<lparr>realloc_ok = \<lambda>_. True, junk = \<lambda>_. NUL\<rparr> ''ab'' 0xFFFFFFFFFFFFFFFF cuse_init = crash OutOfBounds
   \<and> cusexmp_write \<lparr>realloc_ok = \<lambda>_. False, junk = \<lambda>_. NUL\<rparr> ''ab'' 3 cuse_init = Inr (ReplyErr ENOMEM, cuse_init)"
proof -
  have i: "cuse_inv cuse_init" by (simp add: cuse_inv_def cuse_init_def)
  show ?thesis
    using cuse_write_bounds [OF i, of "''ab''" "\<lparr>realloc_ok = \<lambda>_. True, junk = \<lambda>_. NUL\<rparr>" "0xFFFFFFFFFFFFFFFF"]
      cuse_write_bounds [OF i, of "''ab''" "\<lparr>realloc_ok = \<lambda>_. False, junk = \<lambda>_. NUL\<rparr>" 3]
    by (simp add: cuse_init_def)
qed

text \<open>The name of the device fits into its array with its terminator, whatever its length.\<close>

lemma cusexmp_main_fits: "cusexmp_main p = Some n \<Longrightarrow> length n < 128"
  by (auto simp: cusexmp_main_def split: option.splits if_splits)

end
