(* ===== verification/Fuse_Mirror.thy ===== *)
theory Fuse_Mirror
  imports Prelude "HOL-Library.Multiset"
begin

unbundle bit_operations_syntax

text \<open>
  The file systems of \<open>fuse/xmp.c\<close>, \<open>fuse/fusexmp.c\<close> and \<open>fuse/fusexmp_fh.c\<close>, which pass every operation on
  to the file system of the host: the first two open a file anew for each transfer, the third keeps it
  open. The host is a parameter, a function from a system call and its state to an answer and a state;
  nothing is assumed of it. Optional parts that are compiled in when the host has the calls are included.
  Listing of directories is in \<open>Fuse_Listing\<close>.
\<close>

section \<open>The host\<close>

text \<open>The calls, with the pointers they are given replaced by what they point to. \<open>SysMalloc\<close> and \<open>SysFree\<close>
  are the C library's.\<close>

datatype call =
    SysLstat string | SysFstat int | SysAccess string int | SysReadlink string "64 word"
  | SysOpendir string | SysReaddir int | SysSeekdir int int | SysTelldir int | SysClosedir int
  | SysMknod string "32 word" nat | SysMkfifo string "32 word" | SysMkdir string "32 word" | SysUnlink string
  | SysRmdir string | SysSymlink string string | SysRename string string | SysLink string string
  | SysChmod string "32 word" | SysLchown string int int | SysTruncate string int | SysFtruncate int int
  | SysUtime string string | SysUtimensat string string | SysOpen string "32 word" "32 word option" | SysClose int
  | SysDup int | SysPread int nat int | SysPwrite int "char list" int | SysStatvfs string | SysStatfs string
  | SysFsync int | SysFdatasync int | SysFallocate int int int | SysSetxattr string string "char list" int
  | SysGetxattr string string nat | SysListxattr string nat | SysRemovexattr string string
  | SysUlock int int string | SysFlock int int | SysBufCopy int "char list" int | SysMalloc | SysFree int

text \<open>A directory entry: name, inode number, type.\<close>

record dirent =
  d_name :: string
  d_ino :: nat
  d_type :: nat

text \<open>The answer \<open>-1\<close> with an error number, a value with the bytes delivered, an entry, no more entries.\<close>

datatype answer = Err int | Ret int "char list" | Ent dirent | Eod

type_synonym 'h host = "call \<Rightarrow> 'h \<Rightarrow> answer \<times> 'h"

text \<open>What an operation returns, and the bytes it leaves in the caller's buffer.\<close>

type_synonym reply = "int \<times> char list"

text \<open>\<open>if (res == -1) return -errno; return 0;\<close> and the same with \<open>return res\<close>.\<close>

fun ret0 :: "answer \<Rightarrow> reply" where
  "ret0 (Err e) = (- e, [])"
| "ret0 (Ret n b) = (0, b)"
| "ret0 a = (0, [])"

fun retn :: "answer \<Rightarrow> reply" where
  "retn (Err e) = (- e, [])"
| "retn (Ret n b) = (n, b)"
| "retn a = (0, [])"

text \<open>\<open>buf[ res ] = '\0'\<close> after \<open>readlink\<close>.\<close>

fun ret_link :: "answer \<Rightarrow> reply" where
  "ret_link (Err e) = (- e, [])"
| "ret_link (Ret n b) = (0, b @ [NUL])"
| "ret_link a = (0, [])"

definition O_RDONLY :: "32 word" where "O_RDONLY = 0"
definition O_WRONLY :: "32 word" where "O_WRONLY = 1"
definition O_CREAT_EXCL :: "32 word" where "O_CREAT_EXCL = 192"

definition S_ISREG :: "32 word \<Rightarrow> bool" where
  "S_ISREG mode \<longleftrightarrow> mode AND 61440 = 32768"

definition S_ISFIFO :: "32 word \<Rightarrow> bool" where
  "S_ISFIFO mode \<longleftrightarrow> mode AND 61440 = 4096"

section \<open>Operations\<close>

text \<open>What libfuse asks for, by path.\<close>

datatype req =
    Getattr string | Access string int | Readlink string "64 word" | Mknod string "32 word" nat
  | Mkdir string "32 word" | Unlink string | Rmdir string | Symlink string string | Rename string string
  | Link string string | Chmod string "32 word" | Chown string int int | Truncate string int | Utime string string
  | Open string "32 word" | Read string nat int | Write string "char list" int | Statfs string
  | Release string | Fsync string bool | Fallocate string int int int
  | Setxattr string string "char list" int | Getxattr string string nat | Listxattr string nat
  | Removexattr string string

text \<open>Open a file, transfer, close it: the common form of \<open>xmp_read\<close>, \<open>xmp_write\<close> and \<open>xmp_fallocate\<close>.\<close>

definition with_file :: "'h host \<Rightarrow> string \<Rightarrow> 32 word \<Rightarrow> (int \<Rightarrow> call) \<Rightarrow> (answer \<Rightarrow> reply) \<Rightarrow> 'h \<Rightarrow> reply \<times> 'h" where
  "with_file host path flags c rt h =
     (case host (SysOpen path flags None) h of
        (Ret fd b, h1) \<Rightarrow>
          let (a, h2) = host (c fd) h1; (_, h3) = host (SysClose fd) h2 in (rt a, h3)
      | (a, h1) \<Rightarrow> (ret0 a, h1))"

text \<open>\<open>xmp.c\<close>, for version 1.1 of libfuse. \<open>xmp_statfs\<close> asks for the root, and hands on \<open>-1\<close> as it is.\<close>

definition xmp_open :: "'h host \<Rightarrow> string \<Rightarrow> 32 word \<Rightarrow> 'h \<Rightarrow> reply \<times> 'h" where
  "xmp_open host path flags h =
     (case host (SysOpen path flags None) h of
        (Ret fd b, h1) \<Rightarrow> ((0, []), snd (host (SysClose fd) h1))
      | (a, h1) \<Rightarrow> (ret0 a, h1))"

definition xmp_statfs :: "'h host \<Rightarrow> 'h \<Rightarrow> reply \<times> 'h" where
  "xmp_statfs host h =
     (case host (SysStatfs ''/'') h of (Err e, h1) \<Rightarrow> ((- 1, []), h1) | (a, h1) \<Rightarrow> (ret0 a, h1))"

fun xmp_path_op :: "'h host \<Rightarrow> req \<Rightarrow> 'h \<Rightarrow> reply \<times> 'h" where
  "xmp_path_op host (Mknod path mode rdev) h = apfst ret0 (host (SysMknod path mode rdev) h)"
| "xmp_path_op host (Mkdir path mode) h = apfst ret0 (host (SysMkdir path mode) h)"
| "xmp_path_op host (Unlink path) h = apfst ret0 (host (SysUnlink path) h)"
| "xmp_path_op host (Rmdir path) h = apfst ret0 (host (SysRmdir path) h)"
| "xmp_path_op host (Symlink from to) h = apfst ret0 (host (SysSymlink from to) h)"
| "xmp_path_op host (Rename from to) h = apfst ret0 (host (SysRename from to) h)"
| "xmp_path_op host (Link from to) h = apfst ret0 (host (SysLink from to) h)"
| "xmp_path_op host (Chmod path mode) h = apfst ret0 (host (SysChmod path mode) h)"
| "xmp_path_op host (Chown path uid gid) h = apfst ret0 (host (SysLchown path uid gid) h)"
| "xmp_path_op host (Truncate path len) h = apfst ret0 (host (SysTruncate path len) h)"
| "xmp_path_op host (Utime path buf) h = apfst ret0 (host (SysUtime path buf) h)"
| "xmp_path_op host r h = ((0, []), h)"

fun xmp_attr_op :: "'h host \<Rightarrow> req \<Rightarrow> 'h \<Rightarrow> reply \<times> 'h" where
  "xmp_attr_op host (Getattr path) h = apfst ret0 (host (SysLstat path) h)"
| "xmp_attr_op host (Readlink path n) h = apfst ret_link (host (SysReadlink path (n - 1)) h)"
| "xmp_attr_op host r h = xmp_path_op host r h"

fun xmp_file_op :: "'h host \<Rightarrow> req \<Rightarrow> 'h \<Rightarrow> reply \<times> 'h" where
  "xmp_file_op host (Open path flags) h = xmp_open host path flags h"
| "xmp_file_op host (Read path n off) h = with_file host path O_RDONLY (\<lambda>fd. SysPread fd n off) retn h"
| "xmp_file_op host (Write path xs off) h = with_file host path O_WRONLY (\<lambda>fd. SysPwrite fd xs off) retn h"
| "xmp_file_op host (Statfs path) h = xmp_statfs host h"
| "xmp_file_op host (Release path) h = ((0, []), h)"
| "xmp_file_op host (Fsync path data) h = ((0, []), h)"
| "xmp_file_op host r h = xmp_attr_op host r h"

text \<open>\<open>fusexmp.c\<close>. \<open>posix_fallocate\<close> returns its error number.\<close>

definition mirror_mknod :: "'h host \<Rightarrow> string \<Rightarrow> 32 word \<Rightarrow> nat \<Rightarrow> 'h \<Rightarrow> reply \<times> 'h" where
  "mirror_mknod host path mode rdev h =
     (if S_ISREG mode then
        (case host (SysOpen path (O_CREAT_EXCL OR O_WRONLY) (Some mode)) h of
           (Ret fd b, h1) \<Rightarrow> apfst ret0 (host (SysClose fd) h1)
         | (a, h1) \<Rightarrow> (ret0 a, h1))
      else if S_ISFIFO mode then apfst ret0 (host (SysMkfifo path mode) h)
      else apfst ret0 (host (SysMknod path mode rdev) h))"

fun ret_fallocate :: "answer \<Rightarrow> reply" where
  "ret_fallocate (Ret n b) = (- n, [])"
| "ret_fallocate a = (0, [])"

definition mirror_fallocate :: "'h host \<Rightarrow> string \<Rightarrow> int \<Rightarrow> int \<Rightarrow> int \<Rightarrow> 'h \<Rightarrow> reply \<times> 'h" where
  "mirror_fallocate host path mode off len h =
     (if mode \<noteq> 0 then ((- 95, []), h)
      else with_file host path O_WRONLY (\<lambda>fd. SysFallocate fd off len) ret_fallocate h)"

definition mirror_open :: "'h host \<Rightarrow> string \<Rightarrow> 32 word \<Rightarrow> 'h \<Rightarrow> reply \<times> 'h" where
  "mirror_open host path flags h =
     (case host (SysOpen path flags None) h of
        (Ret fd b, h1) \<Rightarrow> ((0, []), snd (host (SysClose fd) h1))
      | (a, h1) \<Rightarrow> (ret0 a, h1))"

fun mirror_path_op :: "'h host \<Rightarrow> req \<Rightarrow> 'h \<Rightarrow> reply \<times> 'h" where
  "mirror_path_op host (Mknod path mode rdev) h = mirror_mknod host path mode rdev h"
| "mirror_path_op host (Mkdir path mode) h = apfst ret0 (host (SysMkdir path mode) h)"
| "mirror_path_op host (Unlink path) h = apfst ret0 (host (SysUnlink path) h)"
| "mirror_path_op host (Rmdir path) h = apfst ret0 (host (SysRmdir path) h)"
| "mirror_path_op host (Symlink from to) h = apfst ret0 (host (SysSymlink from to) h)"
| "mirror_path_op host (Rename from to) h = apfst ret0 (host (SysRename from to) h)"
| "mirror_path_op host (Link from to) h = apfst ret0 (host (SysLink from to) h)"
| "mirror_path_op host (Chmod path mode) h = apfst ret0 (host (SysChmod path mode) h)"
| "mirror_path_op host (Chown path uid gid) h = apfst ret0 (host (SysLchown path uid gid) h)"
| "mirror_path_op host (Truncate path len) h = apfst ret0 (host (SysTruncate path len) h)"
| "mirror_path_op host (Utime path ts) h = apfst ret0 (host (SysUtimensat path ts) h)"
| "mirror_path_op host r h = ((0, []), h)"

fun mirror_attr_op :: "'h host \<Rightarrow> req \<Rightarrow> 'h \<Rightarrow> reply \<times> 'h" where
  "mirror_attr_op host (Getattr path) h = apfst ret0 (host (SysLstat path) h)"
| "mirror_attr_op host (Access path amask) h = apfst ret0 (host (SysAccess path amask) h)"
| "mirror_attr_op host (Readlink path n) h = apfst ret_link (host (SysReadlink path (n - 1)) h)"
| "mirror_attr_op host r h = mirror_path_op host r h"

fun mirror_file_op :: "'h host \<Rightarrow> req \<Rightarrow> 'h \<Rightarrow> reply \<times> 'h" where
  "mirror_file_op host (Open path flags) h = mirror_open host path flags h"
| "mirror_file_op host (Read path n off) h = with_file host path O_RDONLY (\<lambda>fd. SysPread fd n off) retn h"
| "mirror_file_op host (Write path xs off) h = with_file host path O_WRONLY (\<lambda>fd. SysPwrite fd xs off) retn h"
| "mirror_file_op host (Statfs path) h = apfst ret0 (host (SysStatvfs path) h)"
| "mirror_file_op host (Release path) h = ((0, []), h)"
| "mirror_file_op host (Fsync path data) h = ((0, []), h)"
| "mirror_file_op host (Fallocate path mode off len) h = mirror_fallocate host path mode off len h"
| "mirror_file_op host (Setxattr path name v flags) h = apfst ret0 (host (SysSetxattr path name v flags) h)"
| "mirror_file_op host (Getxattr path name n) h = apfst retn (host (SysGetxattr path name n) h)"
| "mirror_file_op host (Listxattr path n) h = apfst retn (host (SysListxattr path n) h)"
| "mirror_file_op host (Removexattr path name) h = apfst ret0 (host (SysRemovexattr path name) h)"
| "mirror_file_op host r h = mirror_attr_op host r h"

section \<open>Operations on open files\<close>

text \<open>\<open>fusexmp_fh.c\<close>. The operations by path.\<close>

definition fh_mknod :: "'h host \<Rightarrow> string \<Rightarrow> 32 word \<Rightarrow> nat \<Rightarrow> 'h \<Rightarrow> reply \<times> 'h" where
  "fh_mknod host path mode rdev h =
     (if S_ISFIFO mode then apfst ret0 (host (SysMkfifo path mode) h)
      else apfst ret0 (host (SysMknod path mode rdev) h))"

definition fh_utimens :: "'h host \<Rightarrow> string \<Rightarrow> string \<Rightarrow> 'h \<Rightarrow> reply \<times> 'h" where
  "fh_utimens host path ts h = apfst ret0 (host (SysUtimensat path ts) h)"

fun fh_path_op :: "'h host \<Rightarrow> req \<Rightarrow> 'h \<Rightarrow> reply \<times> 'h" where
  "fh_path_op host (Mknod path mode rdev) h = fh_mknod host path mode rdev h"
| "fh_path_op host (Mkdir path mode) h = apfst ret0 (host (SysMkdir path mode) h)"
| "fh_path_op host (Unlink path) h = apfst ret0 (host (SysUnlink path) h)"
| "fh_path_op host (Rmdir path) h = apfst ret0 (host (SysRmdir path) h)"
| "fh_path_op host (Symlink from to) h = apfst ret0 (host (SysSymlink from to) h)"
| "fh_path_op host (Rename from to) h = apfst ret0 (host (SysRename from to) h)"
| "fh_path_op host (Link from to) h = apfst ret0 (host (SysLink from to) h)"
| "fh_path_op host (Chmod path mode) h = apfst ret0 (host (SysChmod path mode) h)"
| "fh_path_op host (Chown path uid gid) h = apfst ret0 (host (SysLchown path uid gid) h)"
| "fh_path_op host (Truncate path len) h = apfst ret0 (host (SysTruncate path len) h)"
| "fh_path_op host (Utime path ts) h = fh_utimens host path ts h"
| "fh_path_op host r h = ((0, []), h)"

definition fh_getattr :: "'h host \<Rightarrow> string \<Rightarrow> 'h \<Rightarrow> reply \<times> 'h" where
  "fh_getattr host path h = apfst ret0 (host (SysLstat path) h)"

fun fh_attr_op :: "'h host \<Rightarrow> req \<Rightarrow> 'h \<Rightarrow> reply \<times> 'h" where
  "fh_attr_op host (Getattr path) h = fh_getattr host path h"
| "fh_attr_op host (Access path amask) h = apfst ret0 (host (SysAccess path amask) h)"
| "fh_attr_op host (Readlink path n) h = apfst ret_link (host (SysReadlink path (n - 1)) h)"
| "fh_attr_op host r h = fh_path_op host r h"

definition fh_statfs :: "'h host \<Rightarrow> string \<Rightarrow> 'h \<Rightarrow> reply \<times> 'h" where
  "fh_statfs host path h = apfst ret0 (host (SysStatvfs path) h)"

fun fh_xattr_op :: "'h host \<Rightarrow> req \<Rightarrow> 'h \<Rightarrow> reply \<times> 'h" where
  "fh_xattr_op host (Setxattr path name v flags) h = apfst ret0 (host (SysSetxattr path name v flags) h)"
| "fh_xattr_op host (Getxattr path name n) h = apfst retn (host (SysGetxattr path name n) h)"
| "fh_xattr_op host (Listxattr path n) h = apfst retn (host (SysListxattr path n) h)"
| "fh_xattr_op host (Removexattr path name) h = apfst ret0 (host (SysRemovexattr path name) h)"
| "fh_xattr_op host (Statfs path) h = fh_statfs host path h"
| "fh_xattr_op host r h = fh_attr_op host r h"

text \<open>Opening and creating a file; the second component is what is stored in \<open>fi->fh\<close>.\<close>

definition fh_open :: "'h host \<Rightarrow> string \<Rightarrow> 32 word \<Rightarrow> 'h \<Rightarrow> (int \<times> int option) \<times> 'h" where
  "fh_open host path flags h =
     (case host (SysOpen path flags None) h of
        (Ret fd b, h1) \<Rightarrow> ((0, Some fd), h1)
      | (a, h1) \<Rightarrow> ((fst (ret0 a), None), h1))"

definition fh_create :: "'h host \<Rightarrow> string \<Rightarrow> 32 word \<Rightarrow> 32 word \<Rightarrow> 'h \<Rightarrow> (int \<times> int option) \<times> 'h" where
  "fh_create host path mode flags h =
     (case host (SysOpen path flags (Some mode)) h of
        (Ret fd b, h1) \<Rightarrow> ((0, Some fd), h1)
      | (a, h1) \<Rightarrow> ((fst (ret0 a), None), h1))"

text \<open>What may be asked for an open file. \<open>FSync\<close> says whether only the data are to be written.\<close>

datatype fh_req = FGetattr | FTruncate int | FRead nat int | FWrite "char list" int | FWriteBuf "char list" int
  | FFlush | FSync bool | FFallocate int int int | FLock int string | FFlock int

text \<open>\<open>flush\<close> closes a duplicate; where there is none it closes \<open>-1\<close>.\<close>

definition fh_flush :: "'h host \<Rightarrow> int \<Rightarrow> 'h \<Rightarrow> reply \<times> 'h" where
  "fh_flush host fh h =
     (case host (SysDup fh) h of
        (Ret fd b, h1) \<Rightarrow> apfst ret0 (host (SysClose fd) h1)
      | (a, h1) \<Rightarrow> apfst ret0 (host (SysClose (- 1)) h1))"

definition fh_fallocate :: "'h host \<Rightarrow> int \<Rightarrow> int \<Rightarrow> int \<Rightarrow> int \<Rightarrow> 'h \<Rightarrow> reply \<times> 'h" where
  "fh_fallocate host fh mode off len h =
     (if mode \<noteq> 0 then ((- 95, []), h) else apfst ret_fallocate (host (SysFallocate fh off len) h))"

text \<open>\<open>have_fdatasync\<close> is the configuration.\<close>

definition fh_fsync :: "bool \<Rightarrow> 'h host \<Rightarrow> int \<Rightarrow> bool \<Rightarrow> 'h \<Rightarrow> reply \<times> 'h" where
  "fh_fsync have_fdatasync host fh isdatasync h =
     apfst ret0 (host (if have_fdatasync \<and> isdatasync then SysFdatasync fh else SysFsync fh) h)"

definition fh_fgetattr :: "'h host \<Rightarrow> int \<Rightarrow> 'h \<Rightarrow> reply \<times> 'h" where
  "fh_fgetattr host fh h = apfst ret0 (host (SysFstat fh) h)"

definition fh_ftruncate :: "'h host \<Rightarrow> int \<Rightarrow> int \<Rightarrow> 'h \<Rightarrow> reply \<times> 'h" where
  "fh_ftruncate host fh len h = apfst ret0 (host (SysFtruncate fh len) h)"

definition fh_read :: "'h host \<Rightarrow> int \<Rightarrow> nat \<Rightarrow> int \<Rightarrow> 'h \<Rightarrow> reply \<times> 'h" where
  "fh_read host fh n off h = apfst retn (host (SysPread fh n off) h)"

definition fh_write :: "'h host \<Rightarrow> int \<Rightarrow> char list \<Rightarrow> int \<Rightarrow> 'h \<Rightarrow> reply \<times> 'h" where
  "fh_write host fh xs off h = apfst retn (host (SysPwrite fh xs off) h)"

definition fh_write_buf :: "'h host \<Rightarrow> int \<Rightarrow> char list \<Rightarrow> int \<Rightarrow> 'h \<Rightarrow> reply \<times> 'h" where
  "fh_write_buf host fh xs off h = apfst retn (host (SysBufCopy fh xs off) h)"

definition fh_lock :: "'h host \<Rightarrow> int \<Rightarrow> int \<Rightarrow> string \<Rightarrow> 'h \<Rightarrow> reply \<times> 'h" where
  "fh_lock host fh cmd lock h = apfst retn (host (SysUlock fh cmd lock) h)"

definition fh_flock :: "'h host \<Rightarrow> int \<Rightarrow> int \<Rightarrow> 'h \<Rightarrow> reply \<times> 'h" where
  "fh_flock host fh op h = apfst ret0 (host (SysFlock fh op) h)"

lemmas fh_defs = fh_getattr_def fh_utimens_def fh_statfs_def fh_fgetattr_def fh_ftruncate_def fh_read_def
  fh_write_def fh_write_buf_def fh_lock_def fh_flock_def fh_fallocate_def fh_fsync_def

text \<open>The table of operations on open files.\<close>

fun fh_file_op :: "bool \<Rightarrow> 'h host \<Rightarrow> int \<Rightarrow> fh_req \<Rightarrow> 'h \<Rightarrow> reply \<times> 'h" where
  "fh_file_op cfg host fh FGetattr h = fh_fgetattr host fh h"
| "fh_file_op cfg host fh (FTruncate len) h = fh_ftruncate host fh len h"
| "fh_file_op cfg host fh (FRead n off) h = fh_read host fh n off h"
| "fh_file_op cfg host fh (FWrite xs off) h = fh_write host fh xs off h"
| "fh_file_op cfg host fh (FWriteBuf xs off) h = fh_write_buf host fh xs off h"
| "fh_file_op cfg host fh FFlush h = fh_flush host fh h"
| "fh_file_op cfg host fh (FSync data) h = fh_fsync cfg host fh data h"
| "fh_file_op cfg host fh (FFallocate mode off len) h = fh_fallocate host fh mode off len h"
| "fh_file_op cfg host fh (FLock cmd lock) h = fh_lock host fh cmd lock h"
| "fh_file_op cfg host fh (FFlock op) h = fh_flock host fh op h"

definition fh_release :: "'h host \<Rightarrow> int \<Rightarrow> 'h \<Rightarrow> reply \<times> 'h" where
  "fh_release host fh h = ((0, []), snd (host (SysClose fh) h))"

text \<open>\<open>xmp_read_buf\<close> hands the library a block that describes where the bytes are.\<close>

record bufvec =
  bv_fd :: int
  bv_pos :: int
  bv_size :: nat

definition fh_read_buf :: "'h host \<Rightarrow> int \<Rightarrow> nat \<Rightarrow> int \<Rightarrow> 'h \<Rightarrow> (int \<times> (int \<times> bufvec) option) \<times> 'h" where
  "fh_read_buf host fh n off h =
     (case host SysMalloc h of
        (Ret p b, h1) \<Rightarrow> ((0, Some (p, \<lparr>bv_fd = fh, bv_pos = off, bv_size = n\<rparr>)), h1)
      | (a, h1) \<Rightarrow> ((- 12, None), h1))"

text \<open>\<open>struct xmp_dirp\<close> and its address.\<close>

record xmp_dirp =
  dp :: int
  dentry :: "dirent option"
  doffset :: int

definition fh_opendir :: "'h host \<Rightarrow> string \<Rightarrow> 'h \<Rightarrow> (int \<times> (int \<times> xmp_dirp) option) \<times> 'h" where
  "fh_opendir host path h =
     (case host SysMalloc h of
        (Ret d b, h1) \<Rightarrow>
          (case host (SysOpendir path) h1 of
             (Ret p b', h2) \<Rightarrow> ((0, Some (d, \<lparr>dp = p, dentry = None, doffset = 0\<rparr>)), h2)
           | (a, h2) \<Rightarrow> ((fst (ret0 a), None), snd (host (SysFree d) h2)))
      | (a, h1) \<Rightarrow> ((- 12, None), h1))"

definition fh_releasedir :: "'h host \<Rightarrow> int \<times> xmp_dirp \<Rightarrow> 'h \<Rightarrow> reply \<times> 'h" where
  "fh_releasedir host d h =
     ((0, []), snd (host (SysFree (fst d)) (snd (host (SysClosedir (dp (snd d))) h))))"

section \<open>What is held of the host\<close>

text \<open>Descriptors, directory streams and memory. A host that also keeps account of them notes whether
  something was given back that was not held.\<close>

datatype resource = Fd int | Dir int | Mem int

fun acquired :: "call \<Rightarrow> answer \<Rightarrow> resource multiset" where
  "acquired (SysOpen path flags mode) (Ret fd b) = {#Fd fd#}"
| "acquired (SysDup fh) (Ret fd b) = {#Fd fd#}"
| "acquired (SysOpendir path) (Ret p b) = {#Dir p#}"
| "acquired SysMalloc (Ret p b) = {#Mem p#}"
| "acquired c a = {#}"

fun released :: "call \<Rightarrow> resource multiset" where
  "released (SysClose fd) = (if fd < 0 then {#} else {#Fd fd#})"
| "released (SysClosedir p) = {#Dir p#}"
| "released (SysFree p) = {#Mem p#}"
| "released c = {#}"

record 'h account =
  hst :: 'h
  holds :: "resource multiset"
  bad :: bool

definition track :: "'h host \<Rightarrow> 'h account host" where
  "track host c t =
     (let (a, h') = host c (hst t) in
      (a, \<lparr>hst = h', holds = holds t - released c + acquired c a,
           bad = (bad t \<or> \<not> released c \<subseteq># holds t)\<rparr>))"

text \<open>Descriptors are not negative.\<close>

definition fds_ok :: "'h host \<Rightarrow> bool" where
  "fds_ok host \<longleftrightarrow> (\<forall>h path flags mode fd b. fst (host (SysOpen path flags mode) h) = Ret fd b \<longrightarrow> fd \<ge> 0)
     \<and> (\<forall>h fh fd b. fst (host (SysDup fh) h) = Ret fd b \<longrightarrow> fd \<ge> 0)"

text \<open>Nothing is held after a call that was not held before it, and nothing has been given back twice.\<close>

definition keeps :: "('h account \<Rightarrow> 'r \<times> 'h account) \<Rightarrow> bool" where
  "keeps f \<longleftrightarrow> (\<forall>t. holds (snd (f t)) = holds t \<and> bad (snd (f t)) = bad t)"

definition plain :: "call \<Rightarrow> bool" where
  "plain c \<longleftrightarrow> released c = {#} \<and> (\<forall>a. acquired c a = {#})"

lemma plain_track:
  "plain c \<Longrightarrow> holds (snd (track host c t)) = holds t \<and> bad (snd (track host c t)) = bad t"
  by (simp add: plain_def track_def split_beta)

lemma keeps_plain [intro]: "plain c \<Longrightarrow> keeps (\<lambda>t. apfst f (track host c t))"
  by (simp add: keeps_def plain_track)

lemma keeps_unit [intro]: "keeps (\<lambda>t. (r, t))"
  by (simp add: keeps_def)

lemma plain_simps [simp]:
  "plain (SysLstat path)" "plain (SysFstat fd)" "plain (SysAccess path k)" "plain (SysReadlink path n)"
  "plain (SysMknod path mode rdev)" "plain (SysMkfifo path mode)" "plain (SysMkdir path mode)"
  "plain (SysUnlink path)" "plain (SysRmdir path)" "plain (SysSymlink path to)" "plain (SysRename path to)"
  "plain (SysLink path to)" "plain (SysChmod path mode)" "plain (SysLchown path uid gid)"
  "plain (SysTruncate path len)" "plain (SysFtruncate fd len)" "plain (SysUtime path buf)"
  "plain (SysUtimensat path ts)" "plain (SysPread fd sz off)" "plain (SysPwrite fd xs off)"
  "plain (SysStatvfs path)" "plain (SysStatfs path)" "plain (SysFsync fd)" "plain (SysFdatasync fd)"
  "plain (SysFallocate fd off len)" "plain (SysSetxattr path name v op)" "plain (SysGetxattr path name sz)"
  "plain (SysListxattr path sz)" "plain (SysRemovexattr path name)" "plain (SysUlock fd op lock)"
  "plain (SysFlock fd op)" "plain (SysBufCopy fd xs off)"
  by (simp_all add: plain_def)

lemma track_open:
  assumes "fds_ok host" "track host (SysOpen path flags mode) t = (Ret fd b, t1)"
  shows "holds t1 = add_mset (Fd fd) (holds t)" "bad t1 = bad t" "fd \<ge> 0"
  using assms by (auto simp: track_def Let_def fds_ok_def split: prod.splits) (metis fst_conv)

lemma track_no_open:
  assumes "track host (SysOpen path flags mode) t = (a, t1)" "\<forall>fd b. a \<noteq> Ret fd b"
  shows "holds t1 = holds t" "bad t1 = bad t"
  using assms by (cases a; auto simp: track_def Let_def split: prod.splits)+

lemma track_close:
  assumes "holds t = add_mset (Fd fd) R" "fd \<ge> 0"
  shows "holds (snd (track host (SysClose fd) t)) = R" "bad (snd (track host (SysClose fd) t)) = bad t"
  using assms by (simp_all add: track_def split_beta)

lemma keeps_with_file:
  assumes "fds_ok host" "\<And>fd. plain (c fd)"
  shows "keeps (with_file (track host) path flags c rt)"
  unfolding keeps_def
proof
  fix t
  obtain a t1 where o: "track host (SysOpen path flags None) t = (a, t1)" by fastforce
  show "holds (snd (with_file (track host) path flags c rt t)) = holds t
      \<and> bad (snd (with_file (track host) path flags c rt t)) = bad t"
  proof (cases a)
    case (Ret fd b)
    note t1 = track_open [OF assms(1) o [unfolded Ret]]
    have "holds (snd (track host (c fd) t1)) = add_mset (Fd fd) (holds t)
        \<and> bad (snd (track host (c fd) t1)) = bad t"
      by (simp add: plain_track [OF assms(2)] t1)
    then show ?thesis
      using o Ret track_close [OF _ t1(3), of "snd (track host (c fd) t1)"] by (simp add: with_file_def split_beta)
  qed (use o track_no_open [OF o] in \<open>simp_all add: with_file_def\<close>)
qed

lemma keeps_open_close:
  assumes "fds_ok host"
  shows "keeps (\<lambda>t. case track host (SysOpen path flags mode) t of
      (Ret fd b, t1) \<Rightarrow> apfst f (track host (SysClose fd) t1) | (a, t1) \<Rightarrow> (g a, t1))"
  unfolding keeps_def
proof
  fix t
  obtain a t1 where o: "track host (SysOpen path flags mode) t = (a, t1)" by fastforce
  let ?r = "case track host (SysOpen path flags mode) t of
      (Ret fd b, t1) \<Rightarrow> apfst f (track host (SysClose fd) t1) | (a, t1) \<Rightarrow> (g a, t1)"
  show "holds (snd ?r) = holds t \<and> bad (snd ?r) = bad t"
  proof (cases a)
    case (Ret fd b)
    note t1 = track_open [OF assms(1) o [unfolded Ret]]
    then show ?thesis using o Ret track_close [OF t1(1,3), of host] by simp
  qed (use o track_no_open [OF o] in simp_all)
qed

lemma keeps_open:
  assumes "fds_ok host"
  shows "keeps (xmp_open (track host) path flags)" "keeps (mirror_open (track host) path flags)"
proof -
  have x: "xmp_open (track host) path flags = (\<lambda>t. case track host (SysOpen path flags None) t of
      (Ret fd b, t1) \<Rightarrow> apfst (\<lambda>_. (0, [])) (track host (SysClose fd) t1) | (a, t1) \<Rightarrow> (ret0 a, t1))"
    by (rule ext) (simp add: xmp_open_def apfst_def map_prod_def split_beta split: prod.split answer.split)
  show "keeps (xmp_open (track host) path flags)"
    unfolding x by (rule keeps_open_close [OF assms])
  moreover have "mirror_open (track host) path flags = xmp_open (track host) path flags"
    by (rule ext) (simp add: xmp_open_def mirror_open_def)
  ultimately show "keeps (mirror_open (track host) path flags)" by simp
qed

lemma keeps_statfs: "keeps (xmp_statfs (track host))"
  unfolding keeps_def
proof
  fix t
  obtain a t1 where o: "track host (SysStatfs ''/'') t = (a, t1)" by fastforce
  then show "holds (snd (xmp_statfs (track host) t)) = holds t \<and> bad (snd (xmp_statfs (track host) t)) = bad t"
    using plain_track [of "SysStatfs ''/''" host t] by (cases a) (simp_all add: xmp_statfs_def)
qed

lemma keeps_if [intro]: "keeps f \<Longrightarrow> keeps g \<Longrightarrow> keeps (\<lambda>t. if b then f t else g t)"
  by (cases b) simp_all

lemma keeps_mknod: "fds_ok host \<Longrightarrow> keeps (mirror_mknod (track host) path mode rdev)"
  unfolding mirror_mknod_def by (intro keeps_if keeps_open_close keeps_plain) simp_all

lemma keeps_fallocate: "fds_ok host \<Longrightarrow> keeps (mirror_fallocate (track host) path mode off len)"
  unfolding mirror_fallocate_def by (intro keeps_if keeps_unit keeps_with_file) simp_all

text \<open>The same, applied.\<close>

lemma keepsD: "keeps f \<Longrightarrow> holds (snd (f t)) = holds t \<and> bad (snd (f t)) = bad t"
  by (simp add: keeps_def)

lemma keeps_xmp_path_op: "keeps (xmp_path_op (track host) r)"
  unfolding keeps_def by (cases r) (simp_all add: plain_track)

lemma keeps_xmp_attr_op: "keeps (xmp_attr_op (track host) r)"
  unfolding keeps_def
  by (cases r) (simp_all add: plain_track keepsD [OF keeps_xmp_path_op] del: xmp_path_op.simps)

lemma keeps_xmp_file_op: "fds_ok host \<Longrightarrow> keeps (xmp_file_op (track host) r)"
  unfolding keeps_def
  by (cases r)
    (simp_all add: keepsD [OF keeps_xmp_attr_op] keepsD [OF keeps_statfs] keepsD [OF keeps_open(1)]
      keepsD [OF keeps_with_file] del: xmp_attr_op.simps)

lemma keeps_mirror_path_op: "fds_ok host \<Longrightarrow> keeps (mirror_path_op (track host) r)"
  unfolding keeps_def by (cases r) (simp_all add: plain_track keepsD [OF keeps_mknod])

lemma keeps_mirror_attr_op: "fds_ok host \<Longrightarrow> keeps (mirror_attr_op (track host) r)"
  unfolding keeps_def
  by (cases r) (simp_all add: plain_track keepsD [OF keeps_mirror_path_op] del: mirror_path_op.simps)

lemma keeps_mirror_file_op: "fds_ok host \<Longrightarrow> keeps (mirror_file_op (track host) r)"
  unfolding keeps_def
  by (cases r)
    (simp_all add: plain_track keepsD [OF keeps_mirror_attr_op] keepsD [OF keeps_open(2)]
      keepsD [OF keeps_with_file] keepsD [OF keeps_fallocate] del: mirror_attr_op.simps)

lemma keeps_fh_path_op: "keeps (fh_path_op (track host) r)"
  unfolding keeps_def by (cases r) (simp_all add: plain_track fh_mknod_def fh_defs)

lemma keeps_fh_attr_op: "keeps (fh_attr_op (track host) r)"
  unfolding keeps_def
  by (cases r) (simp_all add: plain_track fh_defs keepsD [OF keeps_fh_path_op] del: fh_path_op.simps)

lemma keeps_fh_xattr_op: "keeps (fh_xattr_op (track host) r)"
  unfolding keeps_def
  by (cases r) (simp_all add: plain_track fh_defs keepsD [OF keeps_fh_attr_op] del: fh_attr_op.simps)

lemma keeps_flush:
  assumes "fds_ok host"
  shows "keeps (fh_flush (track host) fh)"
  unfolding keeps_def
proof
  fix t
  obtain a t1 where o: "track host (SysDup fh) t = (a, t1)" by fastforce
  show "holds (snd (fh_flush (track host) fh t)) = holds t \<and> bad (snd (fh_flush (track host) fh t)) = bad t"
  proof (cases a)
    case (Ret fd b)
    then have "fd \<ge> 0" "holds t1 = add_mset (Fd fd) (holds t)" "bad t1 = bad t"
      using assms o by (auto simp: track_def Let_def fds_ok_def split: prod.splits) (metis fst_conv)
    then show ?thesis using o Ret track_close [of t1 fd "holds t" host] by (simp add: fh_flush_def)
  qed (use o in \<open>auto simp: fh_flush_def track_def Let_def split: prod.splits\<close>)
qed

lemma keeps_fh_file_op: "fds_ok host \<Longrightarrow> keeps (fh_file_op cfg (track host) fh r)"
  unfolding keeps_def
  by (cases r) (simp_all add: plain_track keepsD [OF keeps_flush] fh_defs)

lemma keeps_fold:
  "(\<And>r. keeps (f r)) \<Longrightarrow> holds (fold (\<lambda>r t. snd (f r t)) rs t) = holds t
    \<and> bad (fold (\<lambda>r t. snd (f r t)) rs t) = bad t"
  by (induction rs arbitrary: t) (simp_all add: keeps_def)

section \<open>Sessions\<close>

text \<open>The files and directories that libfuse holds open in \<open>fusexmp_fh.c\<close>, and what it may ask for; an open
  file or directory is named by its place in the list, and released once.\<close>

record fh_table =
  files :: "int list"
  dirs :: "(int \<times> xmp_dirp) list"

datatype fh_event = EvOpen string "32 word" | EvCreate string "32 word" "32 word" | EvUse nat fh_req
  | EvRelease nat | EvOpendir string | EvReleasedir nat | EvPath req

definition remove :: "nat \<Rightarrow> 'a list \<Rightarrow> 'a list" where
  "remove i xs = take i xs @ drop (Suc i) xs"

fun fh_do :: "bool \<Rightarrow> 'h host \<Rightarrow> fh_event \<Rightarrow> fh_table \<times> 'h \<Rightarrow> fh_table \<times> 'h" where
  "fh_do cfg host (EvOpen path flags) (tb, h) =
     (case fh_open host path flags h of
        ((e, Some fd), h') \<Rightarrow> (tb\<lparr>files := fd # files tb\<rparr>, h') | ((e, None), h') \<Rightarrow> (tb, h'))"
| "fh_do cfg host (EvCreate path mode flags) (tb, h) =
     (case fh_create host path mode flags h of
        ((e, Some fd), h') \<Rightarrow> (tb\<lparr>files := fd # files tb\<rparr>, h') | ((e, None), h') \<Rightarrow> (tb, h'))"
| "fh_do cfg host (EvUse i r) (tb, h) =
     (if i < length (files tb) then (tb, snd (fh_file_op cfg host (files tb ! i) r h)) else (tb, h))"
| "fh_do cfg host (EvRelease i) (tb, h) =
     (if i < length (files tb)
      then (tb\<lparr>files := remove i (files tb)\<rparr>, snd (fh_release host (files tb ! i) h)) else (tb, h))"
| "fh_do cfg host (EvOpendir path) (tb, h) =
     (case fh_opendir host path h of
        ((e, Some d), h') \<Rightarrow> (tb\<lparr>dirs := d # dirs tb\<rparr>, h') | ((e, None), h') \<Rightarrow> (tb, h'))"
| "fh_do cfg host (EvReleasedir i) (tb, h) =
     (if i < length (dirs tb)
      then (tb\<lparr>dirs := remove i (dirs tb)\<rparr>, snd (fh_releasedir host (dirs tb ! i) h)) else (tb, h))"
| "fh_do cfg host (EvPath r) (tb, h) = (tb, snd (fh_xattr_op host r h))"

definition dir_resources :: "int \<times> xmp_dirp \<Rightarrow> resource multiset" where
  "dir_resources d = {#Mem (fst d), Dir (dp (snd d))#}"

definition table_resources :: "fh_table \<Rightarrow> resource multiset" where
  "table_resources tb = mset (map Fd (files tb)) + sum_list (map dir_resources (dirs tb))"

definition account_ok :: "resource multiset \<Rightarrow> fh_table \<times> 'h account \<Rightarrow> bool" where
  "account_ok R st \<longleftrightarrow> holds (snd st) = R + table_resources (fst st) \<and> \<not> bad (snd st)
     \<and> (\<forall>fd \<in> set (files (fst st)). fd \<ge> 0)"

lemma remove_split:
  "i < length xs \<Longrightarrow> \<exists>ys zs. xs = ys @ xs ! i # zs \<and> remove i xs = ys @ zs"
  unfolding remove_def by (metis id_take_nth_drop)

lemma account_opened:
  assumes "fds_ok host" "account_ok R (tb, t)"
    and "track host (SysOpen path flags mode) t = (Ret fd b, t1)"
  shows "account_ok R (tb\<lparr>files := fd # files tb\<rparr>, t1)"
  using track_open [OF assms(1,3)] assms(2) by (simp add: account_ok_def table_resources_def)

lemma account_keeps: "keeps f \<Longrightarrow> account_ok R (tb, t) \<Longrightarrow> account_ok R (tb, snd (f t))"
  by (simp add: account_ok_def keeps_def)

lemma account_release:
  assumes "account_ok R (tb, t)" "i < length (files tb)"
  shows "account_ok R (tb\<lparr>files := remove i (files tb)\<rparr>, snd (fh_release (track host) (files tb ! i) t))"
proof -
  obtain ys zs where s: "files tb = ys @ files tb ! i # zs" "remove i (files tb) = ys @ zs"
    using remove_split [OF assms(2)] by blast
  have p: "files tb ! i \<ge> 0" using assms by (simp add: account_ok_def)
  have "mset (map Fd (files tb)) = add_mset (Fd (files tb ! i)) (mset (map Fd (ys @ zs)))"
    by (subst s(1)) simp
  then have "holds t = add_mset (Fd (files tb ! i)) (R + table_resources (tb\<lparr>files := ys @ zs\<rparr>))"
    using assms(1) by (simp add: account_ok_def table_resources_def)
  note c = track_close [OF this p, of host]
  have "set (ys @ zs) \<subseteq> set (files tb)" by (subst s(1)) auto
  then show ?thesis
    using assms(1) c s(2) by (auto simp: account_ok_def fh_release_def)
qed

lemma account_opendir:
  assumes "account_ok R (tb, t)"
  shows "account_ok R (fh_do cfg (track host) (EvOpendir path) (tb, t))"
proof -
  obtain a t1 where m: "track host SysMalloc t = (a, t1)" by fastforce
  show ?thesis
  proof (cases a)
    case (Ret d b)
    obtain a' t2 where o: "track host (SysOpendir path) t1 = (a', t2)" by fastforce
    have t1: "holds t1 = add_mset (Mem d) (holds t)" "bad t1 = bad t"
      using m Ret by (auto simp: track_def Let_def split: prod.splits)
    show ?thesis
    proof (cases a')
      case (Ret p b')
      then have "holds t2 = add_mset (Dir p) (holds t1)" "bad t2 = bad t1"
        using o by (auto simp: track_def Let_def split: prod.splits)
      then show ?thesis
        using assms m o t1 \<open>a = Ret d b\<close> Ret
        by (simp add: fh_opendir_def account_ok_def table_resources_def dir_resources_def)
    qed (use assms m o t1 \<open>a = Ret d b\<close> in
      \<open>auto simp: fh_opendir_def account_ok_def track_def Let_def split: prod.splits\<close>)
  qed (use assms m in \<open>auto simp: fh_opendir_def account_ok_def track_def Let_def split: prod.splits\<close>)
qed

lemma account_releasedir:
  assumes "account_ok R (tb, t)" "i < length (dirs tb)"
  shows "account_ok R (tb\<lparr>dirs := remove i (dirs tb)\<rparr>, snd (fh_releasedir (track host) (dirs tb ! i) t))"
proof -
  obtain ys zs where s: "dirs tb = ys @ dirs tb ! i # zs" "remove i (dirs tb) = ys @ zs"
    using remove_split [OF assms(2)] by blast
  let ?d = "dirs tb ! i"
  have "sum_list (map dir_resources (dirs tb)) = dir_resources ?d + sum_list (map dir_resources (ys @ zs))"
    by (subst s(1)) simp
  then have h: "holds t = add_mset (Mem (fst ?d)) (add_mset (Dir (dp (snd ?d)))
      (R + table_resources (tb\<lparr>dirs := ys @ zs\<rparr>)))"
    using assms(1) by (simp add: account_ok_def table_resources_def dir_resources_def)
  then show ?thesis
    using assms(1) s(2) by (simp add: fh_releasedir_def track_def split_beta account_ok_def)
qed

lemma account_event:
  assumes "fds_ok host" "account_ok R st"
  shows "account_ok R (fh_do cfg (track host) ev st)"
proof -
  obtain tb t where st: "st = (tb, t)" by fastforce
  note a = assms(2) [unfolded st]
  have o: "account_ok R (case (case track host (SysOpen path flags mode) t of
        (Ret fd b, h1) \<Rightarrow> ((0, Some fd), h1) | (a, h1) \<Rightarrow> ((fst (ret0 a), None), h1)) of
      ((e :: int, Some fd), h') \<Rightarrow> (tb\<lparr>files := fd # files tb\<rparr>, h') | ((e, None), h') \<Rightarrow> (tb, h'))"
    for path flags mode
  proof -
    obtain r t1 where o: "track host (SysOpen path flags mode) t = (r, t1)" by fastforce
    show ?thesis
    proof (cases r)
      case (Ret fd b)
      then show ?thesis using account_opened [OF assms(1) a] o by simp
    qed (use o track_no_open [OF o] a in \<open>simp_all add: account_ok_def\<close>)
  qed
  show ?thesis
  proof (cases ev)
    case (EvOpen path flags)
    then show ?thesis using o [of path flags None] st by (simp add: fh_open_def)
  next
    case (EvCreate path mode flags)
    then show ?thesis using o [of path flags "Some mode"] st by (simp add: fh_create_def)
  next
    case (EvUse i r)
    then show ?thesis using account_keeps [OF keeps_fh_file_op [OF assms(1)] a] a st by simp
  next
    case (EvRelease i)
    then show ?thesis using account_release [OF a] a st by simp
  next
    case (EvOpendir path)
    then show ?thesis using account_opendir [OF a] st by simp
  next
    case (EvReleasedir i)
    then show ?thesis using account_releasedir [OF a] a st by simp
  next
    case (EvPath r)
    then show ?thesis using account_keeps [OF keeps_fh_xattr_op a] st by simp
  qed
qed

section \<open>Properties\<close>

text \<open>A transfer in \<open>fusexmp_fh.c\<close>: open the file, do what is asked, release it.\<close>

definition fh_transfer :: "bool \<Rightarrow> 'h host \<Rightarrow> string \<Rightarrow> 32 word \<Rightarrow> fh_req \<Rightarrow> 'h \<Rightarrow> reply \<times> 'h" where
  "fh_transfer cfg host path flags r h =
     (case fh_open host path flags h of
        ((e, None), h1) \<Rightarrow> ((e, []), h1)
      | ((e, Some fh), h1) \<Rightarrow>
          let (rp, h2) = fh_file_op cfg host fh r h1 in (rp, snd (fh_release host fh h2)))"

lemma with_file_transfer:
  assumes "\<And>fd h. fh_file_op cfg host fd r h = apfst rt (host (c fd) h)"
  shows "with_file host path flags c rt h = fh_transfer cfg host path flags r h"
proof -
  obtain a h1 where o: "host (SysOpen path flags None) h = (a, h1)" by fastforce
  show ?thesis
  proof (cases a)
    case (Ret fd b)
    obtain a' h2 where "host (c fd) h1 = (a', h2)" by fastforce
    then show ?thesis
      using o Ret by (simp add: with_file_def fh_transfer_def fh_open_def assms fh_release_def split_beta)
  qed (use o in \<open>simp_all add: with_file_def fh_transfer_def fh_open_def\<close>)
qed

text \<open>What all three versions pass on in the same way.\<close>

fun common_op :: "req \<Rightarrow> bool" where
  "common_op (Getattr path) = True"
| "common_op (Readlink path n) = True"
| "common_op (Mkdir path mode) = True"
| "common_op (Unlink path) = True"
| "common_op (Rmdir path) = True"
| "common_op (Symlink from to) = True"
| "common_op (Rename from to) = True"
| "common_op (Link from to) = True"
| "common_op (Chmod path mode) = True"
| "common_op (Chown path uid gid) = True"
| "common_op (Truncate path len) = True"
| "common_op (Mknod path mode rdev) = (\<not> S_ISREG mode \<and> \<not> S_ISFIFO mode)"
| "common_op r = False"

text \<open>The three versions agree on every host: they make the same calls and give the same replies for the
  operations on paths (nodes that are no files and no FIFOs included), and a read or write of the versions
  that keep no file open is exactly a session of the version that does: open, transfer, release.\<close>

theorem mirror_versions_agree:
  "(common_op r \<longrightarrow> mirror_file_op host r h = xmp_file_op host r h \<and> fh_xattr_op host r h = xmp_file_op host r h)
   \<and> mirror_file_op host (Read path n off) h = fh_transfer cfg host path O_RDONLY (FRead n off) h
   \<and> xmp_file_op host (Read path n off) h = fh_transfer cfg host path O_RDONLY (FRead n off) h
   \<and> mirror_file_op host (Write path xs off) h = fh_transfer cfg host path O_WRONLY (FWrite xs off) h
   \<and> xmp_file_op host (Write path xs off) h = fh_transfer cfg host path O_WRONLY (FWrite xs off) h"
proof -
  have "common_op r \<longrightarrow> mirror_file_op host r h = xmp_file_op host r h \<and> fh_xattr_op host r h = xmp_file_op host r h"
    by (cases r) (simp_all add: mirror_mknod_def fh_mknod_def fh_defs)
  moreover have "with_file host path O_RDONLY (\<lambda>fd. SysPread fd n off) retn h
      = fh_transfer cfg host path O_RDONLY (FRead n off) h"
    by (rule with_file_transfer) (simp add: fh_defs)
  moreover have "with_file host path O_WRONLY (\<lambda>fd. SysPwrite fd xs off) retn h
      = fh_transfer cfg host path O_WRONLY (FWrite xs off) h"
    by (rule with_file_transfer) (simp add: fh_defs)
  ultimately show ?thesis by simp
qed

text \<open>A host for examples: it grants every call and remembers them.\<close>

definition granting :: "call list host" where
  "granting c h = (Ret 3 [], c # h)"

lemma granting_ok: "fds_ok granting"
  by (simp add: fds_ok_def granting_def)

theorem mirror_versions_agree_witness:
  "mirror_file_op granting (Mknod ''/n'' 0x2180 5) [] = ((0, []), [SysMknod ''/n'' 0x2180 5])"
  using mirror_versions_agree [of "Mknod ''/n'' 0x2180 5" granting "[]"]
  by (simp add: S_ISREG_def S_ISFIFO_def granting_def)

text \<open>Whatever the host answers, errors included, \<open>xmp.c\<close> and \<open>fusexmp.c\<close> hold after any sequence of operations
  what they held before it, and never close a descriptor that is not theirs.\<close>

theorem mirror_keeps:
  assumes "fds_ok host"
  shows "holds (fold (\<lambda>r t. snd (xmp_file_op (track host) r t)) rs t) = holds t
    \<and> bad (fold (\<lambda>r t. snd (xmp_file_op (track host) r t)) rs t) = bad t
    \<and> holds (fold (\<lambda>r t. snd (mirror_file_op (track host) r t)) rs t) = holds t
    \<and> bad (fold (\<lambda>r t. snd (mirror_file_op (track host) r t)) rs t) = bad t"
  using keeps_fold [of "xmp_file_op (track host)" rs t] keeps_fold [of "mirror_file_op (track host)" rs t]
    keeps_xmp_file_op [OF assms] keeps_mirror_file_op [OF assms]
  by blast

theorem mirror_keeps_witness:
  "holds (fold (\<lambda>r t. snd (mirror_file_op (track granting) r t)) [Write ''/f'' ''ab'' 0, Mknod ''/g'' 0x81A4 0]
      \<lparr>hst = [], holds = {#}, bad = False\<rparr>) = {#}"
  using mirror_keeps [OF granting_ok, of "[Write ''/f'' ''ab'' 0, Mknod ''/g'' 0x81A4 0]"
      "\<lparr>hst = [], holds = {#}, bad = False\<rparr>"]
  by (simp del: mirror_file_op.simps xmp_file_op.simps)



text \<open>\<open>xmp_statfs\<close> of \<open>xmp.c\<close> reports every failure as \<open>-1\<close>, which is \<open>-EPERM\<close>.\<close>

lemma xmp_statfs_error: "host (SysStatfs ''/'') h = (Err e, h') \<Longrightarrow> xmp_statfs host h = ((- 1, []), h')"
  by (simp add: xmp_statfs_def)

text \<open>Where there is no descriptor left, \<open>flush\<close> reports the error of closing \<open>-1\<close> instead.\<close>

lemma fh_flush_error:
  "host (SysDup fh) h = (Err e, h1) \<Longrightarrow> host (SysClose (- 1)) h1 = (Err 9, h2) \<Longrightarrow>
    fh_flush host fh h = ((- 9, []), h2)"
  by (simp add: fh_flush_def)

end
