(* ===== verification/Fuse_Listing.thy ===== *)
theory Fuse_Listing
  imports Fuse_Mirror Interfaces
begin

text \<open>
  Listing a directory in \<open>fuse/xmp.c\<close>, \<open>fuse/fusexmp.c\<close> and \<open>fuse/fusexmp_fh.c\<close>, and the one-file system of
  \<open>fuse/hello.c\<close>. The first two list a directory in one call; the third serves it in parts, remembers the
  entry that did not fit into the library's buffer, and can go on from any position.
\<close>

section \<open>Listing\<close>

text \<open>What \<open>filler\<close> is given: name, the two attributes that are set, and the position that follows. Whether
  the library's buffer is full depends on what is in it.\<close>

record filled =
  f_name :: string
  f_ino :: nat
  f_mode :: nat
  f_off :: int

definition fill_of :: "dirent \<Rightarrow> int \<Rightarrow> filled" where
  "fill_of e off = \<lparr>f_name = d_name e, f_ino = d_ino e, f_mode = d_type e * 2 ^ 12, f_off = off\<rparr>"

text \<open>\<open>xmp.c\<close> hands on what \<open>filler\<close>, which is given the name and the type, returned. The first argument
  bounds the number of entries; \<open>None\<close> is a loop that goes on.\<close>

fun getdir_loop :: "nat \<Rightarrow> 'h host \<Rightarrow> int \<Rightarrow> ((string \<times> nat) list \<Rightarrow> string \<times> nat \<Rightarrow> int) \<Rightarrow> (string \<times> nat) list \<Rightarrow> 'h
    \<Rightarrow> ((int \<times> (string \<times> nat) list) \<times> 'h) option" where
  "getdir_loop 0 host p filler acc h = None"
| "getdir_loop (Suc k) host p filler acc h =
     (case host (SysReaddir p) h of
        (Ent e, h1) \<Rightarrow>
          let x = (d_name e, d_type e); res = filler acc x in
          if res \<noteq> 0 then Some ((res, acc @ [x]), h1) else getdir_loop k host p filler (acc @ [x]) h1
      | (a, h1) \<Rightarrow> Some ((0, acc), h1))"

definition xmp_getdir :: "nat \<Rightarrow> 'h host \<Rightarrow> string \<Rightarrow> ((string \<times> nat) list \<Rightarrow> string \<times> nat \<Rightarrow> int) \<Rightarrow> 'h
    \<Rightarrow> ((int \<times> (string \<times> nat) list) \<times> 'h) option" where
  "xmp_getdir k host path filler h =
     (case host (SysOpendir path) h of
        (Ret p b, h1) \<Rightarrow>
          map_option (\<lambda>(r, h2). (r, snd (host (SysClosedir p) h2))) (getdir_loop k host p filler [] h1)
      | (a, h1) \<Rightarrow> Some ((fst (ret0 a), []), h1))"

text \<open>\<open>fusexmp.c\<close>\<close>

fun readdir_loop :: "nat \<Rightarrow> 'h host \<Rightarrow> int \<Rightarrow> (filled list \<Rightarrow> filled \<Rightarrow> bool) \<Rightarrow> filled list \<Rightarrow> 'h
    \<Rightarrow> (filled list \<times> 'h) option" where
  "readdir_loop 0 host p full acc h = None"
| "readdir_loop (Suc k) host p full acc h =
     (case host (SysReaddir p) h of
        (Ent e, h1) \<Rightarrow>
          if full acc (fill_of e 0) then Some (acc, h1)
          else readdir_loop k host p full (acc @ [fill_of e 0]) h1
      | (a, h1) \<Rightarrow> Some (acc, h1))"

definition mirror_readdir :: "nat \<Rightarrow> 'h host \<Rightarrow> string \<Rightarrow> (filled list \<Rightarrow> filled \<Rightarrow> bool) \<Rightarrow> 'h
    \<Rightarrow> ((int \<times> filled list) \<times> 'h) option" where
  "mirror_readdir k host path full h =
     (case host (SysOpendir path) h of
        (Ret p b, h1) \<Rightarrow>
          map_option (\<lambda>(xs, h2). ((0, xs), snd (host (SysClosedir p) h2))) (readdir_loop k host p full [] h1)
      | (a, h1) \<Rightarrow> Some ((fst (ret0 a), []), h1))"

text \<open>\<open>fusexmp_fh.c\<close>. \<open>telldir\<close> has no error.\<close>

fun offset_of :: "answer \<Rightarrow> int" where
  "offset_of (Ret n b) = n"
| "offset_of a = - 1"

definition next_entry :: "'h host \<Rightarrow> xmp_dirp \<Rightarrow> 'h \<Rightarrow> dirent option \<times> 'h" where
  "next_entry host d h =
     (case dentry d of
        Some e \<Rightarrow> (Some e, h)
      | None \<Rightarrow> (case host (SysReaddir (dp d)) h of (Ent e, h1) \<Rightarrow> (Some e, h1) | (a, h1) \<Rightarrow> (None, h1)))"

fun fh_readdir_loop :: "nat \<Rightarrow> 'h host \<Rightarrow> (filled list \<Rightarrow> filled \<Rightarrow> bool) \<Rightarrow> filled list \<Rightarrow> xmp_dirp \<Rightarrow> 'h
    \<Rightarrow> (filled list \<times> xmp_dirp \<times> 'h) option" where
  "fh_readdir_loop 0 host full acc d h = None"
| "fh_readdir_loop (Suc k) host full acc d h =
     (case next_entry host d h of
        (None, h1) \<Rightarrow> Some (acc, d\<lparr>dentry := None\<rparr>, h1)
      | (Some e, h1) \<Rightarrow>
          let (a, h2) = host (SysTelldir (dp d)) h1; nextoff = offset_of a in
          if full acc (fill_of e nextoff) then Some (acc, d\<lparr>dentry := Some e\<rparr>, h2)
          else fh_readdir_loop k host full (acc @ [fill_of e nextoff])
            (d\<lparr>dentry := None, doffset := nextoff\<rparr>) h2)"

definition fh_readdir :: "nat \<Rightarrow> 'h host \<Rightarrow> (filled list \<Rightarrow> filled \<Rightarrow> bool) \<Rightarrow> int \<Rightarrow> xmp_dirp \<Rightarrow> 'h
    \<Rightarrow> (filled list \<times> xmp_dirp \<times> 'h) option" where
  "fh_readdir k host full off d h =
     (if off \<noteq> doffset d
      then fh_readdir_loop k host full [] (d\<lparr>dentry := None, doffset := off\<rparr>) (snd (host (SysSeekdir (dp d) off) h))
      else fh_readdir_loop k host full [] d h)"

text \<open>The caller's loop: it asks for more from the position after the last entry it got, until there is
  nothing more. The room in its buffer may differ from call to call.\<close>

fun fh_listing :: "nat \<Rightarrow> nat \<Rightarrow> 'h host \<Rightarrow> (nat \<Rightarrow> filled list \<Rightarrow> filled \<Rightarrow> bool) \<Rightarrow> int \<Rightarrow> xmp_dirp \<Rightarrow> 'h
    \<Rightarrow> filled list option" where
  "fh_listing 0 k host full off d h = None"
| "fh_listing (Suc c) k host full off d h =
     (case fh_readdir k host (full c) off d h of
        None \<Rightarrow> None
      | Some (xs, d', h') \<Rightarrow>
          if xs = [] then Some []
          else map_option (\<lambda>ys. xs @ ys) (fh_listing c k host full (f_off (last xs)) d' h'))"

section \<open>Directory streams\<close>

text \<open>What the C library documents of a stream over the entries \<open>es\<close>: reading goes from one position to the
  next, \<open>telldir\<close> gives a number for the position, other positions having others, 0 for the first, and
  \<open>seekdir\<close> goes to the position with the number.\<close>

definition dir_stream :: "'h host \<Rightarrow> int \<Rightarrow> dirent list \<Rightarrow> (nat \<Rightarrow> int) \<Rightarrow> ('h \<Rightarrow> nat) \<Rightarrow> bool" where
  "dir_stream host p es cookie pos \<longleftrightarrow>
     inj_on cookie {..length es} \<and> cookie 0 = 0
     \<and> (\<forall>h. pos h < length es \<longrightarrow>
          (\<exists>h'. host (SysReaddir p) h = (Ent (es ! pos h), h') \<and> pos h' = Suc (pos h)))
     \<and> (\<forall>h. length es \<le> pos h \<longrightarrow> (\<exists>h'. host (SysReaddir p) h = (Eod, h') \<and> pos h' = pos h))
     \<and> (\<forall>h. \<exists>b h'. host (SysTelldir p) h = (Ret (cookie (pos h)) b, h') \<and> pos h' = pos h)
     \<and> (\<forall>h i. i \<le> length es \<longrightarrow> pos (snd (host (SysSeekdir p (cookie i)) h)) = i)"

lemma stream_read:
  "dir_stream host p es cookie pos \<Longrightarrow> pos h < length es \<Longrightarrow>
    \<exists>h'. host (SysReaddir p) h = (Ent (es ! pos h), h') \<and> pos h' = Suc (pos h)"
  "dir_stream host p es cookie pos \<Longrightarrow> length es \<le> pos h \<Longrightarrow>
    \<exists>h'. host (SysReaddir p) h = (Eod, h') \<and> pos h' = pos h"
  by (simp_all add: dir_stream_def)

lemma stream_tell:
  "dir_stream host p es cookie pos \<Longrightarrow>
    \<exists>b h'. host (SysTelldir p) h = (Ret (cookie (pos h)) b, h') \<and> pos h' = pos h"
  by (simp add: dir_stream_def)

lemma stream_seek:
  "dir_stream host p es cookie pos \<Longrightarrow> i \<le> length es \<Longrightarrow>
    pos (snd (host (SysSeekdir p (cookie i)) h)) = i"
  by (simp add: dir_stream_def)

lemma stream_cookie:
  "dir_stream host p es cookie pos \<Longrightarrow> i \<le> length es \<Longrightarrow> j \<le> length es \<Longrightarrow> cookie i = cookie j \<longleftrightarrow> i = j"
  by (auto simp: dir_stream_def inj_on_def)

text \<open>The state of \<open>fusexmp_fh.c\<close> is at place \<open>j\<close>: the stream is there, or one further if the entry of that
  place is remembered.\<close>

definition at_place :: "dirent list \<Rightarrow> (nat \<Rightarrow> int) \<Rightarrow> ('h \<Rightarrow> nat) \<Rightarrow> int \<Rightarrow> nat \<Rightarrow> xmp_dirp \<Rightarrow> 'h \<Rightarrow> bool" where
  "at_place es cookie pos p j d h \<longleftrightarrow> dp d = p \<and> j \<le> length es \<and> doffset d = cookie j
     \<and> (case dentry d of None \<Rightarrow> pos h = j | Some e \<Rightarrow> j < length es \<and> e = es ! j \<and> pos h = Suc j)"

definition entry_at :: "dirent list \<Rightarrow> (nat \<Rightarrow> int) \<Rightarrow> nat \<Rightarrow> filled" where
  "entry_at es cookie i = fill_of (es ! i) (cookie (Suc i))"

lemma next_entry_at:
  assumes "dir_stream host p es cookie pos" "at_place es cookie pos p j d h"
  shows "if j < length es then \<exists>h'. next_entry host d h = (Some (es ! j), h') \<and> pos h' = Suc j
    else \<exists>h'. next_entry host d h = (None, h') \<and> pos h' = j"
proof (cases "dentry d")
  case None
  then show ?thesis
    using assms(2) stream_read [OF assms(1), of h] by (auto simp: at_place_def next_entry_def)
qed (use assms in \<open>auto simp: at_place_def next_entry_def\<close>)

lemma fh_readdir_loop_from:
  assumes "dir_stream host p es cookie pos"
  shows "at_place es cookie pos p j d h \<Longrightarrow> length es - j < k \<Longrightarrow>
    \<exists>m d' h'. fh_readdir_loop k host full acc d h = Some (acc @ map (entry_at es cookie) [j..<j + m], d', h')
      \<and> at_place es cookie pos p (j + m) d' h'
      \<and> (m = 0 \<longrightarrow> j = length es \<or> full acc (entry_at es cookie j))"
proof (induction k arbitrary: j acc d h)
  case (Suc k)
  have dp: "dp d = p" and j: "j \<le> length es" using Suc.prems(1) by (simp_all add: at_place_def)
  show ?case
  proof (cases "j < length es")
    case False
    then obtain h1 where "next_entry host d h = (None, h1)" "pos h1 = j"
      using next_entry_at [OF assms Suc.prems(1)] by auto
    then show ?thesis
      using Suc.prems(1) False j by (intro exI [of _ 0]) (simp add: at_place_def split: option.splits)
  next
    case True
    then obtain h1 where h1: "next_entry host d h = (Some (es ! j), h1)" "pos h1 = Suc j"
      using next_entry_at [OF assms Suc.prems(1)] by auto
    obtain b h2 where h2: "host (SysTelldir p) h1 = (Ret (cookie (Suc j)) b, h2)" "pos h2 = Suc j"
      using stream_tell [OF assms, of h1] h1(2) by auto
    show ?thesis
    proof (cases "full acc (entry_at es cookie j)")
      case f: True
      then show ?thesis
        using h1 h2 dp True Suc.prems(1)
        by (intro exI [of _ 0]) (simp add: entry_at_def at_place_def)
    next
      case False
      let ?d = "d\<lparr>dentry := None, doffset := cookie (Suc j)\<rparr>"
      have "at_place es cookie pos p (Suc j) ?d h2"
        using True dp h2(2) by (simp add: at_place_def)
      moreover have "length es - Suc j < k" using Suc.prems(2) True by linarith
      ultimately obtain m d' h' where
        "fh_readdir_loop k host full (acc @ [entry_at es cookie j]) ?d h2
          = Some ((acc @ [entry_at es cookie j]) @ map (entry_at es cookie) [Suc j..<Suc j + m], d', h')"
        "at_place es cookie pos p (Suc j + m) d' h'"
        using Suc.IH [of "Suc j" ?d h2 "acc @ [entry_at es cookie j]"] by blast
      moreover have "[j..<j + Suc m] = j # [Suc j..<Suc j + m]"
        by (simp add: upt_conv_Cons del: upt_Suc)
      ultimately show ?thesis
        using h1 h2 dp False
        by (intro exI [of _ "Suc m"]) (simp add: entry_at_def Let_def del: upt_Suc)
    qed
  qed
qed simp

lemma fh_readdir_from:
  assumes "dir_stream host p es cookie pos" "at_place es cookie pos p j d h" "i \<le> length es" "length es < k"
  shows "\<exists>m d' h'. fh_readdir k host full (cookie i) d h = Some (map (entry_at es cookie) [i..<i + m], d', h')
    \<and> at_place es cookie pos p (i + m) d' h'
    \<and> (m = 0 \<longrightarrow> i = length es \<or> full [] (entry_at es cookie i))"
proof -
  have dp: "dp d = p" and j: "j \<le> length es" "doffset d = cookie j"
    using assms(2) by (simp_all add: at_place_def)
  show ?thesis
  proof (cases "cookie i = doffset d")
    case True
    then have "i = j" using j stream_cookie [OF assms(1,3)] by simp
    then show ?thesis
      using True fh_readdir_loop_from [OF assms(1,2), of k full "[]"] assms(4) by (simp add: fh_readdir_def)
  next
    case False
    let ?d = "d\<lparr>dentry := None, doffset := cookie i\<rparr>"
    let ?h = "snd (host (SysSeekdir p (cookie i)) h)"
    have "at_place es cookie pos p i ?d ?h"
      using dp assms(3) stream_seek [OF assms(1,3)] by (simp add: at_place_def)
    then show ?thesis
      using False dp fh_readdir_loop_from [OF assms(1), of i ?d ?h k full "[]"] assms(4)
      by (simp add: fh_readdir_def)
  qed
qed

text \<open>An empty buffer has room for an entry.\<close>

definition room_for_one :: "(nat \<Rightarrow> filled list \<Rightarrow> filled \<Rightarrow> bool) \<Rightarrow> bool" where
  "room_for_one full \<longleftrightarrow> (\<forall>c x. \<not> full c [] x)"

lemma fh_listing_from:
  assumes "dir_stream host p es cookie pos" "length es < k" "room_for_one full"
  shows "at_place es cookie pos p j d h \<Longrightarrow> i \<le> length es \<Longrightarrow> length es - i < c \<Longrightarrow>
    fh_listing c k host full (cookie i) d h = Some (map (entry_at es cookie) [i..<length es])"
proof (induction c arbitrary: i j d h)
  case (Suc c)
  obtain m d' h' where m: "fh_readdir k host (full c) (cookie i) d h
        = Some (map (entry_at es cookie) [i..<i + m], d', h')"
      "at_place es cookie pos p (i + m) d' h'" "m = 0 \<longrightarrow> i = length es"
    using fh_readdir_from [OF assms(1) Suc.prems(1,2) assms(2), of "full c"] assms(3)
    by (auto simp: room_for_one_def)
  show ?case
  proof (cases "m = 0")
    case False
    have le: "i + m \<le> length es" using m(2) by (simp add: at_place_def)
    have "f_off (last (map (entry_at es cookie) [i..<i + m])) = cookie (i + m)"
      using False by (simp add: last_map entry_at_def fill_of_def)
    moreover have "fh_listing c k host full (cookie (i + m)) d' h' = Some (map (entry_at es cookie) [i + m..<length es])"
      by (rule Suc.IH [OF m(2) le]) (use False Suc.prems(3) le in linarith)
    moreover have "[i..<length es] = [i..<i + m] @ [i + m..<length es]"
      using le by (metis le_add1 le_Suc_ex upt_add_eq_append)
    ultimately show ?thesis using m(1) False by simp
  qed (use m in simp)
qed simp

lemma readdir_loop_from:
  assumes "dir_stream host p es cookie pos"
  shows "pos h \<le> length es \<Longrightarrow> length es - pos h < k \<Longrightarrow>
    \<exists>h'. readdir_loop k host p (\<lambda>_ _. False) acc h = Some (acc @ map (\<lambda>e. fill_of e 0) (drop (pos h) es), h')"
proof (induction k arbitrary: acc h)
  case (Suc k)
  show ?case
  proof (cases "pos h < length es")
    case True
    then obtain h1 where h1: "host (SysReaddir p) h = (Ent (es ! pos h), h1)" "pos h1 = Suc (pos h)"
      using stream_read(1) [OF assms] by blast
    moreover have "pos h1 \<le> length es" "length es - pos h1 < k" using h1(2) True Suc.prems(2) by linarith+
    ultimately obtain h' where "readdir_loop k host p (\<lambda>_ _. False) (acc @ [fill_of (es ! pos h) 0]) h1
        = Some ((acc @ [fill_of (es ! pos h) 0]) @ map (\<lambda>e. fill_of e 0) (drop (pos h1) es), h')"
      using Suc.IH [of h1 "acc @ [fill_of (es ! pos h) 0]"] by blast
    then show ?thesis using h1 by (simp flip: Cons_nth_drop_Suc [OF True])
  qed (use Suc.prems stream_read(2) [OF assms, of h] in auto)
qed simp

lemma getdir_loop_from:
  assumes "dir_stream host p es cookie pos"
  shows "pos h \<le> length es \<Longrightarrow> length es - pos h < k \<Longrightarrow>
    \<exists>h'. getdir_loop k host p (\<lambda>_ _. 0) acc h = Some ((0, acc @ map (\<lambda>e. (d_name e, d_type e)) (drop (pos h) es)), h')"
proof (induction k arbitrary: acc h)
  case (Suc k)
  show ?case
  proof (cases "pos h < length es")
    case True
    let ?x = "(d_name (es ! pos h), d_type (es ! pos h))"
    obtain h1 where h1: "host (SysReaddir p) h = (Ent (es ! pos h), h1)" "pos h1 = Suc (pos h)"
      using stream_read(1) [OF assms True] by blast
    moreover have "pos h1 \<le> length es" "length es - pos h1 < k" using h1(2) True Suc.prems(2) by linarith+
    ultimately obtain h' where "getdir_loop k host p (\<lambda>_ _. 0) (acc @ [?x]) h1
        = Some ((0, (acc @ [?x]) @ map (\<lambda>e. (d_name e, d_type e)) (drop (pos h1) es)), h')"
      using Suc.IH [of h1 "acc @ [?x]"] by blast
    then show ?thesis using h1 by (simp flip: Cons_nth_drop_Suc [OF True])
  qed (use Suc.prems stream_read(2) [OF assms, of h] in auto)
qed simp

text \<open>The loops hold nothing; the stream is closed on every path.\<close>

lemma readdir_loop_keeps:
  "readdir_loop k (track host) p full acc t = Some (r, t') \<Longrightarrow> holds t' = holds t \<and> bad t' = bad t"
proof (induction k arbitrary: acc t)
  case (Suc k)
  obtain a t1 where r: "track host (SysReaddir p) t = (a, t1)" by fastforce
  then have "holds t1 = holds t" "bad t1 = bad t"
    by (auto simp: track_def Let_def split: prod.splits)
  then show ?case using Suc r by (cases a) (auto split: if_splits)
qed simp

lemma getdir_loop_keeps:
  "getdir_loop k (track host) p filler acc t = Some (r, t') \<Longrightarrow> holds t' = holds t \<and> bad t' = bad t"
proof (induction k arbitrary: acc t)
  case (Suc k)
  obtain a t1 where r: "track host (SysReaddir p) t = (a, t1)" by fastforce
  then have "holds t1 = holds t" "bad t1 = bad t"
    by (auto simp: track_def Let_def split: prod.splits)
  then show ?case using Suc r by (cases a) (auto simp: Let_def split: if_splits)
qed simp

lemma readdir_keeps:
  assumes "mirror_readdir k (track host) path full t = Some (r, t') \<or> xmp_getdir k (track host) path filler t = Some (r', t')"
  shows "holds t' = holds t \<and> bad t' = bad t"
proof -
  obtain a t1 where o: "track host (SysOpendir path) t = (a, t1)" by fastforce
  show ?thesis
  proof (cases a)
    case (Ret p b)
    then have t1: "holds t1 = add_mset (Dir p) (holds t)" "bad t1 = bad t"
      using o by (auto simp: track_def Let_def split: prod.splits)
    have "\<exists>t2. holds t2 = holds t1 \<and> bad t2 = bad t1 \<and> t' = snd (track host (SysClosedir p) t2)"
      using assms o Ret readdir_loop_keeps [of k host p full "[]" t1] getdir_loop_keeps [of k host p filler "[]" t1]
      by (auto simp: mirror_readdir_def xmp_getdir_def)
    then show ?thesis using t1 by (auto simp: track_def split_beta)
  qed (use assms o in \<open>auto simp: mirror_readdir_def xmp_getdir_def track_def Let_def split: prod.splits\<close>)
qed

section \<open>One file (hello.c)\<close>

definition hello_str :: string where
  "hello_str = ''Hello World!'' @ [NL]"

definition hello_path :: string where
  "hello_path = ''/hello''"

text \<open>Whether it is a directory, its permissions, links and size.\<close>

definition hello_getattr :: "string \<Rightarrow> (bool \<times> nat \<times> nat \<times> nat) res" where
  "hello_getattr path =
     (if path = ''/'' then Inr (True, 493, 2, 0)
      else if path = hello_path then Inr (False, 292, 1, length hello_str)
      else fail ENOENT)"

definition hello_readdir :: "string \<Rightarrow> string list res" where
  "hello_readdir path =
     (if path \<noteq> ''/'' then fail ENOENT else Inr [''.'', ''..'', drop 1 hello_path])"

definition hello_open :: "string \<Rightarrow> 32 word \<Rightarrow> unit res" where
  "hello_open path flags =
     (if path \<noteq> hello_path then fail ENOENT
      else if flags AND 3 \<noteq> O_RDONLY then fail EACCES
      else Inr ())"

text \<open>The position is compared, and added to the size, as a number of 64 bits without sign.\<close>

definition hello_read :: "string \<Rightarrow> 64 word \<Rightarrow> 64 word \<Rightarrow> char list res" where
  "hello_read path sz off =
     (if path \<noteq> hello_path then fail ENOENT
      else let len = of_nat (length hello_str) in
        if off < len then
          let sz' = (if len < off + sz then len - off else sz) in
          if length hello_str + 1 < unat off + unat sz' then crash OutOfBounds
          else Inr (chunk (unat off) (unat sz') (hello_str @ [NUL]))
        else Inr [])"

lemma length_hello: "length hello_str = 13"
  by (simp add: hello_str_def)

text \<open>As long as the end of the request does not wrap around, the part of the text it covers is returned.\<close>

lemma hello_read_exact:
  assumes "unat off + unat sz < 2 ^ 64"
  shows "hello_read hello_path sz off = Inr (chunk (unat off) (unat sz) hello_str)"
proof (cases "unat off < 13")
  case True
  have s: "unat (off + sz) = unat off + unat sz"
    using assms by (simp add: unat_word_ariths)
  have "off \<le> 13" using True by (simp add: word_le_nat_alt)
  then have d: "unat (13 - off) = 13 - unat off" by (simp add: unat_sub)
  have c: "chunk (unat off) n (hello_str @ [NUL]) = chunk (unat off) n hello_str" if "unat off + n \<le> 13" for n
    using that True by (simp add: chunk_def length_hello)
  have t: "chunk (unat off) (13 - unat off) hello_str = chunk (unat off) (unat sz) hello_str"
    if "13 \<le> unat off + unat sz"
    using that True by (simp add: chunk_def length_hello)
  show ?thesis
    using True s d t c [of "13 - unat off"] c [of "unat sz"]
    by (auto simp: hello_read_def Let_def length_hello word_less_nat_alt)
qed (simp add: hello_read_def Let_def length_hello word_less_nat_alt chunk_def)

text \<open>What a reader has still to receive at a position, and a read there.\<close>

definition hello_rest :: "nat \<Rightarrow> string" where
  "hello_rest off = drop off hello_str"

definition hello_step :: "nat \<Rightarrow> nat \<Rightarrow> string \<times> nat" where
  "hello_step n off =
     (case hello_read hello_path (of_nat n) (of_nat off) of
        Inr xs \<Rightarrow> (xs, off + length xs) | Inl e \<Rightarrow> ([], off))"

lemma hello_step_exact:
  assumes "n < 2 ^ 63" "off < 2 ^ 63"
  shows "hello_step n off = (chunk off n hello_str, off + min n (13 - off))"
proof -
  have u: "unat (of_nat n :: 64 word) = n" "unat (of_nat off :: 64 word) = off"
    using assms by (simp_all add: unat_of_nat)
  show ?thesis
    using assms hello_read_exact [of "of_nat off" "of_nat n"] u by (simp add: hello_step_def length_hello)
qed

interpretation hello: eof_reader hello_rest hello_step "\<lambda>n off. 0 < n \<and> n < 2 ^ 63 \<and> off \<le> 13" "\<lambda>_. 13"
proof
  fix n off :: nat
  assume ok: "0 < n \<and> n < 2 ^ 63 \<and> off \<le> 13"
  then have s: "hello_step n off = (chunk off n hello_str, off + min n (13 - off))"
    by (simp add: hello_step_exact)
  {
    assume r: "hello_rest off \<noteq> []"
    then have "off < 13" by (simp add: hello_rest_def length_hello)
    then show "fst (hello_step n off) \<noteq> [] \<and> fst (hello_step n off) @ hello_rest (snd (hello_step n off)) = hello_rest off"
      using ok s length_hello
      by (auto simp: hello_rest_def chunk_def min_def simp flip: drop_drop) (metis append_take_drop_id drop_drop add.commute)+
    show "(13 :: nat) = 13" ..
    show "0 < n \<and> n < 2 ^ 63 \<and> snd (hello_step n off) \<le> 13"
      using ok s by (auto simp: min_def)
  }
  assume "hello_rest off = []"
  then have "off = 13" using ok by (simp add: hello_rest_def length_hello)
  then show "hello_step n off = ([], 13)" using s by (simp add: chunk_def length_hello)
qed

section \<open>Properties\<close>

text \<open>C17: \<open>fusexmp_fh.c\<close> lists a directory completely, each entry once and in order, from whatever position the
  caller asks for and wherever the stream is, whatever the room in the caller's buffer at each call, as
  long as it has room for one entry; the positions handed out lead on from the entry.\<close>

theorem fh_listing_resumes:
  assumes "dir_stream host p es cookie pos" "at_place es cookie pos p j d h" "i \<le> length es"
    and "room_for_one full" "length es < k" "length es - i < c"
  shows "fh_listing c k host full (cookie i) d h = Some (map (entry_at es cookie) [i..<length es])"
  by (rule fh_listing_from [OF assms(1,5,4,2,3,6)])

text \<open>A host for examples, whose state is the position in its only directory.\<close>

definition one_dir :: "dirent list \<Rightarrow> nat host" where
  "one_dir es c h =
     (case c of
        SysReaddir p \<Rightarrow> if h < length es then (Ent (es ! h), Suc h) else (Eod, h)
      | SysTelldir p \<Rightarrow> (Ret (int h) [], h)
      | SysSeekdir p off \<Rightarrow> (Ret 0 [], nat off)
      | SysOpendir path \<Rightarrow> (Ret 1 [], 0)
      | _ \<Rightarrow> (Ret 1 [], h))"

lemma one_dir_stream: "dir_stream (one_dir es) 1 es int id"
  by (auto simp: dir_stream_def one_dir_def)

theorem fh_listing_resumes_witness:
  "fh_listing 4 4 (one_dir (map (\<lambda>n. \<lparr>d_name = [n], d_ino = 1, d_type = 8\<rparr>) ''abc'')) (\<lambda>_ acc _. length acc = 1) 1
      \<lparr>dp = 1, dentry = None, doffset = 0\<rparr> 0
    = Some [\<lparr>f_name = ''b'', f_ino = 1, f_mode = 0x8000, f_off = 2\<rparr>, \<lparr>f_name = ''c'', f_ino = 1, f_mode = 0x8000, f_off = 3\<rparr>]"
proof -
  let ?es = "map (\<lambda>n. \<lparr>d_name = [n], d_ino = 1, d_type = 8\<rparr>) ''abc''"
  have "at_place ?es int id 1 0 \<lparr>dp = 1, dentry = None, doffset = 0\<rparr> (0 :: nat)"
    by (simp add: at_place_def)
  from fh_listing_resumes [OF one_dir_stream this, of 1 "\<lambda>_ acc _. length acc = 1" 4 4] show ?thesis
    by (simp add: entry_at_def fill_of_def upt_rec room_for_one_def del: fh_listing.simps)
qed

text \<open>The three versions list the same directory: the one that lists it at once with names and types, the one
  that lists it at once with inode numbers and modes, and the one that serves it in parts give the same
  entries in the same order, and report success.\<close>

theorem listings_agree:
  assumes "dir_stream host p es cookie pos"
    and "\<And>h. \<exists>b h'. host (SysOpendir path) h = (Ret p b, h') \<and> pos h' = 0"
    and "\<And>h. \<exists>q b h'. host SysMalloc h = (Ret q b, h')"
    and "room_for_one full" "length es < k" "length es < c"
  shows "(\<exists>h'. xmp_getdir k host path (\<lambda>_ _. 0) h = Some ((0, map (\<lambda>e. (d_name e, d_type e)) es), h'))
    \<and> (\<exists>h'. mirror_readdir k host path (\<lambda>_ _. False) h = Some ((0, map (\<lambda>e. fill_of e 0) es), h'))
    \<and> (\<exists>a d h'. fh_opendir host path h = ((0, Some (a, d)), h')
        \<and> fh_listing c k host full 0 d h' = Some (map (entry_at es cookie) [0..<length es]))"
proof -
  obtain b h1 where h1: "host (SysOpendir path) h = (Ret p b, h1)" "pos h1 = 0" using assms(2) by blast
  obtain q b' h2 where h2: "host SysMalloc h = (Ret q b', h2)" using assms(3) by blast
  obtain b'' h3 where h3: "host (SysOpendir path) h2 = (Ret p b'', h3)" "pos h3 = 0" using assms(2) by blast
  let ?d = "\<lparr>dp = p, dentry = None, doffset = 0\<rparr>"
  have c: "cookie 0 = 0" using assms(1) by (simp add: dir_stream_def)
  then have "at_place es cookie pos p 0 ?d h3" using h3(2) by (simp add: at_place_def)
  then have "fh_listing c k host full 0 ?d h3 = Some (map (entry_at es cookie) [0..<length es])"
    using fh_listing_from [OF assms(1,5,4), of 0 ?d h3 0 c] assms(6) c by simp
  moreover have "fh_opendir host path h = ((0, Some (q, ?d)), h3)"
    using h2 h3(1) by (simp add: fh_opendir_def)
  moreover have "\<exists>h'. xmp_getdir k host path (\<lambda>_ _. 0) h = Some ((0, map (\<lambda>e. (d_name e, d_type e)) es), h')"
    using getdir_loop_from [OF assms(1), of h1 k "[]"] h1 assms(5) by (auto simp: xmp_getdir_def)
  moreover have "\<exists>h'. mirror_readdir k host path (\<lambda>_ _. False) h = Some ((0, map (\<lambda>e. fill_of e 0) es), h')"
    using readdir_loop_from [OF assms(1), of h1 k "[]"] h1 assms(5) by (auto simp: mirror_readdir_def)
  ultimately show ?thesis by blast
qed

theorem listings_agree_witness:
  "\<exists>h'. mirror_readdir 2 (one_dir [\<lparr>d_name = ''f'', d_ino = 7, d_type = 8\<rparr>]) ''/'' (\<lambda>_ _. False) 0
    = Some ((0, [\<lparr>f_name = ''f'', f_ino = 7, f_mode = 0x8000, f_off = 0\<rparr>]), h')"
  using listings_agree [OF one_dir_stream, of "[\<lparr>d_name = ''f'', d_ino = 7, d_type = 8\<rparr>]" "''/''" "\<lambda>_ _ _. False" 2 2 0]
  by (simp add: one_dir_def fill_of_def room_for_one_def)

text \<open>The file of \<open>hello.c\<close>: read with any positive size below 2^63 to its end it gives the text, which has the
  length its attributes announce, and the file is the only one that the directory lists and that can be
  opened.\<close>

theorem hello_served:
  assumes "0 < n" "n < 2 ^ 63"
  shows "\<exists>d perms links len. hello_getattr hello_path = Inr (d, perms, links, len)
      \<and> cat hello_step 14 n 0 = Some (hello_str, len)
    \<and> (\<forall>path. hello_open path O_RDONLY = Inr () \<longleftrightarrow> path = hello_path)
    \<and> hello_readdir ''/'' = Inr [''.'', ''..'', drop 1 hello_path]"
  using hello.cat_complete [of n 0 14] assms
  by (auto simp: hello_getattr_def hello_rest_def length_hello hello_open_def hello_readdir_def
      hello_path_def O_RDONLY_def)

theorem hello_served_witness: "cat hello_step 14 5 0 = Some (hello_str, 13)"
  using hello_served [of 5] by (auto simp: hello_getattr_def length_hello hello_path_def)

text \<open>Where the end of a request wraps around, the text is left.\<close>

lemma hello_read_wraps: "hello_read hello_path 0xFFFFFFFFFFFFFFFF 1 = crash OutOfBounds"
  by (simp add: hello_read_def length_hello)

end
