(* ===== verification/Programs.thy ===== *)
theory Programs
  imports Decimal
begin

text \<open>
  User programs: \<open>load_module/umaster\<close>, which load a module from a file (\<open>inst1.c\<close>, \<open>inst2.c\<close>) and unload
  it (\<open>rem1.c\<close>, \<open>rem2.c\<close>), each once by number of the system call and once by its name in the C library;
  and \<open>blkdev/test_seq.c\<close>, which writes a sequence of bytes to a block device and compares what it reads
  back. The system calls are parameters.
\<close>

section \<open>Loading a module (inst1.c, inst2.c)\<close>

definition SLAVE_FILE :: string where
  "SLAVE_FILE = ''./slave.ko''"

text \<open>\<open>strcpy\<close> and \<open>strcat\<close> into arrays of 80 characters; strings have no zero bytes.\<close>

definition strcpy80 :: "string \<Rightarrow> string res" where
  "strcpy80 src = (if length src < 80 then Inr src else crash OutOfBounds)"

definition strcat80 :: "string \<Rightarrow> string \<Rightarrow> string res" where
  "strcat80 dst src = (if length dst + length src < 80 then Inr (dst @ src) else crash OutOfBounds)"

fun parms_loop :: "string \<Rightarrow> string list \<Rightarrow> string res" where
  "parms_loop parms [] = Inr parms"
| "parms_loop parms (a # as) =
     (case strcat80 parms a of
        Inl e \<Rightarrow> Inl e
      | Inr p1 \<Rightarrow> (case strcat80 p1 '' '' of Inl e \<Rightarrow> Inl e | Inr p2 \<Rightarrow> parms_loop p2 as))"

text \<open>The file and the parameters; \<open>args\<close> is \<open>argv\<close> without the program.\<close>

definition inst_args :: "string list \<Rightarrow> (string \<times> string) res" where
  "inst_args args =
     (case args of
        [] \<Rightarrow> Inr (SLAVE_FILE, [])
      | f # as \<Rightarrow>
          (case strcpy80 f of
             Inl e \<Rightarrow> Inl e
           | Inr file \<Rightarrow> map_sum id (\<lambda>parms. (file, parms)) (parms_loop [] as)))"

text \<open>What the calls return: an error number or what is wanted. \<open>rd\<close> has the number of bytes read, which
  are the first of \<open>contents\<close>; \<open>init_module\<close> is the kernel's answer.\<close>

record inst_env =
  open_err :: "int option"
  stat_err :: "int option"
  is_reg :: bool
  fsize :: nat
  malloc_err :: "int option"
  rd :: int
  read_err :: int
  contents :: "char list"
  init_module :: "char list \<Rightarrow> string \<Rightarrow> int"

text \<open>What the process holds, and the images and parameters handed to the kernel.\<close>

record proc =
  fds :: int
  bufs :: int
  inits :: "(char list \<times> string) list"

text \<open>The last call is made by number or by name.\<close>

datatype sysnr = NR_init_module | NR_delete_module

fun syscall_init :: "sysnr \<Rightarrow> inst_env \<Rightarrow> char list \<Rightarrow> string \<Rightarrow> int" where
  "syscall_init NR_init_module env buff parms = init_module env buff parms"
| "syscall_init NR_delete_module env buff parms = - 1"

definition inst_file :: "(inst_env \<Rightarrow> char list \<Rightarrow> string \<Rightarrow> int) \<Rightarrow> inst_env \<Rightarrow> string \<Rightarrow> proc \<Rightarrow> int \<times> proc" where
  "inst_file call env parms s =
     (case open_err env of
        Some e \<Rightarrow> (e, s)
      | None \<Rightarrow>
        let s1 = s\<lparr>fds := fds s + 1\<rparr>; closed = (\<lambda>t. t\<lparr>fds := fds t - 1\<rparr>) in
        (case stat_err env of
           Some e \<Rightarrow> (e, closed s1)
         | None \<Rightarrow>
           if \<not> is_reg env then (1, closed s1)
           else (case malloc_err env of
              Some e \<Rightarrow> (e, closed s1)
            | None \<Rightarrow>
              let s2 = s1\<lparr>bufs := bufs s1 + 1\<rparr> in
              if int (fsize env) \<noteq> rd env then (read_err env, closed (s2\<lparr>bufs := bufs s2 - 1\<rparr>))
              else
                let s3 = closed s2; buff = take (fsize env) (contents env);
                  res = call env buff parms; s4 = s3\<lparr>inits := inits s3 @ [(buff, parms)]\<rparr>
                in (res, s4\<lparr>bufs := bufs s4 - 1\<rparr>))))"

definition inst1_main :: "inst_env \<Rightarrow> string list \<Rightarrow> proc \<Rightarrow> (int \<times> proc) res" where
  "inst1_main env args s = map_sum id (\<lambda>(file, parms). inst_file (syscall_init NR_init_module) env parms s) (inst_args args)"

definition inst2_main :: "inst_env \<Rightarrow> string list \<Rightarrow> proc \<Rightarrow> (int \<times> proc) res" where
  "inst2_main env args s = map_sum id (\<lambda>(file, parms). inst_file init_module env parms s) (inst_args args)"

section \<open>Unloading a module (rem1.c, rem2.c)\<close>

text \<open>The name is found with a pointer into the array, in which the last point is then replaced by a zero
  byte; the result is the string at the pointer.\<close>

definition rem_name :: "string list \<Rightarrow> string res" where
  "rem_name args =
     (case (case args of [] \<Rightarrow> Inr SLAVE_FILE | f # as \<Rightarrow> strcpy80 f) of
        Inl e \<Rightarrow> Inl e
      | Inr file \<Rightarrow>
          let slave_mod = (case strrchr file CHR ''/'' of Some i \<Rightarrow> i + 1 | None \<Rightarrow> 0);
            arr = file @ [NUL];
            arr' = (case strrchr file CHR ''.'' of Some i \<Rightarrow> arr[i := NUL] | None \<Rightarrow> arr)
          in Inr (cstr (drop slave_mod arr')))"

definition O_TRUNC :: int where
  "O_TRUNC = 512"

text \<open>\<open>delete_module\<close> is the kernel's answer to the name and the flags.\<close>

fun syscall_delete :: "sysnr \<Rightarrow> (string \<Rightarrow> int \<Rightarrow> int) \<Rightarrow> string \<Rightarrow> int \<Rightarrow> int" where
  "syscall_delete NR_delete_module delete_module name flags = delete_module name flags"
| "syscall_delete NR_init_module delete_module name flags = - 1"

definition rem1_main :: "(string \<Rightarrow> int \<Rightarrow> int) \<Rightarrow> string list \<Rightarrow> int res" where
  "rem1_main delete_module args =
     map_sum id (\<lambda>name. syscall_delete NR_delete_module delete_module name O_TRUNC) (rem_name args)"

definition rem2_main :: "(string \<Rightarrow> int \<Rightarrow> int) \<Rightarrow> string list \<Rightarrow> int res" where
  "rem2_main delete_module args = map_sum id (\<lambda>name. delete_module name O_TRUNC) (rem_name args)"

section \<open>A sequence of bytes (test_seq.c)\<close>

text \<open>The device: what a write of one byte at a position returns and does, and what a read of one byte
  returns, with the byte if there is one.\<close>

record 's seq_dev =
  wr :: "nat \<Rightarrow> 8 word \<Rightarrow> 's \<Rightarrow> int \<times> 's"
  rdb :: "nat \<Rightarrow> 's \<Rightarrow> int \<times> 8 word"
  dsize :: "'s \<Rightarrow> nat"

definition seq_byte :: "8 word \<Rightarrow> nat \<Rightarrow> 8 word" where
  "seq_byte begn j = of_nat j + begn"

fun write_seq :: "'s seq_dev \<Rightarrow> 8 word \<Rightarrow> nat \<Rightarrow> nat \<Rightarrow> 's \<Rightarrow> nat \<times> 's" where
  "write_seq d begn 0 j s = (j, s)"
| "write_seq d begn (Suc n) j s =
     (let (rc, s') = wr d j (seq_byte begn j) s in
      if rc \<noteq> 1 then (j, s') else write_seq d begn n (Suc j) s')"

fun read_seq :: "'s seq_dev \<Rightarrow> 8 word \<Rightarrow> nat \<Rightarrow> nat \<Rightarrow> 's \<Rightarrow> nat" where
  "read_seq d begn 0 k s = k"
| "read_seq d begn (Suc n) k s =
     (let (rc, data) = rdb d k s in
      if rc \<le> 0 then k
      else if data \<noteq> seq_byte begn k then k
      else read_seq d begn n (Suc k) s)"

text \<open>\<open>off1\<close> is \<open>-1\<close>, so that the length may be one more than the size of the device. The result: the bytes
  written, the bytes read, and whether all is reported to be well.\<close>

definition seq_length :: "nat \<Rightarrow> nat \<Rightarrow> nat" where
  "seq_length len off2 = (if len = 0 \<or> off2 + 1 < len then off2 + 1 else len)"

definition test_seq :: "'s seq_dev \<Rightarrow> nat \<Rightarrow> 8 word \<Rightarrow> 's \<Rightarrow> nat \<times> nat \<times> bool" where
  "test_seq d len begn s =
     (let n = seq_length len (dsize d s);
        (j, s1) = write_seq d begn n 0 s;
        k = read_seq d begn n 0 s1
      in (j, k, j = k))"

section \<open>Arguments and names\<close>

definition joined :: "string list \<Rightarrow> string" where
  "joined as = concat (map (\<lambda>a. a @ '' '') as)"

lemma parms_loop_joined:
  "parms_loop p as = (if length p + length (joined as) < 80 \<or> as = [] then Inr (p @ joined as) else crash OutOfBounds)"
proof (induction "as" arbitrary: p)
  case (Cons a "as")
  then show ?case by (simp add: strcat80_def joined_def)
qed (simp add: joined_def)

lemma inst_args_exact:
  "inst_args args = (case args of [] \<Rightarrow> Inr (SLAVE_FILE, [])
    | f # as \<Rightarrow> if length f < 80 \<and> length (joined as) < 80 then Inr (f, joined as) else crash OutOfBounds)"
  by (auto simp: inst_args_def strcpy80_def parms_loop_joined joined_def split: list.split)

lemma inst_calls_agree: "inst1_main env args s = inst2_main env args s"
  proof -
  have "syscall_init NR_init_module = init_module" by (simp add: fun_eq_iff)
  then show ?thesis by (simp add: inst1_main_def inst2_main_def)
qed

lemma rem_calls_agree: "rem1_main del args = rem2_main del args"
  by (simp add: rem1_main_def rem2_main_def)

lemma strrchr_append:
  "strrchr (s @ t) c = (case strrchr t c of Some i \<Rightarrow> Some (length s + i) | None \<Rightarrow> strrchr s c)"
  by (induction s) (auto split: option.splits)

lemma strrchr_take: "strrchr s c = Some i \<Longrightarrow> \<exists>t. s = take i s @ c # t \<and> c \<notin> set t \<and> i < length s"
proof (induction s arbitrary: i)
  case (Cons d ds)
  then show ?case
    by (cases "strrchr ds c") (auto simp: strrchr_None split: if_splits)
qed simp

text \<open>The name of a file without directory and extension.\<close>

definition stem :: "string \<Rightarrow> string" where
  "stem base = (case strrchr base CHR ''.'' of None \<Rightarrow> base | Some i \<Rightarrow> take i base)"

lemma cstr_stem:
  assumes "NUL \<notin> set base"
  shows "cstr (case strrchr base CHR ''.'' of Some i \<Rightarrow> (base @ [NUL])[i := NUL] | None \<Rightarrow> base @ [NUL]) = stem base"
proof (cases "strrchr base CHR ''.''")
  case None
  then show ?thesis using cstr_terminated [OF assms, of "[]"] by (simp add: stem_def)
next
  case (Some i)
  then have i: "i < length base" using strrchr_take [OF Some] by blast
  have "NUL \<notin> set (take i base)" using assms by (meson in_set_takeD)
  then show ?thesis
    using i Some by (simp add: stem_def list_update_append cstr_append_NUL cstr_update)
qed

lemma rem_name_base:
  assumes "length (dir @ base) < 80" "dir = [] \<or> last dir = CHR ''/''" "CHR ''/'' \<notin> set base" "NUL \<notin> set base"
  shows "rem_name [dir @ base] = Inr (stem base)"
proof -
  have s: "(case strrchr (dir @ base) CHR ''/'' of Some i \<Rightarrow> i + 1 | None \<Rightarrow> 0) = length dir"
  proof (cases "dir = []")
    case True
    then show ?thesis using assms(3) strrchr_None [of base "CHR ''/''"] by simp
  next
    case False
    then have e: "dir @ base = butlast dir @ CHR ''/'' # base"
      using assms(2) by (metis append_butlast_last_id append_eq_append_conv2 append_Cons append_Nil append_assoc)
    have "strrchr (dir @ base) CHR ''/'' = Some (length (butlast dir))"
      using strrchr_last [OF assms(3), of "butlast dir"] by (simp only: e)
    then show ?thesis using False by (cases dir) simp_all
  qed
  have d: "drop (length dir) (case strrchr (dir @ base) CHR ''.'' of
        Some i \<Rightarrow> (dir @ base @ [NUL])[i := NUL] | None \<Rightarrow> dir @ base @ [NUL])
      = (case strrchr base CHR ''.'' of Some i \<Rightarrow> (base @ [NUL])[i := NUL] | None \<Rightarrow> base @ [NUL])"
  proof (cases "strrchr base CHR ''.''")
    case None
    then show ?thesis
      using strrchr_take [of dir "CHR ''.''"] by (auto simp: strrchr_append list_update_append split: option.splits)
  qed (simp add: strrchr_append list_update_append)
  show ?thesis
    using assms(1) s d cstr_stem [OF assms(4)] by (simp add: rem_name_def strcpy80_def Let_def)
qed

section \<open>The test of a device\<close>

lemma write_seq_bounds: "j \<le> fst (write_seq d b n j s) \<and> fst (write_seq d b n j s) \<le> j + n"
proof (induction n arbitrary: j s)
  case (Suc n)
  obtain rc s' where w: "wr d j (seq_byte b j) s = (rc, s')" by fastforce
  then show ?case using Suc.IH [of "Suc j" s'] by (auto simp: Let_def)
qed simp

text \<open>Reading ends at the first position that does not give the byte of the sequence.\<close>

definition good_at :: "'s seq_dev \<Rightarrow> 8 word \<Rightarrow> 's \<Rightarrow> nat \<Rightarrow> bool" where
  "good_at d b s k \<longleftrightarrow> fst (rdb d k s) > 0 \<and> snd (rdb d k s) = seq_byte b k"

lemma read_seq_step:
  "read_seq d b (Suc n) k s = (if good_at d b s k then read_seq d b n (Suc k) s else k)"
  by (cases "rdb d k s") (auto simp: good_at_def)

lemma read_seq_range: "k \<le> read_seq d b n k s \<and> read_seq d b n k s \<le> k + n"
proof (induction n arbitrary: k)
  case (Suc n)
  show ?case using Suc.IH [of "Suc k"] unfolding read_seq_step by auto
qed simp

lemma read_seq_good: "k \<le> i \<Longrightarrow> i < read_seq d b n k s \<Longrightarrow> good_at d b s i"
proof (induction n arbitrary: k)
  case (Suc n)
  show ?case
  proof (cases "i = k")
    case False
    then show ?thesis using Suc.IH [of "Suc k"] Suc.prems unfolding read_seq_step by (auto split: if_splits)
  qed (use Suc.prems in \<open>simp only: read_seq_step split: if_splits\<close>)
qed simp

lemma read_seq_stop: "read_seq d b n k s < k + n \<Longrightarrow> \<not> good_at d b s (read_seq d b n k s)"
proof (induction n arbitrary: k)
  case (Suc n)
  then show ?case using Suc.IH [of "Suc k"] unfolding read_seq_step by (auto split: if_splits)
qed simp

lemma read_seq_first:
  assumes "m \<le> n"
  shows "read_seq d b n 0 s = m \<longleftrightarrow> (\<forall>i < m. good_at d b s i) \<and> (m < n \<longrightarrow> \<not> good_at d b s m)"
proof -
  let ?r = "read_seq d b n 0 s"
  have r: "?r \<le> n" "\<forall>i < ?r. good_at d b s i" "?r < n \<longrightarrow> \<not> good_at d b s ?r"
    using read_seq_range [of 0 d b n s] read_seq_good [of 0 _ d b n s] read_seq_stop [of d b n 0 s] by simp_all
  show ?thesis
  proof
    assume "(\<forall>i < m. good_at d b s i) \<and> (m < n \<longrightarrow> \<not> good_at d b s m)"
    then have "\<not> ?r < m" "\<not> m < ?r" using r assms by auto
    then show "?r = m" by simp
  qed (use r in auto)
qed

text \<open>A device of \<open>n\<close> bytes that keeps what is written to it; \<open>img\<close> are its bytes.\<close>

definition keeps_bytes :: "'s seq_dev \<Rightarrow> nat \<Rightarrow> ('s \<Rightarrow> 8 word list) \<Rightarrow> bool" where
  "keeps_bytes d n img \<longleftrightarrow> (\<forall>s. dsize d s = n \<and> length (img s) = n)
     \<and> (\<forall>s j x. j < n \<longrightarrow> fst (wr d j x s) = 1 \<and> img (snd (wr d j x s)) = (img s)[j := x])
     \<and> (\<forall>s j x. n \<le> j \<longrightarrow> fst (wr d j x s) \<noteq> 1 \<and> img (snd (wr d j x s)) = img s)
     \<and> (\<forall>s k. k < n \<longrightarrow> fst (rdb d k s) = 1 \<and> snd (rdb d k s) = img s ! k)
     \<and> (\<forall>s k. n \<le> k \<longrightarrow> fst (rdb d k s) \<le> 0)"

lemma write_seq_keeps:
  assumes "keeps_bytes d n img"
  shows "j \<le> n \<Longrightarrow> \<forall>i < j. img s ! i = seq_byte b i \<Longrightarrow>
    fst (write_seq d b m j s) = min (j + m) n
    \<and> (\<forall>i < min (j + m) n. img (snd (write_seq d b m j s)) ! i = seq_byte b i)"
proof (induction m arbitrary: j s)
  case (Suc m)
  obtain rc s' where w: "wr d j (seq_byte b j) s = (rc, s')" by fastforce
  show ?case
  proof (cases "j < n")
    case True
    then have rc: "rc = 1" "img s' = (img s)[j := seq_byte b j]" "length (img s) = n"
      using assms w by (metis fst_conv keeps_bytes_def, metis snd_conv keeps_bytes_def, metis keeps_bytes_def)
    then have "\<forall>i < Suc j. img s' ! i = seq_byte b i"
      using Suc.prems(2) True by (auto simp: nth_list_update less_Suc_eq)
    then show ?thesis using Suc.IH [of "Suc j" s'] True w rc by simp
  next
    case False
    then have "rc \<noteq> 1" "img s' = img s"
      using assms w by (metis fst_conv keeps_bytes_def not_less, metis snd_conv keeps_bytes_def not_less)
    then show ?thesis using False Suc.prems w by simp
  qed
qed simp

section \<open>Properties\<close>

text \<open>\<open>inst1\<close> and \<open>inst2\<close> load the same module in the same way: given a path below 80 characters and parameters
  that fit with a blank after each, on every path through the calls they give back the descriptor and the
  buffer, and the kernel is asked to load exactly when the file could be opened, is a regular file and
  was read completely, with the file's bytes and the parameters; longer arguments overflow an array.\<close>

theorem inst_loads:
  "inst1_main env (f # as) s = inst2_main env (f # as) s
   \<and> (if length f < 80 \<and> length (joined as) < 80 then
        (\<exists>r s'. inst1_main env (f # as) s = Inr (r, s') \<and> fds s' = fds s \<and> bufs s' = bufs s
          \<and> (if open_err env = None \<and> stat_err env = None \<and> is_reg env \<and> malloc_err env = None
               \<and> rd env = int (fsize env)
             then inits s' = inits s @ [(take (fsize env) (contents env), joined as)]
               \<and> r = init_module env (take (fsize env) (contents env)) (joined as)
             else inits s' = inits s))
      else inst1_main env (f # as) s = crash OutOfBounds)"
  unfolding inst_calls_agree
  by (cases "rd env = int (fsize env)") (auto simp: inst2_main_def inst_args_exact inst_file_def Let_def split: option.split)

text \<open>\<open>rem1\<close> and \<open>rem2\<close> ask the kernel to unload the module with the name of the file, without directory and
  last extension, also where a directory's name has a point, and give back its answer.\<close>

theorem rem_unloads:
  assumes "length (dir @ base) < 80" "dir = [] \<or> last dir = CHR ''/''" "CHR ''/'' \<notin> set base" "NUL \<notin> set base"
  shows "rem1_main delete_module [dir @ base] = Inr (delete_module (stem base) O_TRUNC)
    \<and> rem2_main delete_module [dir @ base] = Inr (delete_module (stem base) O_TRUNC)"
  using rem_name_base [OF assms] by (simp add: rem2_main_def rem_calls_agree)

theorem rem_unloads_witness:
  "rem1_main (\<lambda>name flags. if name = ''slave'' then 0 else - 1) [''../a.b/slave.ko''] = Inr 0"
  using rem_unloads [of "''../a.b/''" "''slave.ko''"] by (simp add: stem_def)

text \<open>C35: On a device that keeps what is written to it the test writes and reads back the asked number of bytes, or
  as many as the device has if it has fewer or none is asked for, and reports that they agree. On any
  device it reports agreement exactly if all bytes it wrote are read back right and the next one, if it
  should have been written, is not the byte of the sequence.\<close>

theorem test_seq_verdict:
  assumes "test_seq d len b s = (j, k, ok)"
  shows "(\<forall>n img. keeps_bytes d n img \<longrightarrow> ok \<and> j = k \<and> j = (if len = 0 \<or> n < len then n else len))
    \<and> (ok \<longleftrightarrow> (\<forall>i < j. good_at d b (snd (write_seq d b (seq_length len (dsize d s)) 0 s)) i)
        \<and> (j < seq_length len (dsize d s) \<longrightarrow>
            \<not> good_at d b (snd (write_seq d b (seq_length len (dsize d s)) 0 s)) j))"
proof -
  let ?n = "seq_length len (dsize d s)"
  obtain s1 where w: "write_seq d b ?n 0 s = (j, s1)" and k: "read_seq d b ?n 0 s1 = k" and ok: "ok = (j = k)"
    using assms by (auto simp: test_seq_def Let_def split: prod.splits)
  have jn: "j \<le> ?n" using write_seq_bounds [of 0 d b ?n s] w by simp
  have verdict: "ok \<longleftrightarrow> (\<forall>i < j. good_at d b s1 i) \<and> (j < ?n \<longrightarrow> \<not> good_at d b s1 j)"
    using read_seq_first [OF jn, of d b s1] k ok by auto
  have kept: "ok \<and> j = k \<and> j = (if len = 0 \<or> n < len then n else len)" if kb: "keeps_bytes d n img" for n img
  proof -
    have z: "dsize d s = n" using kb by (simp add: keeps_bytes_def)
    have m: "j = min ?n n" "\<forall>i < j. img s1 ! i = seq_byte b i"
      using write_seq_keeps [OF kb, of 0 s b ?n] w by simp_all
    have "good_at d b s1 i" if "i < j" for i
      using that m kb by (simp add: good_at_def keeps_bytes_def)
    moreover have "\<not> good_at d b s1 j" if "j < ?n"
    proof -
      have "n \<le> j" using that m(1) by simp
      then have "fst (rdb d j s1) \<le> 0" using kb by (simp add: keeps_bytes_def)
      then show ?thesis by (simp add: good_at_def)
    qed
    ultimately have ok by (simp add: verdict)
    moreover have "min ?n n = (if len = 0 \<or> n < len then n else len)"
      unfolding seq_length_def z by auto
    ultimately show ?thesis using ok m(1) by simp
  qed
  show ?thesis
    unfolding w snd_conv using verdict kept by blast
qed

text \<open>A device of \<open>n\<close> bytes for examples.\<close>

definition mem_dev :: "nat \<Rightarrow> (nat \<Rightarrow> 8 word) seq_dev" where
  "mem_dev n = \<lparr>wr = \<lambda>j x s. if j < n then (1, s(j := x)) else (- 1, s),
     rdb = \<lambda>k s. if k < n then (1, s k) else (0, 0), dsize = \<lambda>_. n\<rparr>"

lemma mem_dev_keeps: "keeps_bytes (mem_dev n) n (\<lambda>s. map s [0..<n])"
  by (auto simp: keeps_bytes_def mem_dev_def intro: nth_equalityI)

theorem test_seq_verdict_witness: "test_seq (mem_dev 3) 10 7 (\<lambda>_. 9) = (3, 3, True)"
proof -
  obtain j k ok where t: "test_seq (mem_dev 3) 10 7 (\<lambda>_. 9) = (j, k, ok)" by (metis prod_cases3)
  show ?thesis using test_seq_verdict [OF t] mem_dev_keeps [of 3] t by auto
qed

text \<open>A device that refuses every write and does not begin with the byte asked for is reported as agreeing.\<close>

lemma test_seq_false_success:
  assumes "fst (wr d 0 (seq_byte b 0) s) \<noteq> 1" "snd (wr d 0 (seq_byte b 0) s) = s" "\<not> good_at d b s 0" "0 < dsize d s"
  shows "test_seq d len b s = (0, 0, True)"
proof -
  obtain m where m: "seq_length len (dsize d s) = Suc m"
    by (metis seq_length_def Suc_eq_plus1 not0_implies_Suc)
  have "write_seq d b (Suc m) 0 s = (0, s)" using assms(1,2) by (simp add: Let_def split_beta)
  moreover have "read_seq d b (Suc m) 0 s = 0" using read_seq_first [of 0 "Suc m" d b s] assms(3) by simp
  ultimately show ?thesis by (simp add: test_seq_def m)
qed

end
