(* ===== verification/Thread_Modules.thy ===== *)
theory Thread_Modules
  imports Prelude
begin

text \<open>
  \<open>Tasks/thread/tcreat\<close> and \<open>tfor\<close>: modules whose init function starts kernel threads and returns an
  error on purpose, so that the module's code is released when it returns. \<open>mod_thr3.c\<close>: each thread
  starts the next one, runs until it is told to stop and then stops the one it started. \<open>mod_thr1.c\<close>,
  \<open>mod_thr2.c\<close>, \<open>mod_for.c\<close>: threads that work and announce the end of it. A module and its threads are a
  system of interleaved steps; a step in the module's code after it was released is a fault.
\<close>

section \<open>A chain of threads (mod_thr3.c)\<close>

text \<open>Where a thread is: not started, created (its function not yet called), before the start of the next
  thread, in the loop, before \<open>kthread_stop\<close>, waiting in it, ended.\<close>

datatype cpc = Unborn | Created | Begun | Loop | Stopping | Joining | Ended

text \<open>What \<open>t1\<close> holds: no thread, a thread, or the error that \<open>kthread_run\<close> returned.\<close>

datatype task_ptr = Null | Task | ErrPtr

datatype cmain = MStart | MSleep | MStop | MJoin | MGone

record chain =
  ct :: "nat \<Rightarrow> cpc"
  cstop :: "nat \<Rightarrow> bool"
  child :: "nat \<Rightarrow> task_ptr"
  mtask :: task_ptr
  cmst :: cmain
  cfault :: bool

text \<open>Thread \<open>i\<close> of the chain runs with the local value \<open>N - 1 - i\<close>; it starts another one when that is
  positive. There is always one.\<close>

definition level :: "int \<Rightarrow> nat \<Rightarrow> int" where
  "level N i = N - 1 - int i"

definition depth :: "int \<Rightarrow> nat" where
  "depth N = nat (max 1 N)"

definition chain_start :: chain where
  "chain_start = \<lparr>ct = (\<lambda>_. Unborn), cstop = (\<lambda>_. False), child = (\<lambda>_. Null), mtask = Null, cmst = MStart, cfault = False\<rparr>"

text \<open>\<open>ok i\<close>: thread \<open>i\<close> can be created.\<close>

definition kthread_run :: "(nat \<Rightarrow> bool) \<Rightarrow> nat \<Rightarrow> (nat \<Rightarrow> cpc) \<Rightarrow> task_ptr \<times> (nat \<Rightarrow> cpc)" where
  "kthread_run ok i c = (if ok i then (Task, c(i := Created)) else (ErrPtr, c))"

text \<open>A step of thread \<open>i\<close>; None when it cannot go on. The kernel does not call the function of a thread
  that was told to stop before.\<close>

definition thread_fun1 :: "(nat \<Rightarrow> bool) \<Rightarrow> int \<Rightarrow> nat \<Rightarrow> chain \<Rightarrow> chain option" where
  "thread_fun1 ok N i s = (let s1 = s\<lparr>cfault := cfault s \<or> cmst s = MGone\<rparr> in case ct s i of
     Unborn \<Rightarrow> None
   | Created \<Rightarrow> Some (s\<lparr>ct := (ct s)(i := if cstop s i then Ended else Begun)\<rparr>)
   | Begun \<Rightarrow>
       (if level N i > 0 then
          (case kthread_run ok (Suc i) (ct s) of (p, c) \<Rightarrow>
             Some (s1\<lparr>ct := c(i := Loop), child := (child s)(i := p)\<rparr>))
        else Some (s1\<lparr>ct := (ct s)(i := Loop)\<rparr>))
   | Loop \<Rightarrow> Some (s1\<lparr>ct := (ct s)(i := if cstop s i then Stopping else Loop)\<rparr>)
   | Stopping \<Rightarrow> (case child s i of
         Null \<Rightarrow> Some (s1\<lparr>ct := (ct s)(i := Ended)\<rparr>)
       | Task \<Rightarrow> Some (s1\<lparr>ct := (ct s)(i := Joining), cstop := (cstop s)(Suc i := True)\<rparr>)
       | ErrPtr \<Rightarrow> Some (s\<lparr>cfault := True\<rparr>))
   | Joining \<Rightarrow> if ct s (Suc i) = Ended then Some (s1\<lparr>ct := (ct s)(i := Ended)\<rparr>) else None
   | Ended \<Rightarrow> None)"

definition test_thread3 :: "(nat \<Rightarrow> bool) \<Rightarrow> chain \<Rightarrow> chain option" where
  "test_thread3 ok s = (case cmst s of
     MStart \<Rightarrow> (case kthread_run ok 0 (ct s) of (p, c) \<Rightarrow> Some (s\<lparr>ct := c, mtask := p, cmst := MSleep\<rparr>))
   | MSleep \<Rightarrow> Some (s\<lparr>cmst := MStop\<rparr>)
   | MStop \<Rightarrow> (if mtask s = Task then Some (s\<lparr>cstop := (cstop s)(0 := True), cmst := MJoin\<rparr>)
       else Some (s\<lparr>cfault := True\<rparr>))
   | MJoin \<Rightarrow> if ct s 0 = Ended then Some (s\<lparr>cmst := MGone\<rparr>) else None
   | MGone \<Rightarrow> None)"

datatype cwho = CThread nat | CMain

fun chain_step :: "(nat \<Rightarrow> bool) \<Rightarrow> int \<Rightarrow> cwho \<Rightarrow> chain \<Rightarrow> chain option" where
  "chain_step ok N (CThread i) s = thread_fun1 ok N i s"
| "chain_step ok N CMain s = test_thread3 ok s"

inductive chain_reach :: "(nat \<Rightarrow> bool) \<Rightarrow> int \<Rightarrow> chain \<Rightarrow> bool" for ok N where
  chain_init: "chain_reach ok N chain_start"
| chain_next: "chain_reach ok N s \<Longrightarrow> chain_step ok N w s = Some s' \<Longrightarrow> chain_reach ok N s'"

subsection \<open>The invariant\<close>

text \<open>When every thread can be created: how each thread stands to the one it starts.\<close>

definition link :: "bool \<Rightarrow> cpc \<Rightarrow> task_ptr \<Rightarrow> cpc \<Rightarrow> bool \<Rightarrow> bool" where
  "link deep c p c' st \<longleftrightarrow> p \<noteq> ErrPtr \<and> (p = Task) = (c' \<noteq> Unborn)
    \<and> (c \<in> {Unborn, Created, Begun} \<longrightarrow> p = Null) \<and> (p = Task \<longrightarrow> deep)
    \<and> (c = Joining \<longrightarrow> p = Task \<and> st) \<and> (c = Ended \<longrightarrow> c' \<in> {Unborn, Ended})"

abbreviation link_inv :: "int \<Rightarrow> chain \<Rightarrow> nat \<Rightarrow> bool" where
  "link_inv N s i \<equiv> link (level N i > 0) (ct s i) (child s i) (ct s (Suc i)) (cstop s (Suc i))"

definition main_inv :: "chain \<Rightarrow> bool" where
  "main_inv s \<longleftrightarrow> \<not> cfault s \<and> mtask s \<noteq> ErrPtr \<and> (mtask s = Task) = (cmst s \<noteq> MStart)
    \<and> (ct s 0 = Unborn) = (cmst s = MStart)
    \<and> (cmst s = MJoin \<longrightarrow> cstop s 0) \<and> (cmst s = MGone \<longrightarrow> ct s 0 = Ended)"

definition chain_inv :: "int \<Rightarrow> chain \<Rightarrow> bool" where
  "chain_inv N s \<longleftrightarrow> main_inv s \<and> (\<forall>i. link_inv N s i)"

lemma gone_ended: "chain_inv N s \<Longrightarrow> ct s 0 = Ended \<Longrightarrow> ct s i \<in> {Unborn, Ended}"
proof (induction i)
  case (Suc i)
  then have "link_inv N s i" "ct s i \<in> {Unborn, Ended}" by (simp_all add: chain_inv_def)
  then show ?case by (auto simp: link_def)
qed simp

lemma not_gone: "chain_inv N s \<Longrightarrow> ct s i \<notin> {Unborn, Ended} \<Longrightarrow> cmst s \<noteq> MGone"
  using gone_ended [of N s i] by (auto simp: chain_inv_def main_inv_def)

lemma thread_idle: "ct s i \<in> {Unborn, Ended} \<Longrightarrow> thread_fun1 ok N i s = None"
  by (auto simp: thread_fun1_def Let_def)

text \<open>What a step of a thread changes: itself, the pointer to the next one, and the next one.\<close>

lemma thread_frame:
  assumes "thread_fun1 ok N i s = Some s'"
  shows "cmst s' = cmst s" "mtask s' = mtask s"
    "j \<noteq> i \<Longrightarrow> j \<noteq> Suc i \<Longrightarrow> ct s' j = ct s j" "j \<noteq> i \<Longrightarrow> child s' j = child s j"
    "j \<noteq> Suc i \<Longrightarrow> cstop s' j = cstop s j" "ct s i \<notin> {Unborn, Ended}"
  using assms by (auto simp: thread_fun1_def kthread_run_def Let_def split: cpc.splits if_splits task_ptr.splits)

lemma thread_links:
  assumes "thread_fun1 (\<lambda>_. True) N i s = Some s'" "link_inv N s i" "link_inv N s (Suc i)"
  shows "link_inv N s' i \<and> link_inv N s' (Suc i) \<and> (cmst s \<noteq> MGone \<longrightarrow> cfault s' = cfault s)
    \<and> (ct s' i = Unborn) = (ct s i = Unborn)"
proof -
  have "ct s i = Stopping \<Longrightarrow> child s i \<noteq> ErrPtr" using assms(2) by (simp add: link_def)
  then show ?thesis using assms
    by (cases "ct s i"; cases "child s i"; cases "cstop s i"; cases "level N i > 0")
      (simp_all add: thread_fun1_def link_def kthread_run_def Let_def split: if_splits, (clarsimp+)?)
qed

lemma thread_link_before:
  assumes "thread_fun1 (\<lambda>_. True) N (Suc j) s = Some s'" "link_inv N s j" "link_inv N s' (Suc j)"
  shows "link_inv N s' j"
proof -
  have "ct s (Suc j) \<notin> {Unborn, Ended}" "ct s' (Suc j) \<noteq> Unborn"
    using assms(1) by (auto simp: thread_fun1_def kthread_run_def Let_def split: cpc.splits if_splits task_ptr.splits)
  then show ?thesis using assms(2) thread_frame [OF assms(1)] by (auto simp: link_def)
qed

lemma inv_thread:
  assumes "chain_inv N s" "thread_fun1 (\<lambda>_. True) N i s = Some s'"
  shows "chain_inv N s'"
proof -
  have l: "link_inv N s j" for j using assms(1) by (simp add: chain_inv_def)
  note f = thread_frame [OF assms(2)] and t = thread_links [OF assms(2) l l]
  have "link_inv N s' j" for j
  proof (cases "j = i \<or> j = Suc i")
    case False
    show ?thesis
    proof (cases "Suc j = i")
      case True
      then show ?thesis using thread_link_before [of N j s s'] assms(2) l [of j] t by simp
    next
      case n: False
      then show ?thesis using l [of j] False f by auto
    qed
  qed (use t in auto)
  moreover have "main_inv s'"
    using assms(1) f(1,2) f(5) [of 0] f(3) [of 0] f(6) t not_gone [OF assms(1) f(6)]
    by (cases "i = 0") (auto simp: chain_inv_def main_inv_def)
  ultimately show ?thesis by (simp add: chain_inv_def)
qed

lemma inv_main:
  assumes "chain_inv N s" "test_thread3 (\<lambda>_. True) s = Some s'"
  shows "chain_inv N s'"
proof -
  have l: "link_inv N s j" for j using assms(1) by (simp add: chain_inv_def)
  have f: "child s' = child s" "ct s' (Suc j) = ct s (Suc j)" "cstop s' (Suc j) = cstop s (Suc j)"
    "ct s' 0 = ct s 0 \<or> (ct s 0 = Unborn \<and> ct s' 0 = Created)" for j
    using assms by (auto simp: test_thread3_def kthread_run_def chain_inv_def main_inv_def split: cmain.splits if_splits)
  have "link_inv N s' j" for j
    using l [of j] f by (cases j) (auto simp: link_def)
  moreover have "main_inv s'"
    using assms by (auto simp: test_thread3_def kthread_run_def chain_inv_def main_inv_def split: cmain.splits if_splits)
  ultimately show ?thesis by (simp add: chain_inv_def)
qed

lemma chain_reach_inv: "chain_reach (\<lambda>_. True) N s \<Longrightarrow> chain_inv N s"
proof (induction rule: chain_reach.induct)
  case chain_init
  then show ?case by (simp add: chain_inv_def main_inv_def link_def chain_start_def)
next
  case (chain_next s w s')
  then show ?case by (cases w) (auto intro: inv_thread inv_main)
qed


text \<open>C19: the chain of \<open>mod_thr3.c\<close>, when its threads can be created: whatever the order in which the
  threads and the init function run, no step touches the released module; and once the init function
  has returned every thread that was started has ended, for good.\<close>

theorem chain_safe:
  assumes "chain_reach (\<lambda>_. True) N s"
  shows "\<not> cfault s \<and> (cmst s = MGone \<longrightarrow> (\<forall>i. ct s i \<in> {Unborn, Ended}) \<and> (\<forall>w. chain_step (\<lambda>_. True) N w s = None))"
proof -
  note c = chain_reach_inv [OF assms]
  have d: "ct s i \<in> {Unborn, Ended}" if "cmst s = MGone" for i
    using gone_ended [OF c, of i] c that by (simp add: chain_inv_def main_inv_def)
  then have "chain_step (\<lambda>_. True) N w s = None" if "cmst s = MGone" for w
    using that by (cases w) (simp_all add: thread_idle test_thread3_def)
  then show ?thesis using c d by (auto simp: chain_inv_def main_inv_def)
qed

subsection \<open>Progress\<close>

definition crank :: "cpc \<Rightarrow> nat" where
  "crank c = (case c of Unborn \<Rightarrow> 6 | Created \<Rightarrow> 5 | Begun \<Rightarrow> 4 | Loop \<Rightarrow> 3 | Stopping \<Rightarrow> 2 | Joining \<Rightarrow> 1 | Ended \<Rightarrow> 0)"

definition mrank :: "cmain \<Rightarrow> nat" where
  "mrank m = (case m of MStart \<Rightarrow> 4 | MSleep \<Rightarrow> 3 | MStop \<Rightarrow> 2 | MJoin \<Rightarrow> 1 | MGone \<Rightarrow> 0)"

definition chain_left :: "int \<Rightarrow> chain \<Rightarrow> nat" where
  "chain_left N s = mrank (cmst s) + (\<Sum>i < depth N. crank (ct s i))"

lemma born_less: "chain_inv N s \<Longrightarrow> ct s i \<noteq> Unborn \<Longrightarrow> i < depth N"
proof (cases i)
  case (Suc j)
  assume "chain_inv N s" "ct s i \<noteq> Unborn"
  then have "level N j > 0" using Suc by (auto simp: chain_inv_def link_def)
  then show ?thesis using Suc by (simp add: level_def depth_def)
qed (simp add: depth_def)

definition spinning :: "chain \<Rightarrow> nat \<Rightarrow> bool" where
  "spinning s i \<longleftrightarrow> ct s i = Loop \<and> \<not> cstop s i"

lemma thread_spin:
  "chain_inv N s \<Longrightarrow> spinning s i \<Longrightarrow> thread_fun1 ok N i s = Some s' \<Longrightarrow> s' = s"
  using not_gone [of N s i] by (cases s) (auto simp: spinning_def thread_fun1_def Let_def)

lemma thread_rank:
  assumes "chain_inv N s" "thread_fun1 (\<lambda>_. True) N i s = Some s'" "\<not> spinning s i"
  shows "chain_left N s' < chain_left N s"
proof -
  have l: "link_inv N s i" using assms(1) by (simp add: chain_inv_def)
  have e: "ct s i = Stopping \<Longrightarrow> child s i \<noteq> ErrPtr" using l by (simp add: link_def)
  have u: "ct s i = Begun \<Longrightarrow> ct s (Suc i) = Unborn" using l by (auto simp: link_def)
  have d: "crank (ct s' i) < crank (ct s i)" "crank (ct s' (Suc i)) \<le> crank (ct s (Suc i))"
    using assms(2,3) e u
    by (cases "ct s i"; cases "child s i"; clarsimp simp: thread_fun1_def spinning_def kthread_run_def crank_def Let_def
        split: if_splits)+
  have "crank (ct s' j) \<le> crank (ct s j)" for j
    using d thread_frame(3) [OF assms(2), of j] by (cases "j = i"; cases "j = Suc i") auto
  moreover have "i < depth N"
    using born_less [OF assms(1)] thread_frame(6) [OF assms(2)] by auto
  ultimately have "(\<Sum>j < depth N. crank (ct s' j)) < (\<Sum>j < depth N. crank (ct s j))"
    using d(1) by (intro sum_strict_mono_ex1) auto
  then show ?thesis using thread_frame(1) [OF assms(2)] by (simp add: chain_left_def)
qed

lemma main_rank:
  assumes "chain_inv N s" "test_thread3 (\<lambda>_. True) s = Some s'"
  shows "chain_left N s' < chain_left N s"
proof -
  have "crank (ct s' j) \<le> crank (ct s j)" for j
    using assms by (auto simp: test_thread3_def kthread_run_def chain_inv_def main_inv_def crank_def split: cmain.splits if_splits)
  moreover have "mrank (cmst s') < mrank (cmst s)"
    using assms by (auto simp: test_thread3_def kthread_run_def chain_inv_def main_inv_def mrank_def split: cmain.splits if_splits)
  ultimately show ?thesis by (simp add: chain_left_def add_less_le_mono sum_mono)
qed

text \<open>Once a thread was told to stop, it or one of those after it can go on.\<close>

lemma stopped_moves:
  assumes "chain_inv N s" "cstop s i" "ct s i \<notin> {Unborn, Ended}"
  shows "\<exists>j s'. thread_fun1 (\<lambda>_. True) N j s = Some s' \<and> \<not> spinning s j"
  using assms(2,3)
proof (induction "depth N - i" arbitrary: i rule: less_induct)
  case less
  have l: "link_inv N s i" using assms(1) by (simp add: chain_inv_def)
  show ?case
  proof (cases "ct s i = Joining \<and> ct s (Suc i) \<noteq> Ended")
    case True
    then have "cstop s (Suc i)" "ct s (Suc i) \<notin> {Unborn, Ended}" using l by (auto simp: link_def)
    moreover have "depth N - Suc i < depth N - i"
      using born_less [OF assms(1), of i] less(3) by (simp add: diff_less_mono2)
    ultimately show ?thesis using less(1) by blast
  next
    case False
    then have "\<exists>s'. thread_fun1 (\<lambda>_. True) N i s = Some s'"
      using less(2,3) by (auto simp: thread_fun1_def kthread_run_def Let_def split: cpc.splits task_ptr.splits)
    moreover have "\<not> spinning s i" using less(2) by (simp add: spinning_def)
    ultimately show ?thesis by blast
  qed
qed

text \<open>C20: the chain comes to its end: a step leaves the state as it is (a thread that goes round its
  loop) or brings the end nearer, and as long as the init function has not returned there is a step
  that does. So it returns under every schedule in which the threads that can go on do so.\<close>

theorem chain_progress:
  assumes "chain_reach (\<lambda>_. True) N s"
  shows "(chain_step (\<lambda>_. True) N w s = Some s' \<longrightarrow> s' = s \<or> chain_left N s' < chain_left N s)
    \<and> (cmst s \<noteq> MGone \<longrightarrow> (\<exists>w s'. chain_step (\<lambda>_. True) N w s = Some s' \<and> chain_left N s' < chain_left N s))"
proof -
  note c = chain_reach_inv [OF assms]
  have "\<exists>w s'. chain_step (\<lambda>_. True) N w s = Some s' \<and> chain_left N s' < chain_left N s" if "cmst s \<noteq> MGone"
  proof (cases "cmst s = MJoin \<and> ct s 0 \<noteq> Ended")
    case True
    then obtain j s' where "thread_fun1 (\<lambda>_. True) N j s = Some s'" "\<not> spinning s j"
      using stopped_moves [OF c, of 0] c by (auto simp: chain_inv_def main_inv_def)
    then show ?thesis using thread_rank [OF c] by (metis chain_step.simps(1))
  next
    case False
    then have "\<exists>s'. test_thread3 (\<lambda>_. True) s = Some s'"
      using that by (cases "cmst s") (auto simp: test_thread3_def kthread_run_def)
    then show ?thesis using main_rank [OF c] by (metis chain_step.simps(2))
  qed
  moreover have "s' = s \<or> chain_left N s' < chain_left N s" if "chain_step (\<lambda>_. True) N w s = Some s'"
  proof (cases w)
    case (CThread i)
    then show ?thesis using that thread_spin [OF c, of i] thread_rank [OF c, of i] by (cases "spinning s i") auto
  next
    case CMain
    then show ?thesis using that main_rank [OF c] by auto
  qed
  ultimately show ?thesis by blast
qed

text \<open>\<open>kthread_run\<close> returns an error, not null, when it fails: the pointer is then given to \<open>kthread_stop\<close>.\<close>

definition chain_run :: "(nat \<Rightarrow> bool) \<Rightarrow> int \<Rightarrow> cwho list \<Rightarrow> chain option" where
  "chain_run ok N ws = foldl (\<lambda>s w. Option.bind s (chain_step ok N w)) (Some chain_start) ws"

lemma chain_run_reach: "chain_run ok N ws = Some s \<Longrightarrow> chain_reach ok N s"
proof (induction ws arbitrary: s rule: rev_induct)
  case Nil
  then show ?case by (auto simp: chain_run_def intro: chain_init)
next
  case (snoc w ws)
  then obtain s1 where "chain_run ok N ws = Some s1" "chain_step ok N w s1 = Some s"
    by (auto simp: chain_run_def bind_eq_Some_conv)
  then show ?case using snoc.IH by (blast intro: chain_next)
qed

lemma chain_create_failure:
  "\<exists>s. chain_reach (\<lambda>i. i = 0) 2 s \<and> cfault s"
proof -
  let ?ws = "[CMain, CThread 0, CThread 0, CMain, CMain, CThread 0, CThread 0]"
  obtain s where "chain_run (\<lambda>i. i = 0) 2 ?ws = Some s" "cfault s"
    by (simp add: chain_run_def chain_start_def test_thread3_def thread_fun1_def kthread_run_def level_def)
  then show ?thesis by (blast intro: chain_run_reach)
qed

theorem chain_safe_witness:
  "\<not> cfault (the (chain_run (\<lambda>_. True) 1 [CMain, CThread 0, CMain]))"
proof -
  obtain s where s: "chain_run (\<lambda>_. True) 1 [CMain, CThread 0, CMain] = Some s"
    by (simp add: chain_run_def chain_start_def test_thread3_def thread_fun1_def kthread_run_def level_def)
  then show ?thesis using chain_safe [OF chain_run_reach [OF s]] by simp
qed

theorem chain_progress_witness:
  "\<exists>w s'. chain_step (\<lambda>_. True) 2 w chain_start = Some s' \<and> chain_left 2 s' < chain_left 2 chain_start"
proof -
  have "cmst chain_start \<noteq> MGone" by (simp add: chain_start_def)
  then show ?thesis using chain_progress [OF chain_init, of 2] by blast
qed

section \<open>Threads that announce their end (mod_for.c, mod_thr2.c)\<close>

text \<open>Where such a thread is: not created, at work, before \<open>complete\<close>, in the code after it, ended.\<close>

datatype apc = ANone | AWork | AComplete | ALeaving | AEnded

text \<open>Where the init function is: before the creation of thread i, before the wait for thread i, gone.\<close>

datatype amain = ACreate nat | AWait nat | AGone

record announce =
  at :: "nat \<Rightarrow> apc"
  finished :: "nat \<Rightarrow> nat"
  amst :: amain
  afault :: bool

definition announce_start :: announce where
  "announce_start = \<lparr>at = (\<lambda>_. ANone), finished = (\<lambda>_. 0), amst = ACreate 0, afault = False\<rparr>"

definition NUM :: nat where
  "NUM = 3"

definition for_thread_func :: "nat \<Rightarrow> announce \<Rightarrow> announce option" where
  "for_thread_func i s = (let s1 = s\<lparr>afault := afault s \<or> amst s = AGone\<rparr> in case at s i of
     ANone \<Rightarrow> None
   | AWork \<Rightarrow> Some (s1\<lparr>at := (at s)(i := AComplete)\<rparr>)
   | AComplete \<Rightarrow> Some (s1\<lparr>at := (at s)(i := ALeaving), finished := (finished s)(i := finished s i + 1)\<rparr>)
   | ALeaving \<Rightarrow> Some (s1\<lparr>at := (at s)(i := AEnded)\<rparr>)
   | AEnded \<Rightarrow> None)"

text \<open>The init function with \<open>n\<close> threads. The result of \<open>kthread_run\<close> is not looked at.\<close>

definition for_test :: "nat \<Rightarrow> (nat \<Rightarrow> bool) \<Rightarrow> announce \<Rightarrow> announce option" where
  "for_test n ok s = (case amst s of
     ACreate i \<Rightarrow> Some (if i < n then s\<lparr>at := (if ok i then (at s)(i := AWork) else at s), amst := ACreate (i + 1)\<rparr>
       else s\<lparr>amst := AWait 0\<rparr>)
   | AWait i \<Rightarrow>
       if i < n then (if finished s i > 0 then Some (s\<lparr>finished := (finished s)(i := finished s i - 1), amst := AWait (i + 1)\<rparr>)
         else None)
       else Some (s\<lparr>amst := AGone\<rparr>)
   | AGone \<Rightarrow> None)"

text \<open>\<open>mod_thr2.c\<close>: one thread and one completion.\<close>

definition thr2_thread :: "announce \<Rightarrow> announce option" where
  "thr2_thread = for_thread_func 0"

definition thr2_test :: "(nat \<Rightarrow> bool) \<Rightarrow> announce \<Rightarrow> announce option" where
  "thr2_test = for_test 1"

inductive announce_reach :: "nat \<Rightarrow> (nat \<Rightarrow> bool) \<Rightarrow> announce \<Rightarrow> bool" for n ok where
  announce_init: "announce_reach n ok announce_start"
| announce_thread: "announce_reach n ok s \<Longrightarrow> for_thread_func i s = Some s' \<Longrightarrow> announce_reach n ok s'"
| announce_main: "announce_reach n ok s \<Longrightarrow> for_test n ok s = Some s' \<Longrightarrow> announce_reach n ok s'"

text \<open>A completion counts what was announced and not yet waited for.\<close>

definition created :: "nat \<Rightarrow> amain \<Rightarrow> nat" where
  "created n m = (case m of ACreate j \<Rightarrow> min j n | _ \<Rightarrow> n)"

definition waited :: "nat \<Rightarrow> amain \<Rightarrow> nat" where
  "waited n m = (case m of ACreate j \<Rightarrow> 0 | AWait j \<Rightarrow> min j n | AGone \<Rightarrow> n)"

definition told :: "apc \<Rightarrow> bool" where
  "told c \<longleftrightarrow> c = ALeaving \<or> c = AEnded"

definition thread_ok :: "bool \<Rightarrow> bool \<Rightarrow> bool \<Rightarrow> apc \<Rightarrow> nat \<Rightarrow> bool" where
  "thread_ok k cr wt c f \<longleftrightarrow> (c \<noteq> ANone \<longrightarrow> k \<and> cr) \<and> (f > 0 \<longrightarrow> told c) \<and> (wt \<longrightarrow> told c)"

definition announce_inv :: "nat \<Rightarrow> (nat \<Rightarrow> bool) \<Rightarrow> announce \<Rightarrow> bool" where
  "announce_inv n ok s \<longleftrightarrow>
     (\<forall>i. thread_ok (ok i) (i < created n (amst s)) (i < waited n (amst s)) (at s i) (finished s i))
     \<and> (afault s \<longrightarrow> amst s = AGone)"

lemma announce_inv_thread:
  assumes "announce_inv n ok s" "for_thread_func i s = Some s'"
  shows "announce_inv n ok s'"
proof -
  have f: "amst s' = amst s" "j \<noteq> i \<Longrightarrow> at s' j = at s j \<and> finished s' j = finished s j" "afault s' \<longrightarrow> afault s \<or> amst s = AGone" for j
    using assms(2) by (auto simp: for_thread_func_def Let_def split: apc.splits)
  have i: "at s i \<notin> {ANone, AEnded}" "at s' i \<noteq> ANone" "told (at s i) \<longrightarrow> told (at s' i)"
    "finished s' i > 0 \<longrightarrow> finished s i > 0 \<or> told (at s' i)"
    using assms(2) by (auto simp: for_thread_func_def told_def Let_def split: apc.splits)
  have "thread_ok (ok j) (j < created n (amst s')) (j < waited n (amst s')) (at s' j) (finished s' j)" for j
    using assms(1) f(1) f(2) [of j] i by (cases "j = i") (auto simp: announce_inv_def thread_ok_def)
  then show ?thesis using f(1,3) assms(1) by (auto simp: announce_inv_def)
qed

lemma announce_inv_main:
  assumes "announce_inv n ok s" "for_test n ok s = Some s'"
  shows "announce_inv n ok s'"
proof -
  have t: "thread_ok (ok j) (j < created n (amst s)) (j < waited n (amst s)) (at s j) (finished s j)" for j
    using assms(1) by (simp add: announce_inv_def)
  have "thread_ok (ok j) (j < created n (amst s')) (j < waited n (amst s')) (at s' j) (finished s' j)" for j
  proof (cases "amst s")
    case (ACreate i)
    then show ?thesis using t [of j] assms(2)
      by (cases "j = i") (auto simp: for_test_def thread_ok_def created_def waited_def told_def split: if_splits)
  next
    case (AWait i)
    then show ?thesis using t [of j] assms(2)
      by (cases "j = i") (auto simp: for_test_def thread_ok_def created_def waited_def split: if_splits)
  next
    case AGone
    then show ?thesis using assms(2) by (simp add: for_test_def)
  qed
  moreover have "\<not> afault s'"
    using assms by (auto simp: for_test_def announce_inv_def split: amain.splits if_splits)
  ultimately show ?thesis by (simp add: announce_inv_def)
qed

lemma announce_reach_inv: "announce_reach n ok s \<Longrightarrow> announce_inv n ok s"
proof (induction rule: announce_reach.induct)
  case announce_init
  then show ?case by (simp add: announce_inv_def announce_start_def thread_ok_def waited_def)
qed (blast intro: announce_inv_thread announce_inv_main)+

text \<open>A run in which a thread has announced its end, the init function returns and the thread goes on.\<close>

lemma announce_create: "i \<le> n \<Longrightarrow> announce_reach n (\<lambda>_. True)
    \<lparr>at = (\<lambda>j. if j < i then AWork else ANone), finished = (\<lambda>_. 0), amst = ACreate i, afault = False\<rparr>"
proof (induction i)
  case 0
  then show ?case using announce_init [of n "\<lambda>_. True"] by (simp add: announce_start_def)
next
  case (Suc i)
  then have "announce_reach n (\<lambda>_. True) \<lparr>at = (\<lambda>j. if j < i then AWork else ANone), finished = (\<lambda>_. 0), amst = ACreate i, afault = False\<rparr>"
    by simp
  moreover have "(\<lambda>j. if j < i then AWork else ANone)(i := AWork) = (\<lambda>j. if j < Suc i then AWork else ANone)" by auto
  ultimately show ?case using Suc.prems by (rule_tac announce_main) (assumption, simp add: for_test_def)
qed

lemma announce_complete: "i \<le> n \<Longrightarrow> announce_reach n (\<lambda>_. True)
    \<lparr>at = (\<lambda>j. if j < i then ALeaving else if j < n then AWork else ANone), finished = (\<lambda>_. 0), amst = AWait i, afault = False\<rparr>"
proof (induction i)
  case 0
  show ?case using announce_main [OF announce_create [of n n]] by (simp add: for_test_def)
next
  case (Suc i)
  let ?s = "\<lambda>c f. \<lparr>at = (\<lambda>j. if j < i then ALeaving else if j < n then AWork else ANone)(i := c),
      finished = (\<lambda>_. 0)(i := f), amst = AWait i, afault = False\<rparr>"
  have e: "(\<lambda>j. if j < i then ALeaving else if j < n then AWork else ANone)(i := ALeaving)
    = (\<lambda>j. if j < Suc i then ALeaving else if j < n then AWork else ANone)" by auto
  have z: "(\<lambda>_. 0)(i := 0 :: nat) = (\<lambda>_. 0)" by auto
  have "?s AWork 0 = \<lparr>at = (\<lambda>j. if j < i then ALeaving else if j < n then AWork else ANone), finished = (\<lambda>_. 0), amst = AWait i, afault = False\<rparr>"
    using Suc.prems by auto
  then have "announce_reach n (\<lambda>_. True) (?s AWork 0)" using Suc by simp
  then have "announce_reach n (\<lambda>_. True) (?s AComplete 0)"
    by (rule announce_thread [where i = i]) (simp add: for_thread_func_def)
  then have "announce_reach n (\<lambda>_. True) (?s ALeaving 1)"
    by (rule announce_thread [where i = i]) (simp add: for_thread_func_def)
  then show ?case using Suc.prems by (rule_tac announce_main) (assumption, simp add: for_test_def e z)
qed

text \<open>C30: the modules whose threads announce their end. The init function returns only after every
  thread was created and has done its work (it waits for ever when one could not be created), and no
  thread is at work in the released module. But to announce the end is not the end: a thread that has
  announced it may go on to the rest of its function after the module was released.\<close>

theorem announce_released:
  "(\<forall>s. announce_reach n ok s \<longrightarrow> amst s = AGone \<longrightarrow> (\<forall>i < n. ok i \<and> told (at s i)))
    \<and> (\<forall>s. announce_reach n ok s \<longrightarrow> afault s \<longrightarrow> amst s = AGone)
    \<and> (n > 0 \<longrightarrow> (\<exists>s. announce_reach n (\<lambda>_. True) s \<and> afault s))"
proof -
  have a: "ok i \<and> told (at s i)" if "announce_reach n ok s" "amst s = AGone" "i < n" for s i
    using announce_reach_inv [OF that(1)] that(2,3) by (auto simp: announce_inv_def thread_ok_def waited_def told_def)
  have b: "amst s = AGone" if "announce_reach n ok s" "afault s" for s
    using announce_reach_inv [OF that(1)] that(2) by (simp add: announce_inv_def)
  have c: "\<exists>s. announce_reach n (\<lambda>_. True) s \<and> afault s" if "n > 0"
  proof -
    have "announce_reach n (\<lambda>_. True)
      \<lparr>at = (\<lambda>j. if j < n then ALeaving else if j < n then AWork else ANone), finished = (\<lambda>_. 0), amst = AGone, afault = False\<rparr>"
      using announce_main [OF announce_complete [of n n]] by (simp add: for_test_def)
    from announce_thread [OF this, of 0] show ?thesis using that by (fastforce simp: for_thread_func_def)
  qed
  show ?thesis using a b c by blast
qed

theorem announce_released_witness:
  "\<exists>s. announce_reach NUM (\<lambda>_. True) s \<and> afault s"
  using announce_released [of NUM "\<lambda>_. True"] by (simp add: NUM_def)

section \<open>A thread that nobody waits for (mod_thr1.c)\<close>

text \<open>The thread sleeps \<open>param\<close> seconds and the init function five; who sleeps goes on at the end of
  its pause or some time after it. \<open>tclock\<close> counts the seconds since the thread was started.\<close>

datatype tpc1 = TAsleep | TAwake | TEnded

record thr1 =
  tclock :: nat
  tpos :: tpc1
  treturned :: bool
  tfault :: bool

datatype tevent = Tick | ThreadRuns | InitReturns

definition thr1_start :: thr1 where
  "thr1_start = \<lparr>tclock = 0, tpos = TAsleep, treturned = False, tfault = False\<rparr>"

fun thr1_step :: "nat \<Rightarrow> tevent \<Rightarrow> thr1 \<Rightarrow> thr1 option" where
  "thr1_step param Tick s = Some (s\<lparr>tclock := tclock s + 1\<rparr>)"
| "thr1_step param ThreadRuns s = (case tpos s of
     TAsleep \<Rightarrow> if tclock s \<ge> param then Some (s\<lparr>tpos := TAwake, tfault := tfault s \<or> treturned s\<rparr>) else None
   | TAwake \<Rightarrow> Some (s\<lparr>tpos := TEnded, tfault := tfault s \<or> treturned s\<rparr>)
   | TEnded \<Rightarrow> None)"
| "thr1_step param InitReturns s = (if tclock s \<ge> 5 \<and> \<not> treturned s then Some (s\<lparr>treturned := True\<rparr>) else None)"

definition thr1_run :: "nat \<Rightarrow> tevent list \<Rightarrow> thr1 option" where
  "thr1_run param es = foldl (\<lambda>s e. Option.bind s (thr1_step param e)) (Some thr1_start) es"

text \<open>Even with the default of three seconds the module may be released before the thread has ended:
  nobody waits for it.\<close>

lemma thr1_default_may_fault:
  "\<exists>es s. thr1_run 3 es = Some s \<and> tfault s"
proof -
  obtain s where "thr1_run 3 [Tick, Tick, Tick, Tick, Tick, InitReturns, ThreadRuns] = Some s" "tfault s"
    by (simp add: thr1_run_def thr1_start_def)
  then show ?thesis by blast
qed

end
