(* ===== verification/Irq_Demos.thy ===== *)
theory Irq_Demos
  imports Irq_Counter "HOL-Library.Multiset"
begin

text \<open>
  \<open>Tasks/IRQ\<close>: \<open>lab1_interrupt.c\<close> counts the interrupts of a shared line, \<open>mod_ser.c\<close> puts up to nine
  handlers on one line, \<open>mod_workqueue.c\<close> queues works that free themselves, \<open>mod_tasklet.c\<close> schedules a
  tasklet. The line, the work queue and the tasklet are the kernel's; what the modules hold of them is
  part of the state, and a call of a released module's function is a use after release.
\<close>

section \<open>Several handlers on a line (mod_ser.c)\<close>

definition MAX_SHARED :: nat where
  "MAX_SHARED = 9"

definition NAME_LEN :: nat where
  "NAME_LEN = 10"

text \<open>The handlers on the line in the order of their requests, by identity and name.\<close>

record ser =
  snum :: int
  sdev :: "char list list"
  acts :: "(int \<times> char list) list"

definition ser_fresh :: "int \<Rightarrow> ser" where
  "ser_fresh num = \<lparr>snum = num, sdev = replicate MAX_SHARED (replicate NAME_LEN NUL), acts = []\<rparr>"

definition free_irq_of :: "int \<Rightarrow> (int \<times> char list) list \<Rightarrow> (int \<times> char list) list" where
  "free_irq_of d l = takeWhile (\<lambda>a. fst a \<noteq> d) l @ tl (dropWhile (\<lambda>a. fst a \<noteq> d) l)"

definition ser_name :: "nat \<Rightarrow> char list" where
  "ser_name i = ''serial_'' @ show_02d (int i + 1)"

text \<open>\<open>i\<close> is the counter of the loop and \<open>k\<close> how often it is still to be run.\<close>

fun ser_loop :: "(nat \<Rightarrow> bool) \<Rightarrow> nat \<Rightarrow> nat \<Rightarrow> ser \<Rightarrow> int res \<times> ser" where
  "ser_loop ok i 0 s = (Inr 0, s)"
| "ser_loop ok i (Suc k) s =
     (let nm = ser_name i in
      if i \<ge> length (sdev s) \<or> length nm + 1 > NAME_LEN then (crash OutOfBounds, s)
      else (let s1 = s\<lparr>sdev := (sdev s)[i := blit (sdev s ! i) 0 (nm @ [NUL])]\<rparr> in
        if ok i then ser_loop ok (i + 1) k (s1\<lparr>acts := acts s1 @ [(int i + 1, cstr (sdev s1 ! i))]\<rparr>)
        else (Inr (-1), s1)))"

definition ser_init :: "(nat \<Rightarrow> bool) \<Rightarrow> ser \<Rightarrow> int res \<times> ser" where
  "ser_init ok s =
     (let s1 = s\<lparr>snum := (if snum s > int MAX_SHARED then int MAX_SHARED else snum s)\<rparr> in
      ser_loop ok 0 (nat (snum s1)) s1)"

definition ser_exit :: "ser \<Rightarrow> ser" where
  "ser_exit s = s\<lparr>acts := fold (\<lambda>i l. free_irq_of (int i + 1) l) [0..<nat (snum s)] (acts s)\<rparr>"

text \<open>An interrupt: every handler of the line logs the line and its identity.\<close>

definition ser_handler :: "int \<Rightarrow> int \<Rightarrow> int \<times> int" where
  "ser_handler line d = (line, d)"

definition ser_interrupt :: "bool \<Rightarrow> int \<Rightarrow> ser \<Rightarrow> (int \<times> int) list res" where
  "ser_interrupt loaded line s =
     (if acts s \<noteq> [] \<and> \<not> loaded then crash UseAfterFree else Inr (map (\<lambda>a. ser_handler line (fst a)) (acts s)))"

definition ser_acts :: "nat \<Rightarrow> (int \<times> char list) list" where
  "ser_acts m = map (\<lambda>i. (int i + 1, ser_name i)) [0..<m]"

lemma ser_name_length: "i < MAX_SHARED \<Longrightarrow> length (ser_name i) = 9 \<and> NUL \<notin> set (ser_name i)"
proof -
  assume "i < MAX_SHARED"
  then have "i = 0 \<or> i = 1 \<or> i = 2 \<or> i = 3 \<or> i = 4 \<or> i = 5 \<or> i = 6 \<or> i = 7 \<or> i = 8"
    unfolding MAX_SHARED_def by presburger
  then show ?thesis
    by (auto simp: ser_name_def show_02d_def show_int_def show_nat.simps digit_def)
qed

lemma ser_loop_run:
  assumes "i + k \<le> MAX_SHARED" "length (sdev s) = MAX_SHARED" "\<forall>d \<in> set (sdev s). length d = NAME_LEN"
    "acts s = ser_acts i" "i \<le> m" "\<forall>j. i \<le> j \<and> j < m \<longrightarrow> ok j" "m = i + k \<or> m < i + k \<and> \<not> ok m"
  shows "fst (ser_loop ok i k s) = Inr (if m = i + k then 0 else -1)
    \<and> acts (snd (ser_loop ok i k s)) = ser_acts m \<and> snum (snd (ser_loop ok i k s)) = snum s"
  using assms
proof (induction k arbitrary: i s)
  case 0
  then show ?case by auto
next
  case (Suc k)
  then have i: "i < MAX_SHARED" "length (sdev s ! i) = NAME_LEN" by auto
  note n = ser_name_length [OF i(1)]
  let ?d = "blit (sdev s ! i) 0 (ser_name i @ [NUL])"
  let ?s = "s\<lparr>sdev := (sdev s)[i := ?d]\<rparr>"
  have l: "length ?d = NAME_LEN" using i n by (simp add: NAME_LEN_def)
  have c: "cstr ?d = ser_name i" using n by (simp add: blit_def cstr_terminated)
  show ?case
  proof (cases "m = i")
    case True
    then have "\<not> ok i" using Suc.prems(7) by auto
    then show ?thesis using True Suc.prems(1,2,4) i n by (simp add: Let_def NAME_LEN_def)
  next
    case False
    then have ok: "ok i" "Suc i \<le> m" using Suc.prems(5,6) by auto
    let ?s1 = "?s\<lparr>acts := acts s @ [(int i + 1, ser_name i)]\<rparr>"
    have e: "ser_loop ok i (Suc k) s = ser_loop ok (Suc i) k ?s1"
      using Suc.prems(2) i n ok c by (simp add: Let_def NAME_LEN_def)
    have "\<forall>d \<in> set (sdev ?s1). length d = NAME_LEN"
      using Suc.prems(3) l set_update_subset_insert [of "sdev s" i ?d] by auto
    then show ?thesis
      using Suc.IH [of "Suc i" ?s1] Suc.prems ok(2) unfolding e by (simp add: ser_acts_def)
  qed
qed

lemma ser_exit_upto: "m \<le> n \<Longrightarrow> fold (\<lambda>i l. free_irq_of (int i + 1) l) [m..<n] (map (\<lambda>i. (int i + 1, ser_name i)) [m..<n]) = []"
proof (induction "n - m" arbitrary: m)
  case (Suc d)
  then have "[m..<n] = m # [Suc m..<n]" by (simp add: upt_rec)
  then show ?case using Suc by (simp add: free_irq_of_def)
qed simp

text \<open>\<open>mod_ser\<close>. The handlers asked for (at most nine) are all installed, in order and under names
  that fit their arrays, and unloading removes them all. When a request fails the load fails, but the
  handlers before it stay on the line of a module that is no longer there.\<close>

theorem ser_load:
  assumes "n = nat (min num 9)" "\<forall>j < m. ok j" "m = n \<or> m < n \<and> \<not> ok m" "ser_init ok (ser_fresh num) = (r, s)"
  shows "r = Inr (if m = n then 0 else -1)" "acts s = ser_acts m" "m = n \<Longrightarrow> acts (ser_exit s) = []"
    and "ser_interrupt (m = n) line s
      = (if m < n \<and> m > 0 then crash UseAfterFree else Inr (map (\<lambda>i. (line, int i + 1)) [0..<m]))"
proof -
  let ?s = "ser_fresh num\<lparr>snum := min num 9\<rparr>"
  have i: "ser_init ok (ser_fresh num) = ser_loop ok 0 n ?s"
    using assms(1) by (auto simp: ser_init_def ser_fresh_def MAX_SHARED_def min_def Let_def)
  have "fst (ser_loop ok 0 n ?s) = Inr (if m = 0 + n then 0 else -1)
    \<and> acts (snd (ser_loop ok 0 n ?s)) = ser_acts m \<and> snum (snd (ser_loop ok 0 n ?s)) = snum ?s"
    using assms(1-3) by (intro ser_loop_run) (auto simp: ser_fresh_def ser_acts_def MAX_SHARED_def)
  then have r: "r = Inr (if m = n then 0 else -1)" "acts s = ser_acts m" "snum s = min num 9"
    using assms(4) by (simp_all add: i)
  show "r = Inr (if m = n then 0 else -1)" "acts s = ser_acts m" by (fact r)+
  show "acts (ser_exit s) = []" if "m = n"
    using that r assms(1) ser_exit_upto [of 0 n] by (simp add: ser_exit_def ser_acts_def)
  show "ser_interrupt (m = n) line s
      = (if m < n \<and> m > 0 then crash UseAfterFree else Inr (map (\<lambda>i. (line, int i + 1)) [0..<m]))"
    using r(2) assms(3) by (auto simp: ser_interrupt_def ser_acts_def ser_handler_def)
qed

theorem ser_load_witness:
  "ser_interrupt False 1 (snd (ser_init (\<lambda>i. i < 2) (ser_fresh 3))) = crash UseAfterFree"
proof -
  obtain r s where i: "ser_init (\<lambda>i. i < 2) (ser_fresh 3) = (r, s)" by (cases "ser_init (\<lambda>i. i < 2) (ser_fresh 3)")
  have "\<not> (2::nat) < 2" "(3::nat) = nat (min 3 9)" by simp_all
  then show ?thesis using ser_load(4) [of 3 3 2 "\<lambda>i. i < 2" r s 1] i by simp
qed

section \<open>Works that free themselves (mod_workqueue.c)\<close>

text \<open>The work queue, the works on it, the memory the works hold, and the works that have run, all by
  the number the work was given.\<close>

record works =
  wqueue :: bool
  wpending :: "nat list"
  wheap :: "nat set"
  wran :: "nat list"

definition works_fresh :: works where
  "works_fresh = \<lparr>wqueue = False, wpending = [], wheap = {}, wran = []\<rparr>"

definition my_wq_function :: "nat \<Rightarrow> works \<Rightarrow> works res" where
  "my_wq_function n s = (if n \<notin> wheap s then crash UseAfterFree
     else Inr (s\<lparr>wran := wran s @ [n], wheap := wheap s - {n}\<rparr>))"

text \<open>\<open>alloc n\<close>: the memory of work \<open>n\<close> is there; \<open>queued n\<close>: \<open>queue_work\<close> accepts it.\<close>

fun wq_loop :: "(nat \<Rightarrow> bool) \<Rightarrow> (nat \<Rightarrow> bool) \<Rightarrow> nat \<Rightarrow> nat \<Rightarrow> works \<Rightarrow> int res \<times> works" where
  "wq_loop alloc queued n 0 s = (Inr 0, s)"
| "wq_loop alloc queued n (Suc k) s =
     (if alloc n then
        (let s1 = s\<lparr>wheap := insert n (wheap s)\<rparr> in
         if queued n then wq_loop alloc queued (n + 1) k (s1\<lparr>wpending := wpending s1 @ [n]\<rparr>)
         else (fail EPERM, s1))
      else (fail ENOMEM, s))"

definition wq_init :: "bool \<Rightarrow> (nat \<Rightarrow> bool) \<Rightarrow> (nat \<Rightarrow> bool) \<Rightarrow> int \<Rightarrow> works \<Rightarrow> int res \<times> works" where
  "wq_init created alloc queued num s =
     (if created then wq_loop alloc queued 0 (nat num) (s\<lparr>wqueue := True\<rparr>) else (fail EBADRQC, s))"

text \<open>The kernel takes a work off the queue, here the \<open>i\<close>-th, and calls the module's function.\<close>

definition wq_run :: "bool \<Rightarrow> nat \<Rightarrow> works \<Rightarrow> works res" where
  "wq_run loaded i s = (if i \<ge> length (wpending s) then Inr s
     else if \<not> loaded then crash UseAfterFree
     else my_wq_function (wpending s ! i) (s\<lparr>wpending := take i (wpending s) @ drop (Suc i) (wpending s)\<rparr>))"

fun wq_runs :: "nat list \<Rightarrow> works \<Rightarrow> works res" where
  "wq_runs [] s = Inr s"
| "wq_runs (i # is) s = (case wq_run True i s of Inl e \<Rightarrow> Inl e | Inr s1 \<Rightarrow> wq_runs is s1)"

text \<open>Unloading waits for the works that are left.\<close>

definition wq_exit :: "works \<Rightarrow> works res" where
  "wq_exit s = (case wq_runs (replicate (length (wpending s)) 0) s of
     Inl e \<Rightarrow> Inl e | Inr s1 \<Rightarrow> Inr (s1\<lparr>wqueue := False\<rparr>))"

definition wq_inv :: "nat \<Rightarrow> works \<Rightarrow> bool" where
  "wq_inv n s \<longleftrightarrow> mset (wran s) + mset (wpending s) = mset [0..<n] \<and> wheap s = set (wpending s)"

lemma wq_inv_distinct: "wq_inv n s \<Longrightarrow> distinct (wpending s)"
proof -
  assume "wq_inv n s"
  then have "mset (wran s @ wpending s) = mset [0..<n]" by (simp add: wq_inv_def)
  then have "distinct (wran s @ wpending s)" using distinct_upt mset_eq_imp_distinct_iff by blast
  then show ?thesis by simp
qed

lemma wq_run_inv:
  assumes "wq_inv n s"
  shows "\<exists>s'. wq_run True i s = Inr s' \<and> wq_inv n s' \<and> wqueue s' = wqueue s \<and> length (wpending s') = length (wpending s) - (if i < length (wpending s) then 1 else 0)"
proof (cases "i < length (wpending s)")
  case True
  let ?w = "wpending s ! i" and ?r = "take i (wpending s) @ drop (Suc i) (wpending s)"
  have m: "mset (wpending s) = add_mset ?w (mset ?r)"
    using id_take_nth_drop [OF True] by (metis mset.simps(2) mset_append union_mset_add_mset_right)
  then have "?w \<notin> set ?r" "set (wpending s) = insert ?w (set ?r)"
    using wq_inv_distinct [OF assms] True
    by (metis distinct_count_atmost_1 count_add_mset count_eq_zero_iff diff_Suc_1 nth_mem set_mset_mset One_nat_def,
      metis m set_mset_add_mset_insert set_mset_mset)
  then show ?thesis using assms True m by (auto simp: wq_run_def my_wq_function_def wq_inv_def)
qed (use assms in \<open>auto simp: wq_run_def\<close>)

lemma wq_runs_inv: "wq_inv n s \<Longrightarrow> \<exists>s'. wq_runs is s = Inr s' \<and> wq_inv n s' \<and> wqueue s' = wqueue s
    \<and> (is = replicate (length (wpending s)) 0 \<longrightarrow> wpending s' = [])"
proof (induction "is" arbitrary: s)
  case (Cons i "is")
  obtain s1 where s1: "wq_run True i s = Inr s1" "wq_inv n s1" "wqueue s1 = wqueue s"
    "length (wpending s1) = length (wpending s) - (if i < length (wpending s) then 1 else 0)"
    using wq_run_inv [OF Cons.prems, of i] by blast
  have "i # is = replicate (length (wpending s)) 0 \<Longrightarrow> is = replicate (length (wpending s1)) 0"
    using s1(4) by (cases "wpending s") auto
  then show ?case using Cons.IH [OF s1(2)] s1 by auto
qed auto

lemma wq_loop_run:
  assumes "n \<le> m" "\<forall>j. n \<le> j \<and> j < m \<longrightarrow> alloc j \<and> queued j" "m = n + k \<or> m < n + k \<and> \<not> (alloc m \<and> queued m)"
    "wpending s = [0..<n]" "wheap s = {0..<n}"
  shows "wq_loop alloc queued n k s = (if m = n + k then Inr 0 else if alloc m then fail EPERM else fail ENOMEM,
    s\<lparr>wpending := [0..<m], wheap := {0..<m} \<union> (if m < n + k \<and> alloc m then {m} else {})\<rparr>)"
  using assms
proof (induction k arbitrary: n s)
  case 0
  then show ?case by (cases s) auto
next
  case (Suc k)
  show ?case
  proof (cases "m = n")
    case True
    then show ?thesis using Suc.prems by (cases s) (auto simp: Let_def)
  next
    case False
    then have "alloc n" "queued n" "Suc n \<le> m" using Suc.prems(1,2) by auto
    then show ?thesis
      using Suc.IH [of "Suc n" "s\<lparr>wheap := insert n (wheap s), wpending := wpending s @ [n]\<rparr>"] Suc.prems
      by (simp add: Let_def atLeast0_lessThan_Suc)
  qed
qed



section \<open>A tasklet (mod_tasklet.c) and a counter (lab1_interrupt.c)\<close>

text \<open>Whether the tasklet is scheduled, and the contexts (atomic or not) in which the module logged.\<close>

record tasklet =
  scheduled :: bool
  contexts :: "bool list"

definition tasklet_function :: "tasklet \<Rightarrow> tasklet" where
  "tasklet_function s = s\<lparr>contexts := contexts s @ [True]\<rparr>"

definition tasklet_run :: "tasklet \<Rightarrow> tasklet" where
  "tasklet_run s = (if scheduled s then tasklet_function (s\<lparr>scheduled := False\<rparr>) else s)"

definition tasklet_init :: "tasklet \<Rightarrow> int \<times> tasklet" where
  "tasklet_init s = (0, s\<lparr>scheduled := True, contexts := contexts s @ [False]\<rparr>)"

text \<open>\<open>tasklet_kill\<close> waits until a scheduled tasklet has run.\<close>

definition tasklet_exit :: "tasklet \<Rightarrow> tasklet" where
  "tasklet_exit s = tasklet_run s"

lemma tasklet_once:
  "tasklet_exit ((tasklet_run ^^ k) (snd (tasklet_init \<lparr>scheduled = False, contexts = []\<rparr>)))
    = \<lparr>scheduled = False, contexts = [False, True]\<rparr>"
proof -
  have "(tasklet_run ^^ k) \<lparr>scheduled = False, contexts = c\<rparr> = \<lparr>scheduled = False, contexts = c\<rparr>" for c
    by (induction k) (simp_all add: tasklet_run_def)
  then show ?thesis
    by (cases k) (simp_all add: tasklet_exit_def tasklet_init_def tasklet_run_def tasklet_function_def funpow_Suc_right
        del: funpow.simps(2))
qed

record lab1 =
  irq_counter :: "32 word"
  lab_act :: bool

definition lab1_interrupt :: "lab1 \<Rightarrow> lab1" where
  "lab1_interrupt s = s\<lparr>irq_counter := irq_counter s + 1\<rparr>"

definition lab1_init :: "bool \<Rightarrow> lab1 \<Rightarrow> int \<times> lab1" where
  "lab1_init accepted s = (if \<not> accepted then (-1, s) else (0, s\<lparr>lab_act := True\<rparr>))"

definition lab1_exit :: "lab1 \<Rightarrow> lab1" where
  "lab1_exit s = s\<lparr>lab_act := False\<rparr>"

lemma lab1_counts:
  "irq_counter (lab1_exit ((lab1_interrupt ^^ k) (snd (lab1_init True s)))) = irq_counter s + of_nat k"
  by (induction k) (simp_all add: lab1_exit_def lab1_interrupt_def lab1_init_def add.assoc)

end
