(* ===== verification/Udev_Monitor.thy ===== *)
theory Udev_Monitor
  imports Prelude "HOL-Library.Sublist"
begin

text \<open>
  \<open>Tasks/udev\<close>: two programs that listen on a netlink socket. \<open>mondev/mondev.c\<close> prints the fields of
  the kernel's device events; \<open>monitor/monitor.c\<close> takes messages about links and addresses apart. The
  socket is the kernel's: its messages are a parameter.
\<close>

section \<open>Device events (mondev.c)\<close>

text \<open>The event is a sequence of terminated strings; the one that begins with \<open>SEQNUM=\<close> is taken to be
  the last. Reading on past the end of the buffer is a fault.\<close>

definition SEQNUM :: "char list" where
  "SEQNUM = ''SEQNUM=''"

function mon_fields :: "char list \<Rightarrow> char list list res" where
  "mon_fields p =
     (if NUL \<notin> set p then crash OutOfBounds
      else if prefix SEQNUM (cstr p) then Inr [cstr p]
      else (case mon_fields (drop (strlen p + 1) p) of Inl e \<Rightarrow> Inl e | Inr fs \<Rightarrow> Inr (cstr p # fs)))"
  by pat_completeness auto

termination
  by (relation "measure length") (use strlen_less in force)+

declare mon_fields.simps [simp del]

text \<open>What \<open>recvmsg\<close> yields: a message, of which the buffer takes 8192 bytes, or an error.\<close>

datatype recv = Got "char list" | RecvError

definition BUF_SIZE :: nat where
  "BUF_SIZE = 8192"

definition mon_iter :: "recv \<Rightarrow> char list \<Rightarrow> char list list res \<times> char list" where
  "mon_iter r buf = (case r of
     RecvError \<Rightarrow> (Inr [], buf)
   | Got m \<Rightarrow> (let buf' = blit buf 0 (take BUF_SIZE m) in (mon_fields buf', buf')))"

text \<open>The loop of \<open>main\<close> over the first results of \<open>recvmsg\<close>: the strings printed.\<close>

fun mon_main :: "recv list \<Rightarrow> char list \<Rightarrow> char list list res" where
  "mon_main [] buf = Inr []"
| "mon_main (r # rs) buf = (case mon_iter r buf of
     (Inl e, _) \<Rightarrow> Inl e
   | (Inr out, buf') \<Rightarrow> (case mon_main rs buf' of Inl e \<Rightarrow> Inl e | Inr out' \<Rightarrow> Inr (out @ out')))"

text \<open>An event as the kernel makes it: fields, the last of them the sequence number.\<close>

record event =
  efields :: "char list list"
  eseq :: "char list"

definition event_strings :: "event \<Rightarrow> char list list" where
  "event_strings e = efields e @ [SEQNUM @ eseq e]"

definition event_bytes :: "event \<Rightarrow> char list" where
  "event_bytes e = concat (map (\<lambda>f. f @ [NUL]) (event_strings e))"

definition event_ok :: "event \<Rightarrow> bool" where
  "event_ok e \<longleftrightarrow> (\<forall>f \<in> set (efields e). NUL \<notin> set f \<and> \<not> prefix SEQNUM f) \<and> NUL \<notin> set (eseq e)
    \<and> length (event_bytes e) \<le> BUF_SIZE"

lemma mon_fields_cons:
  "NUL \<notin> set f \<Longrightarrow> \<not> prefix SEQNUM f \<Longrightarrow>
    mon_fields (f @ NUL # rest) = (case mon_fields rest of Inl e \<Rightarrow> Inl e | Inr fs \<Rightarrow> Inr (f # fs))"
  by (subst mon_fields.simps) (simp add: cstr_terminated strlen_def split: sum.splits)

lemma mon_fields_last: "NUL \<notin> set f \<Longrightarrow> prefix SEQNUM f \<Longrightarrow> mon_fields (f @ NUL # rest) = Inr [f]"
  by (subst mon_fields.simps) (simp add: cstr_terminated)

lemma mon_fields_many:
  "\<forall>f \<in> set fs. NUL \<notin> set f \<and> \<not> prefix SEQNUM f \<Longrightarrow>
    mon_fields (concat (map (\<lambda>f. f @ [NUL]) fs) @ rest)
      = (case mon_fields rest of Inl e \<Rightarrow> Inl e | Inr gs \<Rightarrow> Inr (fs @ gs))"
  by (induction fs) (auto simp: mon_fields_cons split: sum.splits)

lemma mon_fields_event:
  assumes "event_ok e"
  shows "mon_fields (event_bytes e @ rest) = Inr (event_strings e)"
proof -
  have "NUL \<notin> set (SEQNUM @ eseq e)" using assms by (simp add: event_ok_def SEQNUM_def)
  then have "mon_fields ((SEQNUM @ eseq e) @ NUL # rest) = Inr [SEQNUM @ eseq e]"
    by (intro mon_fields_last) simp_all
  then show ?thesis
    using mon_fields_many [of "efields e" "(SEQNUM @ eseq e) @ NUL # rest"] assms
    by (simp add: event_bytes_def event_strings_def event_ok_def)
qed

fun recv_events :: "recv list \<Rightarrow> char list list" where
  "recv_events [] = []"
| "recv_events (Got m # rs) = m # recv_events rs"
| "recv_events (RecvError # rs) = recv_events rs"

text \<open>\<open>mondev\<close> prints the strings of every event, in order and nothing else, whatever was in the
  buffer before, whatever the sizes of the events and however often the socket has nothing or fails.\<close>

theorem mondev_prints:
  assumes "length buf = BUF_SIZE" "recv_events rs = map event_bytes es" "\<forall>e \<in> set es. event_ok e"
  shows "mon_main rs buf = Inr (concat (map event_strings es))"
  using assms
proof (induction rs arbitrary: buf es)
  case (Cons r rs)
  show ?case
  proof (cases r)
    case (Got m)
    then obtain e es' where e: "es = e # es'" "m = event_bytes e" "recv_events rs = map event_bytes es'"
      using Cons.prems(2) by (cases es) auto
    have ok: "event_ok e" "length m \<le> BUF_SIZE" using Cons.prems(3) e by (auto simp: event_ok_def)
    then have "mon_iter r buf = (Inr (event_strings e), blit buf 0 m)"
      using mon_fields_event [OF ok(1)] by (simp add: mon_iter_def Got e(2) blit_def)
    moreover have "length (blit buf 0 m) = BUF_SIZE" using Cons.prems(1) ok(2) by simp
    ultimately show ?thesis using Cons.IH [of "blit buf 0 m" es'] Cons.prems(3) e by simp
  qed (use Cons in \<open>simp add: mon_iter_def\<close>)
qed simp

theorem mondev_prints_witness:
  "mon_main [RecvError, Got (''add'' @ [NUL] @ ''SEQNUM=7'' @ [NUL])] (replicate BUF_SIZE NUL) = Inr [''add'', ''SEQNUM=7'']"
  using mondev_prints [of "replicate BUF_SIZE NUL" "[RecvError, Got (''add'' @ [NUL] @ ''SEQNUM=7'' @ [NUL])]"
      "[\<lparr>efields = [''add''], eseq = ''7''\<rparr>]"]
  by (simp add: event_bytes_def event_strings_def event_ok_def SEQNUM_def BUF_SIZE_def)

text \<open>A message without a sequence number: the program goes on into what earlier messages left in the
  buffer, and past its end if there is no sequence number there either.\<close>

lemma mon_stale:
  assumes "\<forall>f \<in> set fs. NUL \<notin> set f \<and> \<not> prefix SEQNUM f" "m = concat (map (\<lambda>f. f @ [NUL]) fs)"
    "length m \<le> BUF_SIZE"
  shows "fst (mon_iter (Got m) buf) = (case mon_fields (drop (length m) buf) of Inl e \<Rightarrow> Inl e | Inr gs \<Rightarrow> Inr (fs @ gs))"
  using mon_fields_many [OF assms(1), of "drop (length m) buf"] assms(2,3) by (simp add: mon_iter_def blit_def)

lemma mon_fields_zero: "mon_fields (replicate n NUL) = crash OutOfBounds"
proof (induction n)
  case (Suc n)
  have "mon_fields ([] @ NUL # replicate n NUL) = crash OutOfBounds"
    by (subst mon_fields_cons) (simp_all add: Suc SEQNUM_def)
  then show ?case by simp
qed (simp add: mon_fields.simps)

section \<open>Attributes (monitor.c)\<close>

definition le16 :: "8 word list \<Rightarrow> nat \<Rightarrow> nat" where
  "le16 b p = unat (b ! p) + 256 * unat (b ! (p + 1))"

definition le32 :: "8 word list \<Rightarrow> nat \<Rightarrow> 32 word" where
  "le32 b p = word_of_int (int (le16 b p + 65536 * le16 b (p + 2)))"

definition align4 :: "nat \<Rightarrow> nat" where
  "align4 n = (n + 3) div 4 * 4"

text \<open>\<open>RTA_OK\<close> and \<open>RTA_NEXT\<close> at position \<open>p\<close> with \<open>len\<close> bytes left; \<open>tb\<close> holds positions.\<close>

function rta_loop :: "nat \<Rightarrow> 8 word list \<Rightarrow> nat \<Rightarrow> int \<Rightarrow> (nat \<rightharpoonup> nat) \<Rightarrow> (nat \<rightharpoonup> nat) res" where
  "rta_loop mx b p len tb =
     (if len < 4 then Inr tb
      else if p + 4 > length b then crash OutOfBounds
      else if 4 \<le> le16 b p \<and> int (le16 b p) \<le> len
      then rta_loop mx b (p + align4 (le16 b p)) (len - int (align4 (le16 b p)))
        (if le16 b (p + 2) \<le> mx then tb(le16 b (p + 2) \<mapsto> p) else tb)
      else Inr tb)"
  by pat_completeness auto

termination
  by (relation "measure (\<lambda>(mx, b, p, len, tb). nat len)") (auto simp: align4_def)

declare rta_loop.simps [simp del]

definition parseRtattr :: "nat \<Rightarrow> 8 word list \<Rightarrow> nat \<Rightarrow> int \<Rightarrow> (nat \<rightharpoonup> nat) res" where
  "parseRtattr mx b p len = rta_loop mx b p len Map.empty"

definition rta_data :: "8 word list \<Rightarrow> nat \<Rightarrow> 8 word list" where
  "rta_data b p = take (le16 b p - 4) (drop (p + 4) b)"

text \<open>An attribute as bytes.\<close>

definition put16 :: "nat \<Rightarrow> 8 word list" where
  "put16 n = [of_nat (n mod 256), of_nat (n div 256)]"

definition rta_bytes :: "nat \<times> 8 word list \<Rightarrow> 8 word list" where
  "rta_bytes a = (case a of (t, d) \<Rightarrow> put16 (4 + length d) @ put16 t @ d @ replicate (align4 (4 + length d) - (4 + length d)) 0)"

definition rta_ok :: "nat \<times> 8 word list \<Rightarrow> bool" where
  "rta_ok a \<longleftrightarrow> fst a < 65536 \<and> 4 + length (snd a) < 65536"

lemma align4_ge: "n \<le> align4 n" "align4 n < n + 4"
  unfolding align4_def by linarith+

lemma length_rta_bytes: "length (rta_bytes (t, d)) = align4 (4 + length d)"
  using align4_ge(1) [of "4 + length d"] by (simp add: rta_bytes_def put16_def)

lemma le16_put16: "n < 65536 \<Longrightarrow> le16 (pre @ put16 n @ post) (length pre) = n"
  by (simp add: le16_def put16_def nth_append unat_of_nat)

lemma rta_fields:
  assumes "b = pre @ rta_bytes (t, d) @ post" "rta_ok (t, d)"
  shows "le16 b (length pre) = 4 + length d" "le16 b (length pre + 2) = t" "rta_data b (length pre) = d"
    "length pre + 4 \<le> length b"
proof -
  let ?z = "replicate (align4 (4 + length d) - (4 + length d)) 0 @ post"
  have b: "b = pre @ put16 (4 + length d) @ (put16 t @ d @ ?z)" "b = (pre @ put16 (4 + length d)) @ put16 t @ (d @ ?z)"
    "b = (pre @ put16 (4 + length d) @ put16 t) @ d @ ?z"
    using assms(1) by (simp_all add: rta_bytes_def)
  have l: "length (put16 n) = 2" for n by (simp add: put16_def)
  show h: "le16 b (length pre) = 4 + length d"
    using assms(2) le16_put16 [of "4 + length d" pre] unfolding b(1) by (simp add: rta_ok_def)
  show "le16 b (length pre + 2) = t"
    using assms(2) le16_put16 [of t "pre @ put16 (4 + length d)" "d @ ?z"] unfolding b(2) by (simp add: rta_ok_def l)
  have "drop (length pre + 4) b = d @ ?z" unfolding b(3) by (simp add: l)
  then show "rta_data b (length pre) = d" by (simp add: rta_data_def h)
  show "length pre + 4 \<le> length b" unfolding b(3) by (simp add: l)
qed

lemma rta_loop_many:
  assumes "b = pre @ concat (map rta_bytes as) @ post" "\<forall>a \<in> set as. rta_ok a" "length (concat (map rta_bytes as)) = n"
  shows "\<exists>tb'. rta_loop mx b (length pre) (int n) tb = Inr tb'
    \<and> (\<forall>t. map_option (rta_data b) (tb' t)
      = (if t \<le> mx \<and> t \<in> fst ` set as then map_of (rev as) t else map_option (rta_data b) (tb t)))"
  using assms
proof (induction as arbitrary: pre n tb)
  case Nil
  then show ?case by (simp add: rta_loop.simps)
next
  case (Cons a as)
  obtain t0 d where a: "a = (t0, d)" by fastforce
  let ?n = "align4 (4 + length d)"
  have b: "b = pre @ rta_bytes (t0, d) @ (concat (map rta_bytes as) @ post)"
    "b = (pre @ rta_bytes (t0, d)) @ concat (map rta_bytes as) @ post"
    using Cons.prems(1) by (simp_all add: a)
  note f = rta_fields [OF b(1)]
  have ok: "rta_ok (t0, d)" "\<forall>a \<in> set as. rta_ok a" using Cons.prems(2) by (simp_all add: a)
  have n: "n = ?n + length (concat (map rta_bytes as))" "4 + length d \<le> ?n" "length (pre @ rta_bytes (t0, d)) = length pre + ?n"
    using Cons.prems(3) length_rta_bytes [of t0 d] align4_ge(1) [of "4 + length d"] by (simp_all add: a)
  let ?tb = "if t0 \<le> mx then tb(t0 \<mapsto> length pre) else tb"
  have s: "rta_loop mx b (length pre) (int n) tb = rta_loop mx b (length pre + ?n) (int (length (concat (map rta_bytes as)))) ?tb"
    using f [OF ok(1)] n(1,2) by (subst rta_loop.simps) simp
  from Cons.IH [OF b(2) ok(2) refl, of ?tb] obtain tb' where
    tb': "rta_loop mx b (length pre + ?n) (int (length (concat (map rta_bytes as)))) ?tb = Inr tb'"
    "\<forall>t. map_option (rta_data b) (tb' t)
      = (if t \<le> mx \<and> t \<in> fst ` set as then map_of (rev as) t else map_option (rta_data b) (?tb t))"
    unfolding n(3) by blast
  have "t \<in> fst ` set as \<Longrightarrow> map_of (rev as @ [(t0, d)]) t = map_of (rev as) t" for t
    by (cases "map_of (rev as) t") (auto simp: map_add_def map_of_eq_None_iff)
  moreover have "t \<notin> fst ` set as \<Longrightarrow> map_of (rev as) t = None" for t by (simp add: map_of_eq_None_iff)
  ultimately show ?case
    using tb' f(3) [OF ok(1)] unfolding s a by (auto simp: map_add_def split: if_splits)
qed

text \<open>C26: the attributes of a message. After \<open>parseRtattr\<close> over the bytes of a list of attributes the
  entry of a type within the table leads to the data of the last attribute of that type, and is empty
  when there is none; types beyond the table are skipped.\<close>

theorem rta_roundtrip:
  assumes "\<forall>a \<in> set as. rta_ok a" "b = pre @ concat (map rta_bytes as) @ post"
  shows "\<exists>tb. parseRtattr mx b (length pre) (int (length (concat (map rta_bytes as)))) = Inr tb
    \<and> (\<forall>t. map_option (rta_data b) (tb t) = (if t \<le> mx then map_of (rev as) t else None))"
proof -
  have "t \<notin> fst ` set as \<Longrightarrow> map_of (rev as) t = None" for t by (simp add: map_of_eq_None_iff)
  then show ?thesis
    using rta_loop_many [OF assms(2,1) refl, of mx Map.empty] unfolding parseRtattr_def
    by (elim exE conjE, intro exI conjI) (assumption, auto)
qed

theorem rta_roundtrip_witness:
  "\<exists>tb. parseRtattr 3 (concat (map rta_bytes [(3, [101, 0]), (9, [])])) 0 12 = Inr tb
    \<and> map_option (rta_data (concat (map rta_bytes [(3, [101, 0]), (9, [])]))) (tb 3) = Some [101, 0]"
proof -
  let ?as = "[(3, [101, 0]), (9, [])] :: (nat \<times> 8 word list) list"
  have "\<forall>a \<in> set ?as. rta_ok a" "concat (map rta_bytes ?as) = [] @ concat (map rta_bytes ?as) @ []"
    by (simp_all add: rta_ok_def)
  from rta_roundtrip [OF this, of 3] obtain tb where
    tb: "parseRtattr 3 (concat (map rta_bytes ?as)) (length []) (int (length (concat (map rta_bytes ?as)))) = Inr tb"
    "\<forall>t. map_option (rta_data (concat (map rta_bytes ?as))) (tb t) = (if t \<le> 3 then map_of (rev ?as) t else None)"
    by auto
  have "int (length (concat (map rta_bytes ?as))) = 12" by (simp add: length_rta_bytes align4_def)
  then show ?thesis using tb(1) spec [OF tb(2), of 3] by (intro exI [of _ tb]) (simp only: list.size, simp)
qed

text \<open>Whatever the bytes, an area that lies inside the buffer is not left, and what is found is inside.\<close>

lemma rta_safe:
  assumes "int p + len \<le> int (length b)" "\<forall>q \<in> ran tb. q + le16 b q \<le> length b"
  shows "\<exists>tb'. rta_loop mx b p len tb = Inr tb' \<and> (\<forall>q \<in> ran tb'. q + le16 b q \<le> length b)"
  using assms
proof (induction mx b p len tb rule: rta_loop.induct)
  case (1 mx b p len tb)
  show ?case
  proof (cases "len \<ge> 4 \<and> 4 \<le> le16 b p \<and> int (le16 b p) \<le> len")
    case True
    have "\<forall>q \<in> ran (if le16 b (p + 2) \<le> mx then tb(le16 b (p + 2) \<mapsto> p) else tb). q + le16 b q \<le> length b"
      using 1(2,3) True by (auto simp: ran_def split: if_splits)
    then show ?thesis using 1 True by (subst rta_loop.simps) auto
  next
    case False
    then show ?thesis using 1(2,3) by (subst rta_loop.simps) auto
  qed
qed

section \<open>Messages (monitor.c)\<close>

text \<open>The types of messages and attributes; the numbers of attributes the headers know are parameters.\<close>

definition RTM_NEWLINK :: nat where "RTM_NEWLINK = 16"
definition RTM_DELLINK :: nat where "RTM_DELLINK = 17"
definition RTM_NEWADDR :: nat where "RTM_NEWADDR = 20"
definition RTM_DELADDR :: nat where "RTM_DELADDR = 21"
definition RTM_NEWROUTE :: nat where "RTM_NEWROUTE = 24"
definition RTM_DELROUTE :: nat where "RTM_DELROUTE = 25"
definition IFLA_IFNAME :: nat where "IFLA_IFNAME = 3"
definition IFA_LOCAL :: nat where "IFA_LOCAL = 2"

record limits =
  IFLA_MAX :: nat
  IFA_MAX :: nat

text \<open>What is printed. A name or address is None when its variable was not set before it is printed.\<close>

datatype notice =
    RouteChanged
  | DelAddr "8 word list option"
  | DelLink "8 word list option"
  | NewLink "8 word list option" bool bool
  | NewAddr "8 word list option" "8 word list option"
  | Quiet

text \<open>The message at \<open>h\<close>: 16 bytes of header (length, type), then 16 bytes about a link or 8 about an
  address, then attributes. The length given to \<open>parseRtattr\<close> is that of the whole message.\<close>

definition nl_handle :: "limits \<Rightarrow> 8 word list \<Rightarrow> nat \<Rightarrow> notice res" where
  "nl_handle lim b h = (let ty = le16 b (h + 4); n = sint (le32 b h) in
     if ty = RTM_NEWROUTE \<or> ty = RTM_DELROUTE then Inr RouteChanged
     else (case parseRtattr (IFLA_MAX lim) b (h + 32) n of
       Inl e \<Rightarrow> Inl e
     | Inr tb \<Rightarrow> (case parseRtattr (IFA_MAX lim) b (h + 24) n of
         Inl e \<Rightarrow> Inl e
       | Inr tba \<Rightarrow>
           (let ifName = map_option (\<lambda>p. takeWhile (\<lambda>c. c \<noteq> 0) (drop (p + 4) b)) (tb IFLA_IFNAME);
                flags = le32 b (h + 24);
                ifAddress = map_option (\<lambda>p. take 4 (drop (p + 4) b)) (tba IFA_LOCAL) in
            Inr (if ty = RTM_DELADDR then DelAddr ifName
                 else if ty = RTM_DELLINK then DelLink ifName
                 else if ty = RTM_NEWLINK then NewLink ifName (bit flags 0) (bit flags 6)
                 else if ty = RTM_NEWADDR then NewAddr ifName ifAddress
                 else Quiet)))))"

text \<open>The loop over the messages: None when the fuel is used up. A length that is not valid leaves the
  loop's variables as they are.\<close>

fun nl_loop :: "nat \<Rightarrow> limits \<Rightarrow> 8 word list \<Rightarrow> nat \<Rightarrow> int \<Rightarrow> notice list res option" where
  "nl_loop 0 lim b h status = None"
| "nl_loop (Suc fuel) lim b h status =
     (if status < 16 then Some (Inr [])
      else (let len = sint (le32 b h); l = sint (le32 b h - 16) in
        if l < 0 \<or> len > status then nl_loop fuel lim b h status
        else (case nl_handle lim b h of
            Inl e \<Rightarrow> Some (Inl e)
          | Inr x \<Rightarrow> (case nl_loop fuel lim b (h + align4 (nat len)) (status - int (align4 (nat len))) of
              None \<Rightarrow> None | Some (Inl e) \<Rightarrow> Some (Inl e) | Some (Inr xs) \<Rightarrow> Some (Inr (x # xs))))))"

text \<open>One round of \<open>main\<close>. \<open>recvmsg\<close> fails (None) or yields a message, with or without the address of its
  sender. The message is received into the outer array \<open>buf\<close>; the array of the same name inside the loop,
  of 1024 * 1024 bytes that nobody sets (\<open>inner\<close>), is the one that is taken apart.\<close>

definition monitor_iter :: "nat \<Rightarrow> limits \<Rightarrow> 8 word list \<Rightarrow> (bool \<times> 8 word list) option \<Rightarrow> 8 word list
    \<Rightarrow> (notice list res option \<times> 8 word list)" where
  "monitor_iter fuel lim inner r buf = (case r of
     None \<Rightarrow> (Some (Inr []), buf)
   | Some (addressed, m) \<Rightarrow>
       (let got = take 8192 m; buf' = got @ drop (length got) buf in
        if \<not> addressed then (Some (Inr []), buf') else (nl_loop fuel lim inner 0 (int (length got)), buf')))"

text \<open>Messages that are whole: the loop ends after one round for each of them.\<close>

definition nl_whole :: "8 word list \<Rightarrow> bool" where
  "nl_whole m \<longleftrightarrow> 16 \<le> length m \<and> length m < 2 ^ 31 \<and> length m mod 4 = 0 \<and> le32 m 0 = of_nat (length m)"

fun nl_each :: "limits \<Rightarrow> 8 word list \<Rightarrow> nat \<Rightarrow> 8 word list list \<Rightarrow> notice list res" where
  "nl_each lim b h [] = Inr []"
| "nl_each lim b h (m # ms) = (case nl_handle lim b h of Inl e \<Rightarrow> Inl e
     | Inr x \<Rightarrow> (case nl_each lim b (h + length m) ms of Inl e \<Rightarrow> Inl e | Inr xs \<Rightarrow> Inr (x # xs)))"

lemma le32_inside: "4 \<le> length m \<Longrightarrow> le32 (pre @ m @ post) (length pre) = le32 m 0"
  by (cases m) (auto simp: le32_def le16_def nth_append numeral_2_eq_2 numeral_3_eq_3)

lemma sint_small: "n < 2 ^ 31 \<Longrightarrow> sint (of_nat n :: 32 word) = int n"
  by (simp add: signed_of_nat signed_take_bit_int_eq_self)

lemma nl_loop_whole:
  assumes "b = pre @ concat ms @ post" "\<forall>m \<in> set ms. nl_whole m"
  shows "nl_loop (Suc (length ms)) lim b (length pre) (int (length (concat ms))) = Some (nl_each lim b (length pre) ms)"
  using assms
proof (induction ms arbitrary: pre)
  case (Cons m ms)
  have m: "16 \<le> length m" "length m < 2 ^ 31" "length m mod 4 = 0" "le32 m 0 = of_nat (length m)"
    using Cons.prems(2) by (simp_all add: nl_whole_def)
  have e: "le32 b (length pre) = of_nat (length m)"
    using Cons.prems(1) m le32_inside [of m pre "concat ms @ post"] by simp
  have "of_nat (length m) - 16 = (of_nat (length m - 16) :: 32 word)" using m(1) by (simp add: of_nat_diff)
  then have l: "sint (le32 b (length pre)) = int (length m)" "sint (le32 b (length pre) - 16) = int (length m - 16)"
    using sint_small [of "length m"] sint_small [of "length m - 16"] m(2) unfolding e by simp_all
  have a: "align4 (length m) = length m" using m(3) unfolding align4_def by presburger
  have "nl_loop (Suc (length ms)) lim b (length pre + length m) (int (length (concat ms)))
      = Some (nl_each lim b (length pre + length m) ms)"
    using Cons.IH [of "pre @ m"] Cons.prems by simp
  then show ?case
    using m(1) by (simp add: l a Let_def split: sum.splits del: nl_loop.simps(2))
      (simp add: l a Let_def split: sum.splits)
qed simp



end
