(* ===== verification/Old_Devices.thy ===== *)
theory Old_Devices
  imports Char_Device Mopen
begin

text \<open>
  Earlier versions of two drivers: \<open>Tasks/dev/mopen/mmopen.0.c\<close> (of \<open>mmopen.c\<close>, see \<open>Mopen\<close>) and
  \<open>Tasks/dev/cdev/dyndev.old.c\<close> (of \<open>dyndev.c\<close>, see \<open>Char_Device\<close>), and how they compare with the current ones.
\<close>

section \<open>The device in three opening modes (mmopen.0.c)\<close>

text \<open>The mark of a read that has begun is one static variable, not part of the buffer.\<close>

record mopen0 =
  mode0 :: int
  dev_open0 :: int
  static0 :: "char list"
  odd0 :: int
  priv0 :: "nat \<Rightarrow> char list option"

definition mopen0_open :: "(nat \<Rightarrow> char) option \<Rightarrow> nat \<Rightarrow> mopen0 \<Rightarrow> nat res \<times> mopen0" where
  "mopen0_open vm f s =
     (if dev_open0 s \<noteq> 0 then (fail EBUSY, s)
      else
        (let s1 = (if mode0 s = 1 then s\<lparr>dev_open0 := dev_open0 s + 1\<rparr> else s) in
         if mode0 s1 = 2 then
           (case vm of
              None \<Rightarrow> (fail ENOMEM, s1\<lparr>priv0 := (priv0 s1)(f := None)\<rparr>)
            | Some junk \<Rightarrow> (Inr 0, s1\<lparr>priv0 := (priv0 s1)(f :=
                Some (strcpy (map junk [0..<LEN_MSG + 1]) ''dynamic: not initialized!''))\<rparr>))
         else (Inr 0, s1)))"

definition mopen0_release :: "nat \<Rightarrow> mopen0 \<Rightarrow> nat res \<times> mopen0" where
  "mopen0_release f s =
     (let s1 = (if mode0 s = 1 then s\<lparr>dev_open0 := dev_open0 s - 1\<rparr> else s) in
      (Inr 0, if mode0 s1 = 2 then s1\<lparr>priv0 := (priv0 s1)(f := None)\<rparr> else s1))"

definition get_buffer0 :: "nat \<Rightarrow> mopen0 \<Rightarrow> char list option" where
  "get_buffer0 f s = (if mode0 s = 0 \<or> mode0 s = 1 then Some (static0 s)
     else if mode0 s = 2 then priv0 s f else Some (static0 s))"

definition set_buffer0 :: "nat \<Rightarrow> char list \<Rightarrow> mopen0 \<Rightarrow> mopen0" where
  "set_buffer0 f b s = (if mode0 s = 2 then s\<lparr>priv0 := (priv0 s)(f \<mapsto> b)\<rparr> else s\<lparr>static0 := b\<rparr>)"

definition mopen0_read :: "ucopy \<Rightarrow> nat \<Rightarrow> nat \<Rightarrow> mopen0 \<Rightarrow> nat res \<times> (nat \<times> char list) list \<times> mopen0" where
  "mopen0_read uc f count s =
     (if odd0 s = 0 then
        (case get_buffer0 f s of
           None \<Rightarrow> (crash NullDeref, [], s)
         | Some b \<Rightarrow> (Inr (strlen b + 1),
             (0, to_user uc 0 (cstr b)) # (if uc (strlen b) 1 = 0 then [(strlen b, [NL])] else []),
             s\<lparr>odd0 := 1\<rparr>))
      else (Inr 0, [], s\<lparr>odd0 := 0\<rparr>))"

definition mopen0_write :: "ucopy \<Rightarrow> nat \<Rightarrow> char list \<Rightarrow> mopen0 \<Rightarrow> nat res \<times> mopen0" where
  "mopen0_write uc f buf s =
     (let count = length buf; len = (if count < LEN_MSG then count else LEN_MSG) in
      case get_buffer0 f s of
        None \<Rightarrow> (crash NullDeref, s)
      | Some d \<Rightarrow>
          (let b = blit d 0 (from_user uc 0 (take len buf)) in
           if len = 0 then (crash OutOfBounds, s)
           else (Inr len, set_buffer0 f (terminate b len) s)))"

definition mopen0_init :: "int \<Rightarrow> bool \<Rightarrow> int \<times> bool" where
  "mopen0_init ret registered = (ret, if ret \<noteq> 0 then registered else True)"

definition mopen0_exit :: "bool \<Rightarrow> bool" where
  "mopen0_exit registered = False"

text \<open>A client's calls, and what it gets back.\<close>

datatype mcall = MOpen "(nat \<Rightarrow> char) option" nat | MRelease nat | MRead ucopy nat nat | MWrite ucopy nat "char list"

type_synonym manswer = "nat res \<times> (nat \<times> char list) list"

fun call0 :: "mcall \<Rightarrow> mopen0 \<Rightarrow> manswer \<times> mopen0" where
  "call0 (MOpen vm f) s = (case mopen0_open vm f s of (r, s') \<Rightarrow> ((r, []), s'))"
| "call0 (MRelease f) s = (case mopen0_release f s of (r, s') \<Rightarrow> ((r, []), s'))"
| "call0 (MRead uc f n) s = (case mopen0_read uc f n s of (r, w, s') \<Rightarrow> ((r, w), s'))"
| "call0 (MWrite uc f b) s = (case mopen0_write uc f b s of (r, s') \<Rightarrow> ((r, []), s'))"

fun call1 :: "mcall \<Rightarrow> mopen \<Rightarrow> manswer \<times> mopen" where
  "call1 (MOpen vm f) s = (case mopen_open vm f s of (r, s') \<Rightarrow> ((r, []), s'))"
| "call1 (MRelease f) s = (case mopen_release f s of (r, s') \<Rightarrow> ((r, []), s'))"
| "call1 (MRead uc f n) s = (case mopen_read uc f n s of (r, w, s') \<Rightarrow> ((r, w), s'))"
| "call1 (MWrite uc f b) s = (case mopen_write uc f b s of (r, s') \<Rightarrow> ((r, []), s'))"

fun calls :: "('c \<Rightarrow> 's \<Rightarrow> 'a \<times> 's) \<Rightarrow> 'c list \<Rightarrow> 's \<Rightarrow> 'a list \<times> 's" where
  "calls f [] s = ([], s)"
| "calls f (c # cs) s = (let (a, s1) = f c s; (as, s2) = calls f cs s1 in (a # as, s2))"

text \<open>The current driver's state that an earlier one stands for, when there is one buffer.\<close>

definition as_current :: "mopen0 \<Rightarrow> mopen" where
  "as_current s = \<lparr>mode = mode0 s, dev_open = dev_open0 s, static_buf = \<lparr>mbuf = static0 s, odd = odd0 s\<rparr>, priv = (\<lambda>_. None)\<rparr>"

lemma as_current_call:
  assumes "mode0 s \<noteq> 2"
  shows "call1 c (as_current s) = (fst (call0 c s), as_current (snd (call0 c s)))"
  using assms
  by (cases c) (auto simp: as_current_def mopen_open_def mopen0_open_def mopen_release_def mopen0_release_def
      mopen_read_def mopen0_read_def mopen_write_def mopen0_write_def get_buffer_def get_buffer0_def
      set_buffer_def set_buffer0_def Let_def)

lemma call0_mode: "mode0 (snd (call0 c s)) = mode0 s"
  by (cases c) (auto simp: mopen0_open_def mopen0_release_def mopen0_read_def mopen0_write_def set_buffer0_def Let_def
      split: option.splits)

text \<open>The two versions of the driver. With one shared buffer (modes 0 and 1) they cannot be told
  apart by any sequence of calls.\<close>

theorem mopen_versions_agree:
  assumes "mode0 s \<noteq> 2"
  shows "calls call1 cs (as_current s) = (fst (calls call0 cs s), as_current (snd (calls call0 cs s)))"
  using assms
proof (induction cs arbitrary: s)
  case (Cons c cs)
  then show ?case
    using as_current_call [of s c] Cons.IH [of "snd (call0 c s)"] call0_mode [of c s]
    by (simp add: Let_def split_beta)
qed simp

theorem mopen_versions_agree_witness:
  "fst (calls call1 [MOpen None 1, MRead copy_ok 1 80] (as_current \<lparr>mode0 = 0, dev_open0 = 0, static0 = ''a'' @ [NUL], odd0 = 0, priv0 = Map.empty\<rparr>))
    = [(Inr 0, []), (Inr 2, [(0, ''a''), (1, [NL])])]"
  using mopen_versions_agree [of "\<lparr>mode0 = 0, dev_open0 = 0, static0 = ''a'' @ [NUL], odd0 = 0, priv0 = Map.empty\<rparr>"
      "[MOpen None 1, MRead copy_ok 1 80]"]
  by (simp add: mopen0_open_def mopen0_read_def get_buffer0_def strlen_def Let_def)

text \<open>With a buffer for each open file they differ: in the earlier version a second file's read finds
  the mark of the first one's and gets an end of file instead of its message; in the current one it
  gets the message.\<close>

lemma mopen0_lost_message:
  assumes "mode0 s = 2" "odd0 s = 0" "priv0 s f \<noteq> None"
  shows "fst (mopen0_read uc g n (snd (snd (mopen0_read uc f n s)))) = Inr 0"
  using assms by (auto simp: mopen0_read_def get_buffer0_def)

lemma mopen_keeps_message:
  assumes "mode s = 2" "priv s f = Some d" "odd d = 0" "priv s g = Some e" "odd e = 0" "f \<noteq> g"
  shows "fst (mopen_read uc g n (snd (snd (mopen_read uc f n s)))) = Inr (strlen (mbuf e) + 1)"
  using assms by (auto simp: mopen_read_def get_buffer_def set_buffer_def)

section \<open>A cdev with device nodes (dyndev.old.c)\<close>

text \<open>The name of a node is first written into an array of 10 bytes.\<close>

definition dynold_name :: "nat \<Rightarrow> char list res" where
  "dynold_name i = (if length (dyn_name i) + 1 > 10 then crash OutOfBounds else Inr (dyn_name i))"

fun dynold_nodes :: "nat list \<Rightarrow> cdev_mod \<Rightarrow> cdev_mod res" where
  "dynold_nodes [] s = Inr s"
| "dynold_nodes (i # is) s = (case dynold_name i of Inl e \<Rightarrow> Inl e
     | Inr nm \<Rightarrow> dynold_nodes is (s\<lparr>dnodes := dnodes s @ [(major s, DEVICE_FIRST + i, nm)]\<rparr>))"

definition dynold_init :: "cdev_env \<Rightarrow> cdev_mod \<Rightarrow> (int \<times> cdev_mod) res" where
  "dynold_init e s =
     (let (ret, dmajor, s1) =
        (if major s \<noteq> 0 then (ret_region e, major s, s)
         else (fst (ret_alloc e), snd (ret_alloc e), s\<lparr>major := snd (ret_alloc e)\<rparr>)) in
      if ret < 0 then Inr (ret, s1)
      else
        (let s2 = s1\<lparr>regions := (dmajor, DEVICE_FIRST, DEVICE_COUNT) # regions s1\<rparr>;
             ret' = ret_cdev_add e in
         if ret' < 0
         then Inr (ret', s2\<lparr>regions := remove1 (major s2, DEVICE_FIRST, DEVICE_COUNT) (regions s2)\<rparr>)
         else (case dynold_nodes [0..<DEVICE_COUNT]
                 (s2\<lparr>cdevs := (dmajor, DEVICE_FIRST, DEVICE_COUNT) # cdevs s2, devclass := True, dnodes := []\<rparr>) of
             Inl f \<Rightarrow> Inl f | Inr s3 \<Rightarrow> Inr (ret', s3))))"

definition dynold_exit :: "cdev_mod \<Rightarrow> cdev_mod" where
  "dynold_exit s =
     (let s1 = fold (\<lambda>i s. s\<lparr>dnodes := filter (\<lambda>(ma, mi, _). (ma, mi) \<noteq> (major s, DEVICE_FIRST + i))
                  (dnodes s)\<rparr>) [0..<DEVICE_COUNT] s in
      s1\<lparr>devclass := False, cdevs := tl (cdevs s1),
        regions := remove1 (major s1, DEVICE_FIRST, DEVICE_COUNT) (regions s1)\<rparr>)"

text \<open>The names fit, and the two versions do the same.\<close>

lemma dynold_agrees: "dynold_init e s = Inr (dyndev_init e s)" "dynold_exit s = dyndev_exit s"
proof -
  have "dynold_name i = Inr (dyn_name i)" if "i < 10" for i
    using that length_show_nat [of i 1] by (simp add: dynold_name_def dyn_name_def)
  then show "dynold_init e s = Inr (dyndev_init e s)"
    by (auto simp: dynold_init_def dyndev_init_def Let_def DEVICE_COUNT_def upt_rec)
  show "dynold_exit s = dyndev_exit s" by (simp add: dynold_exit_def dyndev_exit_def)
qed

end
