(* ===== verification/File_Access.thy ===== *)
theory File_Access
  imports Prelude
begin

text \<open>
  \<open>Tasks/file\<close>: modules that use a file when they are loaded and then refuse to stay. \<open>mod_vfs.c\<close> and
  \<open>mod_file.c\<close> read a file, \<open>mdw.c\<close> writes one. The file system is the kernel's and a parameter; what
  the modules hold of it, open files and the address limit, is the state.
\<close>

definition BUF_LEN :: nat where
  "BUF_LEN = 255"

definition TEXT :: "char list" where
  "TEXT = ''...............'' @ [NL]"

text \<open>Files open, and whether addresses of the kernel are accepted in system calls.\<close>

record kfs =
  kopen :: nat
  kds :: bool

text \<open>The path: the parameter of the module, copied without a look at its length, or the default.\<close>

definition path_of :: "char list \<Rightarrow> char list option \<Rightarrow> char list res" where
  "path_of def p = (case p of None \<Rightarrow> Inr def
     | Some x \<Rightarrow> if length x + 1 > BUF_LEN + 1 then crash OutOfBounds else Inr x)"

text \<open>The kernel's answers: can the file be opened, where is its end, how many bytes a read of \<open>l\<close>
  bytes returns (or its error) and the bytes, and what a write of a text returns.\<close>

record file_env =
  can_open :: "char list \<Rightarrow> bool"
  seek_end :: int
  file_read :: "int \<Rightarrow> int \<times> char list"
  file_write :: "char list \<Rightarrow> int"

section \<open>Reading (mod_vfs.c, mod_file.c)\<close>

text \<open>The result of the load, the text printed, and the state. \<open>n\<close> is unsigned; a negative result of the
  read differs from every length.\<close>

definition vfs_kread_init :: "file_env \<Rightarrow> char list option \<Rightarrow> kfs \<Rightarrow> int res \<times> char list option \<times> kfs" where
  "vfs_kread_init e p s =
     (let s1 = s\<lparr>kds := True\<rparr> in
      case path_of ''/etc/yumex.profiles.conf'' p of
        Inl f \<Rightarrow> (Inl f, None, s1)
      | Inr path \<Rightarrow>
          if \<not> can_open e path then (fail ENOENT, None, s1\<lparr>kds := kds s\<rparr>)
          else (let s2 = s1\<lparr>kopen := kopen s1 + 1\<rparr>; closed = s2\<lparr>kopen := kopen s2 - 1, kds := kds s\<rparr>; l = seek_end e in
            if l \<le> 0 then (fail EINVAL, None, closed)
            else (case file_read e l of (n, bytes) \<Rightarrow>
              if length bytes > BUF_LEN + 1 then (crash OutOfBounds, None, s2)
              else if n \<noteq> l then (fail EIO, None, closed)
              else if n > int BUF_LEN then (crash OutOfBounds, None, s2)
              else (fail EPERM, Some (cstr (bytes @ [NUL])), closed))))"

definition file_kread_init :: "file_env \<Rightarrow> char list option \<Rightarrow> kfs \<Rightarrow> int res \<times> char list option \<times> kfs" where
  "file_kread_init e p s =
     (case path_of ''/etc/yumex.profiles.conf'' p of
        Inl f \<Rightarrow> (Inl f, None, s)
      | Inr path \<Rightarrow>
          if \<not> can_open e path then (fail ENOENT, None, s)
          else (let s1 = s\<lparr>kopen := kopen s + 1\<rparr> in
            case file_read e (int BUF_LEN) of (n, bytes) \<Rightarrow>
              if n = 0 then (fail EIO, None, s1)
              else if n < 0 \<or> n > int BUF_LEN then (crash OutOfBounds, None, s1)
              else (fail EPERM, Some (cstr (bytes @ [NUL])), s1\<lparr>kopen := kopen s1 - 1\<rparr>)))"

section \<open>Writing (mdw.c)\<close>

definition mdw_init :: "file_env \<Rightarrow> char list option \<Rightarrow> kfs \<Rightarrow> int res \<times> kfs" where
  "mdw_init e p s =
     (case path_of ''./module.log'' p of
        Inl f \<Rightarrow> (Inl f, s)
      | Inr path \<Rightarrow>
          if \<not> can_open e path then (fail ENOENT, s)
          else (let s1 = s\<lparr>kopen := kopen s + 1, kds := True\<rparr> in
            if file_write e TEXT \<noteq> int (length TEXT) then (fail EIO, s1)
            else (Inr (-1), s1\<lparr>kds := kds s, kopen := kopen s1 - 1\<rparr>)))"

section \<open>Correctness\<close>

text \<open>A file with the given contents: its end is its length, and a read returns what there is.\<close>

definition holds :: "file_env \<Rightarrow> char list \<Rightarrow> char list \<Rightarrow> bool" where
  "holds e path c \<longleftrightarrow> can_open e path \<and> seek_end e = int (length c)
    \<and> (\<forall>l \<ge> 0. file_read e l = (int (length (take (nat l) c)), take (nat l) c))"

text \<open>Reading a file from the kernel. \<open>mod_vfs\<close> prints the whole text of a file of up to 255 bytes,
  refuses an empty one and goes past its buffer on a longer one; \<open>mod_file\<close> prints the first 255 bytes of
  any file that is not empty. Neither changes what the kernel holds, except that \<open>mod_file\<close> leaves an
  empty file open.\<close>

theorem file_modules_read:
  assumes "holds e path c" "length path \<le> BUF_LEN"
  shows "vfs_kread_init e (Some path) s =
      (if c = [] then (fail EINVAL, None, s)
       else if length c \<le> BUF_LEN then (fail EPERM, Some (cstr c), s)
       else (crash OutOfBounds, None, s\<lparr>kopen := kopen s + 1, kds := True\<rparr>))"
    and "file_kread_init e (Some path) s =
      (if c = [] then (fail EIO, None, s\<lparr>kopen := kopen s + 1\<rparr>) else (fail EPERM, Some (cstr (take BUF_LEN c)), s))"
proof -
  have p: "path_of d (Some path) = Inr path" for d using assms(2) by (simp add: path_of_def)
  have n: "cstr (x @ [NUL]) = cstr x" for x using cstr_append_NUL [of x "[]"] by simp
  have r: "file_read e (int k) = (int (length (take k c)), take k c)" for k
    using assms(1) by (simp add: holds_def)
  show "vfs_kread_init e (Some path) s =
      (if c = [] then (fail EINVAL, None, s)
       else if length c \<le> BUF_LEN then (fail EPERM, Some (cstr c), s)
       else (crash OutOfBounds, None, s\<lparr>kopen := kopen s + 1, kds := True\<rparr>))"
    using assms(1) r [of "length c"] by (simp add: vfs_kread_init_def p n holds_def Let_def)
  show "file_kread_init e (Some path) s =
      (if c = [] then (fail EIO, None, s\<lparr>kopen := kopen s + 1\<rparr>) else (fail EPERM, Some (cstr (take BUF_LEN c)), s))"
    using assms(1) r [of BUF_LEN] by (cases c) (simp_all add: file_kread_init_def p n holds_def Let_def BUF_LEN_def)
qed

definition file_of :: "char list \<Rightarrow> char list \<Rightarrow> file_env" where
  "file_of path c = \<lparr>can_open = (\<lambda>x. x = path), seek_end = int (length c),
     file_read = (\<lambda>l. (int (length (take (nat l) c)), take (nat l) c)), file_write = (\<lambda>t. int (length t))\<rparr>"

theorem file_modules_read_witness:
  "vfs_kread_init (file_of ''f'' ''text'') (Some ''f'') \<lparr>kopen = 0, kds = False\<rparr> = (fail EPERM, Some ''text'', \<lparr>kopen = 0, kds = False\<rparr>)"
proof -
  have "holds (file_of ''f'' ''text'') ''f'' ''text''" by (simp add: holds_def file_of_def)
  from file_modules_read(1) [OF this] show ?thesis by (simp add: BUF_LEN_def)
qed

text \<open>The address limit: every way out of \<open>mod_vfs\<close> that is not a fault restores it and closes the file.\<close>

lemma vfs_balanced:
  "vfs_kread_init e p s = (r, t, s') \<Longrightarrow> defined r \<Longrightarrow> s' = s"
  by (auto simp: vfs_kread_init_def Let_def path_of_def split: option.splits if_splits prod.splits)

text \<open>\<open>mdw\<close>: a write that falls short leaves the file open and the address limit lifted for the process
  that loads the module; a read error in \<open>mod_file\<close> is used as an index.\<close>

lemma mdw_writes:
  assumes "can_open e path" "length path \<le> BUF_LEN"
  shows "mdw_init e (Some path) s =
    (if file_write e TEXT = int (length TEXT) then (Inr (-1), s) else (fail EIO, \<lparr>kopen = kopen s + 1, kds = True\<rparr>))"
  using assms by (cases s) (simp add: mdw_init_def path_of_def)

lemma file_read_error:
  assumes "can_open e path" "length path \<le> BUF_LEN" "fst (file_read e (int BUF_LEN)) < 0"
  shows "fst (file_kread_init e (Some path) s) = crash OutOfBounds"
  using assms by (cases "file_read e (int BUF_LEN)") (simp add: file_kread_init_def path_of_def Let_def)

end
