(* ===== verification/Hardware.thy ===== *)
theory Hardware
  imports Prelude "HOL-Library.Word" "HOL-Library.Multiset"
begin

text \<open>
  Drivers that look at hardware: \<open>Tasks/usb/lab1_usb.c\<close> numbers the devices that are connected,
  \<open>Tasks/pci/lab2_pci.c\<close> lists the devices of the bus, \<open>Tasks/dma/lab1_dma.c\<close> and
  \<open>lab1_dma_PCI_API.c\<close> (with \<open>out.c\<close>) write into memory for transfers, \<open>Tasks/user_io\<close> uses the ports of
  the printer from a program.
\<close>

section \<open>Connected devices (usb/lab1_usb.c)\<close>

text \<open>The static counter of \<open>probe\<close>, the driver's data of each interface, and the blocks allocated.\<close>

record usb =
  my_counter :: int
  intfdata :: "nat \<rightharpoonup> nat"
  blocks :: "nat \<rightharpoonup> int"
  usb_bound :: bool

text \<open>\<open>blk\<close>: the block that \<open>kmalloc\<close> yields, None for a null pointer, which is not looked at.\<close>

definition my_usb_probe :: "nat option \<Rightarrow> nat \<Rightarrow> usb \<Rightarrow> int res \<times> usb" where
  "my_usb_probe blk intf s = (case blk of
     None \<Rightarrow> (crash NullDeref, s\<lparr>my_counter := my_counter s + 1\<rparr>)
   | Some b \<Rightarrow> (Inr 0, s\<lparr>my_counter := my_counter s + 1, blocks := (blocks s)(b \<mapsto> my_counter s), intfdata := (intfdata s)(intf \<mapsto> b)\<rparr>))"

definition my_usb_disconnect :: "nat \<Rightarrow> usb \<Rightarrow> unit res \<times> usb" where
  "my_usb_disconnect intf s = (case intfdata s intf of
     None \<Rightarrow> (Inr (), s)
   | Some b \<Rightarrow> if blocks s b = None then (crash DoubleFree, s) else (Inr (), s\<lparr>blocks := (blocks s)(b := None)\<rparr>))"

definition my_usb_init :: "int \<Rightarrow> usb \<Rightarrow> int \<times> usb" where
  "my_usb_init err s = (err, if err = 0 then s\<lparr>usb_bound := True\<rparr> else s)"

text \<open>\<open>usb_deregister\<close> disconnects the interfaces that are still bound.\<close>

fun usb_disconnects :: "nat list \<Rightarrow> usb \<Rightarrow> unit res \<times> usb" where
  "usb_disconnects [] s = (Inr (), s)"
| "usb_disconnects (i # is) s = (case my_usb_disconnect i s of
     (Inl e, s1) \<Rightarrow> (Inl e, s1)
   | (Inr _, s1) \<Rightarrow> usb_disconnects is (s1\<lparr>intfdata := (intfdata s1)(i := None)\<rparr>))"

definition my_usb_exit :: "nat list \<Rightarrow> usb \<Rightarrow> unit res \<times> usb" where
  "my_usb_exit bound s = (case usb_disconnects bound s of
     (Inl e, s1) \<Rightarrow> (Inl e, s1) | (Inr _, s1) \<Rightarrow> (Inr (), s1\<lparr>usb_bound := False\<rparr>))"

text \<open>What the kernel does: it probes an interface that is not bound and disconnects one that is; then
  it forgets the driver's data. A fresh block is one that is not in use.\<close>

inductive usb_reach :: "nat list \<Rightarrow> usb \<Rightarrow> bool" where
  usb_start: "usb_reach [] \<lparr>my_counter = 0, intfdata = Map.empty, blocks = Map.empty, usb_bound = True\<rparr>"
| usb_connect: "usb_reach is s \<Longrightarrow> i \<notin> set is \<Longrightarrow> blocks s b = None \<Longrightarrow> usb_reach (i # is) (snd (my_usb_probe (Some b) i s))"
| usb_disconnect: "usb_reach is s \<Longrightarrow> i \<in> set is \<Longrightarrow> my_usb_disconnect i s = (Inr (), s1) \<Longrightarrow>
    usb_reach (remove1 i is) (s1\<lparr>intfdata := (intfdata s1)(i := None)\<rparr>)"

definition usb_inv :: "nat list \<Rightarrow> usb \<Rightarrow> bool" where
  "usb_inv is s \<longleftrightarrow> distinct is \<and> dom (intfdata s) = set is \<and> inj_on (intfdata s) (set is)
    \<and> dom (blocks s) = ran (intfdata s)
    \<and> (\<forall>b n. blocks s b = Some n \<longrightarrow> 0 \<le> n \<and> n < my_counter s) \<and> inj_on (blocks s) (dom (blocks s)) \<and> 0 \<le> my_counter s"

lemma usb_inv_disconnect:
  assumes "usb_inv is s" "i \<in> set is"
  shows "\<exists>s1. my_usb_disconnect i s = (Inr (), s1) \<and> usb_inv (remove1 i is) (s1\<lparr>intfdata := (intfdata s1)(i := None)\<rparr>)"
proof -
  have "i \<in> dom (intfdata s)" using assms by (simp add: usb_inv_def)
  then obtain b where b: "intfdata s i = Some b" by blast
  then have "blocks s b \<noteq> None" using assms(1) by (metis domIff ranI usb_inv_def)
  moreover have "ran ((intfdata s)(i := None)) = ran (intfdata s) - {b}"
  proof -
    have u: "intfdata s j = Some b \<Longrightarrow> j = i" for j
      using assms b unfolding usb_inv_def by (metis domI inj_onD)
    show ?thesis
    proof (intro set_eqI iffI)
      fix x
      assume "x \<in> ran ((intfdata s)(i := None))"
      then obtain j where "j \<noteq> i" "intfdata s j = Some x" by (auto simp: ran_def split: if_splits)
      then show "x \<in> ran (intfdata s) - {b}" using u [of j] by (auto intro: ranI)
    next
      fix x
      assume "x \<in> ran (intfdata s) - {b}"
      then obtain j where "x \<noteq> b" "intfdata s j = Some x" by (auto simp: ran_def)
      then show "x \<in> ran ((intfdata s)(i := None))" using b by (intro ranI [of _ j]) auto
    qed
  qed
  moreover have "dom ((intfdata s)(i := None)) = set (remove1 i is)" "distinct (remove1 i is)"
    using assms by (auto simp: usb_inv_def set_remove1_eq)
  moreover have "inj_on ((intfdata s)(i := None)) (set (remove1 i is))" "inj_on ((blocks s)(b := None)) (dom (blocks s) - {b})"
    using assms by (auto simp: usb_inv_def inj_on_def set_remove1_eq)
  ultimately show ?thesis using assms b
    by (simp add: my_usb_disconnect_def usb_inv_def)
qed

lemma usb_inv_probe:
  assumes "usb_inv is s" "i \<notin> set is" "blocks s b = None"
  shows "usb_inv (i # is) (snd (my_usb_probe (Some b) i s))"
proof -
  have n: "intfdata s i = None" "b \<notin> ran (intfdata s)" using assms by (auto simp: usb_inv_def domIff)
  then have r: "ran ((intfdata s)(i \<mapsto> b)) = insert b (ran (intfdata s))" by simp
  have i: "intfdata s j \<noteq> Some b" "Some b \<noteq> intfdata s j" for j using n(2) by (metis ranI)+
  have c: "blocks s b' \<noteq> Some (my_counter s)" for b' using assms(1) by (auto simp: usb_inv_def)
  then have c': "Some (my_counter s) \<noteq> blocks s b'" for b' by metis
  have "blocks s b' = Some n \<Longrightarrow> n < my_counter s + 1" for b' n
    using assms(1) unfolding usb_inv_def by (metis less_add_one less_trans)
  then show ?thesis
    using assms r i c c' n unfolding usb_inv_def my_usb_probe_def by (auto simp: inj_on_def)
qed

lemma usb_reach_inv: "usb_reach is s \<Longrightarrow> usb_inv is s"
proof (induction rule: usb_reach.induct)
  case usb_start
  then show ?case by (simp add: usb_inv_def)
next
  case (usb_disconnect "is" s i s1)
  then show ?case using usb_inv_disconnect [of "is" s i] by auto
qed (blast intro: usb_inv_probe)

lemma usb_disconnects_all: "usb_inv is s \<Longrightarrow> \<exists>s1. usb_disconnects is s = (Inr (), s1) \<and> usb_inv [] s1"
proof (induction "is" arbitrary: s)
  case (Cons i "is")
  from usb_inv_disconnect [OF Cons.prems, of i] show ?case using Cons.IH by fastforce
qed simp

text \<open>The USB driver. Whatever devices are connected and disconnected, in whatever order, the
  devices that are connected have different numbers, all of them below the count of connections, and
  unloading the driver then releases exactly the blocks of the connected devices, each once.\<close>

theorem usb_balanced:
  assumes "usb_reach is s"
  shows "(\<forall>i \<in> set is. \<exists>b n. intfdata s i = Some b \<and> blocks s b = Some n \<and> 0 \<le> n \<and> n < my_counter s
      \<and> (\<forall>j \<in> set is. j \<noteq> i \<longrightarrow> intfdata s j \<noteq> Some b) \<and> (\<forall>b'. blocks s b' = Some n \<longrightarrow> b' = b))
    \<and> (\<exists>s1. my_usb_exit is s = (Inr (), s1) \<and> blocks s1 = Map.empty \<and> intfdata s1 = Map.empty \<and> \<not> usb_bound s1)"
proof (intro conjI ballI)
  note inv = usb_reach_inv [OF assms]
  show "\<exists>b n. intfdata s i = Some b \<and> blocks s b = Some n \<and> 0 \<le> n \<and> n < my_counter s
      \<and> (\<forall>j \<in> set is. j \<noteq> i \<longrightarrow> intfdata s j \<noteq> Some b) \<and> (\<forall>b'. blocks s b' = Some n \<longrightarrow> b' = b)" if i: "i \<in> set is" for i
  proof -
    have "i \<in> dom (intfdata s)" using inv i by (simp add: usb_inv_def)
    then obtain b where b: "intfdata s i = Some b" by blast
    then have "b \<in> dom (blocks s)" using inv by (metis ranI usb_inv_def)
    then obtain n where "blocks s b = Some n" by blast
    then show ?thesis using inv b i unfolding usb_inv_def inj_on_def by (metis domI)
  qed
  obtain s1 where "usb_disconnects is s = (Inr (), s1)" "usb_inv [] s1" using usb_disconnects_all [OF inv] by blast
  then show "\<exists>s1. my_usb_exit is s = (Inr (), s1) \<and> blocks s1 = Map.empty \<and> intfdata s1 = Map.empty \<and> \<not> usb_bound s1"
    by (auto simp: my_usb_exit_def usb_inv_def)
qed

theorem usb_balanced_witness:
  "\<exists>s1. my_usb_exit [3] (snd (my_usb_probe (Some 9) 3 \<lparr>my_counter = 0, intfdata = Map.empty, blocks = Map.empty, usb_bound = True\<rparr>))
    = (Inr (), s1) \<and> blocks s1 = Map.empty"
proof -
  have "usb_reach [3] (snd (my_usb_probe (Some 9) 3 \<lparr>my_counter = 0, intfdata = Map.empty, blocks = Map.empty, usb_bound = True\<rparr>))"
    by (rule usb_connect [OF usb_start]) simp_all
  from usb_balanced [OF this] show ?thesis by blast
qed

section \<open>Devices of the bus (pci/lab2_pci.c)\<close>

text \<open>What is read of a device's configuration; the references the kernel counts of each device.\<close>

record pci_log =
  VENDOR_ID :: "16 word"
  DEVICE_ID :: "16 word"
  REVISION_ID :: "8 word"
  INTERRUPT_LINE :: "8 word"
  LATENCY_TIMER :: "8 word"
  COMMAND :: "16 word"

text \<open>\<open>pci_get_device\<close> takes a reference to the device it returns and gives up the one to the device it
  starts from; the loop gives up one more in its body.\<close>

definition pci_dev_put :: "nat \<Rightarrow> (nat \<Rightarrow> int) \<Rightarrow> (nat \<Rightarrow> int)" where
  "pci_dev_put d r = r(d := r d - 1)"

definition pci_get_device :: "nat option \<Rightarrow> nat option \<Rightarrow> (nat \<Rightarrow> int) \<Rightarrow> (nat \<Rightarrow> int)" where
  "pci_get_device from_dev nxt r =
     (let r1 = (case nxt of None \<Rightarrow> r | Some d \<Rightarrow> r(d := r d + 1)) in
      case from_dev of None \<Rightarrow> r1 | Some d \<Rightarrow> pci_dev_put d r1)"

text \<open>The loop over the devices, from \<open>pdev\<close>; using a device without a reference is a fault.\<close>

fun pci_scan :: "nat option \<Rightarrow> nat list \<Rightarrow> (nat \<Rightarrow> pci_log) \<Rightarrow> (nat \<Rightarrow> int) \<Rightarrow> pci_log list res \<times> (nat \<Rightarrow> int)" where
  "pci_scan pdev [] cfg r = (Inr [], pci_get_device pdev None r)"
| "pci_scan pdev (d # ds) cfg r =
     (let r1 = pci_get_device pdev (Some d) r in
      if r1 d \<le> 0 then (crash UseAfterFree, r1)
      else (case pci_scan (Some d) ds cfg (pci_dev_put d r1) of
          (Inl e, r2) \<Rightarrow> (Inl e, r2) | (Inr l, r2) \<Rightarrow> (Inr (cfg d # l), r2)))"

definition pci_init :: "nat list \<Rightarrow> (nat \<Rightarrow> pci_log) \<Rightarrow> (nat \<Rightarrow> int) \<Rightarrow> pci_log list res \<times> (nat \<Rightarrow> int)" where
  "pci_init devs cfg r = pci_scan None devs cfg r"

text \<open>Every device is read once, in the order of the bus; and every one loses a reference that was not
  the module's.\<close>

lemma pci_scan_from:
  "distinct (p # ds) \<Longrightarrow> \<forall>d \<in> set ds. r d > 0 \<Longrightarrow>
    pci_scan (Some p) ds cfg r = (Inr (map cfg ds), \<lambda>d. if d = p \<or> d \<in> set ds then r d - 1 else r d)"
proof (induction ds arbitrary: p r)
  case Nil
  then show ?case by (auto simp: pci_get_device_def pci_dev_put_def)
next
  case (Cons d ds)
  let ?r = "pci_dev_put d (pci_get_device (Some p) (Some d) r)"
  have r: "?r = r(p := r p - 1)" using Cons.prems(1) by (auto simp: pci_get_device_def pci_dev_put_def)
  have "pci_scan (Some d) ds cfg ?r = (Inr (map cfg ds), \<lambda>x. if x = d \<or> x \<in> set ds then ?r x - 1 else ?r x)"
    using Cons.prems unfolding r by (intro Cons.IH) auto
  moreover have "pci_get_device (Some p) (Some d) r d > 0"
    using Cons.prems by (simp add: pci_get_device_def pci_dev_put_def)
  ultimately show ?case using Cons.prems(1) by (auto simp: Let_def r fun_eq_iff)
qed

lemma pci_loses_references:
  assumes "distinct devs" "\<forall>d \<in> set devs. r d > 0"
  shows "pci_init devs cfg r = (Inr (map cfg devs), \<lambda>d. if d \<in> set devs then r d - 1 else r d)"
proof (cases devs)
  case Nil
  then show ?thesis by (simp add: pci_init_def pci_get_device_def)
next
  case (Cons d ds)
  have "pci_dev_put d (pci_get_device None (Some d) r) = r" by (auto simp: pci_get_device_def pci_dev_put_def)
  moreover have "pci_get_device None (Some d) r d > 0" using assms(2) Cons by (simp add: pci_get_device_def)
  ultimately show ?thesis using assms pci_scan_from [of d ds r cfg] unfolding Cons by (auto simp: pci_init_def Let_def)
qed

section \<open>Memory for transfers (dma)\<close>

text \<open>What is held at a time, and what is logged: the difference of the two addresses, the same less
  the start of kernel memory, and the string read back.\<close>

datatype dres = Coherent | Kmem | Mapping | DmaPool | PoolBlock

record dma_log =
  d_diff :: "64 word"
  d_cmp :: "64 word"
  d_text :: "char list"

text \<open>Memory as an allocation yields it: address for the kernel, address for the device, contents.\<close>

record dma_mem =
  kbuf :: "64 word"
  handle :: "64 word"
  bytes :: "char list"

definition dma_output :: "64 word \<Rightarrow> dma_mem option \<Rightarrow> char list \<Rightarrow> dma_log res" where
  "dma_output page_offset m string = (case m of
     None \<Rightarrow> crash NullDeref
   | Some b \<Rightarrow>
       if length string + 1 > length (bytes b) then crash OutOfBounds
       else (let diff = kbuf b - handle b in
         Inr \<lparr>d_diff = diff, d_cmp = diff - page_offset, d_text = cstr (blit (bytes b) 0 (string @ [NUL]))\<rparr>))"

text \<open>One way of getting memory: it is taken, written, read and given back.\<close>

definition dma_way :: "64 word \<Rightarrow> dres list \<Rightarrow> dma_mem option \<Rightarrow> char list \<Rightarrow> dres list \<Rightarrow> dma_log res \<times> dres list" where
  "dma_way page_offset takes m string held =
     (let held1 = rev takes @ held in case dma_output page_offset m string of
        Inl e \<Rightarrow> (Inl e, held1)
      | Inr l \<Rightarrow> (Inr l, foldr remove1 takes held1))"

record dma_env =
  coherent_mem :: "dma_mem option"
  single_mem :: "dma_mem option"
  pool_mem :: "dma_mem option"

definition lab1_dma_init :: "64 word \<Rightarrow> dma_env \<Rightarrow> dres list \<Rightarrow> (int \<times> dma_log list) res \<times> dres list" where
  "lab1_dma_init po e held =
     (case dma_way po [Coherent] (coherent_mem e) ''This is the dma_alloc_coherent() string'' held of
        (Inl f, h) \<Rightarrow> (Inl f, h)
      | (Inr l1, h1) \<Rightarrow> (case dma_way po [Kmem, Mapping] (single_mem e) ''This is the dma_map_single() string'' h1 of
          (Inl f, h) \<Rightarrow> (Inl f, h)
        | (Inr l2, h2) \<Rightarrow> (case dma_way po [DmaPool, PoolBlock] (pool_mem e) ''This is the dma_pool_alloc() string'' h2 of
            (Inl f, h) \<Rightarrow> (Inl f, h)
          | (Inr l3, h3) \<Rightarrow> (Inr (-1, [l1, l2, l3]), h3))))"

definition lab1_dma_pci_init :: "64 word \<Rightarrow> dma_env \<Rightarrow> dres list \<Rightarrow> (int \<times> dma_log list) res \<times> dres list" where
  "lab1_dma_pci_init po e held =
     (case dma_way po [Coherent] (coherent_mem e) ''This is the pci_alloc_consistent() string'' held of
        (Inl f, h) \<Rightarrow> (Inl f, h)
      | (Inr l1, h1) \<Rightarrow> (case dma_way po [Kmem, Mapping] (single_mem e) ''This is the pci_map_single() string'' h1 of
          (Inl f, h) \<Rightarrow> (Inl f, h)
        | (Inr l2, h2) \<Rightarrow> (Inr (-1, [l1, l2]), h2)))"

text \<open>With memory for the strings each is read back as it was written, and nothing stays held; an
  allocation that fails is not noticed.\<close>

definition roomy :: "dma_mem option \<Rightarrow> bool" where
  "roomy m \<longleftrightarrow> (\<exists>b. m = Some b \<and> 64 \<le> length (bytes b))"

lemma dma_way_roomy:
  assumes "roomy m" "length t < 64" "NUL \<notin> set t"
  shows "\<exists>l. dma_way po [a] m t held = (Inr l, held) \<and> d_text l = t"
    "a \<noteq> b \<Longrightarrow> \<exists>l. dma_way po [a, b] m t held = (Inr l, held) \<and> d_text l = t"
  using assms by (auto simp: roomy_def dma_way_def dma_output_def Let_def blit_def cstr_terminated)

lemma dma_reads_back:
  assumes "roomy (coherent_mem e)" "roomy (single_mem e)" "roomy (pool_mem e)"
  shows "\<exists>ls. lab1_dma_init po e held = (Inr (-1, ls), held) \<and> map d_text ls
      = [''This is the dma_alloc_coherent() string'', ''This is the dma_map_single() string'', ''This is the dma_pool_alloc() string'']"
proof -
  obtain l1 where l1: "dma_way po [Coherent] (coherent_mem e) ''This is the dma_alloc_coherent() string'' held = (Inr l1, held)"
    "d_text l1 = ''This is the dma_alloc_coherent() string''"
    using dma_way_roomy(1) [OF assms(1), of "''This is the dma_alloc_coherent() string''", of po Coherent held] by auto
  obtain l2 where l2: "dma_way po [Kmem, Mapping] (single_mem e) ''This is the dma_map_single() string'' held = (Inr l2, held)"
    "d_text l2 = ''This is the dma_map_single() string''"
    using dma_way_roomy(2) [OF assms(2), of "''This is the dma_map_single() string''" Kmem Mapping po held] by auto
  obtain l3 where l3: "dma_way po [DmaPool, PoolBlock] (pool_mem e) ''This is the dma_pool_alloc() string'' held = (Inr l3, held)"
    "d_text l3 = ''This is the dma_pool_alloc() string''"
    using dma_way_roomy(2) [OF assms(3), of "''This is the dma_pool_alloc() string''" DmaPool PoolBlock po held] by auto
  show ?thesis by (simp add: lab1_dma_init_def l1(1) l2(1) l3(1)) (simp add: l1(2) l2(2) l3(2))
qed

lemma dma_failure_unnoticed: "coherent_mem e = None \<Longrightarrow> fst (lab1_dma_init po e held) = crash NullDeref"
  by (simp add: lab1_dma_init_def dma_way_def dma_output_def)

section \<open>Ports from a program (user_io)\<close>

text \<open>The ports, which of them the process may use, its privilege level, and what was printed as read:
  the value and the port. A device answers a write to a port by \<open>dev\<close>.\<close>

record pio =
  ports :: "nat \<Rightarrow> 8 word"
  allowed :: "nat set"
  iopl_now :: int
  shown :: "(8 word \<times> nat) list"

definition may_use :: "nat \<Rightarrow> pio \<Rightarrow> bool" where
  "may_use a s \<longleftrightarrow> a \<in> allowed s \<or> iopl_now s \<ge> 3"

type_synonym device = "nat \<Rightarrow> 8 word \<Rightarrow> (nat \<Rightarrow> 8 word) \<Rightarrow> (nat \<Rightarrow> 8 word)"

definition do_io :: "device \<Rightarrow> nat \<Rightarrow> pio \<Rightarrow> unit res \<times> pio" where
  "do_io dev addr s =
     (if \<not> may_use addr s then (crash OutOfBounds, s)
      else (let s1 = s\<lparr>ports := dev addr 0 (ports s)\<rparr> in
        if \<not> may_use (addr + 1) s1 then (crash OutOfBounds, s1)
        else (Inr (), s1\<lparr>shown := shown s1 @ [(ports s1 (addr + 1), addr + 1)]\<rparr>)))"

text \<open>\<open>/dev/port\<close>: the position of the file is the port, and moves on by what is written. \<open>fd_ok\<close> and \<open>seek_ok\<close>:
  the file can be opened and its position set.\<close>

definition do_read_devport :: "device \<Rightarrow> bool \<Rightarrow> bool \<Rightarrow> nat \<Rightarrow> pio \<Rightarrow> unit res \<times> pio" where
  "do_read_devport dev fd_ok seek_ok addr s =
     (if \<not> fd_ok \<or> \<not> seek_ok then (Inr (), s)
      else (let s1 = s\<lparr>ports := dev addr 0 (ports s)\<rparr>; pos = addr + 1 in
        (Inr (), s1\<lparr>shown := shown s1 @ [(ports s1 pos, addr + 1)]\<rparr>)))"

definition do_ioperm :: "device \<Rightarrow> bool \<Rightarrow> nat \<Rightarrow> pio \<Rightarrow> unit res \<times> pio" where
  "do_ioperm dev granted addr s =
     (if \<not> granted then (Inr (), s)
      else (case do_io dev addr (s\<lparr>allowed := allowed s \<union> {addr, addr + 1}\<rparr>) of
          (Inl e, s1) \<Rightarrow> (Inl e, s1)
        | (Inr _, s1) \<Rightarrow> (Inr (), s1\<lparr>allowed := allowed s1 - {addr, addr + 1}\<rparr>)))"

definition do_iopl :: "device \<Rightarrow> bool \<Rightarrow> int \<Rightarrow> nat \<Rightarrow> pio \<Rightarrow> unit res \<times> pio" where
  "do_iopl dev granted iopl_level addr s =
     (if \<not> granted then (Inr (), s)
      else (case do_io dev addr (s\<lparr>iopl_now := iopl_level\<rparr>) of
          (Inl e, s1) \<Rightarrow> (Inl e, s1)
        | (Inr _, s1) \<Rightarrow> (Inr (), s1\<lparr>iopl_now := 0\<rparr>)))"

text \<open>\<open>main\<close> after the arguments were read: the three ways, one after the other.\<close>

definition ports_main :: "device \<Rightarrow> bool \<Rightarrow> bool \<Rightarrow> bool \<Rightarrow> bool \<Rightarrow> int \<Rightarrow> nat \<Rightarrow> pio \<Rightarrow> unit res \<times> pio" where
  "ports_main dev fd_ok seek_ok perm pl iopl_level addr s =
     (case do_read_devport dev fd_ok seek_ok addr s of (_, s1) \<Rightarrow>
       (case do_ioperm dev perm addr s1 of
          (Inl e, s2) \<Rightarrow> (Inl e, s2) | (Inr _, s2) \<Rightarrow> do_iopl dev pl iopl_level addr s2))"

text \<open>The three ways of using a port do the same to the device and show the same, when each is
  permitted; none leaves the process a permission that it did not have. A level below 3 is
  granted by \<open>iopl\<close> but does not permit the access.\<close>

theorem port_ways_agree:
  assumes "allowed s = {}" "iopl_now s = 0" "lv \<ge> 3"
  shows "do_ioperm dev True addr s = do_read_devport dev True True addr s"
    "do_iopl dev True lv addr s = do_read_devport dev True True addr s"
    "l < 3 \<Longrightarrow> fst (do_iopl dev True l addr s) = crash OutOfBounds"
  using assms
  by (cases s; simp add: do_ioperm_def do_iopl_def do_read_devport_def do_io_def may_use_def Let_def)+

theorem port_ways_agree_witness:
  "fst (do_iopl (\<lambda>a v p. p(a := v)) True 2 0x378 \<lparr>ports = (\<lambda>_. 7), allowed = {}, iopl_now = 0, shown = []\<rparr>) = crash OutOfBounds"
  by (rule port_ways_agree(3) [of _ 3]) simp_all

end
