(* ===== verification/Mem_Timing.thy ===== *)
theory Mem_Timing
  imports Search
begin

text \<open>
  \<open>Tasks/memory/mtest/memtim.c\<close>: the mean number of cycles of an allocation by each of the kernel's three
  allocators, and the order of the pages for \<open>__get_free_pages\<close>. The loop that finds the order works
  on 64-bit words and has a fuel argument.
\<close>

section \<open>The order\<close>

text \<open>The order starts at 1, although the size compared is that of order 0.\<close>

fun order_loop :: "nat \<Rightarrow> 64 word \<Rightarrow> nat \<Rightarrow> 64 word \<Rightarrow> (nat \<times> 64 word) option" where
  "order_loop 0 sz order psize = None"
| "order_loop (Suc k) sz order psize =
     (if psize < sz then order_loop k sz (order + 1) (psize * 2) else Some (order, psize))"

definition memtim_order :: "nat \<Rightarrow> 64 word \<Rightarrow> (nat \<times> 64 word) option" where
  "memtim_order fuel sz = order_loop fuel sz 1 PAGE_SIZE"

section \<open>The measurements\<close>

definition CYCLES :: nat where
  "CYCLES = 1024"

text \<open>One allocator: \<open>al j\<close> is whether the \<open>j\<close>-th allocation succeeds and \<open>dt j\<close> the cycles it takes; every
  block is given back before the next is taken. The result: was the last block there, the sum, and
  the blocks taken and given back.\<close>

fun timing_loop :: "(nat \<Rightarrow> bool) \<Rightarrow> (nat \<Rightarrow> 64 word) \<Rightarrow> 64 word \<Rightarrow> nat \<Rightarrow> nat \<Rightarrow> 64 word \<Rightarrow> int
    \<Rightarrow> bool \<times> 64 word \<times> int" where
  "timing_loop al dt calibr j 0 suma held = (True, suma, held)"
| "timing_loop al dt calibr j (Suc k) suma held =
     (if \<not> al j then (False, suma, held)
      else (let held1 = held + 1 in timing_loop al dt calibr (j + 1) k (suma + (dt j - calibr)) (held1 - 1)))"

definition mfun :: "char list list" where
  "mfun = [''kmalloc'', ''__get_free_pages'', ''vmalloc'']"

text \<open>The line printed for an allocator; it is built in an array of 120 bytes. The mean is printed as a
  signed number.\<close>

definition memtim_line :: "char list \<Rightarrow> bool \<Rightarrow> 64 word \<Rightarrow> char list res" where
  "memtim_line nm there suma =
     (let t = ''proc. cycles for allocate '' @ nm @ '' : '' @ (if there then show_int (sint (suma div of_nat CYCLES)) else ''failed'') in
      if length t + 1 > 120 then crash OutOfBounds else Inr t)"

text \<open>\<open>cal\<close> are the cycles that the calibration measured; the load is refused at the end.\<close>

fun memtim_lines :: "(nat \<Rightarrow> nat \<Rightarrow> bool) \<Rightarrow> (nat \<Rightarrow> nat \<Rightarrow> 64 word) \<Rightarrow> 64 word \<Rightarrow> (nat \<times> char list) list \<Rightarrow> int
    \<Rightarrow> char list list res \<times> int" where
  "memtim_lines al dt calibr [] held = (Inr [], held)"
| "memtim_lines al dt calibr ((i, nm) # ns) held =
     (case timing_loop (al i) (dt i) calibr 0 CYCLES 0 held of (there, suma, held1) \<Rightarrow>
        (case memtim_line nm there suma of
           Inl e \<Rightarrow> (Inl e, held1)
         | Inr t \<Rightarrow> (case memtim_lines al dt calibr ns held1 of
             (Inl e, h) \<Rightarrow> (Inl e, h) | (Inr ts, h) \<Rightarrow> (Inr (t # ts), h))))"

definition memtim_init :: "nat \<Rightarrow> 64 word \<Rightarrow> (nat \<Rightarrow> 64 word) \<Rightarrow> (nat \<Rightarrow> nat \<Rightarrow> bool) \<Rightarrow> (nat \<Rightarrow> nat \<Rightarrow> 64 word)
    \<Rightarrow> int \<Rightarrow> (int res \<times> nat \<times> char list list \<times> int) option" where
  "memtim_init fuel sz cal al dt held =
     (case memtim_order fuel sz of
        None \<Rightarrow> None
      | Some (order, psize) \<Rightarrow>
          (let calibr = sum_list (map cal [0..<CYCLES]) div of_nat CYCLES in
           case memtim_lines al dt calibr (enumerate 0 mfun) held of
             (Inl e, h) \<Rightarrow> Some (Inl e, order, [], h)
           | (Inr ts, h) \<Rightarrow> Some (Inr (-1), order, ts, h)))"

section \<open>Correctness\<close>

lemma order_loop_finds:
  "unat psize = 4096 * 2 ^ i \<Longrightarrow> i \<le> 51 \<Longrightarrow> unat sz \<le> 2 ^ 63 \<Longrightarrow>
    \<exists>k psize'. order_loop (52 - i) sz (1 + i) psize = Some (1 + k, psize') \<and> i \<le> k \<and> unat psize' = 4096 * 2 ^ k
      \<and> unat sz \<le> 4096 * 2 ^ k \<and> (k = i \<or> 4096 * 2 ^ (k - 1) < unat sz)"
proof (induction "51 - i" arbitrary: i psize)
  case 0
  then have "i = 51" by simp
  then have "\<not> psize < sz" using 0 by (simp add: word_less_nat_alt)
  then show ?case using 0 \<open>i = 51\<close> by (simp add: word_less_nat_alt)
next
  case (Suc d)
  then have i: "52 - i = Suc (52 - Suc i)" "i < 51" by simp_all
  show ?case
  proof (cases "psize < sz")
    case True
    have "(2::nat) ^ i \<le> 2 ^ 50" using i(2) by (intro power_increasing) simp_all
    then have "unat psize < 2 ^ 63" using Suc.prems(1) by simp
    then have "unat (psize * 2) = 4096 * 2 ^ Suc i" using Suc.prems(1) unat_double [of psize] by simp
    then obtain k psize' where k: "order_loop (52 - Suc i) sz (1 + Suc i) (psize * 2) = Some (1 + k, psize')" "Suc i \<le> k"
      "unat psize' = 4096 * 2 ^ k" "unat sz \<le> 4096 * 2 ^ k" "k = Suc i \<or> 4096 * 2 ^ (k - 1) < unat sz"
      using Suc.hyps(1) [of "Suc i" "psize * 2"] Suc.hyps(2) Suc.prems(3) i by fastforce
    have "4096 * 2 ^ i < unat sz" using True Suc.prems(1) by (simp add: word_less_nat_alt)
    then have "4096 * 2 ^ (k - 1) < unat sz" using k(5) by auto
    then show ?thesis using k i True by auto
  next
    case False
    then show ?thesis using Suc.prems i by (auto simp: word_less_nat_alt)
  qed
qed

lemma order_loop_zero: "sz \<noteq> 0 \<Longrightarrow> order_loop k sz order 0 = None"
  by (induction k arbitrary: order) (simp_all add: word_gt_0)

lemma order_loop_endless:
  "unat psize = 4096 * 2 ^ i \<Longrightarrow> i \<le> 51 \<Longrightarrow> unat sz > 2 ^ 63 \<Longrightarrow> order_loop k sz order psize = None"
proof (induction k arbitrary: i psize order)
  case (Suc k)
  have "(2::nat) ^ i \<le> 2 ^ 51" using Suc.prems(2) by (intro power_increasing) simp_all
  then have l: "psize < sz" using Suc.prems by (simp add: word_less_nat_alt)
  show ?case
  proof (cases "i = 51")
    case True
    then have "unat psize = 2 ^ 63" using Suc.prems(1) by simp
    then have "psize = word_of_nat (2 ^ 63)" by (metis of_nat_unat ucast_id)
    then have "psize * 2 = 0" by simp
    moreover have "sz \<noteq> 0" using Suc.prems(3) by auto
    ultimately show ?thesis using l order_loop_zero by simp
  next
    case False
    then have "(2::nat) ^ i \<le> 2 ^ 50" using Suc.prems(2) by (intro power_increasing) simp_all
    then have "unat (psize * 2) = 4096 * 2 ^ Suc i" using Suc.prems(1) unat_double [of psize] by simp
    then show ?thesis using Suc.IH [of "psize * 2" "Suc i"] Suc.prems False l by simp
  qed
qed simp

text \<open>\<open>memtim\<close>'s order. For a size up to 2^63 the loop ends after at most 52 rounds with the least
  power of two pages that holds the size, but an order one too high: the pages asked for are twice as
  many. For a larger size, as a negative parameter is, it never ends.\<close>

theorem memtim_order_found:
  "(unat sz \<le> 2 ^ 63 \<longrightarrow> (\<exists>k psize. memtim_order 52 sz = Some (1 + k, psize) \<and> unat sz \<le> 4096 * 2 ^ k
      \<and> (k = 0 \<or> 4096 * 2 ^ (k - 1) < unat sz) \<and> 4096 * 2 ^ (1 + k) = 2 * unat psize))
    \<and> (2 ^ 63 < unat sz \<longrightarrow> memtim_order fuel sz = None)"
  (is "(?small \<longrightarrow> ?least) \<and> (?large \<longrightarrow> ?endless)")
proof (intro conjI impI)
  show ?least if ?small
    using order_loop_finds [of PAGE_SIZE 0 sz] that by (auto simp: memtim_order_def PAGE_SIZE_def)
  show ?endless if ?large
    using order_loop_endless [of PAGE_SIZE 0 sz] that by (simp add: memtim_order_def PAGE_SIZE_def)
qed

theorem memtim_order_found_witness:
  "(\<exists>k psize. memtim_order 52 10000 = Some (1 + k, psize) \<and> 4096 * 2 ^ (1 + k) = 2 * unat psize)
    \<and> memtim_order 100 0x8000000000000001 = None"
proof -
  have "unat (10000 :: 64 word) \<le> 2 ^ 63" "2 ^ 63 < unat (0x8000000000000001 :: 64 word)" by simp_all
  then show ?thesis using memtim_order_found [of 10000 100] memtim_order_found [of "0x8000000000000001" 100] by blast
qed

text \<open>Every block is given back, also when an allocation fails.\<close>

lemma timing_held: "snd (snd (timing_loop al dt calibr j k suma held)) = held"
  by (induction k arbitrary: j suma) (simp_all add: Let_def)

lemma timing_there: "fst (timing_loop al dt calibr j k suma held) = (\<forall>i. j \<le> i \<and> i < j + k \<longrightarrow> al i)"
  by (induction k arbitrary: j suma)
    (auto simp: Let_def, metis Suc_leI le_neq_implies_less)

lemma memtim_held: "snd (memtim_lines al dt calibr ns held) = held"
proof (induction ns)
  case (Cons n ns)
  obtain i nm where n: "n = (i, nm)" by fastforce
  obtain there suma h where t: "timing_loop (al i) (dt i) calibr 0 CYCLES 0 held = (there, suma, h)" by (metis prod_cases3)
  then have "h = held" using timing_held [of "al i" "dt i" calibr 0 CYCLES 0 held] by simp
  then show ?case using Cons t n by (auto split: sum.splits prod.splits)
qed simp

end
