(* ===== verification/Poll_Clients.thy ===== *)
theory Poll_Clients
  imports Poll_Device
begin

text \<open>
  The test programs of \<open>Tasks/dev/poll.le.3.14\<close> with the driver of \<open>Poll_Device\<close>: \<open>pecho.c\<close> writes a message
  into the device, \<open>pcat.c\<close> reads it in blocks until the end of file. The loop of \<open>pcat\<close> may not end and
  has a fuel argument.
\<close>

text \<open>What \<open>pcat\<close> shows of a read.\<close>

datatype shown = Text "char list" | NotReady | Eof

text \<open>\<open>pecho\<close> after the options were read: the text it shows, or None for the message that the device is
  not ready. An error ends the program.\<close>

definition pecho :: "ucopy \<Rightarrow> char list \<Rightarrow> pdev \<Rightarrow> char list option res \<times> pdev" where
  "pecho uc sout d = (case poll_write uc sout d of
     (Inl e, d') \<Rightarrow> (Inl e, d')
   | (Inr res, d') \<Rightarrow> (Inr (if res = 0 then None else Some sout), d'))"

text \<open>The loop of \<open>pcat\<close>: \<open>others k\<close> is what happens to the device before the \<open>k\<close>-th read, and \<open>wake\<close> what
  ends the sleep of a reader that blocks. A multiplexed program first waits in \<open>poll\<close>, which leaves the
  device as it is. The buffer has \<open>LEN_MSG + 2\<close> bytes.\<close>

fun pcat_loop :: "nat \<Rightarrow> (nat \<Rightarrow> pdev \<Rightarrow> pdev) \<Rightarrow> (pdev \<Rightarrow> pdev) \<Rightarrow> bool \<Rightarrow> nat \<Rightarrow> nat \<Rightarrow> pdev
    \<Rightarrow> (shown list res \<times> pdev) option" where
  "pcat_loop 0 others wake nonblock bs k d = None"
| "pcat_loop (Suc fuel) others wake nonblock bs k d =
     (case poll_read copy_ok wake nonblock bs (others k d) of
        (Inl e, out, d') \<Rightarrow>
          if e = Errno EAGAIN then
            (case pcat_loop fuel others wake nonblock bs (k + 1) d' of
               None \<Rightarrow> None
             | Some (Inl f, d'') \<Rightarrow> Some (Inl f, d'')
             | Some (Inr l, d'') \<Rightarrow> Some (Inr (NotReady # l), d''))
          else Some (Inl e, d')
      | (Inr res, out, d') \<Rightarrow>
          if res = 0 then Some (Inr [Eof], d')
          else if res \<ge> LEN_MSG + 2 then Some (crash OutOfBounds, d')
          else (case pcat_loop fuel others wake nonblock bs (k + 1) d' of
               None \<Rightarrow> None
             | Some (Inl f, d'') \<Rightarrow> Some (Inl f, d'')
             | Some (Inr l, d'') \<Rightarrow> Some (Inr (Text (cstr (out @ [NUL])) # l), d'')))"

text \<open>The block size: the argument when it is a positive number, the length of the buffer otherwise.\<close>

definition pcat_block :: "int option \<Rightarrow> nat" where
  "pcat_block arg = (case arg of None \<Rightarrow> LEN_MSG | Some n \<Rightarrow> if n > 0 then nat n else LEN_MSG)"

section \<open>Correctness\<close>

fun shown_text :: "shown list \<Rightarrow> char list" where
  "shown_text [] = []"
| "shown_text (Text t # l) = t @ shown_text l"
| "shown_text (_ # l) = shown_text l"

lemma read_unread:
  assumes "unread d \<noteq> []" "0 < n"
  shows "poll_read copy_ok wake nb n d = (Inr (min n (length (unread d))), take n (unread d), d\<lparr>roff := roff d + min n (length (unread d))\<rparr>)"
proof -
  let ?k = "strlen (pbuf d) - roff d"
  have l: "roff d < strlen (pbuf d)" "\<not> length (pbuf d) < strlen (pbuf d)"
    using assms(1) strlen_le [of "pbuf d"] by (simp_all add: unread_empty not_less)
  have c: "chunk (roff d) j (pbuf d) = take j (unread d)" if "j \<le> ?k" for j
    using that l(1) by (subst chunk_unread) (auto simp: unread_def)
  show ?thesis
  proof (cases "n < ?k")
    case True
    then have "\<not> length (pbuf d) < roff d + n" using l by linarith
    then show ?thesis using True l(1) c [of n] by (simp add: poll_read_def poll_read_data_def Let_def length_unread)
  next
    case False
    then have "take ?k (unread d) = take n (unread d)" by (simp add: length_unread)
    then show ?thesis using False l c [of ?k] by (simp add: poll_read_def poll_read_data_def Let_def length_unread)
  qed
qed

lemma unread_noNUL: "NUL \<notin> set (unread d)"
  using cstr_noNUL [of "pbuf d"] by (auto simp: unread_def dest: in_set_dropD)

text \<open>When the device is left alone from its next read on, \<open>pcat\<close> shows all there is to read and ends.\<close>

lemma pcat_reads:
  assumes "0 < bs" "length (unread d) < fuel" "length (unread d) < LEN_MSG + 2" "roff d \<le> strlen (pbuf d)"
    "others k d0 = d" "\<And>j x. j > k \<Longrightarrow> others j x = x"
  shows "\<exists>l d'. pcat_loop fuel others wake nb bs k d0 = Some (Inr (l @ [Eof]), d') \<and> shown_text l = unread d
    \<and> set l \<subseteq> range Text \<and> pbuf d' = pbuf d \<and> roff d' = strlen (pbuf d) + 1"
  using assms
proof (induction fuel arbitrary: d d0 k)
  case (Suc fuel)
  show ?case
  proof (cases "unread d = []")
    case True
    then have "roff d = strlen (pbuf d)" using Suc.prems(4) by (simp add: unread_empty)
    then have "poll_read copy_ok wake nb bs d = (Inr 0, [], d\<lparr>roff := strlen (pbuf d) + 1\<rparr>)"
      by (simp add: poll_read_def poll_read_data_def)
    then show ?thesis using True Suc.prems(5) by (auto intro!: exI [of _ "[]"])
  next
    case False
    let ?m = "min bs (length (unread d))" and ?u = "take bs (unread d)"
    let ?d = "d\<lparr>roff := roff d + ?m\<rparr>"
    have r: "poll_read copy_ok wake nb bs d = (Inr ?m, ?u, ?d)" by (rule read_unread [OF False Suc.prems(1)])
    have m: "?m \<noteq> 0" "?m < LEN_MSG + 2" using False Suc.prems(1,3) by (auto simp: min_def)
    have u: "unread ?d = drop ?m (unread d)" by (rule unread_advance)
    have "roff ?d \<le> strlen (pbuf ?d)" using Suc.prems(4) by (auto simp: length_unread min_def)
    moreover have "length (unread ?d) < fuel" "length (unread ?d) < LEN_MSG + 2"
      using m Suc.prems(2,3) unfolding u by (simp_all, linarith+)
    ultimately obtain l d' where l: "pcat_loop fuel others wake nb bs (k + 1) ?d = Some (Inr (l @ [Eof]), d')"
      "shown_text l = unread ?d" "set l \<subseteq> range Text" "pbuf d' = pbuf ?d" "roff d' = strlen (pbuf ?d) + 1"
      using Suc.IH [of ?d "k + 1" ?d] Suc.prems(1,6) by auto
    have "NUL \<notin> set ?u" using unread_noNUL [of d] by (auto dest: in_set_takeD)
    then have "cstr (?u @ [NUL]) = ?u" by (simp add: cstr_terminated)
    moreover have "?u @ unread ?d = unread d" unfolding u by (rule take_drop_min)
    ultimately show ?thesis
      using l r m Suc.prems(5) by (intro exI [of _ "Text ?u # l"] exI [of _ d']) auto
  qed
qed simp

lemma pcat_waits:
  assumes "\<And>j x. j < n \<Longrightarrow> others (k + j) x = x" "roff d > strlen (pbuf d)"
  shows "pcat_loop (n + fuel) others wake True bs k d =
    (case pcat_loop fuel others wake True bs (k + n) d of
       None \<Rightarrow> None | Some (Inl f, d') \<Rightarrow> Some (Inl f, d') | Some (Inr l, d') \<Rightarrow> Some (Inr (replicate n NotReady @ l), d'))"
  using assms(1)
proof (induction n arbitrary: k)
  case 0
  then show ?case by (auto split: option.splits sum.splits prod.splits)
next
  case (Suc n)
  have "others k d = d" using Suc.prems [of 0] by simp
  then have r: "poll_read copy_ok wake True bs (others k d) = (fail EAGAIN, [], d)"
    using assms(2) by (simp add: poll_read_def)
  have "pcat_loop (n + fuel) others wake True bs (Suc k) d =
    (case pcat_loop fuel others wake True bs (Suc k + n) d of
       None \<Rightarrow> None | Some (Inl f, d') \<Rightarrow> Some (Inl f, d') | Some (Inr l, d') \<Rightarrow> Some (Inr (replicate n NotReady @ l), d'))"
    using Suc.prems [of "Suc j" for j] by (intro Suc.IH) auto
  then show ?case by (simp add: r split: option.splits sum.splits prod.splits)
qed



end
