(* ===== verification/Simple_Modules.thy ===== *)
theory Simple_Modules
  imports Decimal "HOL-Library.Word"
begin

text \<open>
  Small modules. \<open>Tasks/simple-debug\<close>: \<open>mdsys.c\<close> counts interrupts and shows the count as an attribute of a
  class; \<open>mdsys2.c\<close> and \<open>mdsysc.c\<close> are the same split in two files. \<open>Tasks/parms/mod_params.c\<close> prints its
  parameters, \<open>Tasks/time/htick.c\<close> runs a timer four times, \<open>Tasks/exec\<close> starts a program.
\<close>

section \<open>A count as an attribute (simple-debug)\<close>

text \<open>The counter, and what is registered: the class, its file, the handler.\<close>

record mdsys =
  mcount :: "32 word"
  mclass :: bool
  mfile :: bool
  mirq :: bool

definition mds_fresh :: mdsys where
  "mds_fresh = \<lparr>mcount = 0, mclass = False, mfile = False, mirq = False\<rparr>"

definition mdsys_interrupt :: "mdsys \<Rightarrow> mdsys" where
  "mdsys_interrupt s = s\<lparr>mcount := mcount s + 1\<rparr>"

text \<open>The unsigned counter is printed with \<open>%d\<close>.\<close>

definition mds_show :: "mdsys \<Rightarrow> int \<times> char list" where
  "mds_show s = (let t = show_int (sint (mcount s)) @ [NL] in (int (length t), t))"

text \<open>\<open>strchr\<close> finds the terminator of the digits as well, at position 10.\<close>

fun mds_scan :: "char list \<Rightarrow> 32 word \<Rightarrow> 32 word" where
  "mds_scan [] r = r"
| "mds_scan (c # cs) r = (case strchr ''0123456789'' c of None \<Rightarrow> r | Some p \<Rightarrow> mds_scan cs (r * 10 + of_nat p))"

definition mds_store :: "char list \<Rightarrow> mdsys \<Rightarrow> int \<times> mdsys" where
  "mds_store buf s = (int (length buf), s\<lparr>mcount := mds_scan buf 0\<rparr>)"

text \<open>The kernel's answers. A class that could not be created is an error pointer, which the source only
  reports; giving it to \<open>class_create_file\<close> is a fault.\<close>

record mds_env =
  class_ok :: bool
  file_ret :: int
  irq_ret :: int

definition mdsys_init :: "mds_env \<Rightarrow> mdsys \<Rightarrow> int res \<times> mdsys" where
  "mdsys_init e s =
     (if \<not> class_ok e then (crash NullDeref, s)
      else (let s1 = s\<lparr>mclass := True, mfile := (file_ret e = 0)\<rparr> in
        if irq_ret e \<noteq> 0 then (Inr (-1), s1) else (Inr (file_ret e), s1\<lparr>mirq := True\<rparr>)))"

definition mdsys_cleanup :: "mdsys \<Rightarrow> mdsys" where
  "mdsys_cleanup s = s\<lparr>mirq := False, mfile := False, mclass := False\<rparr>"

text \<open>The two parts: \<open>mdsys2.c\<close> the handler, \<open>mdsysc.c\<close> the attribute.\<close>

definition mdsys2_interrupt :: "mdsys \<Rightarrow> mdsys" where
  "mdsys2_interrupt s = s\<lparr>mcount := mcount s + 1\<rparr>"

definition mdsys2_init :: "mds_env \<Rightarrow> mdsys \<Rightarrow> int \<times> mdsys" where
  "mdsys2_init e s = (if irq_ret e \<noteq> 0 then (-1, s) else (0, s\<lparr>mirq := True\<rparr>))"

definition mdsys2_cleanup :: "mdsys \<Rightarrow> mdsys" where
  "mdsys2_cleanup s = s\<lparr>mirq := False\<rparr>"

definition mdsysc_show :: "mdsys \<Rightarrow> int \<times> char list" where
  "mdsysc_show s = (let t = show_int (sint (mcount s)) @ [NL] in (int (length t), t))"

fun mdsysc_scan :: "char list \<Rightarrow> 32 word \<Rightarrow> 32 word" where
  "mdsysc_scan [] r = r"
| "mdsysc_scan (c # cs) r = (case strchr ''0123456789'' c of None \<Rightarrow> r | Some p \<Rightarrow> mdsysc_scan cs (r * 10 + of_nat p))"

definition mdsysc_store :: "char list \<Rightarrow> mdsys \<Rightarrow> int \<times> mdsys" where
  "mdsysc_store buf s = (int (length buf), s\<lparr>mcount := mdsysc_scan buf 0\<rparr>)"

definition mdsysc_init :: "mds_env \<Rightarrow> mdsys \<Rightarrow> int res \<times> mdsys" where
  "mdsysc_init e s = (if \<not> class_ok e then (crash NullDeref, s)
     else (Inr (file_ret e), s\<lparr>mclass := True, mfile := (file_ret e = 0)\<rparr>))"

definition mdsysc_cleanup :: "mdsys \<Rightarrow> mdsys" where
  "mdsysc_cleanup s = s\<lparr>mfile := False, mclass := False\<rparr>"

text \<open>What the loop reads: the digits at the start of the text, modulo the width.\<close>

lemma strchr_zip: "c \<noteq> NUL \<Longrightarrow> map_of (zip ds [k..<k + length ds]) c = map_option (\<lambda>i. i + k) (strchr ds c)"
proof (induction ds arbitrary: k)
  case (Cons d ds)
  have "[k..<k + length (d # ds)] = k # [Suc k..<Suc k + length ds]" by (simp add: upt_rec)
  then show ?case using Cons.IH [of "Suc k"] Cons.prems by (auto simp: option.map_comp comp_def)
qed simp

definition digits :: "char list" where
  "digits = ''0123456789''"

lemma strchr_digit: "c \<noteq> NUL \<Longrightarrow> strchr digits c = digit_val c"
proof -
  have "length digits = 10" by (simp add: digits_def)
  then show "c \<noteq> NUL \<Longrightarrow> ?thesis"
    using strchr_zip [of c digits 0] by (simp add: digit_val_def digits_def [symmetric] option.map_ident del: upt.simps)
qed

lemma strchr_digits_NUL: "strchr digits NUL = Some 10"
  using strchr_NUL [of digits] by (simp add: digits_def del: strchr.simps)

lemma mds_scan_cons:
  "mds_scan (c # cs) r = (case strchr digits c of None \<Rightarrow> r | Some p \<Rightarrow> mds_scan cs (r * 10 + of_nat p))"
  by (simp add: digits_def del: strchr.simps)

declare mds_scan.simps(2) [simp del]

text \<open>After a number of digits only, the scan goes on with its value.\<close>

lemma mds_scan_append:
  "snd (scan_digits r xs) = length xs \<Longrightarrow> NUL \<notin> set xs \<Longrightarrow>
    mds_scan (xs @ ys) (of_nat r) = mds_scan ys (of_nat (fst (scan_digits r xs)))"
proof (induction xs arbitrary: r)
  case (Cons x xs)
  then obtain d where d: "digit_val x = Some d" by (cases "digit_val x") auto
  have e: "of_nat (r * 10 + d) = (of_nat r * 10 + of_nat d :: 32 word)" by simp
  have "mds_scan (xs @ ys) (of_nat (r * 10 + d)) = mds_scan ys (of_nat (fst (scan_digits (r * 10 + d) xs)))"
    using Cons.prems d by (intro Cons.IH) (auto simp: split_beta Let_def)
  moreover have "x \<noteq> NUL" using Cons.prems(2) by auto
  ultimately show ?case using d strchr_digit [of x] unfolding e
    by (simp add: mds_scan_cons split_beta Let_def)
qed simp

lemma mds_scan_number: "mds_scan (show_nat n @ ys) 0 = mds_scan ys (of_nat n)"
  using mds_scan_append [of 0 "show_nat n" ys] by (simp add: scan_show_nat digit_notin_show_nat)

lemma mds_scan_stop: "ys = [] \<or> digit_val (hd ys) = None \<and> hd ys \<noteq> NUL \<Longrightarrow> mds_scan ys r = r"
  by (cases ys) (auto simp: mds_scan_cons strchr_digit)

lemma digit_val_others: "digit_val NL = None" "digit_val CHR ''-'' = None"
  by code_simp+

lemma mds_versions:
  "mdsysc_scan cs r = mds_scan cs r" "mdsysc_show s = mds_show s" "mdsys2_interrupt s = mdsys_interrupt s"
  by (induction cs arbitrary: r)
    (auto simp: mds_scan.simps(2) mdsysc_show_def mds_show_def mdsys2_interrupt_def mdsys_interrupt_def
      simp del: strchr.simps split: option.splits)

text \<open>The attribute of \<open>simple-debug\<close>. A decimal number stored becomes the counter modulo 2^32,
  interrupts count on from there, and the number shown is the one that is stored again; but above
  2^31 it is shown as a negative number, which is stored as 0, and a zero byte in the text counts as a
  digit of value ten.\<close>

theorem mds_attribute:
  "rest = [] \<or> hd rest = NL \<Longrightarrow> mcount (snd (mds_store (show_nat n @ rest) s)) = of_nat n"
  "mcount ((mdsys_interrupt ^^ k) s) = mcount s + of_nat k"
  "mcount (snd (mds_store (snd (mds_show s)) s)) = (if 0 \<le> sint (mcount s) then mcount s else 0)"
  "mcount (snd (mds_store (show_nat n @ [NUL]) s)) = of_nat (n * 10 + 10)"
proof -
  show "rest = [] \<or> hd rest = NL \<Longrightarrow> mcount (snd (mds_store (show_nat n @ rest) s)) = of_nat n"
    by (auto simp: mds_store_def mds_scan_number mds_scan_stop digit_val_others)
  show "mcount ((mdsys_interrupt ^^ k) s) = mcount s + of_nat k"
    by (induction k) (simp_all add: mdsys_interrupt_def add.assoc add.commute)
  show "mcount (snd (mds_store (show_nat n @ [NUL]) s)) = of_nat (n * 10 + 10)"
    by (simp add: mds_store_def mds_scan_number mds_scan_cons strchr_digits_NUL)
  show "mcount (snd (mds_store (snd (mds_show s)) s)) = (if 0 \<le> sint (mcount s) then mcount s else 0)"
    by (simp add: mds_store_def mds_show_def show_int_def Let_def mds_scan_number mds_scan_stop digit_val_others)
qed

theorem mds_attribute_witness:
  "mcount (snd (mds_store (show_nat 42 @ [NL]) mds_fresh)) = 42"
  using mds_attribute(1) [of "[NL]" 42 mds_fresh] by simp

text \<open>Loading: only a load in which nothing fails is complete; after the others what was registered
  before stays, and a failure of the file alone leaves the handler of the released module on its line.\<close>

lemma mds_load:
  "class_ok e \<Longrightarrow> file_ret e = 0 \<Longrightarrow> irq_ret e = 0 \<Longrightarrow>
    mdsys_init e mds_fresh = (Inr 0, s) \<Longrightarrow> mdsys_cleanup s = mds_fresh \<and> mirq s"
  "class_ok e \<Longrightarrow> file_ret e \<noteq> 0 \<Longrightarrow> irq_ret e = 0 \<Longrightarrow>
    mdsys_init e mds_fresh = (Inr (file_ret e), mds_fresh\<lparr>mclass := True, mirq := True\<rparr>)"
  by (auto simp: mdsys_init_def mdsys_cleanup_def mds_fresh_def)

text \<open>The two parts loaded together hold what the one module holds.\<close>

lemma mds_parts:
  "class_ok e \<Longrightarrow> irq_ret e = 0 \<Longrightarrow> mdsysc_init e (snd (mdsys2_init e s)) = mdsys_init e s"
  "mdsys2_cleanup (mdsysc_cleanup s) = mdsys_cleanup s"
  by (simp_all add: mdsysc_init_def mdsys2_init_def mdsys_init_def mdsysc_cleanup_def mdsys2_cleanup_def mdsys_cleanup_def)

section \<open>Parameters (parms/mod_params.c)\<close>

text \<open>The line about the array parameter is built in an array of 40 bytes.\<close>

definition aparam_line :: "int list \<Rightarrow> char list" where
  "aparam_line ps = ''aparam [ '' @ show_nat (length ps) @ '' ] = '' @ concat (map (\<lambda>p. CHR '' '' # show_int p @ '' '') ps)"

definition params_init :: "int list \<Rightarrow> (int \<times> char list) res" where
  "params_init ps = (if length (aparam_line ps) + 1 > 40 then crash OutOfBounds else Inr (-1, aparam_line ps))"

lemma aparam_length: "length (aparam_line ps) = 14 + length (show_nat (length ps)) + (\<Sum>p \<leftarrow> ps. length (show_int p) + 2)"
  by (induction ps) (simp_all add: aparam_line_def length_concat comp_def)

text \<open>Five numbers of up to two characters fit, the array's five numbers of three need not.\<close>

lemma params_fit:
  assumes "length ps \<le> 5" "\<forall>p \<in> set ps. 0 \<le> p \<and> p < 100"
  shows "params_init ps = Inr (-1, aparam_line ps)"
proof -
  have "length (show_int p) \<le> 2" if "p \<in> set ps" for p
    using assms(2) that length_show_nat [of "nat p" 2] by (auto simp: show_int_def nat_less_iff)
  then have "(\<Sum>p \<leftarrow> ps. length (show_int p) + 2) \<le> (\<Sum>p \<leftarrow> ps. 4)" by (intro sum_list_mono) simp
  also have "\<dots> = 4 * length ps" by (induction ps) simp_all
  finally have "(\<Sum>p \<leftarrow> ps. length (show_int p) + 2) \<le> 4 * length ps" .
  moreover have "length (show_nat (length ps)) \<le> 1" using assms(1) by (intro length_show_nat) simp_all
  ultimately show ?thesis using assms(1) by (simp add: params_init_def aparam_length)
qed

lemma params_overflow: "params_init [100, 100, 100, 100, 1000] = crash OutOfBounds"
  by code_simp

section \<open>A timer (time/htick.c)\<close>

text \<open>The data, None before it is allocated and after it is freed; the armed timer; what was logged.\<close>

record htick =
  numb :: "int option"
  armed :: bool
  runs :: "int list"

definition ktfun :: "htick \<Rightarrow> htick res" where
  "ktfun s = (case numb s of None \<Rightarrow> crash UseAfterFree
     | Some n \<Rightarrow> Inr (s\<lparr>runs := runs s @ [n], armed := (n > 0), numb := Some (n - 1)\<rparr>))"

definition hr_init :: "bool \<Rightarrow> htick \<Rightarrow> int res \<times> htick" where
  "hr_init al s = (if \<not> al then (crash NullDeref, s) else (Inr 0, s\<lparr>numb := Some 3, armed := True\<rparr>))"

definition hr_cleanup :: "htick \<Rightarrow> htick" where
  "hr_cleanup s = s\<lparr>armed := False, numb := None\<rparr>"

text \<open>A period passes: the timer runs if it is armed.\<close>

definition period_passes :: "htick res \<Rightarrow> htick res" where
  "period_passes r = (case r of Inl e \<Rightarrow> Inl e | Inr s \<Rightarrow> if armed s then ktfun s else Inr s)"

lemma htick_runs:
  "(period_passes ^^ k) (Inr (snd (hr_init True \<lparr>numb = None, armed = False, runs = []\<rparr>)))
    = Inr \<lparr>numb = Some (3 - int (min k 4)), armed = (k < 4), runs = take k [3, 2, 1, 0]\<rparr>"
proof (induction k)
  case (Suc k)
  have "k = 0 \<or> k = 1 \<or> k = 2 \<or> k = 3 \<or> 4 \<le> k" by presburger
  then show ?case using Suc by (auto simp: period_passes_def ktfun_def)
qed (simp add: hr_init_def)

section \<open>A program started by a module (exec)\<close>

text \<open>\<open>call_usermodehelper\<close>, a parameter, is given the program and its arguments; \<open>mod_exec.c\<close> puts its text
  into an array of 80 bytes. The result, and the line that is printed.\<close>

definition exec_line :: "string \<Rightarrow> int \<Rightarrow> string list \<Rightarrow> int \<times> string" where
  "exec_line prog rc argv = (if rc \<noteq> 0 then (rc, ''failed to execute : '' @ prog @ [NL])
     else (-1, ''execute : '' @ prog @ '' '' @ argv ! 1 @ [NL]))"

definition wall_init :: "(string \<Rightarrow> string list \<Rightarrow> 's \<Rightarrow> int \<times> 's) \<Rightarrow> string option \<Rightarrow> 's \<Rightarrow> (int \<times> string) res \<times> 's" where
  "wall_init helper str s =
     (if (case str of None \<Rightarrow> False | Some t \<Rightarrow> 80 < length t + 2) then (crash OutOfBounds, s)
      else (let argv = [''wall'', NL # (case str of None \<Rightarrow> ''this is wall message '' | Some t \<Rightarrow> t)] in
        case helper ''/usr/bin/wall'' argv s of (rc, s1) \<Rightarrow> (Inr (exec_line ''wall'' rc argv), s1)))"

definition echo_init :: "(string \<Rightarrow> string list \<Rightarrow> 's \<Rightarrow> int \<times> 's) \<Rightarrow> string option \<Rightarrow> 's \<Rightarrow> (int \<times> string) \<times> 's" where
  "echo_init helper str s =
     (let argv = [''/bin/echo'', case str of None \<Rightarrow> ''echo message'' | Some t \<Rightarrow> t] in
      case helper ''/bin/echo'' argv s of (rc, s1) \<Rightarrow> (exec_line ''/bin/echo'' rc argv, s1))"

text \<open>When the helper returns 0 or an error, neither module stays loaded; the first one is undefined for a text
  of more than 78 characters.\<close>

lemma exec_never_stays:
  assumes "\<And>p a s. fst (helper p a s) \<le> 0"
  shows "fst (fst (echo_init helper str s)) < 0"
    "(\<exists>e t. fst (wall_init helper str s) = Inr (e, t) \<and> e < 0) \<longleftrightarrow> (\<forall>t. str = Some t \<longrightarrow> length t \<le> 78)"
  using assms [of "''/bin/echo''" "[''/bin/echo'', case str of None \<Rightarrow> ''echo message'' | Some t \<Rightarrow> t]" s]
    assms [of "''/usr/bin/wall''" "[''wall'', NL # (case str of None \<Rightarrow> ''this is wall message '' | Some t \<Rightarrow> t)]" s]
  by (auto simp: echo_init_def wall_init_def exec_line_def Let_def split_beta split: option.splits)

end
