(* ===== verification/Net_Drivers.thy ===== *)
theory Net_Drivers
  imports Net_Modules Interfaces
begin

text \<open>
  The drivers with one interface: \<open>Tasks/network/net/network.c\<close> drops what it is given to send,
  \<open>transmit_simple.c\<close> prints it first, \<open>transmit.c\<close> also counts it and has more operations, \<open>receive.c\<close>
  hands it back as received, \<open>netproto/net_protox.c\<close> is \<open>network.c\<close> with a packet handler, and \<open>mulnet.c\<close>
  has several of its interfaces. Each is a table of operations that the kernel calls in any order.
\<close>

section \<open>The interface\<close>

text \<open>Of a packet the drivers see its bytes. What \<open>dev_kfree_skb\<close> and \<open>netif_rx\<close> were given, oldest first,
  and what was printed of the packets are part of the state. The counters are \<open>unsigned long\<close>.\<close>

type_synonym packet = "8 word list"

record lab_stats =
  tx_count :: "64 word"
  rx_count :: "64 word"
  collisions :: "64 word"

record lab_dev =
  dev_addr :: "8 word list"
  iff_up :: bool
  iff_noarp :: bool
  queue_on :: bool
  lstats :: lab_stats
  trans_start :: nat
  freed :: "packet list"
  looped :: "packet list"
  printed :: string

definition netif_start_queue :: "lab_dev \<Rightarrow> lab_dev" where
  "netif_start_queue d = d\<lparr>queue_on := True\<rparr>"

definition netif_stop_queue :: "lab_dev \<Rightarrow> lab_dev" where
  "netif_stop_queue d = d\<lparr>queue_on := False\<rparr>"

definition dev_kfree_skb :: "packet \<Rightarrow> lab_dev \<Rightarrow> lab_dev" where
  "dev_kfree_skb p d = d\<lparr>freed := freed d @ [p]\<rparr>"

definition netif_rx :: "packet \<Rightarrow> lab_dev \<Rightarrow> lab_dev" where
  "netif_rx p d = d\<lparr>looped := looped d @ [p]\<rparr>"

definition blank_dev :: lab_dev where
  "blank_dev = \<lparr>dev_addr = replicate ETH_ALEN 0, iff_up = False, iff_noarp = False, queue_on = False,
     lstats = \<lparr>tx_count = 0, rx_count = 0, collisions = 0\<rparr>, trans_start = 0, freed = [], looped = [], printed = []\<rparr>"

text \<open>The table of operations; an entry that is not set is None, and the kernel then does what it does
  without one.\<close>

record net_ops =
  ndo_open :: "lab_dev \<Rightarrow> int \<times> lab_dev"
  ndo_stop :: "lab_dev \<Rightarrow> int \<times> lab_dev"
  ndo_start_xmit :: "nat \<Rightarrow> packet \<Rightarrow> lab_dev \<Rightarrow> int \<times> lab_dev"
  ndo_do_ioctl :: "(lab_dev \<Rightarrow> int) option"
  ndo_get_stats :: "(lab_dev \<Rightarrow> lab_stats) option"
  ndo_set_config :: "(lab_dev \<Rightarrow> int res) option"
  ndo_change_mtu :: "(int \<Rightarrow> lab_dev \<Rightarrow> int) option"

section \<open>A packet in hexadecimal\<close>

definition hex2 :: "8 word \<Rightarrow> string" where
  "hex2 w = [''0123456789abcdef'' ! unat (drop_bit 4 w), ''0123456789abcdef'' ! unat (take_bit 4 w)]"

text \<open>Sixteen bytes to a line; \<open>mark\<close> is what precedes each byte, nothing or \<open>"! "\<close>.\<close>

fun dump_from :: "string \<Rightarrow> nat \<Rightarrow> packet \<Rightarrow> string" where
  "dump_from mark i [] = []"
| "dump_from mark i (w # p) =
     (if i mod 16 = 0 then NL # ''  '' else []) @ mark @ hex2 w @ '' '' @ dump_from mark (i + 1) p"

definition dump :: "string \<Rightarrow> packet \<Rightarrow> string" where
  "dump mark p = dump_from mark 0 p @ [NL]"

section \<open>network.c\<close>

definition stub_open :: "lab_dev \<Rightarrow> int \<times> lab_dev" where
  "stub_open d = (0, netif_start_queue d)"

definition stub_close :: "lab_dev \<Rightarrow> int \<times> lab_dev" where
  "stub_close d = (0, netif_stop_queue d)"

definition stub_start_xmit :: "nat \<Rightarrow> packet \<Rightarrow> lab_dev \<Rightarrow> int \<times> lab_dev" where
  "stub_start_xmit jiffies skb d = (0, dev_kfree_skb skb d)"

definition stub_ops :: net_ops where
  "stub_ops = \<lparr>ndo_open = stub_open, ndo_stop = stub_close, ndo_start_xmit = stub_start_xmit,
     ndo_do_ioctl = None, ndo_get_stats = None, ndo_set_config = None, ndo_change_mtu = None\<rparr>"

definition stub_setup :: lab_dev where
  "stub_setup = blank_dev\<lparr>dev_addr := map of_nat [0..<ETH_ALEN]\<rparr>"

section \<open>transmit_simple.c\<close>

definition simple_start_xmit :: "nat \<Rightarrow> packet \<Rightarrow> lab_dev \<Rightarrow> int \<times> lab_dev" where
  "simple_start_xmit jiffies skb d =
     (0, dev_kfree_skb skb (d\<lparr>trans_start := jiffies, printed := printed d @ dump [] skb\<rparr>))"

definition simple_open :: "lab_dev \<Rightarrow> int \<times> lab_dev" where
  "simple_open d = (0, netif_start_queue d)"

definition simple_close :: "lab_dev \<Rightarrow> int \<times> lab_dev" where
  "simple_close d = (0, netif_stop_queue d)"

definition simple_ops :: net_ops where
  "simple_ops = \<lparr>ndo_open = simple_open, ndo_stop = simple_close, ndo_start_xmit = simple_start_xmit,
     ndo_do_ioctl = None, ndo_get_stats = None, ndo_set_config = None, ndo_change_mtu = None\<rparr>"

definition simple_setup :: lab_dev where
  "simple_setup = blank_dev\<lparr>dev_addr := map of_nat [0..<ETH_ALEN], iff_noarp := True\<rparr>"

section \<open>transmit.c\<close>

definition lab_start_xmit :: "nat \<Rightarrow> packet \<Rightarrow> lab_dev \<Rightarrow> int \<times> lab_dev" where
  "lab_start_xmit jiffies skb d =
     (let d1 = dev_kfree_skb skb (d\<lparr>trans_start := jiffies, printed := printed d @ dump ''! '' skb\<rparr>) in
      (0, d1\<lparr>lstats := (lstats d1)\<lparr>tx_count := tx_count (lstats d1) + 1\<rparr>\<rparr>))"

definition lab_do_ioctl :: "lab_dev \<Rightarrow> int" where
  "lab_do_ioctl d = -1"

definition lab_get_stats :: "lab_dev \<Rightarrow> lab_stats" where
  "lab_get_stats d = lstats d"

definition lab_config :: "lab_dev \<Rightarrow> int res" where
  "lab_config d = (if iff_up d then fail EBUSY else Inr 0)"

definition lab_change_mtu :: "int \<Rightarrow> lab_dev \<Rightarrow> int" where
  "lab_change_mtu new_mtu d = -1"

definition lab_open :: "lab_dev \<Rightarrow> int \<times> lab_dev" where
  "lab_open d = (0, netif_start_queue d)"

definition lab_close :: "lab_dev \<Rightarrow> int \<times> lab_dev" where
  "lab_close d = (0, netif_stop_queue d)"

definition lab_ops :: net_ops where
  "lab_ops = \<lparr>ndo_open = lab_open, ndo_stop = lab_close, ndo_start_xmit = lab_start_xmit,
     ndo_do_ioctl = Some lab_do_ioctl, ndo_get_stats = Some lab_get_stats, ndo_set_config = Some lab_config,
     ndo_change_mtu = Some lab_change_mtu\<rparr>"

definition lab_setup :: lab_dev where
  "lab_setup = blank_dev\<lparr>dev_addr := map of_nat [0..<ETH_ALEN], iff_noarp := True,
     lstats := (lstats blank_dev)\<lparr>collisions := 50\<rparr>\<rparr>"

section \<open>receive.c\<close>

definition my_rx :: "packet \<Rightarrow> lab_dev \<Rightarrow> lab_dev" where
  "my_rx skb d = netif_rx skb (d\<lparr>lstats := (lstats d)\<lparr>rx_count := rx_count (lstats d) + 1\<rparr>\<rparr>)"

definition loop_start_xmit :: "nat \<Rightarrow> packet \<Rightarrow> lab_dev \<Rightarrow> int \<times> lab_dev" where
  "loop_start_xmit jiffies skb d =
     (let d1 = d\<lparr>trans_start := jiffies, printed := printed d @ dump [] skb\<rparr>;
          d2 = d1\<lparr>lstats := (lstats d1)\<lparr>tx_count := tx_count (lstats d1) + 1\<rparr>\<rparr> in
      (0, my_rx skb d2))"

definition loop_do_ioctl :: "lab_dev \<Rightarrow> int" where
  "loop_do_ioctl d = -1"

definition loop_get_stats :: "lab_dev \<Rightarrow> lab_stats" where
  "loop_get_stats d = lstats d"

definition loop_config :: "lab_dev \<Rightarrow> int res" where
  "loop_config d = (if iff_up d then fail EBUSY else Inr 0)"

definition loop_change_mtu :: "int \<Rightarrow> lab_dev \<Rightarrow> int" where
  "loop_change_mtu new_mtu d = -1"

definition loop_open :: "lab_dev \<Rightarrow> int \<times> lab_dev" where
  "loop_open d = (0, netif_start_queue d)"

definition loop_close :: "lab_dev \<Rightarrow> int \<times> lab_dev" where
  "loop_close d = (0, netif_stop_queue d)"

definition loop_ops :: net_ops where
  "loop_ops = \<lparr>ndo_open = loop_open, ndo_stop = loop_close, ndo_start_xmit = loop_start_xmit,
     ndo_do_ioctl = Some loop_do_ioctl, ndo_get_stats = Some loop_get_stats, ndo_set_config = Some loop_config,
     ndo_change_mtu = Some loop_change_mtu\<rparr>"

definition loop_setup :: lab_dev where
  "loop_setup = blank_dev\<lparr>dev_addr := map of_nat [0..<ETH_ALEN], iff_noarp := True,
     lstats := (lstats blank_dev)\<lparr>collisions := 50\<rparr>\<rparr>"

section \<open>net_protox.c\<close>

definition protox_open :: "lab_dev \<Rightarrow> int \<times> lab_dev" where
  "protox_open d = (0, netif_start_queue d)"

definition protox_close :: "lab_dev \<Rightarrow> int \<times> lab_dev" where
  "protox_close d = (0, netif_stop_queue d)"

definition protox_start_xmit :: "nat \<Rightarrow> packet \<Rightarrow> lab_dev \<Rightarrow> int \<times> lab_dev" where
  "protox_start_xmit jiffies skb d = (0, dev_kfree_skb skb d)"

definition protox_ops :: net_ops where
  "protox_ops = \<lparr>ndo_open = protox_open, ndo_stop = protox_close, ndo_start_xmit = protox_start_xmit,
     ndo_do_ioctl = None, ndo_get_stats = None, ndo_set_config = None, ndo_change_mtu = None\<rparr>"

definition protox_setup :: lab_dev where
  "protox_setup = blank_dev\<lparr>dev_addr := map of_nat [0..<ETH_ALEN]\<rparr>"

definition protox_pack_rcv :: "frame \<Rightarrow> nat res \<times> frame" where
  "protox_pack_rcv f = kfree_len f"

section \<open>mulnet.c\<close>

text \<open>The operations; \<open>mul_setup\<close>, in \<open>Net_Modules\<close>, gives the address of the interface with number \<open>ipos\<close>.\<close>

definition mul_open :: "lab_dev \<Rightarrow> int \<times> lab_dev" where
  "mul_open d = (0, netif_start_queue d)"

definition mul_close :: "lab_dev \<Rightarrow> int \<times> lab_dev" where
  "mul_close d = (0, netif_stop_queue d)"

definition mul_start_xmit :: "nat \<Rightarrow> packet \<Rightarrow> lab_dev \<Rightarrow> int \<times> lab_dev" where
  "mul_start_xmit jiffies skb d = (0, dev_kfree_skb skb d)"

definition mul_ops :: net_ops where
  "mul_ops = \<lparr>ndo_open = mul_open, ndo_stop = mul_close, ndo_start_xmit = mul_start_xmit,
     ndo_do_ioctl = None, ndo_get_stats = None, ndo_set_config = None, ndo_change_mtu = None\<rparr>"

definition mul_dev :: "nat \<Rightarrow> lab_dev" where
  "mul_dev ipos = blank_dev\<lparr>dev_addr := mul_setup ipos\<rparr>"

section \<open>Loading and unloading\<close>

text \<open>The static \<open>dev\<close> with the interface it points to, the kernel's interfaces, and the interface the
  packet handler is bound to while it is registered. \<open>alloc_netdev\<close> yields no interface or one that was
  set up; its result is not looked at.\<close>

record net_mod =
  sdev :: "(nat \<times> lab_dev) option"
  nkern :: net_kernel
  pack :: "nat option"

definition register_or_free :: "lab_dev \<Rightarrow> netdev_env \<Rightarrow> net_mod \<Rightarrow> int res \<times> net_mod" where
  "register_or_free setup e s = (case new_dev e of
     None \<Rightarrow> (crash NullDeref, s\<lparr>sdev := None\<rparr>)
   | Some d \<Rightarrow>
       (let k1 = (nkern s)\<lparr>live := insert d (live (nkern s))\<rparr>; s1 = s\<lparr>sdev := Some (d, setup), nkern := k1\<rparr> in
        if register_ok e then (Inr 0, s1\<lparr>nkern := k1\<lparr>regd := insert d (regd k1)\<rparr>\<rparr>)
        else (case free_netdev d k1 of
            Inl f \<Rightarrow> (Inl f, s1) | Inr k2 \<Rightarrow> (Inr (-1), s1\<lparr>nkern := k2\<rparr>))))"

definition unregister_and_free :: "net_mod \<Rightarrow> unit res \<times> net_mod" where
  "unregister_and_free s = (case sdev s of
     None \<Rightarrow> (crash NullDeref, s)
   | Some (d, _) \<Rightarrow> (case unregister_netdev d (nkern s) of
       Inl f \<Rightarrow> (Inl f, s)
     | Inr k1 \<Rightarrow> (case free_netdev d k1 of
         Inl f \<Rightarrow> (Inl f, s\<lparr>nkern := k1\<rparr>) | Inr k2 \<Rightarrow> (Inr (), s\<lparr>nkern := k2\<rparr>))))"

definition stub_init :: "netdev_env \<Rightarrow> net_mod \<Rightarrow> int res \<times> net_mod" where
  "stub_init = register_or_free stub_setup"

definition stub_exit :: "net_mod \<Rightarrow> unit res \<times> net_mod" where
  "stub_exit = unregister_and_free"

definition simple_init :: "netdev_env \<Rightarrow> net_mod \<Rightarrow> int res \<times> net_mod" where
  "simple_init = register_or_free simple_setup"

definition simple_exit :: "net_mod \<Rightarrow> unit res \<times> net_mod" where
  "simple_exit = unregister_and_free"

definition lab_init :: "netdev_env \<Rightarrow> net_mod \<Rightarrow> int res \<times> net_mod" where
  "lab_init = register_or_free lab_setup"

definition lab_exit :: "net_mod \<Rightarrow> unit res \<times> net_mod" where
  "lab_exit = unregister_and_free"

definition loop_init :: "netdev_env \<Rightarrow> net_mod \<Rightarrow> int res \<times> net_mod" where
  "loop_init = register_or_free loop_setup"

definition loop_exit :: "net_mod \<Rightarrow> unit res \<times> net_mod" where
  "loop_exit = unregister_and_free"

definition protox_init :: "netdev_env \<Rightarrow> net_mod \<Rightarrow> int res \<times> net_mod" where
  "protox_init e s = (case register_or_free protox_setup e s of
     (Inr r, s1) \<Rightarrow> if r = 0 then (Inr 0, s1\<lparr>pack := map_option fst (sdev s1)\<rparr>) else (Inr r, s1)
   | (Inl f, s1) \<Rightarrow> (Inl f, s1))"

definition protox_exit :: "net_mod \<Rightarrow> unit res \<times> net_mod" where
  "protox_exit s = unregister_and_free (s\<lparr>pack := None\<rparr>)"

section \<open>Calls of the kernel\<close>

text \<open>\<open>SetUp\<close> is the kernel's own change of the flag.\<close>

datatype net_call = Open | Stop | SetUp bool | Xmit nat packet | Ioctl | GetStats | Config | Mtu int

text \<open>What the kernel is told; \<open>NoEntry\<close> when the table has no such operation.\<close>

datatype net_answer = Code int | Counters lab_stats | Refused errno | Nothing | NoEntry

fun ndo_call :: "net_ops \<Rightarrow> net_call \<Rightarrow> lab_dev \<Rightarrow> net_answer \<times> lab_dev" where
  "ndo_call ops Open d = (case ndo_open ops d of (r, d') \<Rightarrow> (Code r, d'))"
| "ndo_call ops Stop d = (case ndo_stop ops d of (r, d') \<Rightarrow> (Code r, d'))"
| "ndo_call ops (SetUp b) d = (Nothing, d\<lparr>iff_up := b\<rparr>)"
| "ndo_call ops (Xmit j p) d = (case ndo_start_xmit ops j p d of (r, d') \<Rightarrow> (Code r, d'))"
| "ndo_call ops Ioctl d = (case ndo_do_ioctl ops of None \<Rightarrow> NoEntry | Some f \<Rightarrow> Code (f d), d)"
| "ndo_call ops GetStats d = (case ndo_get_stats ops of None \<Rightarrow> NoEntry | Some f \<Rightarrow> Counters (f d), d)"
| "ndo_call ops Config d = (case ndo_set_config ops of None \<Rightarrow> NoEntry
     | Some f \<Rightarrow> (case f d of Inr r \<Rightarrow> Code r | Inl (Errno e) \<Rightarrow> Refused e | Inl (Fault _) \<Rightarrow> Nothing), d)"
| "ndo_call ops (Mtu m) d = (case ndo_change_mtu ops of None \<Rightarrow> NoEntry | Some f \<Rightarrow> Code (f m d), d)"

fun ndo_run :: "net_ops \<Rightarrow> net_call list \<Rightarrow> lab_dev \<Rightarrow> net_answer list \<times> lab_dev" where
  "ndo_run ops [] d = ([], d)"
| "ndo_run ops (c # cs) d =
     (case ndo_call ops c d of (a, d1) \<Rightarrow> case ndo_run ops cs d1 of (as, d2) \<Rightarrow> (a # as, d2))"

lemma ndo_run_nth:
  "ndo_run ops cs d = (as, d') \<Longrightarrow> i < length cs \<Longrightarrow>
    as ! i = fst (ndo_call ops (cs ! i) (snd (ndo_run ops (take i cs) d)))"
proof (induction cs arbitrary: d as i)
  case (Cons c cs)
  obtain a d1 where c: "ndo_call ops c d = (a, d1)" by fastforce
  obtain as1 d2 where r: "ndo_run ops cs d1 = (as1, d2)" by fastforce
  have as: "as = a # as1" "d2 = d'" using Cons.prems(1) c r by simp_all
  show ?case
  proof (cases i)
    case (Suc k)
    then have "as1 ! k = fst (ndo_call ops (cs ! k) (snd (ndo_run ops (take k cs) d1)))"
      using Cons.IH [of d1 as1 k] Cons.prems(2) r as by simp
    then show ?thesis using Suc as c by (simp split: prod.splits)
  qed (use as c in simp)
qed simp

text \<open>What a history of calls asks for.\<close>

fun packets :: "net_call list \<Rightarrow> packet list" where
  "packets [] = []"
| "packets (Xmit j p # cs) = p # packets cs"
| "packets (_ # cs) = packets cs"

fun queue_after :: "bool \<Rightarrow> net_call list \<Rightarrow> bool" where
  "queue_after q [] = q"
| "queue_after q (Open # cs) = queue_after True cs"
| "queue_after q (Stop # cs) = queue_after False cs"
| "queue_after q (_ # cs) = queue_after q cs"

section \<open>The contract of the drivers\<close>

text \<open>\<open>counting\<close>: a sent packet is counted; \<open>looping\<close>: it comes back instead of being dropped; \<open>mark\<close>: the
  form in which it is printed, if it is. No other operation touches what these are kept in.\<close>

locale net_driver =
  fixes ops :: net_ops and counting looping :: bool and mark :: "string option"
  assumes opens: "ndo_open ops d = (0, d\<lparr>queue_on := True\<rparr>)"
    and stops: "ndo_stop ops d = (0, d\<lparr>queue_on := False\<rparr>)"
    and xmits: "ndo_start_xmit ops j p d = (0, d\<lparr>
        trans_start := (if mark = None then trans_start d else j),
        printed := printed d @ (case mark of None \<Rightarrow> [] | Some m \<Rightarrow> dump m p),
        freed := freed d @ (if looping then [] else [p]),
        looped := looped d @ (if looping then [p] else []),
        lstats := (lstats d)\<lparr>tx_count := tx_count (lstats d) + of_bool counting,
          rx_count := rx_count (lstats d) + of_bool looping\<rparr>\<rparr>)"
    and stats: "ndo_get_stats ops = (if counting then Some lstats else None)"
begin

lemma call_queue: "queue_on (snd (ndo_call ops c d)) = queue_after (queue_on d) [c]"
  by (cases c) (simp_all add: opens stops xmits)

lemma call_packets:
  "snd (ndo_call ops c d) = d' \<Longrightarrow>
    freed d' = freed d @ (if looping then [] else packets [c])
    \<and> looped d' = looped d @ (if looping then packets [c] else [])
    \<and> tx_count (lstats d') = tx_count (lstats d) + (if counting then of_nat (length (packets [c])) else 0)
    \<and> rx_count (lstats d') = rx_count (lstats d) + (if looping then of_nat (length (packets [c])) else 0)
    \<and> collisions (lstats d') = collisions (lstats d)
    \<and> printed d' = printed d @ (case mark of None \<Rightarrow> [] | Some m \<Rightarrow> concat (map (dump m) (packets [c])))"
  by (cases c) (auto simp: opens stops xmits split: option.splits)

lemma queue_after_Cons: "queue_after q (c # cs) = queue_after (queue_after q [c]) cs"
  by (cases c) simp_all

lemma packets_Cons: "packets (c # cs) = packets [c] @ packets cs"
  by (cases c) simp_all

lemma run_account:
  "snd (ndo_run ops cs d) = d' \<Longrightarrow>
    queue_on d' = queue_after (queue_on d) cs
    \<and> freed d' = freed d @ (if looping then [] else packets cs)
    \<and> looped d' = looped d @ (if looping then packets cs else [])
    \<and> tx_count (lstats d') = tx_count (lstats d) + (if counting then of_nat (length (packets cs)) else 0)
    \<and> rx_count (lstats d') = rx_count (lstats d) + (if looping then of_nat (length (packets cs)) else 0)
    \<and> collisions (lstats d') = collisions (lstats d)
    \<and> printed d' = printed d @ (case mark of None \<Rightarrow> [] | Some m \<Rightarrow> concat (map (dump m) (packets cs)))"
proof (induction cs arbitrary: d)
  case (Cons c cs)
  obtain a d1 where c: "ndo_call ops c d = (a, d1)" by fastforce
  obtain as d2 where r: "ndo_run ops cs d1 = (as, d2)" by fastforce
  then have d2: "d2 = d'" using Cons.prems c by simp
  have q: "queue_on d1 = queue_after (queue_on d) [c]" using call_queue [of c d] c by simp
  have p: "snd (ndo_call ops c d) = d1" using c by simp
  have IH: "snd (ndo_run ops cs d1) = d'" using r d2 by simp
  show ?case
    unfolding queue_after_Cons [of "queue_on d" c cs] packets_Cons [of c cs]
    using Cons.IH [OF IH] call_packets [OF p] q by (simp split: option.splits)
qed (simp split: option.splits)

text \<open>The counters that are reported during a history.\<close>

lemma run_reports:
  assumes "ndo_run ops cs d = (as, d')" "i < length cs" "cs ! i = GetStats"
  shows "as ! i = (if counting then Counters ((lstats d)\<lparr>
      tx_count := tx_count (lstats d) + of_nat (length (packets (take i cs))),
      rx_count := rx_count (lstats d) + (if looping then of_nat (length (packets (take i cs))) else 0)\<rparr>) else NoEntry)"
  using ndo_run_nth [OF assms(1,2)] assms(3) run_account [of "take i cs" d, OF refl] by (simp add: stats)

end

interpretation stub: net_driver stub_ops False False None
  by unfold_locales (simp_all add: stub_ops_def stub_open_def stub_close_def stub_start_xmit_def netif_start_queue_def
      netif_stop_queue_def dev_kfree_skb_def)

interpretation simple: net_driver simple_ops False False "Some []"
  by unfold_locales (simp_all add: simple_ops_def simple_open_def simple_close_def simple_start_xmit_def
      netif_start_queue_def netif_stop_queue_def dev_kfree_skb_def)

interpretation transmit: net_driver lab_ops True False "Some ''! ''"
  by unfold_locales (simp_all add: lab_ops_def lab_open_def lab_close_def lab_start_xmit_def lab_get_stats_def fun_eq_iff
      netif_start_queue_def netif_stop_queue_def dev_kfree_skb_def)

interpretation receive: net_driver loop_ops True True "Some []"
  by unfold_locales (simp_all add: loop_ops_def loop_open_def loop_close_def loop_start_xmit_def my_rx_def netif_rx_def
      loop_get_stats_def fun_eq_iff
      netif_start_queue_def netif_stop_queue_def)

interpretation protox: net_driver protox_ops False False None
  by unfold_locales (simp_all add: protox_ops_def protox_open_def protox_close_def protox_start_xmit_def
      netif_start_queue_def netif_stop_queue_def dev_kfree_skb_def)

interpretation mulnet: net_driver mul_ops False False None
  by unfold_locales (simp_all add: mul_ops_def mul_open_def mul_close_def mul_start_xmit_def
      netif_start_queue_def netif_stop_queue_def dev_kfree_skb_def)

section \<open>Properties\<close>

definition net_drivers :: "(net_ops \<times> lab_dev \<times> bool \<times> bool) set" where
  "net_drivers = {(stub_ops, stub_setup, False, False), (simple_ops, simple_setup, False, False),
     (lab_ops, lab_setup, True, False), (loop_ops, loop_setup, True, True), (protox_ops, protox_setup, False, False)}
     \<union> range (\<lambda>i. (mul_ops, mul_dev i, False, False))"

lemma net_drivers_contract:
  assumes "(ops, setup, counting, looping) \<in> net_drivers"
  obtains mark where "net_driver ops counting looping mark"
  using assms stub.net_driver_axioms simple.net_driver_axioms transmit.net_driver_axioms receive.net_driver_axioms
    protox.net_driver_axioms mulnet.net_driver_axioms by (auto simp: net_drivers_def)

lemma net_drivers_setup:
  "(ops, setup, counting, looping) \<in> net_drivers \<Longrightarrow> freed setup = [] \<and> looped setup = [] \<and> tx_count (lstats setup) = 0
    \<and> rx_count (lstats setup) = 0 \<and> \<not> queue_on setup \<and> collisions (lstats setup) = (if counting then 50 else 0)"
  by (auto simp: net_drivers_def stub_setup_def simple_setup_def lab_setup_def loop_setup_def protox_setup_def mul_dev_def blank_dev_def)



text \<open>The printed form determines the packet.\<close>

definition hex_value :: "char \<Rightarrow> nat" where
  "hex_value c = (if c \<in> set ''0123456789'' then of_char c - 48 else of_char c - 87)"

fun undump :: "string \<Rightarrow> packet" where
  "undump (c # d # cs) = (if c \<in> {NL, CHR '' '', CHR ''!''} then undump (d # cs)
     else of_nat (16 * hex_value c + hex_value d) # undump cs)"
| "undump _ = []"

lemma nibbles:
  "\<forall>n \<in> set [0..<16]. hex_value (''0123456789abcdef'' ! n) = n \<and> ''0123456789abcdef'' ! n \<notin> {NL, CHR '' '', CHR ''!''}"
  by code_simp

lemma nibble_char:
  "n < 16 \<Longrightarrow> hex_value (''0123456789abcdef'' ! n) = n \<and> ''0123456789abcdef'' ! n \<notin> {NL, CHR '' '', CHR ''!''}"
  by (rule bspec [OF nibbles]) simp

lemma hex2_value: "of_nat (16 * unat (drop_bit 4 w) + unat (take_bit 4 w)) = (w :: 8 word)"
proof -
  have "unat (drop_bit 4 w) = unat w div 16" by (simp only: unat_drop_bit_eq) (simp add: drop_bit_eq_div)
  moreover have "unat (take_bit 4 w) = unat w mod 16" by (simp add: take_bit_eq_mod unat_mod_distrib)
  ultimately show ?thesis by simp
qed

lemma nibble_bounds: "unat (drop_bit 4 (w :: 8 word)) < 16" "unat (take_bit 4 (w :: 8 word)) < 16"
proof -
  have "unat w < 256" using unsigned_less [of w] by simp
  then show "unat (drop_bit 4 w) < 16" by (simp only: unat_drop_bit_eq) (simp add: drop_bit_eq_div)
  show "unat (take_bit 4 w) < 16" by (simp add: take_bit_eq_mod unat_mod_distrib)
qed

lemma undump_hex2: "undump (hex2 w @ cs) = w # undump cs"
  using nibble_char [OF nibble_bounds(1), of w] nibble_char [OF nibble_bounds(2), of w] hex2_value [of w]
  by (simp add: hex2_def del: nth_Cons_numeral)

lemma undump_skip: "c \<in> {NL, CHR '' '', CHR ''!''} \<Longrightarrow> undump (c # cs) = undump cs"
  by (cases cs) simp_all

lemma dump_reads_back: "set mark \<subseteq> {CHR '' '', CHR ''!''} \<Longrightarrow> undump (dump mark p) = p"
proof -
  assume m: "set mark \<subseteq> {CHR '' '', CHR ''!''}"
  have mark: "undump (mark @ cs) = undump cs" for cs
    using m by (induction mark) (simp_all add: undump_skip)
  have "undump (dump_from mark i p @ [NL]) = p" for i
    by (induction p arbitrary: i) (simp_all add: mark undump_hex2 undump_skip)
  then show ?thesis by (simp add: dump_def)
qed

section \<open>Loads and unloads\<close>

text \<open>A load that yields an interface the kernel already has is not one; neither is one that faults.\<close>

definition net_ini :: "(netdev_env \<Rightarrow> net_mod \<Rightarrow> int res \<times> net_mod) \<Rightarrow> netdev_env \<Rightarrow> net_mod \<Rightarrow> int \<times> net_mod" where
  "net_ini f e s = (if new_dev e \<in> Some ` (live (nkern s) \<union> regd (nkern s)) then (-1, s)
     else (case f e s of (Inr r, s') \<Rightarrow> (r, s') | (Inl _, _) \<Rightarrow> (-1, s)))"

definition net_res :: "net_mod \<Rightarrow> nat set \<times> nat set \<times> bool" where
  "net_res s = (live (nkern s), regd (nkern s), pack s \<noteq> None)"

definition net_do :: "net_ops \<Rightarrow> net_call \<Rightarrow> net_mod \<Rightarrow> net_mod" where
  "net_do ops c s = s\<lparr>sdev := map_option (\<lambda>(i, d). (i, snd (ndo_call ops c d))) (sdev s)\<rparr>"

lemmas net_load_defs = net_ini_def net_res_def net_do_def register_or_free_def unregister_and_free_def
  free_netdev_def unregister_netdev_def

lemma net_life:
  "net_ini (register_or_free setup) e s = (r, s') \<Longrightarrow> r < 0 \<Longrightarrow> net_res s' = net_res s"
  "net_ini (register_or_free setup) e s = (r, s') \<Longrightarrow> r \<ge> 0 \<Longrightarrow> net_res (snd (unregister_and_free s')) = net_res s"
  "net_res (snd (unregister_and_free (net_do ops c s))) = net_res (snd (unregister_and_free s))"
  by (auto simp: net_load_defs Let_def split: if_splits option.splits sum.splits prod.splits)

interpretation stub_mod: lifecycle "net_ini stub_init" "net_do stub_ops" "snd \<circ> stub_exit" net_res
  by unfold_locales (auto simp: stub_init_def stub_exit_def net_life)

interpretation simple_mod: lifecycle "net_ini simple_init" "net_do simple_ops" "snd \<circ> simple_exit" net_res
  by unfold_locales (auto simp: simple_init_def simple_exit_def net_life)

interpretation lab_mod: lifecycle "net_ini lab_init" "net_do lab_ops" "snd \<circ> lab_exit" net_res
  by unfold_locales (auto simp: lab_init_def lab_exit_def net_life)

interpretation loop_mod: lifecycle "net_ini loop_init" "net_do loop_ops" "snd \<circ> loop_exit" net_res
  by unfold_locales (auto simp: loop_init_def loop_exit_def net_life)

interpretation protox_mod: lifecycle "net_ini protox_init" "net_do protox_ops" "snd \<circ> protox_exit"
    "\<lambda>s. (live (nkern s), regd (nkern s))"
  by unfold_locales
    (auto simp: protox_init_def protox_exit_def net_load_defs Let_def split: if_splits option.splits sum.splits prod.splits)

text \<open>Whatever the history of loads, failed loads, calls and unloads, an unloaded driver has left the
  kernel the interfaces it found.\<close>

lemma net_drivers_no_leak:
  assumes "(ini, ops, ext) \<in> {(stub_init, stub_ops, stub_exit), (simple_init, simple_ops, simple_exit),
      (lab_init, lab_ops, lab_exit), (loop_init, loop_ops, loop_exit), (protox_init, protox_ops, protox_exit)}"
    "mod_run (net_ini ini) (net_do ops) (snd \<circ> ext) evs (False, s) = (False, s')"
  shows "live (nkern s') = live (nkern s) \<and> regd (nkern s') = regd (nkern s)"
  using assms stub_mod.no_leak [of evs s s'] simple_mod.no_leak [of evs s s'] lab_mod.no_leak [of evs s s']
    loop_mod.no_leak [of evs s s'] protox_mod.no_leak [of evs s s']
  by (auto simp: net_res_def)

text \<open>Without memory for the interface every load dereferences a null pointer.\<close>

lemma net_load_without_memory: "new_dev e = None \<Longrightarrow> fst (register_or_free setup e s) = crash NullDeref"
  by (simp add: register_or_free_def)

text \<open>The handler of \<open>net_protox\<close> reads the length of a packet whose last reference it has just given up.\<close>

lemma protox_reads_freed: "users f = 1 \<Longrightarrow> fst (protox_pack_rcv f) = crash UseAfterFree"
  by (simp add: protox_pack_rcv_def kfree_len_def)

end
