(* ===== verification/System_Calls.thy ===== *)
theory System_Calls
  imports Sys_Table
begin

text \<open>
  System calls made in different ways. \<open>Tasks/int80\<close>: a program that calls by the instruction \<open>int $0x80\<close>
  (\<open>mp.c\<close>), by the C library's \<open>syscall\<close> (\<open>mpsys.c\<close>) and by its functions (\<open>mplib.c\<close>), and modules that use
  the instruction inside the kernel (\<open>mdu.c\<close>, \<open>mdc.c\<close> with \<open>syscall.h\<close>); \<open>+TASKS/jiffies/jifft.c\<close>: a module
  that calls the kernel's \<open>sys_write\<close>. The kernel is a parameter: a function from the number of the call, the arguments in their registers and its
  state to the word in \<open>eax\<close> and a state. The code is for 32-bit processors.
\<close>

section \<open>The instruction and the C library\<close>

type_synonym 's gate = "nat \<Rightarrow> 32 word list \<Rightarrow> 's \<Rightarrow> 32 word \<times> 's"

definition NR_write_i386 :: nat where
  "NR_write_i386 = 4"

definition NR_mknod_i386 :: nat where
  "NR_mknod_i386 = 14"

definition NR_getpid_i386 :: nat where
  "NR_getpid_i386 = 20"

text \<open>The C library turns a word between -4095 and -1 into -1 and an error number.\<close>

definition libc :: "32 word \<Rightarrow> int \<times> int option" where
  "libc r = (if - 4095 \<le> sint r \<and> sint r < 0 then (-1, Some (- sint r)) else (sint r, None))"

text \<open>The text (53 bytes in UTF-8), the mode of the node \<open>S_IFCHR | S_IRUSR | S_IWUSR\<close> (the modules:
  \<open>S_IFCHR | S_IRUGO\<close>) and its number \<open>MKDEV( 247, 0 )\<close>, which programs
  and the kernel make up differently.\<close>

definition MSG :: string where
  "MSG = map char_of [209, 141, 209, 130, 208, 176, 208, 187, 208, 190, 208, 189, 208, 189, 208, 176, 209, 143, 32,
     209, 129, 209, 130, 209, 128, 208, 190, 208, 186, 208, 176, 32, 208, 180, 208, 187, 209, 143, 32,
     208, 178, 209, 139, 208, 178, 208, 190, 208, 180, 208, 176, 33, 10 :: nat]"

definition NODE_MODE :: "32 word" where
  "NODE_MODE = 0x2180"

definition NODE_DEV :: "32 word" where
  "NODE_DEV = push_bit 8 247"

definition out_line :: "string \<Rightarrow> int \<Rightarrow> string" where
  "out_line what n = what @ show_int n @ [NL]"

section \<open>By the instruction (mp.c)\<close>

definition write_call :: "'s gate \<Rightarrow> int \<Rightarrow> 32 word \<Rightarrow> int \<Rightarrow> 's \<Rightarrow> int \<times> 's" where
  "write_call int80 fd str len s =
     (case int80 NR_write_i386 [word_of_int fd, str, word_of_int len] s of (res, s') \<Rightarrow> (sint res, s'))"

definition mknod_call :: "'s gate \<Rightarrow> 32 word \<Rightarrow> 32 word \<Rightarrow> 32 word \<Rightarrow> 's \<Rightarrow> int \<times> 's" where
  "mknod_call int80 pathname mode dev s =
     (case int80 NR_mknod_i386 [pathname, mode, dev] s of (res, s') \<Rightarrow> (sint res, s'))"

definition getpid_call :: "'s gate \<Rightarrow> 's \<Rightarrow> int \<times> 's" where
  "getpid_call int80 s = (case int80 NR_getpid_i386 [] s of (res, s') \<Rightarrow> (sint res, s'))"

text \<open>\<open>str\<close> and \<open>nam\<close> are the addresses of the two literals.\<close>

definition mp_write :: "'s gate \<Rightarrow> 32 word \<Rightarrow> 's \<Rightarrow> string \<times> 's" where
  "mp_write int80 str s =
     (let len = int (strlen (MSG @ [NUL])) + 1 in
      case write_call int80 1 str len s of (n, s') \<Rightarrow>
        (out_line ''string for write length = '' len @ out_line ''write return : '' n, s'))"

definition mp_mknod :: "'s gate \<Rightarrow> 32 word \<Rightarrow> 's \<Rightarrow> string \<times> 's" where
  "mp_mknod int80 nam s = (case mknod_call int80 nam NODE_MODE NODE_DEV s of (n, s') \<Rightarrow>
     (out_line ''mknod return : '' n, s'))"

definition mp_getpid :: "'s gate \<Rightarrow> 's \<Rightarrow> string \<times> 's" where
  "mp_getpid int80 s = (case getpid_call int80 s of (n, s') \<Rightarrow> (out_line ''getpid return : '' n, s'))"

text \<open>\<open>main\<close> of \<open>common.c\<close>, which the three programs include.\<close>

definition int80_main :: "('s \<Rightarrow> string \<times> 's) \<Rightarrow> ('s \<Rightarrow> string \<times> 's) \<Rightarrow> ('s \<Rightarrow> string \<times> 's) \<Rightarrow> 's \<Rightarrow> string \<times> 's" where
  "int80_main do_getpid do_write do_mknod s =
     (case do_getpid s of (o1, s1) \<Rightarrow> case do_write s1 of (o2, s2) \<Rightarrow> case do_mknod s2 of (o3, s3) \<Rightarrow> (o1 @ o2 @ o3, s3))"

definition mp_main :: "'s gate \<Rightarrow> 32 word \<Rightarrow> 32 word \<Rightarrow> 's \<Rightarrow> string \<times> 's" where
  "mp_main int80 str nam = int80_main (mp_getpid int80) (mp_write int80 str) (mp_mknod int80 nam)"

section \<open>By syscall (mpsys.c)\<close>

definition c_syscall :: "'s gate \<Rightarrow> nat \<Rightarrow> 32 word list \<Rightarrow> 's \<Rightarrow> (int \<times> int option) \<times> 's" where
  "c_syscall gate nr args s = (case gate nr args s of (r, s') \<Rightarrow> (libc r, s'))"

definition sys_write :: "'s gate \<Rightarrow> 32 word \<Rightarrow> 's \<Rightarrow> string \<times> 's" where
  "sys_write gate str s =
     (let len = int (strlen (MSG @ [NUL])) + 1 in
      case c_syscall gate NR_write_i386 [1, str, word_of_int len] s of ((n, e), s') \<Rightarrow>
        (out_line ''string for write length = '' len @ out_line ''write return : '' n, s'))"

definition sys_mknod :: "'s gate \<Rightarrow> 32 word \<Rightarrow> 's \<Rightarrow> string \<times> 's" where
  "sys_mknod gate nam s = (case c_syscall gate NR_mknod_i386 [nam, NODE_MODE, NODE_DEV] s of ((n, e), s') \<Rightarrow>
     (out_line ''mknod return : '' n, s'))"

definition sys_getpid :: "'s gate \<Rightarrow> 's \<Rightarrow> string \<times> 's" where
  "sys_getpid gate s = (case c_syscall gate NR_getpid_i386 [] s of ((n, e), s') \<Rightarrow> (out_line ''getpid return : '' n, s'))"

definition mpsys_main :: "'s gate \<Rightarrow> 32 word \<Rightarrow> 32 word \<Rightarrow> 's \<Rightarrow> string \<times> 's" where
  "mpsys_main gate str nam = int80_main (sys_getpid gate) (sys_write gate str) (sys_mknod gate nam)"

section \<open>By the functions of the library (mplib.c)\<close>

text \<open>What is printed of a result: the number, or \<open>%m\<close>, the text of the error.\<close>

definition lib_line :: "(int \<Rightarrow> string) \<Rightarrow> string \<Rightarrow> int \<times> int option \<Rightarrow> string" where
  "lib_line strerror what r = (if fst r \<ge> 0 then out_line (what @ '' return : '') (fst r)
     else what @ '' error : '' @ strerror (case snd r of None \<Rightarrow> 0 | Some e \<Rightarrow> e) @ [NL])"

definition lib_write :: "(int \<Rightarrow> string) \<Rightarrow> 's gate \<Rightarrow> 32 word \<Rightarrow> 's \<Rightarrow> string \<times> 's" where
  "lib_write strerror gate str s =
     (let len = int (strlen (MSG @ [NUL])) + 1 in
      case c_syscall gate NR_write_i386 [1, str, word_of_int len] s of (r, s') \<Rightarrow>
        (out_line ''string for write length = '' len @ lib_line strerror ''write'' r, s'))"

definition lib_mknod :: "(int \<Rightarrow> string) \<Rightarrow> 's gate \<Rightarrow> 32 word \<Rightarrow> 's \<Rightarrow> string \<times> 's" where
  "lib_mknod strerror gate nam s = (case c_syscall gate NR_mknod_i386 [nam, NODE_MODE, NODE_DEV] s of (r, s') \<Rightarrow>
     (lib_line strerror ''mknod'' r, s'))"

definition lib_getpid :: "(int \<Rightarrow> string) \<Rightarrow> 's gate \<Rightarrow> 's \<Rightarrow> string \<times> 's" where
  "lib_getpid strerror gate s = (case c_syscall gate NR_getpid_i386 [] s of (r, s') \<Rightarrow>
     (lib_line strerror ''getpid'' r, s'))"

definition mplib_main :: "(int \<Rightarrow> string) \<Rightarrow> 's gate \<Rightarrow> 32 word \<Rightarrow> 32 word \<Rightarrow> 's \<Rightarrow> string \<times> 's" where
  "mplib_main strerror gate str nam =
     int80_main (lib_getpid strerror gate) (lib_write strerror gate str) (lib_mknod strerror gate nam)"

section \<open>Inside the kernel (syscall.h, mdu.c, mdc.c)\<close>

text \<open>The handler accepts addresses of the kernel when the address limit is lifted, the first component of
  the state; loading always fails.\<close>

definition KMSG :: string where
  "KMSG = ''=== '' @ MSG"

definition KNODE_MODE :: "32 word" where
  "KNODE_MODE = 0x2124"

definition KNODE_DEV :: "32 word" where
  "KNODE_DEV = push_bit 20 247"

definition k_write :: "'s gate \<Rightarrow> 32 word \<Rightarrow> 's \<Rightarrow> string \<times> 's" where
  "k_write int80 str s =
     (let len = int (strlen (KMSG @ [NUL])) + 1 in
      case write_call int80 1 str len s of (n, s') \<Rightarrow>
        (out_line ''=== string for write length = '' len @ out_line ''=== write return : '' n, s'))"

definition k_mknod :: "'s gate \<Rightarrow> 32 word \<Rightarrow> 's \<Rightarrow> string \<times> 's" where
  "k_mknod int80 nam s = (case mknod_call int80 nam KNODE_MODE KNODE_DEV s of (n, s') \<Rightarrow>
     (out_line ''=== mknod return : '' n, s'))"

definition k_getpid :: "'s gate \<Rightarrow> 's \<Rightarrow> string \<times> 's" where
  "k_getpid int80 s = (case getpid_call int80 s of (n, s') \<Rightarrow> (out_line ''=== getpid return : '' n, s'))"

definition mdu_init :: "(bool \<times> 's) gate \<Rightarrow> 32 word \<Rightarrow> 32 word \<Rightarrow> bool \<times> 's \<Rightarrow> int \<times> string \<times> bool \<times> 's" where
  "mdu_init int80 str nam s =
     (case k_write int80 str s of (o1, s1) \<Rightarrow> case k_mknod int80 nam s1 of (o2, s2) \<Rightarrow> case k_getpid int80 s2 of (o3, s3) \<Rightarrow>
        (-1, o1 @ o2 @ o3, s3))"

definition mdc_init :: "(bool \<times> 's) gate \<Rightarrow> 32 word \<Rightarrow> 32 word \<Rightarrow> bool \<times> 's \<Rightarrow> int \<times> string \<times> bool \<times> 's" where
  "mdc_init int80 str nam s =
     (let fs = fst s in
      case k_write int80 str (True, snd s) of (o1, s1) \<Rightarrow> case k_mknod int80 nam s1 of (o2, s2) \<Rightarrow>
      case k_getpid int80 s2 of (o3, s3) \<Rightarrow> (-1, o1 @ o2 @ o3, fs, snd s3))"

section \<open>A call by the kernel's own name (jifft.c)\<close>

definition hex_upper :: string where
  "hex_upper = ''0123456789ABCDEF''"

definition jifft_text :: "nat \<Rightarrow> string" where
  "jifft_text jiffies = ''module: jiffies on start = '' @ show_base hex_upper jiffies @ [NL]"

text \<open>\<open>write\<close> is the function at the address that was found; the result is what it was given, and the limit
  afterwards.\<close>

definition jifft_symb_fn :: "string \<Rightarrow> string \<Rightarrow> addr \<Rightarrow> addr \<Rightarrow> int \<times> addr" where
  "jifft_symb_fn data nm a fn = (if data = nm then (1, a) else (0, fn))"

definition jifft_init :: "symbols \<Rightarrow> nat \<Rightarrow> (addr \<Rightarrow> nat \<Rightarrow> string \<Rightarrow> bool \<times> 's \<Rightarrow> bool \<times> 's) \<Rightarrow> bool \<times> 's \<Rightarrow> int res \<times> bool \<times> 's" where
  "jifft_init syms jiffies write s =
     (let fs = fst s; (found, fn) = each_symbol (jifft_symb_fn ''sys_write'') syms 0 in
      if found = 0 then (Inr (-1), s)
      else if 120 \<le> length (jifft_text jiffies) then (crash OutOfBounds, s)
      else (Inr (-1), fs, snd (write fn 1 (jifft_text jiffies) (True, snd s))))"

section \<open>Properties\<close>

lemma strlen_MSG: "strlen (MSG @ [NUL]) = 53" "strlen (KMSG @ [NUL]) = 57"
  by code_simp+

lemma NODE_DEV_word [simp]: "NODE_DEV = 0xf700" "KNODE_DEV = 0xf700000"
  by (simp_all add: NODE_DEV_def KNODE_DEV_def)

text \<open>The three calls, made one after the other: their words and the kernel's state.\<close>

definition three_calls :: "'s gate \<Rightarrow> 32 word \<Rightarrow> 32 word \<Rightarrow> 's \<Rightarrow> (32 word \<times> 32 word \<times> 32 word) \<times> 's" where
  "three_calls gate str nam s =
     (case gate NR_getpid_i386 [] s of (p, s1) \<Rightarrow> case gate NR_write_i386 [1, str, 54] s1 of (w, s2) \<Rightarrow>
      case gate NR_mknod_i386 [nam, 0x2180, 0xf700] s2 of (m, s3) \<Rightarrow> ((p, w, m), s3))"

text \<open>What a program prints, from the way it shows each of the three results.\<close>

definition report :: "(string \<Rightarrow> 32 word \<Rightarrow> string) \<Rightarrow> 32 word \<times> 32 word \<times> 32 word \<Rightarrow> string" where
  "report show = (\<lambda>(p, w, m). show ''getpid'' p @ out_line ''string for write length = '' 54 @ show ''write'' w @ show ''mknod'' m)"

lemma mp_report: "mp_main int80 str nam s = (case three_calls int80 str nam s of (rs, s') \<Rightarrow>
    (report (\<lambda>what r. out_line (what @ '' return : '') (sint r)) rs, s'))"
  by (simp add: mp_main_def int80_main_def mp_getpid_def mp_write_def mp_mknod_def getpid_call_def write_call_def
      mknod_call_def three_calls_def report_def strlen_MSG NODE_MODE_def case_prod_unfold)

lemma mpsys_report: "mpsys_main gate str nam s = (case three_calls gate str nam s of (rs, s') \<Rightarrow>
    (report (\<lambda>what r. out_line (what @ '' return : '') (fst (libc r))) rs, s'))"
  by (simp add: mpsys_main_def int80_main_def sys_getpid_def sys_write_def sys_mknod_def c_syscall_def
      three_calls_def report_def strlen_MSG NODE_MODE_def case_prod_unfold)

lemma mplib_report: "mplib_main strerror gate str nam s = (case three_calls gate str nam s of (rs, s') \<Rightarrow>
    (report (\<lambda>what r. lib_line strerror what (libc r)) rs, s'))"
  by (simp add: mplib_main_def int80_main_def lib_getpid_def lib_write_def lib_mknod_def c_syscall_def
      three_calls_def report_def strlen_MSG NODE_MODE_def case_prod_unfold)

lemma libc_ok: "0 \<le> sint r \<Longrightarrow> libc r = (sint r, None)"
  by (simp add: libc_def)

lemma libc_error: "- 4095 \<le> sint r \<Longrightarrow> sint r < 0 \<Longrightarrow> libc r = (-1, Some (- sint r))"
  by (simp add: libc_def)



text \<open>Inside the kernel the two modules differ in the address limit. Without lifting it, the addresses of
  the texts are refused; both leave the limit as it was if the handler does.\<close>

lemma modules_limit:
  assumes "\<And>nr args b x. fst (snd (int80 nr args (b, x))) = b"
    "\<And>nr args x. nr \<in> {NR_write_i386, NR_mknod_i386} \<Longrightarrow> int80 nr args (False, x) = (-14, (False, x))"
    "int80 NR_getpid_i386 [] (False, x) = (p, (False, x))"
  shows "mdu_init int80 str nam (False, x) = (-1, out_line ''=== string for write length = '' 58
      @ out_line ''=== write return : '' (-14) @ out_line ''=== mknod return : '' (-14)
      @ out_line ''=== getpid return : '' (sint p), (False, x))"
    "fst (snd (snd (mdc_init int80 str nam (b, x)))) = b"
  using assms(2) [of NR_write_i386] assms(2) [of NR_mknod_i386] assms(3)
  by (simp_all add: mdu_init_def mdc_init_def k_write_def k_mknod_def k_getpid_def write_call_def mknod_call_def
      getpid_call_def strlen_MSG case_prod_unfold)

text \<open>The number of a node as the system call takes it: the major number is in bits 8 to 19. What the
  modules pass is the number of another device.\<close>

definition node_major :: "32 word \<Rightarrow> nat" where
  "node_major dev = unat (take_bit 12 (drop_bit 8 dev))"

lemma modules_wrong_node: "node_major NODE_DEV = 247" "node_major KNODE_DEV = 0"
  by (simp_all add: node_major_def)

text \<open>\<open>jifft\<close> calls the function of that name with its text, which always fits, and puts the limit back.\<close>

lemma jifft_symb_fn_symb_fn: "jifft_symb_fn = symb_fn"
  by (simp add: fun_eq_iff jifft_symb_fn_def symb_fn_def)

lemma show_base_length: "2 \<le> length dig \<Longrightarrow> 0 < k \<Longrightarrow> n < length dig ^ k \<Longrightarrow> length (show_base dig n) \<le> k"
proof (induction dig n arbitrary: k rule: show_base.induct)
  case (1 dig n)
  show ?case
  proof (cases "n < length dig")
    case False
    obtain m where m: "k = Suc m" using "1.prems" by (cases k) simp_all
    moreover have "m \<noteq> 0" using "1.prems" False m by (cases m) simp_all
    ultimately have m: "k = Suc m" "0 < m" by simp_all
    then have "n div length dig < length dig ^ m" using "1.prems" by (simp add: less_mult_imp_div_less mult.commute)
    then show ?thesis using "1.IH" [of m] "1.prems" False m by (subst show_base.simps) auto
  qed (use "1.prems" in \<open>subst show_base.simps; auto\<close>)
qed

lemma hex_upper_length: "length hex_upper = 16" by (simp add: hex_upper_def)

lemma jifft_writes:
  assumes "jiffies < 2 ^ 64" "map_of syms ''sys_write'' = Some a"
  shows "jifft_init syms jiffies write (lim, s) = (Inr (-1), lim, snd (write a 1 (jifft_text jiffies) (True, s)))"
proof -
  have "length (show_base hex_upper jiffies) \<le> 16"
    using show_base_length [of hex_upper 16 jiffies] assms(1) by (simp add: hex_upper_length)
  then have "length (jifft_text jiffies) < 120" by (simp add: jifft_text_def)
  moreover have "each_symbol (symb_fn ''sys_write'') syms 0 = (1, a)"
    using assms(2) by (induction syms) (auto simp: symb_fn_def split: if_splits)
  ultimately show ?thesis by (simp add: jifft_init_def jifft_symb_fn_symb_fn)
qed

end
