(* ===== verification/Call_Clients.thy ===== *)
theory Call_Clients
  imports System_Calls Plugin
begin

text \<open>
  The programs that make the system calls the modules add: \<open>sys_call_table/add_sys/syscall.c\<close>,
  \<open>sys_call_table/hidden/syscall.c\<close> and \<open>load_module/plugin/syscall.c\<close>, and what they show together with the
  modules. A call is a parameter: the text it is given, the kernel's state, and the word it returns.
\<close>

section \<open>The clients\<close>

type_synonym 's own_call = "string \<Rightarrow> 's \<Rightarrow> (32 word \<times> 's) res"

fun own_calls :: "(string \<Rightarrow> 's \<Rightarrow> (string \<times> 's) res) \<Rightarrow> string list \<Rightarrow> 's \<Rightarrow> (string \<times> 's) res" where
  "own_calls own [] s = Inr ([], s)"
| "own_calls own (a # as) s = (case own a s of Inl e \<Rightarrow> Inl e
     | Inr (o1, s1) \<Rightarrow> (case own_calls own as s1 of Inl e \<Rightarrow> Inl e | Inr (o2, s2) \<Rightarrow> Inr (o1 @ o2, s2)))"

text \<open>\<open>add_sys\<close>: the call is given the text without its terminator; the arguments are taken from the last to
  the first.\<close>

definition add_own_call :: "(int \<Rightarrow> string) \<Rightarrow> 's own_call \<Rightarrow> string \<Rightarrow> 's \<Rightarrow> (string \<times> 's) res" where
  "add_own_call strerror call str s = map_sum id (\<lambda>(r, s').
     let n = fst (libc r) in
     (if n \<ge> 0 then out_line ''syscall return '' n
      else ''syscall error '' @ show_int n @ '' : '' @ strerror (- n) @ [NL], s')) (call str s)"

definition add_sys_main :: "(int \<Rightarrow> string) \<Rightarrow> 's own_call \<Rightarrow> string list \<Rightarrow> 's \<Rightarrow> (string \<times> 's) res" where
  "add_sys_main strerror call args s = own_calls (add_own_call strerror call)
     (if args = [] then [''DEFAULT STRING''] else rev args) s"

text \<open>\<open>plugin\<close>: in their order.\<close>

definition plug_own_call :: "(int \<Rightarrow> string) \<Rightarrow> 's own_call \<Rightarrow> string \<Rightarrow> 's \<Rightarrow> (string \<times> 's) res" where
  "plug_own_call strerror call str s = map_sum id (\<lambda>(r, s').
     let n = fst (libc r) in
     (if n \<ge> 0 then out_line ''syscall return '' n
      else ''syscall error '' @ show_int n @ '' : '' @ strerror (- n) @ [NL], s')) (call str s)"

definition plug_main :: "(int \<Rightarrow> string) \<Rightarrow> 's own_call \<Rightarrow> string list \<Rightarrow> 's \<Rightarrow> (string \<times> 's) res" where
  "plug_main strerror call args s = own_calls (plug_own_call strerror call) (if args = [] then [''9876''] else args) s"

text \<open>\<open>hidden\<close>: the text and a new line are put into an array of 120 characters.\<close>

definition hex8 :: "32 word \<Rightarrow> string" where
  "hex8 w = map (\<lambda>i. ''0123456789abcdef'' ! unat (take_bit 4 (drop_bit (28 - 4 * i) w))) [0..<8]"

definition hid_own_call :: "(int \<Rightarrow> string) \<Rightarrow> 's own_call \<Rightarrow> string \<Rightarrow> 's \<Rightarrow> (string \<times> 's) res" where
  "hid_own_call strerror call str s =
     (if 120 \<le> length str + 1 then crash OutOfBounds
      else map_sum id (\<lambda>(r, s').
        let n = fst (libc r) in
        (''syscall return '' @ show_int n @ '' ['' @ hex8 (word_of_int n) @ ''], reason: ''
           @ strerror (if n > 0 then 0 else - n) @ [NL], s')) (call (str @ [NL]) s))"

definition hid_main :: "(int \<Rightarrow> string) \<Rightarrow> 's own_call \<Rightarrow> string list \<Rightarrow> 's \<Rightarrow> (string \<times> 's) res" where
  "hid_main strerror call args s = own_calls (hid_own_call strerror call)
     (if args = [] then [''DEFAULT STRING''] else rev args) s"

section \<open>With the modules\<close>

text \<open>The handler of \<open>add_sys\<close> with its array, and the call of the plugins.\<close>

definition add_sys_call :: "string own_call" where
  "add_sys_call str b = map_sum id (\<lambda>(r, b'). (of_nat r, b')) (new_sys_call copy_ok b str)"

definition plug_call :: "plug_env \<Rightarrow> master own_call" where
  "plug_call e str s = map_sum id (\<lambda>(r, s'). (word_of_int r, s')) (sys_str_translate e copy_ok str s)"

text \<open>A text of the forms the plugins know.\<close>

definition numeral_of :: "nat \<Rightarrow> string \<Rightarrow> bool" where
  "numeral_of n inp \<longleftrightarrow> 0 < n \<and> inp = show_base dec_dig n \<or> inp = ''0'' @ show_base oct_dig n
     \<or> inp = ''0x'' @ show_base digh n \<or> inp = ''0x'' @ show_base digl n"

lemma libc_number: "n < 2 ^ 31 \<Longrightarrow> libc (word_of_int (int n)) = (int n, None)"
proof -
  assume n: "n < 2 ^ 31"
  have "sint (word_of_int (int n) :: 32 word) = int n"
    using n by (simp add: signed_of_nat signed_take_bit_int_eq_self)
  then show ?thesis by (simp add: libc_ok)
qed

text \<open>Whatever the error, the library returns -1, and the program shows the text of error 1.\<close>

lemma client_error_text:
  assumes "call str s = Inr (r, s')" "- 4095 \<le> sint r" "sint r < 0"
  shows "add_own_call strerror call str s = Inr (''syscall error -1 : '' @ strerror 1 @ [NL], s')"
    "plug_own_call strerror call str s = Inr (''syscall error -1 : '' @ strerror 1 @ [NL], s')"
  using assms by (simp_all add: add_own_call_def plug_own_call_def libc_error show_int_def show_nat.simps digit_def)

text \<open>The plugin's client with the module. Given any numbers below 2^31 in any of the notations, each in
  fewer than 80 characters, it prints their values in the order of the arguments, and no slave, file or
  buffer is left behind.\<close>

theorem plug_client_values:
  assumes "plug_ok e (p_init s) (p_delete s)" "slaves s = []" "length (buf_msg s) = 80"
    "\<forall>(n, inp) \<in> set xs. n < 2 ^ 31 \<and> numeral_of n inp \<and> length inp < 80" "xs \<noteq> []"
  shows "\<exists>s'. plug_main strerror (plug_call e) (map snd xs) s
      = Inr (concat (map (\<lambda>(n, inp). out_line ''syscall return '' (int n)) xs), s')
    \<and> slaves s' = [] \<and> files s' = files s \<and> bufs s' = bufs s"
proof -
  have "\<exists>s'. own_calls (plug_own_call strerror (plug_call e)) (map snd xs) s
      = Inr (concat (map (\<lambda>(n, inp). out_line ''syscall return '' (int n)) xs), s')
    \<and> slaves s' = [] \<and> files s' = files s \<and> bufs s' = bufs s"
    using assms(1-4)
  proof (induction xs arbitrary: s)
    case (Cons x xs)
    obtain n inp where x: "x = (n, inp)" by fastforce
    then have n: "n < 2 ^ 31" "numeral_of n inp" "length inp < 80" using Cons.prems(4) by simp_all
    obtain s1 where s1: "sys_str_translate e copy_ok inp s = Inr (int n, s1)" "slaves s1 = []" "files s1 = files s"
        "bufs s1 = bufs s" "p_init s1 = p_init s" "p_delete s1 = p_delete s" "length (buf_msg s1) = 80"
      using number_translated [OF Cons.prems(1-3) n(1) n(2) [unfolded numeral_of_def] n(3)] by blast
    have o: "plug_own_call strerror (plug_call e) inp s = Inr (out_line ''syscall return '' (int n), s1)"
      using s1(1) libc_number [OF n(1)] by (simp add: plug_own_call_def plug_call_def)
    have "plug_ok e (p_init s1) (p_delete s1)" using Cons.prems(1) s1(5,6) by simp
    from Cons.IH [OF this s1(2,7)] Cons.prems(4) show ?case
      using o s1(3,4) x by (force split: prod.splits)
  qed simp
  then show ?thesis using assms(5) by (simp add: plug_main_def)
qed

theorem plug_client_values_witness:
  "\<exists>s'. plug_main (\<lambda>_. []) (plug_call plug_example) [''0x1f'', ''017''] master_example
    = Inr (''syscall return 31'' @ [NL] @ ''syscall return 15'' @ [NL], s') \<and> slaves s' = []"
proof -
  have n: "numeral_of 31 ''0x1f''" "numeral_of 15 ''017''"
    by (simp_all add: numeral_of_def show_base.simps digl_def oct_dig_def)
  have t: "out_line ''syscall return '' 31 = ''syscall return 31'' @ [NL]" "out_line ''syscall return '' 15 = ''syscall return 15'' @ [NL]"
    by (simp_all add: out_line_def show_int_def show_nat.simps digit_def)
  have "\<exists>s'. plug_main (\<lambda>_. []) (plug_call plug_example) (map snd [(31, ''0x1f''), (15 :: nat, ''017'')]) master_example
      = Inr (concat (map (\<lambda>(n, inp). out_line ''syscall return '' (int n)) [(31, ''0x1f''), (15, ''017'')]), s')
    \<and> slaves s' = [] \<and> files s' = files master_example \<and> bufs s' = bufs master_example"
    by (rule plug_client_values [OF plug_example_ok]) (use n in simp_all)
  then show ?thesis by (auto simp: t)
qed

text \<open>The handler of \<open>add_sys\<close> returns the number of bytes that could not be copied, so its client shows 0
  for every text that fits.\<close>

lemma add_client_zero:
  "\<forall>a \<in> set args. length a < 80 \<Longrightarrow> \<exists>b'. add_sys_main strerror add_sys_call args b
    = Inr (concat (replicate (max 1 (length args)) (out_line ''syscall return '' 0)), b')"
proof -
  have own: "length a < 80 \<Longrightarrow> \<exists>b'. add_own_call strerror add_sys_call a b = Inr (out_line ''syscall return '' 0, b')" for a b
    by (simp add: add_own_call_def add_sys_call_def new_sys_call_def libc_ok)
  have calls: "\<forall>a \<in> set as. length a < 80 \<Longrightarrow> \<exists>b'. own_calls (add_own_call strerror add_sys_call) as b
      = Inr (concat (replicate (length as) (out_line ''syscall return '' 0)), b')" for as b
  proof (induction as arbitrary: b)
    case (Cons a as)
    obtain b1 where "add_own_call strerror add_sys_call a b = Inr (out_line ''syscall return '' 0, b1)"
      using own [of a b] Cons.prems by auto
    then show ?case using Cons.IH [of b1] Cons.prems by auto
  qed simp
  assume "\<forall>a \<in> set args. length a < 80"
  then show ?thesis using calls [of "rev args" b] calls [of "[''DEFAULT STRING'']" b]
    by (auto simp: add_sys_main_def max_def Suc_le_eq)
qed

end
