(* ===== verification/Hidden_Calls.thy ===== *)
theory Hidden_Calls
  imports Call_Clients
begin

unbundle bit_operations_syntax

text \<open>
  The handlers of \<open>sys_call_table/hidden\<close>, one of which is compiled into \<open>hidden.c\<close> by \<open>variant.h\<close> and
  copied into a block of its own. Because the end of the handler has to be a label, each returns by
  instructions of its own instead of the compiler's. What the compiler puts before them is not in the
  source: all that is used of it is the frame of the calling convention.
\<close>

section \<open>The processor\<close>

text \<open>The registers used and the stack, by addresses of its words.\<close>

record cpu =
  eax :: "32 word"
  ebx :: "32 word"
  ebp :: "32 word"
  esp :: "32 word"
  eip :: "32 word"
  stack :: "32 word \<Rightarrow> 32 word"

datatype instr = MovlEax "32 word" | MovlEbxEax | PoplEbp | Leave | Ret | LoadEax "32 word" | StoreEax | CallEbx

text \<open>\<open>LoadEax d\<close> is \<open>movl d(%ebp), %eax\<close>, \<open>StoreEax\<close> is \<open>movl %eax, (%esp)\<close>. A call that returns leaves its
  result in \<open>eax\<close>; \<open>fn\<close> is what the function at an address computes of its argument, which a kernel built
  to pass it in \<open>eax\<close> takes from there.\<close>

fun exec_instr :: "(32 word \<Rightarrow> 32 word \<Rightarrow> 32 word) \<Rightarrow> instr \<Rightarrow> cpu \<Rightarrow> cpu" where
  "exec_instr fn (MovlEax v) c = c\<lparr>eax := v\<rparr>"
| "exec_instr fn MovlEbxEax c = c\<lparr>eax := ebx c\<rparr>"
| "exec_instr fn PoplEbp c = c\<lparr>ebp := stack c (esp c), esp := esp c + 4\<rparr>"
| "exec_instr fn Leave c = c\<lparr>ebp := stack c (ebp c), esp := ebp c + 4\<rparr>"
| "exec_instr fn Ret c = c\<lparr>eip := stack c (esp c), esp := esp c + 4\<rparr>"
| "exec_instr fn (LoadEax d) c = c\<lparr>eax := stack c (ebp c + d)\<rparr>"
| "exec_instr fn StoreEax c = c\<lparr>stack := (stack c)(esp c := eax c)\<rparr>"
| "exec_instr fn CallEbx c = c\<lparr>eax := fn (ebx c) (eax c)\<rparr>"

definition exec_all :: "(32 word \<Rightarrow> 32 word \<Rightarrow> 32 word) \<Rightarrow> instr list \<Rightarrow> cpu \<Rightarrow> cpu" where
  "exec_all fn is c = fold (exec_instr fn) is c"

text \<open>Inside a function that was called with \<open>esp\<close> at \<open>sp\<close>: the return address is there, the caller's \<open>ebp\<close>
  below it, and \<open>k\<close> bytes are in use below that.\<close>

definition framed :: "32 word \<Rightarrow> 32 word \<Rightarrow> 32 word \<Rightarrow> 32 word \<Rightarrow> cpu \<Rightarrow> bool" where
  "framed sp ret bp k c \<longleftrightarrow> ebp c = sp - 4 \<and> stack c (sp - 4) = bp \<and> stack c sp = ret \<and> esp c = sp - 4 - k"

text \<open>What the caller relies on: execution goes on behind the call, and \<open>esp\<close> and \<open>ebp\<close> are its own.\<close>

definition returned :: "32 word \<Rightarrow> 32 word \<Rightarrow> 32 word \<Rightarrow> cpu \<Rightarrow> bool" where
  "returned sp ret bp c \<longleftrightarrow> eip c = ret \<and> esp c = sp + 4 \<and> ebp c = bp"

section \<open>How the handlers return\<close>

definition null_end :: "instr list" where
  "null_end = [MovlEax 0, PoplEbp, Ret]"

text \<open>The operand constraint puts \<open>res\<close> into \<open>ebx\<close>.\<close>

definition local_end :: "32 word \<Rightarrow> cpu \<Rightarrow> cpu" where
  "local_end res c = exec_all (\<lambda>_ a. a) [MovlEbxEax, Leave, Ret] (c\<lparr>ebx := res\<rparr>)"

text \<open>Here it puts it into \<open>eax\<close> (\<open>getpid.c\<close>, \<open>strlen_1.c\<close>, \<open>strlen_2.c\<close>, \<open>write.c\<close>, \<open>printk.c\<close>).\<close>

definition leave_end :: "32 word \<Rightarrow> cpu \<Rightarrow> cpu" where
  "leave_end res c = exec_all (\<lambda>_ a. a) [Leave, Ret] (c\<lparr>eax := res\<rparr>)"

text \<open>The nested function of \<open>strlen_2.c\<close>: the argument is at \<open>8(%ebp)\<close>, \<open>ebx\<close> holds the address of \<open>strlen\<close>.\<close>

definition own_strlen_asm :: "(32 word \<Rightarrow> 32 word \<Rightarrow> 32 word) \<Rightarrow> 32 word \<Rightarrow> cpu \<Rightarrow> cpu" where
  "own_strlen_asm fn strlen_addr c = exec_all fn [LoadEax 8, StoreEax, CallEbx] (c\<lparr>ebx := strlen_addr\<rparr>)"

section \<open>What they compute\<close>

text \<open>The kernel's functions are parameters, called at the addresses they had in one build: \<open>fn a\<close> is the
  function at an address, and a call of another one is a fault. The buffer is what is at the user's
  address.\<close>

datatype 's kfun = KGetpid "'s \<Rightarrow> 32 word \<times> 's" | KStrlen
  | KWrite "32 word \<Rightarrow> string \<Rightarrow> 32 word \<Rightarrow> 's \<Rightarrow> 32 word \<times> 's" | KPrintk "string \<Rightarrow> 's \<Rightarrow> 32 word \<times> 's"

type_synonym 's handler = "string \<Rightarrow> 32 word \<Rightarrow> 's \<Rightarrow> (32 word \<times> 's) res"

definition null_call :: "'s handler" where
  "null_call buf count s = Inr (0, s)"

definition inc :: "32 word \<Rightarrow> 32 word" where
  "inc x = x + 1"

definition local_call :: "'s handler" where
  "local_call buf count s =
     (let res = 1000; res = res + inc count; res = inc count in Inr (res, s))"

definition getpid_own :: "(32 word \<Rightarrow> 's kfun option) \<Rightarrow> 's handler" where
  "getpid_own fn buf count s = (case fn 0xc044e690 of Some (KGetpid f) \<Rightarrow> Inr (f s) | _ \<Rightarrow> crash OutOfBounds)"

definition k_strlen :: "string \<Rightarrow> 32 word res" where
  "k_strlen buf = (if NUL \<in> set buf then Inr (of_nat (strlen buf)) else crash OutOfBounds)"

definition strlen_1_call :: "(32 word \<Rightarrow> 's kfun option) \<Rightarrow> 's handler" where
  "strlen_1_call fn buf count s =
     (case fn 0xc05c64af of Some KStrlen \<Rightarrow> map_sum id (\<lambda>r. (r, s)) (k_strlen buf) | _ \<Rightarrow> crash OutOfBounds)"

definition strlen_2_call :: "'s handler" where
  "strlen_2_call buf count s = map_sum id (\<lambda>r. (r, s)) (k_strlen buf)"

definition write_own :: "(32 word \<Rightarrow> 's kfun option) \<Rightarrow> 's handler" where
  "write_own fn buf count s = (case fn 0xc04e12fc of Some (KWrite f) \<Rightarrow> Inr (f 1 buf count s) | _ \<Rightarrow> crash OutOfBounds)"

definition PRINTK_TEXT :: string where
  "PRINTK_TEXT = ''! STRING FOR PRINTK'' @ [NL]"

definition printk_own :: "(32 word \<Rightarrow> 's kfun option) \<Rightarrow> 's handler" where
  "printk_own fn buf count s = (case fn 0xc07a3955 of Some (KPrintk f) \<Rightarrow> Inr (f PRINTK_TEXT s) | _ \<Rightarrow> crash OutOfBounds)"

text \<open>\<open>variant.h\<close>: a variant above 7 is 0; the file of variant 6 is not there, so that it cannot be compiled.\<close>

definition hidden_call :: "nat \<Rightarrow> (32 word \<Rightarrow> 's kfun option) \<Rightarrow> 's handler option" where
  "hidden_call VARIANT fn = (let v = (if VARIANT > 7 then 0 else VARIANT) in
     if v = 0 then Some null_call
     else if v = 1 then Some local_call
     else if v = 2 then Some (getpid_own fn)
     else if v = 3 then Some (strlen_1_call fn)
     else if v = 4 then Some strlen_2_call
     else if v = 5 then Some (write_own fn)
     else if v = 6 then None
     else Some (printk_own fn))"

section \<open>Properties\<close>

text \<open>C23: how the handlers return. With \<open>leave\<close> and \<open>ret\<close> a handler returns to its caller with its result,
  the caller's stack and frame, however many bytes its frame has; but the variant that passes the result
  through \<open>ebx\<close> leaves it there, where the caller expects its own value. The null handler, which pops
  instead, does so if its frame has no bytes; with any it takes what is there for the return address.\<close>

theorem handlers_return:
  assumes "framed sp ret bp k c"
  shows "returned sp ret bp (leave_end res c) \<and> eax (leave_end res c) = res \<and> ebx (leave_end res c) = ebx c
    \<and> returned sp ret bp (local_end res c) \<and> eax (local_end res c) = res \<and> ebx (local_end res c) = res
    \<and> (k = 0 \<longrightarrow> returned sp ret bp (exec_all fn null_end c) \<and> eax (exec_all fn null_end c) = 0)
    \<and> eip (exec_all fn null_end c) = stack c (sp - k) \<and> (k \<noteq> 0 \<longrightarrow> esp (exec_all fn null_end c) \<noteq> sp + 4)"
proof -
  have "esp (exec_all fn null_end c) = sp + 4 - k"
    using assms by (simp add: exec_all_def null_end_def framed_def)
  then show ?thesis
    using assms by (simp add: exec_all_def framed_def returned_def leave_end_def local_end_def null_end_def)
qed

theorem handlers_return_witness:
  "returned 1000 77 2000 (leave_end 5 \<lparr>eax = 0, ebx = 3, ebp = 996, esp = 980, eip = 0, stack = (\<lambda>a. if a = 1000 then 77 else 2000)\<rparr>)"
proof -
  have "framed 1000 77 2000 16 \<lparr>eax = 0, ebx = 3, ebp = 996, esp = 980, eip = 0, stack = (\<lambda>a. if a = 1000 then 77 else 2000)\<rparr>"
    by (simp add: framed_def)
  from handlers_return [OF this] show ?thesis by blast
qed

text \<open>The nested function calls \<open>strlen\<close> with its argument. It stores the argument at \<open>(%esp)\<close>; when its frame
  has no bytes the caller's frame pointer is there.\<close>

lemma own_strlen_asm_eq:
  "own_strlen_asm fn a c = (let v = stack c (ebp c + 8) in
     c\<lparr>ebx := a, stack := (stack c)(esp c := v), eax := fn a v\<rparr>)"
  by (simp add: own_strlen_asm_def exec_all_def Let_def)

lemma own_strlen_calls:
  assumes "framed sp ret bp k c"
  shows "eax (own_strlen_asm fn a c) = fn a (stack c (sp + 4))"
    "k \<noteq> 0 \<Longrightarrow> sp - 4 - k \<noteq> sp \<Longrightarrow> framed sp ret bp k (own_strlen_asm fn a c)"
    "k = 0 \<Longrightarrow> stack (own_strlen_asm fn a c) (sp - 4) = stack c (sp + 4)"
proof -
  have e: "ebp c = sp - 4" "esp c = sp - 4 - k" "stack c (sp - 4) = bp" "stack c sp = ret"
    using assms by (simp_all add: framed_def)
  have a: "sp - 4 + 8 = sp + 4" by simp
  show "eax (own_strlen_asm fn a c) = fn a (stack c (sp + 4))"
    unfolding own_strlen_asm_eq e a Let_def by simp
  show "k = 0 \<Longrightarrow> stack (own_strlen_asm fn a c) (sp - 4) = stack c (sp + 4)"
    unfolding own_strlen_asm_eq e a Let_def by simp
  show "framed sp ret bp k (own_strlen_asm fn a c)" if "k \<noteq> 0" "sp - 4 - k \<noteq> sp"
  proof -
    have "sp - 4 \<noteq> sp - 4 - k" using that(1) by simp
    then show ?thesis unfolding framed_def own_strlen_asm_eq Let_def using e that(2) by (auto simp: fun_upd_def)
  qed
qed

text \<open>The client of the hidden call: the handler is given the text with its terminator and the number of
  characters before it.\<close>

definition hid_call :: "'s handler \<Rightarrow> 's own_call" where
  "hid_call h str s = h (str @ [NUL]) (of_nat (length str)) s"

definition hid_line :: "(int \<Rightarrow> string) \<Rightarrow> nat \<Rightarrow> string" where
  "hid_line strerror n = ''syscall return '' @ show_int (int n) @ '' ['' @ hex8 (of_nat n) @ ''], reason: '' @ strerror 0 @ [NL]"

text \<open>What the variants without a function of the kernel, and the one that finds \<open>strlen\<close>, return for an
  argument; the client has added a new line.\<close>

definition hid_value :: "nat \<Rightarrow> string \<Rightarrow> nat" where
  "hid_value VARIANT a = (if VARIANT = 1 then length a + 2 else if VARIANT = 3 \<or> VARIANT = 4 then length a + 1 else 0)"

lemma hidden_result:
  assumes "hidden_call VARIANT fn = Some h" "VARIANT \<in> {0, 1, 4} \<or> 7 < VARIANT \<or> VARIANT = 3 \<and> fn 0xc05c64af = Some KStrlen"
    "NUL \<notin> set a"
  shows "hid_call h (a @ [NL]) s = Inr (of_nat (hid_value VARIANT a), s)"
proof -
  have "strlen (a @ [NL, NUL]) = length a + 1"
    using assms(3) cstr_terminated [of "a @ [NL]" "[]"] by (simp add: strlen_def)
  then have "k_strlen (a @ [NL, NUL]) = Inr (of_nat (length a + 1))" by (simp add: k_strlen_def)
  then show ?thesis
    using assms(1,2) by (auto simp: hidden_call_def hid_call_def hid_value_def null_call_def local_call_def inc_def
        strlen_1_call_def strlen_2_call_def Let_def)
qed



end
