(* ===== verification/Test_Programs.thy ===== *)
theory Test_Programs
  imports Proc_Node Mopen Decimal
begin

unbundle bit_operations_syntax

text \<open>
  Test programs with the drivers they test. \<open>proc/variants.le.3.9\<close>: \<open>recho.c\<close> writes a sequence of bytes to
  the node, \<open>rtest.c\<close> compares what it reads with the sequence (the node is in \<open>Proc_Node\<close>);
  \<open>dev/mopen/simple.c\<close> writes a line to the device and reads it back (\<open>Mopen\<close>); \<open>blkdev/test_blk.c\<close> writes
  an array to a disk and reads one element of it; \<open>blkdev/dubfl/ioctl-diag.c\<close> takes ioctl numbers apart.
\<close>

section \<open>A sequence through a node (recho.c, rtest.c)\<close>

definition FIRST_CHAR :: "8 word" where
  "FIRST_CHAR = 48"

text \<open>The remainder by 255 of a \<open>char\<close>, which is signed, is the \<open>char\<close> itself.\<close>

definition mod255 :: "8 word \<Rightarrow> 8 word" where
  "mod255 w = word_of_int (sint w - 255 * (if sint w < 0 then - ((- sint w) div 255) else sint w div 255))"

fun recho_fill :: "8 word \<Rightarrow> nat \<Rightarrow> 8 word list" where
  "recho_fill beg 0 = []"
| "recho_fill beg (Suc n) = mod255 beg # recho_fill (beg + 1) n"

definition bytes_of :: "8 word list \<Rightarrow> char list" where
  "bytes_of ws = map (\<lambda>w. char_of (unat w)) ws"

text \<open>\<open>mem\<close> is whether \<open>malloc\<close> yields memory; the result is whether an error is reported. A write is taken
  to have failed when its result is not the number of bytes.\<close>

definition recho :: "bool \<Rightarrow> ucopy \<Rightarrow> (char list \<Rightarrow> int option) \<Rightarrow> nat \<Rightarrow> var_node \<Rightarrow> bool \<times> var_node" where
  "recho mem uc ss len d =
     (if \<not> mem then (True, d)
      else (case write_variant uc ss (bytes_of (recho_fill FIRST_CHAR len)) d of
        (Inr l, d') \<Rightarrow> (l \<noteq> len, d') | (Inl _, d') \<Rightarrow> (True, d')))"

text \<open>A read of one byte at a position: of what the handler leaves in the page, the kernel takes the byte at
  that position, if the return value says that there is one.\<close>

definition proc_read1 :: "nat \<Rightarrow> var_node \<Rightarrow> char list \<Rightarrow> nat \<Rightarrow> (int \<times> char) res" where
  "proc_read1 variant d page off = (case read_variant variant d off 1 page of
     Inl e \<Rightarrow> Inl e | Inr (ret, eof, page') \<Rightarrow> Inr (if ret \<le> off then (0, NUL) else (1, page' ! off)))"

datatype verdict = AllMatched nat | ReadFailed | Mismatch nat "8 word" "8 word"

text \<open>\<open>beg = (char)( beg++ % 255 )\<close> changes \<open>beg\<close> twice without an order: what it is afterwards is up to the
  compiler and a parameter, \<open>nxt\<close>.\<close>

fun rtest_loop :: "nat \<Rightarrow> (8 word \<Rightarrow> 8 word) \<Rightarrow> (nat \<Rightarrow> (int \<times> char) res) \<Rightarrow> nat \<Rightarrow> 8 word \<Rightarrow> verdict res option" where
  "rtest_loop 0 nxt rd len beg = None"
| "rtest_loop (Suc fuel) nxt rd len beg = (case rd len of
     Inl e \<Rightarrow> Some (Inl e)
   | Inr (res, c) \<Rightarrow>
       if res = 0 then Some (Inr (AllMatched len))
       else if res < 0 then Some (Inr ReadFailed)
       else (let r = of_char c :: 8 word in
         if r \<noteq> beg then Some (Inr (Mismatch (len + 1) beg r))
         else rtest_loop fuel nxt rd (len + 1) (nxt beg)))"

definition rtest :: "nat \<Rightarrow> (8 word \<Rightarrow> 8 word) \<Rightarrow> (nat \<Rightarrow> (int \<times> char) res) \<Rightarrow> verdict res option" where
  "rtest fuel nxt rd = rtest_loop fuel nxt rd 0 FIRST_CHAR"

subsection \<open>What was written is what is compared\<close>

lemma mod255_id: "mod255 w = w"
proof -
  have "- 128 \<le> sint w" "sint w < 128"
    using sint_ge [of w] sint_lt [of w] by simp_all
  then have "(- sint w) div 255 = 0 \<or> sint w \<ge> 0" "sint w < 0 \<or> sint w div 255 = 0"
    by (auto simp: div_pos_pos_trivial)
  then show ?thesis by (auto simp: mod255_def)
qed

lemma recho_fill_nth: "i < n \<Longrightarrow> recho_fill beg n ! i = beg + of_nat i"
  by (induction n arbitrary: beg i) (auto simp: mod255_id nth_Cons split: nat.splits)

lemma length_recho_fill [simp]: "length (recho_fill beg n) = n"
  by (induction n arbitrary: beg) simp_all

lemma byte_char: "of_char (char_of (unat w)) = (w :: 8 word)"
proof -
  have "unat w < 256" using unsigned_less [of w] by simp
  then have "of_char (char_of (unat w)) = unat w" by simp
  moreover have "(of_char (char_of (unat w)) :: 8 word) = of_nat (of_char (char_of (unat w)))" by (simp only: of_nat_of_char)
  ultimately show ?thesis by simp
qed

lemma proc_read1_serves:
  assumes "var_inv d" "vlength d \<le> length page" "variant \<in> {0, 1, 3}"
  shows "proc_read1 variant d page off = Inr (if off < vlength d then (1, vbuf d ! off) else (0, NUL))"
proof -
  have sv: "serves d off 1 (read_variant variant d off 1 page)"
    using read_variants_serve [OF assms(1,2), of variant off 1] assms(3) by blast
  then obtain ret eof page' where r: "read_variant variant d off 1 page = Inr (ret, eof, page')"
    by (auto simp: serves_def split: sum.splits)
  show ?thesis
  proof (cases "off < vlength d")
    case True
    then have "min 1 (ret - off) = min 1 (vlength d - off)"
        "chunk off (min 1 (vlength d - off)) page' = chunk off (min 1 (vlength d - off)) (vbuf d)"
      using sv r by (simp_all add: serves_def)
    then have "off < ret" "chunk off 1 page' = chunk off 1 (vbuf d)"
      using True by (simp_all add: min_def split: if_splits)
    moreover have "chunk off 1 (vbuf d) = [vbuf d ! off]"
      using True assms(1) by (simp add: chunk_def var_inv_def take_Suc_conv_app_nth flip: Cons_nth_drop_Suc)
    ultimately have "off < ret" "page' ! off = vbuf d ! off"
      by (simp_all add: chunk_def hd_drop_conv_nth) (metis drop_eq_Nil hd_drop_conv_nth linorder_not_le list.sel(1) take0 take_Suc take_eq_Nil list.distinct(1))
    then show ?thesis using True r by (simp add: proc_read1_def)
  next
    case False
    then show ?thesis using sv r by (simp add: proc_read1_def serves_def)
  qed
qed

lemma rtest_loop_all:
  assumes "\<And>i. i < m \<Longrightarrow> rd i = Inr (1, char_of (unat (FIRST_CHAR + of_nat i)))" "rd m = Inr (0, NUL)"
  shows "len \<le> m \<Longrightarrow> m - len < fuel \<Longrightarrow>
    rtest_loop fuel (\<lambda>b. b + 1) rd len (FIRST_CHAR + of_nat len) = Some (Inr (AllMatched m))"
proof (induction fuel arbitrary: len)
  case (Suc fuel)
  show ?case
  proof (cases "len = m")
    case False
    then have "rd len = Inr (1, char_of (unat (FIRST_CHAR + of_nat len)))" using assms(1) Suc.prems by simp
    then show ?thesis using Suc.IH [of "Suc len"] Suc.prems False by (simp add: byte_char algebra_simps)
  qed (simp add: assms(2))
qed simp



section \<open>A line through the device (simple.c)\<close>

text \<open>What the driver writes to the user's memory, from \<open>msg + p\<close> on; \<open>msg\<close> is an array of 160
  characters.\<close>

fun put_user :: "char list \<Rightarrow> nat \<Rightarrow> (nat \<times> char list) list \<Rightarrow> char list res" where
  "put_user msg p [] = Inr msg"
| "put_user msg p ((off, xs) # ws) =
     (if length msg < p + off + length xs then crash OutOfBounds else put_user (blit msg (p + off) xs) p ws)"

text \<open>The loop of reads: what is printed, and the array in the end. \<open>em\<close> is the text of \<open>%m\<close>.\<close>

fun simple_loop :: "nat \<Rightarrow> string \<Rightarrow> nat \<Rightarrow> char list \<Rightarrow> nat \<Rightarrow> mopen \<Rightarrow> ((string \<times> char list) res \<times> mopen) option" where
  "simple_loop 0 em f msg p s = None"
| "simple_loop (Suc fuel) em f msg p s = (case mopen_read copy_ok f 160 s of
     (Inl (Fault x), ws, s') \<Rightarrow> Some (crash x, s')
   | (Inl (Errno e), ws, s') \<Rightarrow> Some (Inr (''read device error: '' @ em @ [NL], msg), s')
   | (Inr res, ws, s') \<Rightarrow> (case put_user msg p ws of
       Inl x \<Rightarrow> Some (Inl x, s')
     | Inr msg1 \<Rightarrow>
         if res = 0 then Some (Inr ([], msg1), s')
         else if length msg1 \<le> p + res then Some (crash OutOfBounds, s')
         else (let msg2 = msg1[p + res := NUL];
                   out = ''read '' @ show_int (int res) @ '' bytes: '' @ cstr (drop p msg2) in
           case simple_loop fuel em f msg2 (p + res) s' of
             None \<Rightarrow> None
           | Some (Inl x, s'') \<Rightarrow> Some (Inl x, s'')
           | Some (Inr (outs, msg3), s'') \<Rightarrow> Some (Inr (out @ outs, msg3), s''))))"

text \<open>\<open>gets\<close> stores the line and its terminator. The result is what is printed after the prompt.\<close>

definition simple_main :: "nat \<Rightarrow> string \<Rightarrow> (nat \<Rightarrow> char) option \<Rightarrow> char list \<Rightarrow> nat \<Rightarrow> string \<Rightarrow> mopen \<Rightarrow> (string res \<times> mopen) option" where
  "simple_main fuel em vm junk f line s = (case mopen_open vm f s of
     (Inl (Fault x), s1) \<Rightarrow> Some (crash x, s1)
   | (Inl (Errno e), s1) \<Rightarrow> Some (Inr (''open device error: '' @ em @ [NL]), s1)
   | (Inr _, s1) \<Rightarrow>
      (if length junk < length line + 1 then Some (crash OutOfBounds, s1)
       else (let msg = blit junk 0 (line @ [NUL]); len = strlen msg in
         case mopen_write copy_ok f (take len msg) s1 of
           (Inl (Fault x), s2) \<Rightarrow> Some (crash x, s2)
         | (r, s2) \<Rightarrow>
           (let o1 = (if r = Inr len then [] else ''write device error: '' @ em @ [NL]) in
            case simple_loop fuel em f msg 0 s2 of
              None \<Rightarrow> None
            | Some (Inl x, s3) \<Rightarrow> Some (Inl x, s3)
            | Some (Inr (o2, msg'), s3) \<Rightarrow> Some (Inr (o1 @ o2 @ cstr msg'), snd (mopen_release f s3))))))"

lemma cstr_blit_line:
  assumes "NUL \<notin> set line" "length line < length b"
  shows "cstr (blit b 0 (line @ [NUL])) = line" "take (length line) (blit b 0 (line @ [NUL])) = line"
  using assms by (simp_all add: blit_def cstr_terminated)

lemma put_user_read:
  assumes "length msg = 160" "length xs + 1 \<le> 160"
  shows "put_user msg 0 [(0, xs), (length xs, [NL])] = Inr (blit msg 0 (xs @ [NL]))"
proof -
  have "blit (blit msg 0 xs) (length xs) [NL] = blit msg 0 (xs @ [NL])"
    by (simp add: blit_def)
  then show ?thesis using assms by (simp add: length_blit)
qed

lemma open_fresh:
  assumes "mopen_inv s" "dev_open s = 0" "mode s = 2 \<or> odd (static_buf s) = 0"
  obtains s1 d where "mopen_open (Some vm) f s = (Inr 0, s1)" "mopen_inv s1" "mode s1 = mode s"
    "dev_open s1 = of_bool (mode s = 1)" "get_buffer f s1 = Some d" "odd d = 0"
proof -
  obtain s1 where o: "mopen_open (Some vm) f s = (Inr 0, s1)"
    using assms(2) by (cases "mode s = 2"; cases "mode s = 1") (auto simp: mopen_open_def Let_def)
  have i: "mopen_inv s1" using mopen_open_inv [OF assms(1), of "Some vm" f] o by simp
  have m: "mode s1 = mode s" "dev_open s1 = of_bool (mode s = 1)"
    using o assms(2) by (auto simp: mopen_open_def Let_def split: if_splits)
  have "\<exists>d. get_buffer f s1 = Some d \<and> odd d = 0"
    using o assms(2,3) by (auto simp: mopen_open_def get_buffer_def Let_def split: if_splits)
  then show ?thesis using that [OF o i m] by blast
qed

text \<open>The loop after the line was written: one read, and one that finds the end.\<close>

lemma simple_loop_reads:
  assumes "get_buffer f s = Some d" "odd d = 0" "cstr (mbuf d) = line" "length msg = 160" "length line < 160"
    "NUL \<notin> set line" "2 \<le> fuel"
  shows "\<exists>s'. mode s' = mode s \<and> dev_open s' = dev_open s \<and> simple_loop fuel em f msg 0 s = Some
    (if length line < 159 then Inr (''read '' @ show_int (int (length line + 1)) @ '' bytes: '' @ line @ [NL],
       (blit msg 0 (line @ [NL]))[length line + 1 := NUL]) else crash OutOfBounds, s')
    \<and> (length line < 159 \<longrightarrow> cstr ((blit msg 0 (line @ [NL]))[length line + 1 := NUL]) = line @ [NL])"
proof -
  have "fuel = Suc (Suc (fuel - 2))" using assms(7) by simp
  then obtain k where k: "fuel = Suc (Suc k)" by blast
  have sl: "strlen (mbuf d) = length line" using assms(3) by (simp add: strlen_def)
  have r1: "mopen_read copy_ok f 160 s
      = (Inr (length line + 1), [(0, line), (length line, [NL])], set_buffer f (d\<lparr>odd := 1\<rparr>) s)"
    using assms(1-3) sl by (simp add: mopen_read_def Let_def)
  have r2: "mopen_read copy_ok f 160 (set_buffer f (d\<lparr>odd := 1\<rparr>) s) = (Inr 0, [], set_buffer f (d\<lparr>odd := 0\<rparr>) s)"
    by (simp add: mopen_read_def)
  have pu: "put_user msg 0 [(0, line), (length line, [NL])] = Inr (blit msg 0 (line @ [NL]))"
    using put_user_read [OF assms(4), of line] assms(5) by simp
  have l: "length (blit msg 0 (line @ [NL])) = 160" using assms(4,5) by (subst length_blit) simp_all
  have c: "cstr ((blit msg 0 (line @ [NL]))[length line + 1 := NUL]) = line @ [NL]" if "length line < 159"
  proof -
    have "take (length line + 1) (blit msg 0 (line @ [NL])) = line @ [NL]" by (simp add: blit_def)
    then show ?thesis using cstr_update [of "length line + 1" "blit msg 0 (line @ [NL])"] l that assms(6) by simp
  qed
  have d: "dev_open (set_buffer f x s) = dev_open s" for x by (simp add: set_buffer_def)
  show ?thesis
  proof (cases "length line < 159")
    case True
    then show ?thesis
      using c by (intro exI [of _ "set_buffer f (d\<lparr>odd := 0\<rparr>) s"])
        (simp add: k r1 r2 pu l d Let_def del: put_user.simps(2))
  next
    case False
    then show ?thesis
      using l assms(5) by (intro exI [of _ "set_buffer f (d\<lparr>odd := 1\<rparr>) s"])
        (simp add: k r1 pu d Let_def del: put_user.simps(2))
  qed
qed



section \<open>An array on a disk (test_blk.c)\<close>

text \<open>The device is the kernel's: what a write of bytes at a position returns and does, what \<open>lseek\<close> to a
  position returns, what a read returns and yields. Integers have four bytes, the lowest first.\<close>

record 's blk_file =
  bwrite :: "nat \<Rightarrow> 8 word list \<Rightarrow> 's \<Rightarrow> int \<times> 's"
  bseek :: "nat \<Rightarrow> 's \<Rightarrow> int"
  bread :: "nat \<Rightarrow> nat \<Rightarrow> 's \<Rightarrow> int \<times> 8 word list"

definition BLK_SIZE :: nat where
  "BLK_SIZE = 2122"

definition BLK_CHK :: nat where
  "BLK_CHK = 250"

definition int_bytes :: "32 word \<Rightarrow> 8 word list" where
  "int_bytes w = map (\<lambda>i. ucast (drop_bit (8 * i) w)) [0..<4]"

definition bytes_int :: "8 word list \<Rightarrow> 32 word" where
  "bytes_int bs = fold (\<lambda>b w. push_bit 8 w OR ucast b) (rev bs) 0"

definition blk_vector :: "8 word list" where
  "blk_vector = concat (map (\<lambda>j. int_bytes (of_nat j)) [0..<BLK_SIZE])"

text \<open>Whether the first and the second open succeed; the files left open, the results of the calls and the
  element that is printed. When \<open>lseek\<close> fails, the position is still the one behind what was written.\<close>

definition test_blk :: "bool \<Rightarrow> bool \<Rightarrow> 's blk_file \<Rightarrow> 's \<Rightarrow> nat \<times> (int \<times> int \<times> int \<times> 32 word) option \<times> 's" where
  "test_blk first second f s =
     (let left = (if first then 1 else 0) in
      if \<not> second then (left, None, s)
      else (let len = 4 * BLK_SIZE; off = 4 * BLK_CHK; (w, s1) = bwrite f 0 blk_vector s; sk = bseek f off s1;
                (r, xs) = bread f (if 0 \<le> sk then nat sk else nat (max 0 w)) 4 s1;
                v = blit blk_vector off (if r > 0 then take (nat r) xs else []) in
        (left, Some (w, sk, r, bytes_int (chunk off 4 v)), s1)))"

lemma int_bytes_back: "bytes_int (int_bytes w) = w"
proof (rule bit_word_eqI)
  fix n assume "n < LENGTH(32)"
  then consider "n < 8" | "8 \<le> n" "n < 16" | "16 \<le> n" "n < 24" | "24 \<le> n" "n < 32" by fastforce
  then show "bit (bytes_int (int_bytes w)) n = bit w n"
    by cases (auto simp: bytes_int_def int_bytes_def upt_rec bit_simps)
qed

lemma blit_chunk: "blit b off (chunk off n b) = b"
proof -
  let ?m = "min n (length b - off)"
  have "take n (drop off b) @ drop (off + ?m) b = drop off b"
    using append_take_drop_id [of ?m "drop off b"] by (simp add: drop_drop add.commute min_def split: if_splits)
  then have "take off b @ take n (drop off b) @ drop (off + ?m) b = b" by simp
  then show ?thesis by (simp add: blit_def chunk_def min.commute)
qed

lemma length_int_bytes [simp]: "length (int_bytes w) = 4" by (simp add: int_bytes_def)

lemma vector_chunk: "j + k < BLK_SIZE \<Longrightarrow> chunk (4 * k) 4 (concat (map (\<lambda>i. int_bytes (of_nat i)) [j..<BLK_SIZE])) = int_bytes (of_nat (j + k))"
proof (induction k arbitrary: j)
  case 0
  then show ?case by (simp add: upt_conv_Cons chunk_def)
next
  case (Suc k)
  then show ?case using Suc.IH [of "Suc j"] by (simp add: upt_conv_Cons chunk_def)
qed

text \<open>On a device that stores what is written and returns it, the program shows the element that was read;
  but what it shows is the same when nothing is read, since the element was in the array before.\<close>

lemma test_blk_shows:
  assumes "bwrite f 0 blk_vector s = (8488, s1)" "bseek f 1000 s1 = 1000" "bread f 1000 4 s1 = (r, xs)"
    "r = 4 \<and> xs = chunk 1000 4 blk_vector \<or> r \<le> 0"
  shows "test_blk b True f s = (of_bool b, Some (8488, 1000, r, 250), s1)"
proof -
  have c: "chunk 1000 4 blk_vector = int_bytes 250"
    using vector_chunk [of 0 250] by (simp add: blk_vector_def BLK_SIZE_def)
  have l: "length (chunk 1000 4 blk_vector) = 4" unfolding c by simp
  have v: "blit blk_vector 1000 (if r > 0 then take (nat r) xs else []) = blk_vector"
    using assms(4) blit_chunk [of blk_vector 1000 4] l by auto
  have "test_blk b True f s = (of_bool b, Some (8488, 1000, r, bytes_int (chunk 1000 4 (blit blk_vector 1000 (if r > 0 then take (nat r) xs else [])))), s1)"
    using assms(1,2,3) by (simp add: test_blk_def BLK_CHK_def)
  then show ?thesis unfolding v c int_bytes_back .
qed

section \<open>The parts of an ioctl number (ioctl-diag.c)\<close>

text \<open>The macros of \<open>ioctl.h\<close>: direction, size, type and number in 2, 14, 8 and 8 bits.\<close>

definition IOC :: "32 word \<Rightarrow> 32 word \<Rightarrow> 32 word \<Rightarrow> 32 word \<Rightarrow> 32 word" where
  "IOC dir type nr sz = push_bit 30 dir OR push_bit 8 type OR nr OR push_bit 16 sz"

text \<open>The commands of \<open>dubfl\<close>; \<open>isize\<close> is the size of \<open>info_struct_t\<close>, the path takes 161 bytes.\<close>

definition DUBFL_GET_INFO :: "32 word \<Rightarrow> 32 word" where
  "DUBFL_GET_INFO isize = IOC 2 68 1 isize"

definition DUBFL_SAVE_DISK :: "32 word" where
  "DUBFL_SAVE_DISK = IOC 1 68 1 0"

definition DUBFL_UNLINK_DISK :: "32 word" where
  "DUBFL_UNLINK_DISK = IOC 1 68 2 0"

definition DUBFL_LOAD_DISK :: "32 word" where
  "DUBFL_LOAD_DISK = IOC 1 68 3 161"

text \<open>What is shown of a command: direction, type, number and size.\<close>

definition ioc_show :: "32 word \<Rightarrow> nat \<times> nat \<times> nat \<times> nat" where
  "ioc_show cmd = (unat (drop_bit 30 cmd AND 3), unat (drop_bit 8 cmd AND 255), unat (cmd AND 255),
     unat (drop_bit 16 cmd AND 16383))"

text \<open>The dialogue: \<open>fgets\<close> takes at most nine characters and at the end of the input leaves the array as it
  is; \<open>sscanf\<close> leaves the number as it is when there are no digits (a sign is allowed, as before any number). The loop never ends; \<open>n\<close> rounds of it.\<close>

definition hexdigit :: "char \<Rightarrow> nat option" where
  "hexdigit c = map_of (zip ''0123456789abcdefABCDEF'' ([0..<16] @ [10..<16])) c"

fun scan_hex :: "32 word \<Rightarrow> string \<Rightarrow> 32 word" where
  "scan_hex v [] = v"
| "scan_hex v (c # cs) = (case hexdigit c of None \<Rightarrow> v | Some d \<Rightarrow> scan_hex (16 * v + of_nat d) cs)"

definition sscanf_hex :: "string \<Rightarrow> 32 word \<Rightarrow> 32 word" where
  "sscanf_hex buf i =
     (let b = dropWhile is_space buf;
          neg = (take 1 b = ''-'');
          b = (if take 1 b \<in> {''-'', ''+''} then drop 1 b else b);
          b = (if take 2 b \<in> {''0x'', ''0X''} then drop 2 b else b) in
      case b of [] \<Rightarrow> i
      | c # cs \<Rightarrow> if hexdigit c = None then i else if neg then - scan_hex 0 b else scan_hex 0 b)"

definition fgets10 :: "string \<Rightarrow> string \<Rightarrow> string \<times> string" where
  "fgets10 buf inp = (if inp = [] then (buf, [])
     else (let l = takeWhile (\<lambda>c. c \<noteq> NL) inp; n = min 9 (length l + 1) in (take n inp, drop n inp)))"

fun diag_rounds :: "nat \<Rightarrow> string \<Rightarrow> 32 word \<Rightarrow> string \<Rightarrow> (nat \<times> nat \<times> nat \<times> nat) list" where
  "diag_rounds 0 buf i inp = []"
| "diag_rounds (Suc n) buf i inp = (case fgets10 buf inp of (buf', inp') \<Rightarrow>
     let i' = sscanf_hex buf' i in ioc_show i' # diag_rounds n buf' i' inp')"

lemma bit_below: "\<lbrakk>bit (w :: 32 word) k; unat w < 2 ^ n\<rbrakk> \<Longrightarrow> k < n"
proof -
  assume b: "bit w k" and w: "unat w < 2 ^ n"
  have "bit (unat w) k" using b by (simp add: bit_unsigned_iff bit_imp_le_length)
  then have "bit (take_bit n (unat w)) k" using w by (simp add: take_bit_nat_eq_self)
  then show "k < n" by (simp add: bit_take_bit_iff)
qed

lemma ioc_masks: "3 = (mask 2 :: 32 word)" "255 = (mask 8 :: 32 word)" "16383 = (mask 14 :: 32 word)"
  by (simp_all add: mask_eq_decr_exp)

lemma ioc_fields:
  assumes "unat dir < 2 ^ 2" "unat type < 2 ^ 8" "unat nr < 2 ^ 8" "unat sz < 2 ^ 14"
  shows "drop_bit 30 (IOC dir type nr sz) AND 3 = dir" "drop_bit 8 (IOC dir type nr sz) AND 255 = type"
    "IOC dir type nr sz AND 255 = nr" "drop_bit 16 (IOC dir type nr sz) AND 16383 = sz"
proof -
  note b = bit_below [OF _ assms(1)] bit_below [OF _ assms(2)] bit_below [OF _ assms(3)] bit_below [OF _ assms(4)]
  show "drop_bit 30 (IOC dir type nr sz) AND 3 = dir"
    unfolding ioc_masks IOC_def by (rule bit_word_eqI) (auto simp: bit_simps dest: b)
  show "drop_bit 8 (IOC dir type nr sz) AND 255 = type"
    unfolding ioc_masks IOC_def by (rule bit_word_eqI) (auto simp: bit_simps dest: b)
  show "IOC dir type nr sz AND 255 = nr"
    unfolding ioc_masks IOC_def by (rule bit_word_eqI) (auto simp: bit_simps dest: b)
  show "drop_bit 16 (IOC dir type nr sz) AND 16383 = sz"
    unfolding ioc_masks IOC_def by (rule bit_word_eqI) (auto simp: bit_simps dest: b)
qed

text \<open>What is taken apart is what was put together.\<close>

lemma ioc_roundtrip:
  assumes "unat dir < 4" "unat type < 256" "unat nr < 256" "unat sz < 16384"
  shows "ioc_show (IOC dir type nr sz) = (unat dir, unat type, unat nr, unat sz)"
  using ioc_fields [of dir type nr sz] assms by (simp add: ioc_show_def)

end
