(* ===== verification/Clocks.thy ===== *)
theory Clocks
  imports System_Calls
begin

unbundle bit_operations_syntax

text \<open>
  \<open>Tasks/time\<close>: programs that measure with the processor's counter of ticks (\<open>rdtsc.c\<close>, \<open>calibr.c\<close>,
  \<open>proc_hz.c\<close>, \<open>clock.c\<close>, \<open>rtprd.c\<close>, \<open>pdelay.c\<close>), one that reads the clock of the hardware (\<open>rtcr.c\<close>), and
  modules that read the kernel's clock (\<open>interv.c\<close>, \<open>tick.c\<close>). The clocks are a parameter: what each of
  the program's readings yields. \<open>ticking\<close> is a counter that goes on between two readings by at most \<open>d\<close>.
\<close>

section \<open>The counter (rdtsc.c, calibr.c)\<close>

text \<open>The readings are numbered: \<open>regs w\<close> are the registers \<open>eax\<close> and \<open>edx\<close> if the reading \<open>w\<close> is one of the
  counter, \<open>secs w\<close> the time in seconds if it is one of the calendar.\<close>

record clocks =
  regs :: "nat \<Rightarrow> 32 word \<times> 32 word"
  secs :: "nat \<Rightarrow> int"

text \<open>The union of two words of 32 bits, the lower one first, and one of 64 bits.\<close>

definition rdtsc :: "clocks \<Rightarrow> nat \<Rightarrow> 64 word" where
  "rdtsc c w = (case regs c w of (lo, hi) \<Rightarrow> ucast lo OR push_bit 32 (ucast hi))"

fun calibr_loop :: "clocks \<Rightarrow> nat \<Rightarrow> nat \<Rightarrow> 64 word \<Rightarrow> 64 word \<times> nat" where
  "calibr_loop c w 0 acc = (acc, w)"
| "calibr_loop c w (Suc n) acc =
     (let cf = rdtsc c w; cs = rdtsc c (w + 1) in calibr_loop c (w + 2) n (acc + (cs - cf)))"

definition NUMB :: "64 word" where
  "NUMB = 10"

text \<open>The argument is not the number of measurements, unless it is negative.\<close>

definition calibr :: "clocks \<Rightarrow> int \<Rightarrow> nat \<Rightarrow> 32 word \<times> nat" where
  "calibr c rep w =
     (let m = (if rep \<ge> 0 then NUMB else word_of_int rep) in
      case calibr_loop c w (unat m) 0 of (acc, w') \<Rightarrow> (ucast (acc div m), w'))"

section \<open>Ticks in a second (proc_hz.c, clock.c)\<close>

text \<open>\<open>while( t == time( &t' ) ) v = rdtsc();\<close> with the variable \<open>v\<close>.\<close>

fun wait_second :: "nat \<Rightarrow> clocks \<Rightarrow> int \<Rightarrow> 64 word \<Rightarrow> nat \<Rightarrow> (int \<times> 64 word \<times> nat) option" where
  "wait_second 0 c t v w = None"
| "wait_second (Suc k) c t v w =
     (let t' = secs c w in if t = t' then wait_second k c t (rdtsc c (w + 1)) (w + 2) else Some (t', v, w + 1))"

text \<open>\<open>cf\<close> and \<open>cs\<close> are what the variables hold, which are not initialised.\<close>

definition proc_hz :: "nat \<Rightarrow> 64 word \<Rightarrow> 64 word \<Rightarrow> clocks \<Rightarrow> nat \<Rightarrow> (64 word \<times> nat) option" where
  "proc_hz fuel cf cs c w = (case wait_second fuel c (secs c w) cf (w + 1) of
     None \<Rightarrow> None
   | Some (t2, cf1, w1) \<Rightarrow> (case wait_second fuel c t2 cs w1 of
       None \<Rightarrow> None
     | Some (t1, cs1, w2) \<Rightarrow> (case calibr c 1000 w2 of (k, w3) \<Rightarrow> Some (cs1 - cf1 - ucast k, w3))))"

definition hex16 :: "64 word \<Rightarrow> string" where
  "hex16 v = map (\<lambda>i. hex_upper ! unat (take_bit 4 (drop_bit (60 - 4 * i) v))) [0..<16]"

definition clock_main :: "nat \<Rightarrow> 64 word \<Rightarrow> 64 word \<Rightarrow> clocks \<Rightarrow> nat \<Rightarrow> string option" where
  "clock_main fuel cf cs c w =
     map_option (\<lambda>(hz, _). hex16 (rdtsc c w) @ [NL] @ hex16 (rdtsc c (w + 1)) @ [NL] @ hex16 (rdtsc c (w + 2)) @ [NL]
         @ show_int (sint hz) @ [NL]) (proc_hz fuel cf cs c (w + 3))"

section \<open>Latency of a periodic interrupt (rtprd.c)\<close>

record latency =
  ts0 :: "64 word"
  worst :: "64 word"
  cali :: "64 word"
  lat_sum :: "64 word"
  worst_cycle :: nat

definition do_work :: "clocks \<Rightarrow> nat \<Rightarrow> nat \<Rightarrow> latency \<Rightarrow> latency" where
  "do_work c w n s =
     (let now = rdtsc c w - ts0 s - cali s; s1 = s\<lparr>lat_sum := lat_sum s + now\<rparr> in
      if now > worst s1 then s1\<lparr>worst := now, worst_cycle := n\<rparr> else s1)"

text \<open>\<open>k\<close> rounds, the first of them number \<open>i\<close>; the read that waits for the interrupt has no effect.\<close>

fun latency_loop :: "clocks \<Rightarrow> nat \<Rightarrow> nat \<Rightarrow> nat \<Rightarrow> latency \<Rightarrow> latency \<times> nat" where
  "latency_loop c w i 0 s = (s, w)"
| "latency_loop c w i (Suc k) s = latency_loop c (w + 2) (i + 1) k (do_work c (w + 1) i (s\<lparr>ts0 := rdtsc c w\<rparr>))"

text \<open>The options: frequency, rounds and whether the priority is left as it is; None is the exit with the
  message on the usage.\<close>

definition rt_option :: "char \<times> string \<Rightarrow> int \<times> int \<times> bool \<Rightarrow> (int \<times> int \<times> bool) option" where
  "rt_option o' s = (case o' of (c, a) \<Rightarrow> case s of (freq, rep, nice) \<Rightarrow>
     let v = wrap_int (atol a) in
     if c = CHR ''f'' then Some (if v > 0 then v else freq, rep, nice)
     else if c = CHR ''r'' then Some (freq, if v > 0 then v else rep, nice)
     else if c = CHR ''n'' then Some (freq, rep, True) else None)"

fun rt_options :: "(char \<times> string) list \<Rightarrow> int \<times> int \<times> bool \<Rightarrow> (int \<times> int \<times> bool) option" where
  "rt_options [] s = Some s"
| "rt_options (o' # os) s = (case rt_option o' s of None \<Rightarrow> None | Some s' \<Rightarrow> rt_options os s')"

text \<open>What is asked of the clock's device.\<close>

datatype rtc_call = RTC_IRQP_SET int | RTC_PIE_ON | RTC_PIE_OFF

text \<open>The result: the calls, whether the priority was raised, the ticks of a second, the worst latency with
  its round and the mean, in ticks. How they are printed, as microseconds, is not modelled.\<close>

datatype rt_result = Usage | Endless | Report "rtc_call list" bool "64 word" "64 word" nat "64 word"

definition rtprd_main :: "nat \<Rightarrow> 64 word \<Rightarrow> 64 word \<Rightarrow> clocks \<Rightarrow> (char \<times> string) list \<Rightarrow> rt_result" where
  "rtprd_main fuel cf cs c os = (case rt_options os (8192, 1000, False) of
     None \<Rightarrow> Usage
   | Some (freq, rep, nice) \<Rightarrow> (case calibr c 10000 0 of (cl, w1) \<Rightarrow>
       (case proc_hz fuel cf cs c w1 of
          None \<Rightarrow> Endless
        | Some (hz, w2) \<Rightarrow>
           (case latency_loop c w2 1 (nat rep) \<lparr>ts0 = 0, worst = 0, cali = ucast cl, lat_sum = 0, worst_cycle = 0\<rparr> of
              (s, w3) \<Rightarrow> Report [RTC_IRQP_SET freq, RTC_PIE_ON, RTC_PIE_OFF] (\<not> nice) hz (worst s) (worst_cycle s)
                (lat_sum s div word_of_int rep)))))"

section \<open>Delays (pdelay.c)\<close>

text \<open>One delay of \<open>n\<close> cycles: with \<open>nanosleep\<close>, and with a loop that reads the counter until \<open>wpr\<close> ticks are
  over. \<open>wpr\<close> is computed in floating point from the ticks of a second and is a parameter; the
  comparison of the \<open>long long\<close> with a difference of \<open>unsigned long long\<close> is unsigned. The results are the
  ticks that were measured.\<close>

fun sleep_loop :: "clocks \<Rightarrow> 64 word \<Rightarrow> nat \<Rightarrow> nat \<Rightarrow> 64 word \<Rightarrow> 64 word \<times> nat" where
  "sleep_loop c cl 0 w ri = (ri, w)"
| "sleep_loop c cl (Suc n) w ri = sleep_loop c cl n (w + 2) (ri + (rdtsc c (w + 1) - rdtsc c w - cl))"

fun busy_wait :: "nat \<Rightarrow> clocks \<Rightarrow> 64 word \<Rightarrow> 64 word \<Rightarrow> nat \<Rightarrow> (64 word \<times> nat) option" where
  "busy_wait 0 c rb wpr w = None"
| "busy_wait (Suc k) c rb wpr w =
     (let ra = rdtsc c w in if ra - rb < wpr then busy_wait k c rb wpr (w + 1) else Some (ra, w + 1))"

fun active_loop :: "nat \<Rightarrow> clocks \<Rightarrow> 64 word \<Rightarrow> 64 word \<Rightarrow> nat \<Rightarrow> nat \<Rightarrow> 64 word \<Rightarrow> (64 word \<times> nat) option" where
  "active_loop fuel c wpr cl 0 w ri = Some (ri, w)"
| "active_loop fuel c wpr cl (Suc n) w ri =
     (let rb = rdtsc c w in case busy_wait fuel c rb wpr (w + 1) of
        None \<Rightarrow> None
      | Some (ra, w1) \<Rightarrow> active_loop fuel c wpr cl n w1 (ri + (ra - rb - cl)))"

definition dl_nsec :: "int list" where
  "dl_nsec = [10000, 100000, 200000, 300000, 500000, 1000000, 1500000, 2000000, 5000000]"

text \<open>The options: active, synchronised, raised priority, cycles, rows; None is the exit with the message on
  the usage.\<close>

record pdelay_opts =
  bActive :: bool
  bSync :: bool
  prio :: bool
  cycles :: int
  rows :: int

definition pd_option :: "char \<times> string \<Rightarrow> pdelay_opts \<Rightarrow> pdelay_opts option" where
  "pd_option o' s = (case o' of (c, a) \<Rightarrow> let v = wrap_int (atol a) in
     if c = CHR ''a'' then Some (s\<lparr>bActive := True\<rparr>)
     else if c = CHR ''s'' then Some (s\<lparr>bSync := True\<rparr>)
     else if c = CHR ''t'' then Some (s\<lparr>prio := True\<rparr>)
     else if c = CHR ''n'' then Some (s\<lparr>cycles := v\<rparr>)
     else if c = CHR ''r'' then Some (if v > 0 \<and> v < rows s then s\<lparr>rows := v\<rparr> else s)
     else None)"

text \<open>The rows: the delay that is set and the ticks measured, before the division by the cycles, which is in
  floating point. \<open>wprs\<close> are the ticks of each delay.\<close>

fun pdelay_rows :: "nat \<Rightarrow> clocks \<Rightarrow> bool \<Rightarrow> 64 word \<Rightarrow> nat \<Rightarrow> (int \<times> 64 word) list \<Rightarrow> nat \<Rightarrow> (int \<times> 64 word) list option" where
  "pdelay_rows fuel c act cl n [] w = Some []"
| "pdelay_rows fuel c act cl n ((dl, wpr) # ds) w =
     (case (if act then active_loop fuel c wpr cl n w 0 else Some (sleep_loop c cl n w 0)) of
        None \<Rightarrow> None
      | Some (ri, w1) \<Rightarrow> map_option (\<lambda>rs. (dl, ri) # rs) (pdelay_rows fuel c act cl n ds w1))"

definition pdelay_main :: "nat \<Rightarrow> 64 word \<Rightarrow> 64 word \<Rightarrow> clocks \<Rightarrow> (64 word \<Rightarrow> int \<Rightarrow> 64 word) \<Rightarrow> pdelay_opts \<Rightarrow> (int \<times> 64 word) list option" where
  "pdelay_main fuel cf cs c wpr s = (case proc_hz fuel cf cs c 0 of
     None \<Rightarrow> None
   | Some (prs, w1) \<Rightarrow> (case calibr c 1000 w1 of (cl, w2) \<Rightarrow>
       pdelay_rows fuel c (bActive s) (ucast cl) (nat (cycles s)) (map (\<lambda>d. (d, wpr prs d)) (take (nat (rows s)) dl_nsec)) w2))"

section \<open>The clock of the hardware (rtcr.c)\<close>

definition two_digits :: "int \<Rightarrow> string" where
  "two_digits n = (let t = show_int n in if length t < 2 then CHR ''0'' # t else t)"

text \<open>\<open>fd\<close>: the file that was opened or a negative number; \<open>ioc\<close>: the result of the ioctl and, when it
  succeeds, what it puts into the structure, which was cleared. \<open>em\<close> are the texts of \<open>%m\<close>.\<close>

definition rtcr_main :: "string \<Rightarrow> string \<Rightarrow> int \<Rightarrow> int \<times> (int \<times> int \<times> int) \<Rightarrow> string" where
  "rtcr_main em1 em2 fd ioc = (case ioc of (retval, tm) \<Rightarrow> case (if retval = 0 then tm else (0, 0, 0)) of (h, m, s) \<Rightarrow>
     (if fd < 0 then ''error: '' @ em1 @ [NL] else []) @ (if retval \<noteq> 0 then ''error: '' @ em2 @ [NL] else [])
     @ ''current time: '' @ two_digits h @ '':'' @ two_digits m @ '':'' @ two_digits s @ [NL])"

section \<open>The kernel's clock (interv.c, tick.c)\<close>

text \<open>\<open>jiffies\<close> are counted in 64 bits and kept in 32. The static \<open>j\<close>, and the lines that are printed: a number
  in hexadecimal, and the interval, an unsigned number shown with \<open>%d\<close>.\<close>

definition interv_init :: "64 word \<Rightarrow> int \<times> string \<times> 32 word" where
  "interv_init jiffies = (let j = ucast jiffies in
     (0, ''module: jiffies on start = '' @ show_base hex_upper (unat j) @ [NL], j))"

definition interv_cleanup :: "32 word \<Rightarrow> 64 word \<Rightarrow> 32 word \<Rightarrow> string \<times> 32 word" where
  "interv_cleanup HZ jiffies j = (let j1 = ucast jiffies; j' = j1 - j in
     (''module: jiffies on finish = '' @ show_base hex_upper (unat j1) @ [NL]
       @ ''module: interval of life = '' @ show_int (sint (j' div HZ)) @ [NL], j'))"

definition tick_init :: "int \<Rightarrow> 64 word \<Rightarrow> 64 word \<Rightarrow> int \<times> string" where
  "tick_init HZ jiffies i = (-1, ''jiffies = '' @ show_base hex_upper (unat jiffies) @ [NL]
     @ ''HZ value = '' @ show_int HZ @ [NL] @ ''jiffies 64-bit = '' @ hex16 i @ [NL])"

section \<open>A counter that goes on\<close>

definition ticking :: "nat \<Rightarrow> (nat \<Rightarrow> nat) \<Rightarrow> bool" where
  "ticking d T \<longleftrightarrow> (\<forall>w. T w < T (w + 1) \<and> T (w + 1) \<le> T w + d)"

text \<open>\<open>hz\<close> ticks are a second.\<close>

definition steady :: "nat \<Rightarrow> (nat \<Rightarrow> nat) \<Rightarrow> clocks" where
  "steady hz T = \<lparr>regs = (\<lambda>w. (of_nat (T w), of_nat (drop_bit 32 (T w)))), secs = (\<lambda>w. int (T w div hz))\<rparr>"

lemma rdtsc_steady [simp]: "rdtsc (steady hz T) w = of_nat (T w)"
  by (rule bit_word_eqI) (auto simp: rdtsc_def steady_def bit_simps)

lemma secs_steady [simp]: "secs (steady hz T) w = int (T w div hz)"
  by (simp add: steady_def)

lemma tickingD: "ticking d T \<Longrightarrow> T w < T (Suc w)" "ticking d T \<Longrightarrow> T (Suc w) \<le> T w + d"
  by (simp_all add: ticking_def)

lemma ticks_diff: "a \<le> b \<Longrightarrow> (of_nat b - of_nat a :: 64 word) = of_nat (b - a)"
  by (simp add: of_nat_diff)

lemma calibr_loop_steady:
  assumes "ticking d T"
  shows "\<exists>a. calibr_loop (steady hz T) w n acc = (acc + of_nat a, w + 2 * n) \<and> a \<le> n * d"
proof (induction n arbitrary: w acc)
  case (Suc n)
  let ?b = "T (Suc w) - T w"
  obtain a where a: "calibr_loop (steady hz T) (w + 2) n (acc + of_nat ?b) = (acc + of_nat ?b + of_nat a, w + 2 + 2 * n)" "a \<le> n * d"
    using Suc.IH [of "w + 2" "acc + of_nat ?b"] by auto
  show ?case
  proof (intro exI conjI)
    show "calibr_loop (steady hz T) w (Suc n) acc = (acc + of_nat (?b + a), w + 2 * Suc n)"
      unfolding calibr_loop.simps Let_def rdtsc_steady Suc_eq_plus1 [symmetric] ticks_diff [OF less_imp_le [OF tickingD(1) [OF assms]]] a(1)
      by simp
    show "?b + a \<le> Suc n * d" using a(2) tickingD(2) [OF assms, of w] by simp
  qed
qed simp

lemma calibr_steady:
  assumes "ticking d T" "10 * d < 2 ^ 32" "0 \<le> rep"
  obtains k where "calibr (steady hz T) rep w = (of_nat k, w + 20)" "k \<le> d"
proof -
  obtain a where a: "calibr_loop (steady hz T) w 10 0 = (of_nat a, w + 20)" "a \<le> 10 * d"
    using calibr_loop_steady [OF assms(1), of hz w 10 0] by auto
  have "unat (of_nat a :: 64 word) = a" using a(2) assms(2) by (simp add: unat_of_nat take_bit_nat_eq_self_iff)
  then have "(of_nat a :: 64 word) div 10 = of_nat (a div 10)" by (simp add: word_arith_nat_div)
  moreover have "ucast (of_nat (a div 10) :: 64 word) = (of_nat (a div 10) :: 32 word)"
    using a(2) assms(2) by (simp add: unsigned_of_nat take_bit_nat_eq_self)
  ultimately show thesis
    using that [of "a div 10"] a assms(3) by (simp add: calibr_def NUMB_def)
qed

text \<open>A loop that starts in a second ends behind its end; the last reading of the counter is at it.\<close>

lemma wait_second_steady:
  assumes "ticking d T" "3 * d \<le> hz" "T w div hz = q" "(q + 1) * hz + 2 \<le> T w + 2 * k"
  shows "\<exists>u. wait_second k (steady hz T) (int q) v w = Some (int (q + 1), of_nat (T (u + 1)), u + 3)
    \<and> T u < (q + 1) * hz \<and> (q + 1) * hz \<le> T (u + 2) \<and> T (u + 3) div hz = q + 1"
  using assms(3,4)
proof (induction k arbitrary: w v)
  case 0
  have "0 < d" using tickingD [OF assms(1), of w] by simp
  then have "T w < (q + 1) * hz" using 0(1) assms(2) by (metis Suc_eq_plus1 div_less_iff_less_mult less_Suc_eq nat_0_less_mult_iff not_le zero_less_numeral less_le_trans)
  then show ?case using 0 by simp
next
  case (Suc k)
  note t = tickingD [OF assms(1), of w] tickingD [OF assms(1), of "Suc w"] tickingD [OF assms(1), of "Suc (Suc w)"]
  have hz: "0 < hz" using t(1,2) assms(2) by simp
  have w: "q * hz \<le> T w" "T w < (q + 1) * hz" using Suc.prems(1) hz by (auto simp: mult.commute dividend_less_times_div)
  have st: "wait_second (Suc k) (steady hz T) (int q) v w = wait_second k (steady hz T) (int q) (of_nat (T (w + 1))) (w + 2)"
    using Suc.prems(1) by (simp add: Let_def)
  show ?case
  proof (cases "T (w + 2) < (q + 1) * hz")
    case True
    then have "T (w + 2) div hz = q" using w(1) t hz by (intro div_nat_eqI) (simp_all add: mult.commute)
    moreover have "(q + 1) * hz + 2 \<le> T (w + 2) + 2 * k" using Suc.prems(2) t by simp
    ultimately show ?thesis unfolding st by (rule Suc.IH)
  next
    case False
    have "T (w + 2) div hz = q + 1" "T (w + 3) div hz = q + 1"
      using False w(2) t assms(2) hz by (auto intro!: div_nat_eqI simp: algebra_simps numeral_eq_Suc)
    moreover obtain k' where "k = Suc k'" using Suc.prems(2) w(2) by (cases k) simp_all
    ultimately show ?thesis unfolding st using False w(2) by (intro exI [of _ w]) (simp add: Let_def)
  qed
qed

text \<open>C22: the speed of the processor. With a counter that advances by at most \<open>d\<close> ticks between two readings
  and makes \<open>hz\<close> ticks in a second, at least three times as many, the program ends, whatever its
  variables hold at first, and what it returns differs from \<open>hz\<close> by less than \<open>3 d\<close>, as long as the second
  does not end between its first two readings.\<close>

theorem proc_hz_accurate:
  assumes "ticking d T" "3 * d \<le> hz" "10 * d < 2 ^ 32" "hz < 2 ^ 63" "T (w + 1) div hz = T w div hz" "hz + 2 \<le> 2 * fuel"
  shows "\<exists>r w'. proc_hz fuel cf cs (steady hz T) w = Some (r, w') \<and> \<bar>uint r - int hz\<bar> < 3 * int d"
proof -
  let ?q = "T w div hz" and ?c = "steady hz T"
  have hz: "0 < hz" using tickingD [OF assms(1), of w] assms(2) by simp
  have "?q * hz \<le> T (w + 1)" by (metis assms(5) div_times_less_eq_dividend)
  then obtain u where u: "wait_second fuel ?c (int ?q) cf (w + 1) = Some (int (?q + 1), of_nat (T (u + 1)), u + 3)"
      "T u < (?q + 1) * hz" "(?q + 1) * hz \<le> T (u + 2)" "T (u + 3) div hz = ?q + 1"
    using wait_second_steady [OF assms(1,2,5), of fuel cf] assms(6) by (auto simp: algebra_simps)
  have "(?q + 1) * hz \<le> T (u + 3)" by (metis u(4) div_times_less_eq_dividend)
  then obtain x where x: "wait_second fuel ?c (int (?q + 1)) cs (u + 3) = Some (int (?q + 2), of_nat (T (x + 1)), x + 3)"
      "T x < (?q + 2) * hz" "(?q + 2) * hz \<le> T (x + 2)"
    using wait_second_steady [OF assms(1,2) u(4), of fuel cs] assms(6) by (auto simp: algebra_simps)
  obtain k where k: "calibr ?c 1000 (x + 3) = (of_nat k, x + 3 + 20)" "k \<le> d"
    using calibr_steady [OF assms(1,3)] by (metis zero_le_numeral)
  define a b where "a = T (u + 1)" and "b = T (x + 1)"
  have near: "a < (?q + 1) * hz + d" "(?q + 1) * hz \<le> a + d" "b < (?q + 2) * hz + d" "(?q + 2) * hz \<le> b + d"
    using u(2,3) x(2,3) tickingD(2) [OF assms(1), of u] tickingD(2) [OF assms(1), of "u + 1"]
      tickingD(2) [OF assms(1), of x] tickingD(2) [OF assms(1), of "x + 1"] unfolding a_def b_def by simp_all
  define m where "m = ?q * hz"
  have n: "a < m + hz + d" "m + hz \<le> a + d" "b < m + 2 * hz + d" "m + 2 * hz \<le> b + d"
    using near unfolding m_def by (simp_all add: algebra_simps)
  have kk: "(ucast (of_nat k :: 32 word) :: 64 word) = of_nat k"
    using k(2) assms(3) by (simp add: unsigned_of_nat take_bit_nat_eq_self)
  have le: "a + k \<le> b" "b - a - k < hz + 3 * d" "hz < b - a - k + 3 * d" using n k(2) assms(2) by linarith+
  have "(of_nat b - of_nat a - of_nat k :: 64 word) = of_nat (b - a - k)" using le(1) by (simp add: of_nat_diff)
  moreover have "uint (of_nat (b - a - k) :: 64 word) = int (b - a - k)"
    using le(2) assms(2,4) by (simp add: uint_nat unat_of_nat take_bit_nat_eq_self)
  ultimately show ?thesis
    using u(1) x(1) k(1) kk le(2,3) unfolding a_def b_def by (simp add: proc_hz_def)
qed

theorem proc_hz_accurate_witness:
  "\<exists>r w'. proc_hz 20 77 78 (steady 30 (\<lambda>w. 7 * w)) 0 = Some (r, w') \<and> \<bar>uint r - int 30\<bar> < 3 * int 7"
  using proc_hz_accurate [of 7 "\<lambda>w. 7 * w" 30 0 20 77 78] by (simp add: ticking_def)

text \<open>The number of measurements is 10 whatever is asked for, and a negative number means nearly 2^64.\<close>

lemma calibr_number:
  "snd (calibr c rep w) = w + 2 * (if rep \<ge> 0 then 10 else unat (word_of_int rep :: 64 word))"
proof -
  have "snd (calibr_loop c w n acc) = w + 2 * n" for n acc
    by (induction n arbitrary: w acc) (simp_all add: Let_def)
  then show ?thesis by (simp add: calibr_def NUMB_def split_beta Let_def)
qed

section \<open>What is reported of the latency\<close>

text \<open>The latency of round \<open>i\<close> of those that begin at reading \<open>w\<close>.\<close>

definition round_latency :: "clocks \<Rightarrow> nat \<Rightarrow> 64 word \<Rightarrow> nat \<Rightarrow> 64 word" where
  "round_latency c w cl i = rdtsc c (w + 2 * i + 1) - rdtsc c (w + 2 * i) - cl"

lemma round_latency_Suc: "round_latency c (w + 2) cl i = round_latency c w cl (Suc i)"
  by (simp add: round_latency_def)

lemma latency_loop_end:
  assumes "latency_loop c w i k s = (s', w')" "L = round_latency c w (cali s)"
  shows "w' = w + 2 * k \<and> cali s' = cali s \<and> lat_sum s' = lat_sum s + (\<Sum>j<k. L j)
    \<and> worst s \<le> worst s' \<and> (\<forall>j<k. L j \<le> worst s')
    \<and> (worst s' = worst s \<and> worst_cycle s' = worst_cycle s
       \<or> (\<exists>j<k. worst_cycle s' = i + j \<and> worst s' = L j \<and> worst s < L j \<and> (\<forall>m<j. L m < L j)))"
  using assms
proof (induction k arbitrary: w i s L)
  case (Suc k)
  define s1 where "s1 = do_work c (w + 1) i (s\<lparr>ts0 := rdtsc c w\<rparr>)"
  have s1: "cali s1 = cali s" "lat_sum s1 = lat_sum s + L 0" "worst s1 = max (worst s) (L 0)"
      "worst_cycle s1 = (if worst s < L 0 then i else worst_cycle s)"
    unfolding s1_def Suc.prems(2) by (auto simp: do_work_def round_latency_def Let_def max_def not_less)
  define L' where "L' = round_latency c (w + 2) (cali s1)"
  have L': "L' j = L (Suc j)" for j unfolding L'_def Suc.prems(2) s1(1) by (rule round_latency_Suc)
  have loop: "latency_loop c (w + 2) (i + 1) k s1 = (s', w')" using Suc.prems(1) by (simp add: s1_def)
  note ih = Suc.IH [OF loop L'_def]
  have all: "\<forall>j<Suc k. L j \<le> worst s'" using ih s1(3) unfolding L' by (auto simp: less_Suc_eq_0_disj)
  have sum: "lat_sum s' = lat_sum s + (\<Sum>j<Suc k. L j)" using ih s1(2) unfolding L' sum.lessThan_Suc_shift by simp
  have "worst s' = worst s \<and> worst_cycle s' = worst_cycle s
       \<or> (\<exists>j<Suc k. worst_cycle s' = i + j \<and> worst s' = L j \<and> worst s < L j \<and> (\<forall>m<j. L m < L j))"
  proof (cases "worst s' = worst s1 \<and> worst_cycle s' = worst_cycle s1")
    case True
    then show ?thesis using s1(3,4) by (auto intro!: exI [of _ 0] simp: max_def not_less split: if_splits)
  next
    case False
    then obtain j where "j < k" "worst_cycle s' = i + 1 + j" "worst s' = L (Suc j)" "worst s1 < L (Suc j)" "\<forall>m<j. L (Suc m) < L (Suc j)"
      using ih unfolding L' by blast
    then show ?thesis using s1(3) by (intro disjI2 exI [of _ "Suc j"]) (auto simp: less_Suc_eq_0_disj)
  qed
  then show ?case using ih s1(1,3) all sum by simp
qed simp

text \<open>What the program reports of its rounds is true: the worst latency is the greatest of all rounds, the
  round named with it is the first that has it, and the sum that the mean is computed of is the sum of
  all of them modulo 2^64. If no round has a latency above 0, the round named is 0.\<close>

theorem rtprd_reports:
  assumes "latency_loop c w 1 k \<lparr>ts0 = 0, worst = 0, cali = cl, lat_sum = 0, worst_cycle = 0\<rparr> = (s, w')"
    "L = round_latency c w cl"
  shows "lat_sum s = (\<Sum>j<k. L j) \<and> (\<forall>j<k. L j \<le> worst s)
    \<and> (if worst s = 0 then worst_cycle s = 0
       else \<exists>j<k. worst_cycle s = j + 1 \<and> L j = worst s \<and> (\<forall>m<j. L m < worst s))"
  using latency_loop_end [OF assms(1)] assms(2) by (auto simp: word_gt_0)

theorem rtprd_reports_witness:
  "\<exists>s w'. latency_loop (steady 1000 (\<lambda>w. w * w)) 0 1 3 \<lparr>ts0 = 0, worst = 0, cali = 1, lat_sum = 0, worst_cycle = 0\<rparr> = (s, w')
    \<and> lat_sum s = 0 + 4 + 8 \<and> worst_cycle s \<noteq> 0"
proof -
  obtain s w' where l: "latency_loop (steady 1000 (\<lambda>w. w * w)) 0 1 3 \<lparr>ts0 = 0, worst = 0, cali = 1, lat_sum = 0, worst_cycle = 0\<rparr> = (s, w')"
    by fastforce
  have L: "round_latency (steady 1000 (\<lambda>w. w * w)) 0 1 0 = 0" "round_latency (steady 1000 (\<lambda>w. w * w)) 0 1 1 = 4"
    "round_latency (steady 1000 (\<lambda>w. w * w)) 0 1 2 = 8"
    by (simp_all add: round_latency_def)
  note r = rtprd_reports [OF l refl]
  have "lat_sum s = 0 + 4 + 8" using r L by (simp add: numeral_3_eq_3 numeral_2_eq_2 lessThan_Suc)
  moreover have "worst s \<noteq> 0" using r L(3) by (auto dest: spec [of _ 2])
  ultimately show ?thesis using l r by (auto split: if_splits)
qed

section \<open>Delays and intervals\<close>

text \<open>A wait that begins at the counter \<open>b\<close> ends, and not before its ticks are over.\<close>

lemma busy_wait_ends:
  assumes "ticking d T" "b \<le> T w" "b + wpr < T w + k" "T w < b + wpr + d" "wpr + d < 2 ^ 64" "0 < k"
  shows "\<exists>a w'. busy_wait k (steady hz T) (of_nat b) (of_nat wpr) w = Some (of_nat a, w') \<and> b + wpr \<le> a \<and> a < b + wpr + d
    \<and> T w' \<le> a + d \<and> a < T w'"
  using assms(2-4,6)
proof (induction k arbitrary: w)
  case (Suc k)
  note t = tickingD [OF assms(1), of w]
  have lt: "((of_nat (T w) :: 64 word) - of_nat b < of_nat wpr) = (T w < b + wpr)"
  proof -
    obtain e where e: "T w = b + e" using Suc.prems(1) le_Suc_ex by blast
    then have "(of_nat e :: 64 word) < of_nat wpr \<longleftrightarrow> e < wpr"
      using Suc.prems(3) assms(5) by (simp add: word_less_nat_alt unat_of_nat take_bit_nat_eq_self)
    then show ?thesis unfolding e by simp
  qed
  show ?case
  proof (cases "T w < b + wpr")
    case True
    moreover have "0 < k" using True Suc.prems(2) by simp
    ultimately show ?thesis
      using Suc.IH [of "Suc w"] t Suc.prems lt by (simp add: Let_def)
  next
    case False
    then show ?thesis using t Suc.prems lt by (intro exI [of _ "T w"] exI [of _ "Suc w"]) (simp add: Let_def)
  qed
qed simp

text \<open>What is printed of the interval is right although the counters are cut to 32 bits and may have wrapped.\<close>

lemma interv_interval:
  assumes "j0 \<le> j1" "j1 - j0 < 2 ^ 32" "2 \<le> HZ" "HZ < 2 ^ 31"
  shows "fst (interv_cleanup (of_nat HZ) (of_nat j1) (snd (snd (interv_init (of_nat j0)))))
    = ''module: jiffies on finish = '' @ show_base hex_upper (j1 mod 2 ^ 32) @ [NL] @ ''module: interval of life = '' @ show_int (int ((j1 - j0) div HZ)) @ [NL]"
proof -
  have c: "(ucast (of_nat n :: 64 word) :: 32 word) = of_nat n" for n
    by (rule bit_word_eqI) (auto simp: bit_simps)
  obtain e where e: "j1 = j0 + e" using assms(1) le_Suc_ex by blast
  have q: "(of_nat e :: 32 word) div of_nat HZ = of_nat (e div HZ)"
    using assms e by (simp add: word_arith_nat_div unat_of_nat take_bit_nat_eq_self)
  have "e div HZ \<le> e div 2" using assms(3) by (simp add: div_le_mono2)
  then have "e div HZ < 2 ^ 31" using assms(2) e by simp
  then have "sint (of_nat (e div HZ) :: 32 word) = int (e div HZ)"
    by (simp add: signed_of_nat signed_take_bit_int_eq_self)
  moreover have "unat (of_nat j1 :: 32 word) = j1 mod 2 ^ 32" by (simp add: unat_of_nat take_bit_eq_mod)
  ultimately have "(of_nat j1 - of_nat j0 :: 32 word) div of_nat HZ = of_nat (e div HZ)"
      "sint (of_nat (e div HZ) :: 32 word) = int (e div HZ)" "j1 - j0 = e" using q by (simp_all add: e)
  then show ?thesis using \<open>unat (of_nat j1 :: 32 word) = j1 mod 2 ^ 32\<close>
    by (simp add: interv_cleanup_def interv_init_def Let_def c)
qed

end
