(* ===== verification/Smp_Modules.thy ===== *)
theory Smp_Modules
  imports Decimal
begin

text \<open>
  \<open>Tasks/+TASKS/smp\<close>: a module that has a function called on every processor (\<open>nproc.c\<close>), and four that
  measure how long a piece of work takes which they have done by a kernel thread (\<open>thr1.c\<close>, \<open>thr2.c\<close>), a
  work queue (\<open>thr3.c\<close>) or a tasklet (\<open>thr4.c\<close>). All return an error on purpose, so that their code is
  released when the init function returns. The times that are printed are not modelled.
\<close>

section \<open>The processors in use (nproc.c)\<close>

text \<open>\<open>data_percpu\<close> has eight entries of 16 bits; \<open>preempt\<close> is how often preemption is disabled on each
  processor, which \<open>get_cpu\<close> does and \<open>put_cpu\<close> undoes.\<close>

record percpu =
  data_percpu :: "16 word list"
  preempt :: "nat \<Rightarrow> int"

definition get_cpu :: "nat \<Rightarrow> percpu \<Rightarrow> percpu" where
  "get_cpu cpu s = s\<lparr>preempt := (preempt s)(cpu := preempt s cpu + 1)\<rparr>"

definition put_cpu :: "nat \<Rightarrow> percpu \<Rightarrow> percpu" where
  "put_cpu cpu s = s\<lparr>preempt := (preempt s)(cpu := preempt s cpu - 1)\<rparr>"

definition call_func :: "nat \<Rightarrow> percpu \<Rightarrow> percpu" where
  "call_func cpu s =
     (let s1 = get_cpu cpu s in
      if cpu \<ge> length (data_percpu s1) then s1
      else put_cpu cpu (s1\<lparr>data_percpu := (data_percpu s1)[cpu := data_percpu s1 ! cpu + 1]\<rparr>))"

definition nproc_start :: percpu where
  "nproc_start = \<lparr>data_percpu = replicate 8 0, preempt = (\<lambda>_. 0)\<rparr>"

definition nproc_text :: "percpu \<Rightarrow> string" where
  "nproc_text s = concat (map (\<lambda>i. if data_percpu s ! i \<noteq> 0 then show_int (int i) @ '' '' else []) [0..<length (data_percpu s)])"

text \<open>\<open>cpus\<close>: the processors in the order in which they call the function. The text is built in an array of
  120 bytes.\<close>

definition test_nump :: "nat list \<Rightarrow> percpu \<Rightarrow> (int \<times> string) res \<times> percpu" where
  "test_nump cpus s = (let s1 = fold call_func cpus s in
     (if 120 \<le> length (nproc_text s1) then crash OutOfBounds
      else Inr (-1, ''CPU in use: '' @ nproc_text s1 @ [NL]), s1))"

lemma call_func_fold:
  assumes "distinct cpus"
  shows "length (data_percpu (fold call_func cpus s)) = length (data_percpu s)
    \<and> (\<forall>i<length (data_percpu s). data_percpu (fold call_func cpus s) ! i = data_percpu s ! i + of_bool (i \<in> set cpus))
    \<and> preempt (fold call_func cpus s) = (\<lambda>i. preempt s i + of_bool (i \<in> set cpus \<and> length (data_percpu s) \<le> i))"
  using assms
proof (induction cpus arbitrary: s)
  case (Cons c cs)
  define s1 where "s1 = call_func c s"
  have s1: "length (data_percpu s1) = length (data_percpu s)"
    "\<And>i. i < length (data_percpu s) \<Longrightarrow> data_percpu s1 ! i = data_percpu s ! i + of_bool (i = c)"
    "preempt s1 = (\<lambda>i. preempt s i + of_bool (i = c \<and> length (data_percpu s) \<le> i))"
    by (auto simp: s1_def call_func_def get_cpu_def put_cpu_def Let_def nth_list_update)
  show ?case using Cons.IH [of s1] Cons.prems s1 by (auto simp: fun_eq_iff simp flip: s1_def)
qed (simp add: fun_eq_iff)

text \<open>In whatever order the processors call the function, the module prints the numbers of those below 8
  that are in use, in ascending order, and nothing else; the text fits. Each processor with a number
  from 8 on is left with preemption disabled.\<close>

theorem nproc_prints:
  assumes "distinct cpus" "test_nump cpus nproc_start = (r, s)"
  shows "r = Inr (-1, ''CPU in use: '' @ concat (map (\<lambda>i. show_int (int i) @ '' '') (filter (\<lambda>i. i \<in> set cpus) [0..<8])) @ [NL])
    \<and> preempt s = (\<lambda>i. of_bool (i \<in> set cpus \<and> 8 \<le> i))"
proof -
  have s: "s = fold call_func cpus nproc_start" using assms(2) by (simp add: test_nump_def Let_def)
  have c: "length (data_percpu s) = 8" "\<And>i. i < 8 \<Longrightarrow> data_percpu s ! i = of_bool (i \<in> set cpus)"
      "preempt s = (\<lambda>i. of_bool (i \<in> set cpus \<and> 8 \<le> i))"
    using call_func_fold [OF assms(1), of nproc_start] unfolding s by (simp_all add: nproc_start_def)
  have f: "concat (map (\<lambda>i. if P i then f i else []) xs) = concat (map f (filter P xs))" for P and f :: "nat \<Rightarrow> string" and xs
    by (induction xs) simp_all
  have "nproc_text s = concat (map (\<lambda>i. if i \<in> set cpus then show_int (int i) @ '' '' else []) [0..<8])"
    unfolding nproc_text_def c(1) by (intro arg_cong [where f = concat] map_cong) (simp_all add: c(2))
  then have t: "nproc_text s = concat (map (\<lambda>i. show_int (int i) @ '' '') (filter (\<lambda>i. i \<in> set cpus) [0..<8]))"
    unfolding f .
  have l: "length (show_int (int i)) = 1" if "i < 8" for i using that by (simp add: show_int_def show_nat.simps [of i])
  have "length (nproc_text s) \<le> 16"
  proof -
    have "length (concat (map (\<lambda>i. show_int (int i) @ '' '') xs)) = 2 * length xs" if "\<forall>i\<in>set xs. i < 8" for xs
      using that by (induction xs) (simp_all add: l)
    moreover have "length (filter (\<lambda>i. i \<in> set cpus) [0..<8]) \<le> 8" using length_filter_le [of _ "[0..<8]"] by simp
    ultimately show ?thesis unfolding t by simp
  qed
  then show ?thesis using assms(2) c(3) t by (simp add: test_nump_def Let_def flip: s)
qed

theorem nproc_prints_witness:
  "\<exists>r s. test_nump [9, 2, 0] nproc_start = (r, s) \<and> r = Inr (-1, ''CPU in use: 0 2 '' @ [NL]) \<and> preempt s 9 = 1"
proof -
  obtain r s where r: "test_nump [9, 2, 0] nproc_start = (r, s)" by fastforce
  have "show_int (int 0) = ''0''" "show_int (int 2) = ''2''" by code_simp+
  moreover have "filter (\<lambda>i. i \<in> set [9, 2, 0]) [0..<8] = [0, 2 :: nat]" by code_simp
  ultimately show ?thesis using r nproc_prints [OF _ r] by simp
qed

section \<open>Work that a module waits for (thr1.c .. thr4.c)\<close>

text \<open>Who does the work. The work: its first line, a second's pause, in a thread the completion of the event
  that the module waits for, its second line, in the module's code.\<close>

datatype worker = KernelThread | KthreadRun | Workqueue | Tasklet

datatype work_pc = Absent | AtStart | AtPause | AtComplete | AtFinish | Over

text \<open>The module: before the work is started, waiting, at the line with the time, at its return with a result, released.\<close>

datatype module_pc = Starting | Waiting | Reporting | Returning int | Released

record smp =
  wpc :: work_pc
  mpc :: module_pc
  completed :: bool
  sfault :: bool

definition smp_start :: smp where
  "smp_start = \<lparr>wpc = Absent, mpc = Starting, completed = False, sfault = False\<rparr>"

definition is_thread :: "worker \<Rightarrow> bool" where
  "is_thread k \<longleftrightarrow> k = KernelThread \<or> k = KthreadRun"

text \<open>A step of the work; a step in code that was released is a fault.\<close>

definition work_step :: "worker \<Rightarrow> smp \<Rightarrow> smp option" where
  "work_step k s = (let s1 = s\<lparr>sfault := sfault s \<or> mpc s = Released\<rparr> in case wpc s of
     Absent \<Rightarrow> None
   | AtStart \<Rightarrow> Some (s1\<lparr>wpc := AtPause\<rparr>)
   | AtPause \<Rightarrow> Some (s1\<lparr>wpc := if is_thread k then AtComplete else AtFinish\<rparr>)
   | AtComplete \<Rightarrow> Some (s1\<lparr>wpc := AtFinish, completed := True\<rparr>)
   | AtFinish \<Rightarrow> Some (s1\<lparr>wpc := Over\<rparr>)
   | Over \<Rightarrow> None)"

text \<open>The init function. \<open>ok\<close>: the thread or the work queue can be had. A thread that could not be created is
  not noticed: \<open>kernel_thread\<close> returns a number that is not looked at, \<open>kthread_run\<close> an error pointer that
  is compared with NULL. \<open>flush_workqueue\<close> and \<open>tasklet_kill\<close> wait for the end of the work.\<close>

definition test_thread :: "worker \<Rightarrow> bool \<Rightarrow> smp \<Rightarrow> smp option" where
  "test_thread k ok s = (case mpc s of
     Starting \<Rightarrow> (if k = Workqueue \<and> \<not> ok then Some (s\<lparr>mpc := Returning (-56)\<rparr>)
       else Some (s\<lparr>wpc := (if ok \<or> k = Tasklet then AtStart else Absent), mpc := Waiting\<rparr>))
   | Waiting \<Rightarrow> (if (if is_thread k then completed s else wpc s = Over) then Some (s\<lparr>mpc := Reporting\<rparr>) else None)
   | Reporting \<Rightarrow> Some (s\<lparr>mpc := Returning (-1)\<rparr>)
   | Returning r \<Rightarrow> Some (s\<lparr>mpc := Released\<rparr>)
   | Released \<Rightarrow> None)"

inductive smp_reach :: "worker \<Rightarrow> bool \<Rightarrow> smp \<Rightarrow> bool" for k ok where
  smp_init: "smp_reach k ok smp_start"
| smp_work: "smp_reach k ok s \<Longrightarrow> work_step k s = Some s' \<Longrightarrow> smp_reach k ok s'"
| smp_main: "smp_reach k ok s \<Longrightarrow> test_thread k ok s = Some s' \<Longrightarrow> smp_reach k ok s'"

lemmas smp_steps = work_step_def test_thread_def Let_def is_thread_def

text \<open>A worker that is waited for to its end is over when the module goes on.\<close>

lemma smp_waited:
  assumes "smp_reach k ok s"
  shows "(mpc s = Starting \<longrightarrow> wpc s = Absent) \<and> (\<not> is_thread k \<longrightarrow> \<not> sfault s \<and> (mpc s \<in> {Reporting, Released} \<or> (\<exists>r. mpc s = Returning r) \<longrightarrow> wpc s \<in> {Absent, Over}))
    \<and> (\<not> ok \<and> is_thread k \<longrightarrow> wpc s = Absent \<and> \<not> completed s \<and> \<not> sfault s \<and> mpc s \<in> {Starting, Waiting})"
  using assms
proof induction
  case (smp_work s s')
  then show ?case by (cases "wpc s") (auto simp: smp_steps)
next
  case (smp_main s s')
  then show ?case by (cases "mpc s") (auto simp: smp_steps split: if_splits)
qed (simp add: smp_start_def)

text \<open>A thread has completed the event before its last line, so the module may be released in between.\<close>

lemma smp_thread_faults: "is_thread k \<Longrightarrow> \<exists>s. smp_reach k True s \<and> sfault s"
proof -
  assume k: "is_thread k"
  define m where "m = (\<lambda>s. the (test_thread k True s))"
  define w where "w = (\<lambda>s. the (work_step k s))"
  define s where "s = w (m (m (m (w (w (w (m smp_start)))))))"
  have "smp_reach k True s"
    unfolding s_def by (rule smp_work [of k True "m (m (m (w (w (w (m smp_start))))))"],
      rule smp_main [of k True "m (m (w (w (w (m smp_start)))))"], rule smp_main [of k True "m (w (w (w (m smp_start))))"],
      rule smp_main [of k True "w (w (w (m smp_start)))"], rule smp_work [of k True "w (w (m smp_start))"],
      rule smp_work [of k True "w (m smp_start)"], rule smp_work [of k True "m smp_start"],
      rule smp_main [of k True smp_start], rule smp_init)
      (use k in \<open>auto simp: m_def w_def smp_steps smp_start_def\<close>)
  moreover have "sfault s" using k by (auto simp: s_def m_def w_def smp_steps smp_start_def)
  ultimately show ?thesis by blast
qed

text \<open>C32: the four modules. The code of the module is released under the work's feet in exactly two of them,
  those with a thread, and only when the thread could be created: the work queue and the tasklet are
  waited for to the end of the work, the threads only to the event that they complete before it.\<close>

theorem smp_released_early:
  "(\<exists>s. smp_reach k ok s \<and> sfault s) \<longleftrightarrow> ok \<and> is_thread k"
  using smp_thread_faults [of k] smp_waited [of k ok] by (cases ok) auto

text \<open>A module whose thread could not be created waits for ever.\<close>

lemma smp_waits_for_ever:
  assumes "smp_reach k False s" "is_thread k" "mpc s \<noteq> Starting"
  shows "work_step k s = None \<and> test_thread k False s = None"
  using smp_waited [OF assms(1)] assms(2,3) by (auto simp: smp_steps)

end
