(* ===== verification/Previous_Nets.thy ===== *)
theory Previous_Nets
  imports Net_Drivers
begin

text \<open>
  The drivers of \<open>Net_Drivers\<close> as they were for kernels before 3.17, \<open>Tasks/!previous/network.lt.3.17\<close>: the four
  of \<open>net\<close> and \<open>netproto/net_protox.c\<close>. They keep the same contract and cannot be told from the current ones
  but for the form in which one of them prints a packet.
\<close>

section \<open>network.c\<close>

definition old_stub_open :: "lab_dev \<Rightarrow> int \<times> lab_dev" where
  "old_stub_open d = (0, netif_start_queue d)"

definition old_stub_close :: "lab_dev \<Rightarrow> int \<times> lab_dev" where
  "old_stub_close d = (0, netif_stop_queue d)"

definition old_stub_start_xmit :: "nat \<Rightarrow> packet \<Rightarrow> lab_dev \<Rightarrow> int \<times> lab_dev" where
  "old_stub_start_xmit jiffies skb d =
     (0, dev_kfree_skb skb d)"

definition old_stub_ops :: net_ops where
  "old_stub_ops = \<lparr>ndo_open = old_stub_open, ndo_stop = old_stub_close, ndo_start_xmit = old_stub_start_xmit,
     ndo_do_ioctl = None, ndo_get_stats = None, ndo_set_config = None, ndo_change_mtu = None\<rparr>"

definition old_stub_setup :: lab_dev where
  "old_stub_setup = blank_dev\<lparr>dev_addr := map of_nat [0..<ETH_ALEN]\<rparr>"

definition old_stub_init :: "netdev_env \<Rightarrow> net_mod \<Rightarrow> int res \<times> net_mod" where
  "old_stub_init = register_or_free old_stub_setup"

definition old_stub_exit :: "net_mod \<Rightarrow> unit res \<times> net_mod" where
  "old_stub_exit = unregister_and_free"

section \<open>transmit_simple.c\<close>

definition old_simple_open :: "lab_dev \<Rightarrow> int \<times> lab_dev" where
  "old_simple_open d = (0, netif_start_queue d)"

definition old_simple_close :: "lab_dev \<Rightarrow> int \<times> lab_dev" where
  "old_simple_close d = (0, netif_stop_queue d)"

definition old_simple_start_xmit :: "nat \<Rightarrow> packet \<Rightarrow> lab_dev \<Rightarrow> int \<times> lab_dev" where
  "old_simple_start_xmit jiffies skb d =
     (0, dev_kfree_skb skb (d\<lparr>trans_start := jiffies, printed := printed d @ dump [] skb\<rparr>))"

definition old_simple_ops :: net_ops where
  "old_simple_ops = \<lparr>ndo_open = old_simple_open, ndo_stop = old_simple_close, ndo_start_xmit = old_simple_start_xmit,
     ndo_do_ioctl = None, ndo_get_stats = None, ndo_set_config = None, ndo_change_mtu = None\<rparr>"

definition old_simple_setup :: lab_dev where
  "old_simple_setup = blank_dev\<lparr>dev_addr := map of_nat [0..<ETH_ALEN], iff_noarp := True\<rparr>"

definition old_simple_init :: "netdev_env \<Rightarrow> net_mod \<Rightarrow> int res \<times> net_mod" where
  "old_simple_init = register_or_free old_simple_setup"

definition old_simple_exit :: "net_mod \<Rightarrow> unit res \<times> net_mod" where
  "old_simple_exit = unregister_and_free"

section \<open>transmit.c\<close>

definition old_lab_open :: "lab_dev \<Rightarrow> int \<times> lab_dev" where
  "old_lab_open d = (0, netif_start_queue d)"

definition old_lab_close :: "lab_dev \<Rightarrow> int \<times> lab_dev" where
  "old_lab_close d = (0, netif_stop_queue d)"

definition old_lab_start_xmit :: "nat \<Rightarrow> packet \<Rightarrow> lab_dev \<Rightarrow> int \<times> lab_dev" where
  "old_lab_start_xmit jiffies skb d =
     (let d1 = dev_kfree_skb skb (d\<lparr>trans_start := jiffies, printed := printed d @ dump [] skb\<rparr>) in
      (0, d1\<lparr>lstats := (lstats d1)\<lparr>tx_count := tx_count (lstats d1) + 1\<rparr>\<rparr>))"

definition old_lab_do_ioctl :: "lab_dev \<Rightarrow> int" where
  "old_lab_do_ioctl d = -1"

definition old_lab_get_stats :: "lab_dev \<Rightarrow> lab_stats" where
  "old_lab_get_stats d = lstats d"

definition old_lab_config :: "lab_dev \<Rightarrow> int res" where
  "old_lab_config d = (if iff_up d then fail EBUSY else Inr 0)"

definition old_lab_change_mtu :: "int \<Rightarrow> lab_dev \<Rightarrow> int" where
  "old_lab_change_mtu new_mtu d = -1"

definition old_lab_ops :: net_ops where
  "old_lab_ops = \<lparr>ndo_open = old_lab_open, ndo_stop = old_lab_close, ndo_start_xmit = old_lab_start_xmit,
     ndo_do_ioctl = Some old_lab_do_ioctl, ndo_get_stats = Some old_lab_get_stats,
     ndo_set_config = Some old_lab_config, ndo_change_mtu = Some old_lab_change_mtu\<rparr>"

definition old_lab_setup :: lab_dev where
  "old_lab_setup = blank_dev\<lparr>dev_addr := map of_nat [0..<ETH_ALEN], iff_noarp := True,
     lstats := (lstats blank_dev)\<lparr>collisions := 50\<rparr>\<rparr>"

definition old_lab_init :: "netdev_env \<Rightarrow> net_mod \<Rightarrow> int res \<times> net_mod" where
  "old_lab_init = register_or_free old_lab_setup"

definition old_lab_exit :: "net_mod \<Rightarrow> unit res \<times> net_mod" where
  "old_lab_exit = unregister_and_free"

section \<open>receive.c\<close>

definition old_loop_open :: "lab_dev \<Rightarrow> int \<times> lab_dev" where
  "old_loop_open d = (0, netif_start_queue d)"

definition old_loop_close :: "lab_dev \<Rightarrow> int \<times> lab_dev" where
  "old_loop_close d = (0, netif_stop_queue d)"

definition old_my_rx :: "packet \<Rightarrow> lab_dev \<Rightarrow> lab_dev" where
  "old_my_rx skb d = netif_rx skb (d\<lparr>lstats := (lstats d)\<lparr>rx_count := rx_count (lstats d) + 1\<rparr>\<rparr>)"

definition old_loop_start_xmit :: "nat \<Rightarrow> packet \<Rightarrow> lab_dev \<Rightarrow> int \<times> lab_dev" where
  "old_loop_start_xmit jiffies skb d =
     (let d1 = d\<lparr>trans_start := jiffies, printed := printed d @ dump [] skb\<rparr>;
          d2 = d1\<lparr>lstats := (lstats d1)\<lparr>tx_count := tx_count (lstats d1) + 1\<rparr>\<rparr> in
      (0, old_my_rx skb d2))"

definition old_loop_do_ioctl :: "lab_dev \<Rightarrow> int" where
  "old_loop_do_ioctl d = -1"

definition old_loop_get_stats :: "lab_dev \<Rightarrow> lab_stats" where
  "old_loop_get_stats d = lstats d"

definition old_loop_config :: "lab_dev \<Rightarrow> int res" where
  "old_loop_config d = (if iff_up d then fail EBUSY else Inr 0)"

definition old_loop_change_mtu :: "int \<Rightarrow> lab_dev \<Rightarrow> int" where
  "old_loop_change_mtu new_mtu d = -1"

definition old_loop_ops :: net_ops where
  "old_loop_ops = \<lparr>ndo_open = old_loop_open, ndo_stop = old_loop_close, ndo_start_xmit = old_loop_start_xmit,
     ndo_do_ioctl = Some old_loop_do_ioctl, ndo_get_stats = Some old_loop_get_stats,
     ndo_set_config = Some old_loop_config, ndo_change_mtu = Some old_loop_change_mtu\<rparr>"

definition old_loop_setup :: lab_dev where
  "old_loop_setup = blank_dev\<lparr>dev_addr := map of_nat [0..<ETH_ALEN], iff_noarp := True,
     lstats := (lstats blank_dev)\<lparr>collisions := 50\<rparr>\<rparr>"

definition old_loop_init :: "netdev_env \<Rightarrow> net_mod \<Rightarrow> int res \<times> net_mod" where
  "old_loop_init = register_or_free old_loop_setup"

definition old_loop_exit :: "net_mod \<Rightarrow> unit res \<times> net_mod" where
  "old_loop_exit = unregister_and_free"

section \<open>net_protox.c\<close>

definition old_protox_open :: "lab_dev \<Rightarrow> int \<times> lab_dev" where
  "old_protox_open d = (0, netif_start_queue d)"

definition old_protox_close :: "lab_dev \<Rightarrow> int \<times> lab_dev" where
  "old_protox_close d = (0, netif_stop_queue d)"

definition old_protox_start_xmit :: "nat \<Rightarrow> packet \<Rightarrow> lab_dev \<Rightarrow> int \<times> lab_dev" where
  "old_protox_start_xmit jiffies skb d =
     (0, dev_kfree_skb skb d)"

definition old_protox_ops :: net_ops where
  "old_protox_ops = \<lparr>ndo_open = old_protox_open, ndo_stop = old_protox_close, ndo_start_xmit = old_protox_start_xmit,
     ndo_do_ioctl = None, ndo_get_stats = None, ndo_set_config = None, ndo_change_mtu = None\<rparr>"

definition old_protox_setup :: lab_dev where
  "old_protox_setup = blank_dev\<lparr>dev_addr := map of_nat [0..<ETH_ALEN]\<rparr>"

definition old_protox_pack_rcv :: "frame \<Rightarrow> nat res \<times> frame" where
  "old_protox_pack_rcv f = kfree_len f"

definition old_protox_init :: "netdev_env \<Rightarrow> net_mod \<Rightarrow> int res \<times> net_mod" where
  "old_protox_init e s = (case register_or_free old_protox_setup e s of
     (Inr r, s1) \<Rightarrow> if r = 0 then (Inr 0, s1\<lparr>pack := map_option fst (sdev s1)\<rparr>) else (Inr r, s1)
   | (Inl f, s1) \<Rightarrow> (Inl f, s1))"

definition old_protox_exit :: "net_mod \<Rightarrow> unit res \<times> net_mod" where
  "old_protox_exit s = unregister_and_free (s\<lparr>pack := None\<rparr>)"

section \<open>The contract\<close>

lemmas old_open_defs = old_stub_open_def old_stub_close_def old_simple_open_def old_simple_close_def old_lab_open_def
  old_lab_close_def old_loop_open_def old_loop_close_def old_protox_open_def old_protox_close_def
  netif_start_queue_def netif_stop_queue_def dev_kfree_skb_def fun_eq_iff

interpretation old_stub: net_driver old_stub_ops False False None
  by unfold_locales (simp_all add: old_stub_ops_def old_stub_start_xmit_def old_open_defs)

interpretation old_simple: net_driver old_simple_ops False False "Some []"
  by unfold_locales (simp_all add: old_simple_ops_def old_simple_start_xmit_def old_open_defs)

interpretation old_transmit: net_driver old_lab_ops True False "Some []"
  by unfold_locales (simp_all add: old_lab_ops_def old_lab_start_xmit_def old_lab_get_stats_def old_open_defs)

interpretation old_receive: net_driver old_loop_ops True True "Some []"
  by unfold_locales (simp_all add: old_loop_ops_def old_loop_start_xmit_def old_my_rx_def netif_rx_def
      old_loop_get_stats_def old_open_defs)

interpretation old_protox: net_driver old_protox_ops False False None
  by unfold_locales (simp_all add: old_protox_ops_def old_protox_start_xmit_def old_open_defs)

section \<open>The versions\<close>

text \<open>The other operations of two tables are the same.\<close>

definition same_rest :: "net_ops \<Rightarrow> net_ops \<Rightarrow> bool" where
  "same_rest o1 o2 \<longleftrightarrow> ndo_do_ioctl o1 = ndo_do_ioctl o2 \<and> ndo_set_config o1 = ndo_set_config o2
    \<and> ndo_change_mtu o1 = ndo_change_mtu o2
    \<and> (\<forall>f d t. ndo_do_ioctl o1 = Some f \<longrightarrow> f (d\<lparr>printed := t\<rparr>) = f d)
    \<and> (\<forall>f d t. ndo_set_config o1 = Some f \<longrightarrow> f (d\<lparr>printed := t\<rparr>) = f d)
    \<and> (\<forall>f m d t. ndo_change_mtu o1 = Some f \<longrightarrow> f m (d\<lparr>printed := t\<rparr>) = f m d)"

text \<open>Two drivers that keep the contract, and print both or neither of them, cannot be told apart by their
  answers, and their devices are the same but for what they printed.\<close>

lemma contract_agrees:
  assumes "net_driver o1 counting looping m1" "net_driver o2 counting looping m2" "(m1 = None) = (m2 = None)" "same_rest o1 o2"
    "ndo_run o1 cs d1 = (as1, e1)" "ndo_run o2 cs d2 = (as2, e2)" "d1 = d2\<lparr>printed := printed d1\<rparr>"
  shows "as1 = as2 \<and> e1 = e2\<lparr>printed := printed e1\<rparr>"
  using assms(5-7)
proof (induction cs arbitrary: d1 d2 as1 as2 e1 e2)
  case (Cons c cs)
  obtain a1 f1 where c1: "ndo_call o1 c d1 = (a1, f1)" by fastforce
  obtain a2 f2 where c2: "ndo_call o2 c d2 = (a2, f2)" by fastforce
  have one: "a1 = a2 \<and> f1 = f2\<lparr>printed := printed f1\<rparr>"
  proof -
    define t where "t = printed d1"
    have d1: "d1 = d2\<lparr>printed := t\<rparr>" using Cons.prems(3) by (simp add: t_def)
    show ?thesis
      using c1 c2 assms(3,4) unfolding d1
      by (cases c; cases counting) (auto simp: net_driver.opens [OF assms(1)] net_driver.opens [OF assms(2)] net_driver.stops [OF assms(1)]
          net_driver.stops [OF assms(2)] net_driver.xmits [OF assms(1)] net_driver.xmits [OF assms(2)]
          net_driver.stats [OF assms(1)] net_driver.stats [OF assms(2)] same_rest_def split: option.splits)
  qed
  obtain b1 g1 where r1: "ndo_run o1 cs f1 = (b1, g1)" by fastforce
  obtain b2 g2 where r2: "ndo_run o2 cs f2 = (b2, g2)" by fastforce
  show ?case using Cons.IH [OF r1 r2] Cons.prems(1,2) c1 c2 r1 r2 one by auto
qed auto

text \<open>Each driver with its previous version.\<close>

definition net_versions :: "((net_ops \<times> lab_dev) \<times> net_ops \<times> lab_dev) set" where
  "net_versions = {((old_stub_ops, old_stub_setup), stub_ops, stub_setup), ((old_simple_ops, old_simple_setup), simple_ops, simple_setup),
     ((old_lab_ops, old_lab_setup), lab_ops, lab_setup), ((old_loop_ops, old_loop_setup), loop_ops, loop_setup),
     ((old_protox_ops, old_protox_setup), protox_ops, protox_setup)}"

lemma operations_same:
  "old_lab_do_ioctl = lab_do_ioctl" "old_lab_config = lab_config" "old_lab_change_mtu = lab_change_mtu"
  "old_loop_do_ioctl = loop_do_ioctl" "old_loop_config = loop_config" "old_loop_change_mtu = loop_change_mtu"
  by (simp_all add: fun_eq_iff old_lab_do_ioctl_def old_lab_config_def old_lab_change_mtu_def old_loop_do_ioctl_def
      old_loop_config_def old_loop_change_mtu_def lab_do_ioctl_def lab_config_def lab_change_mtu_def loop_do_ioctl_def
      loop_config_def loop_change_mtu_def)

lemma rest_same:
  "same_rest old_stub_ops stub_ops" "same_rest old_simple_ops simple_ops" "same_rest old_lab_ops lab_ops"
  "same_rest old_loop_ops loop_ops" "same_rest old_protox_ops protox_ops"
  by (auto simp: same_rest_def operations_same old_stub_ops_def stub_ops_def old_simple_ops_def simple_ops_def
      old_lab_ops_def lab_ops_def old_loop_ops_def loop_ops_def old_protox_ops_def protox_ops_def lab_do_ioctl_def
      lab_config_def lab_change_mtu_def loop_do_ioctl_def loop_config_def loop_change_mtu_def)

lemma setups_same:
  "old_stub_setup = stub_setup" "old_simple_setup = simple_setup" "old_lab_setup = lab_setup"
  "old_loop_setup = loop_setup" "old_protox_setup = protox_setup"
  by (simp_all add: old_stub_setup_def stub_setup_def old_simple_setup_def simple_setup_def old_lab_setup_def lab_setup_def
      old_loop_setup_def loop_setup_def old_protox_setup_def protox_setup_def)

text \<open>Whatever the kernel calls, a driver and its previous version give the same answers and leave the same
  device, but for the text that was printed.\<close>

lemma net_versions_agree:
  assumes "((o1, s1), o2, s2) \<in> net_versions" "ndo_run o1 cs s1 = (as1, d1)" "ndo_run o2 cs s2 = (as2, d2)"
  shows "as1 = as2 \<and> d1 = d2\<lparr>printed := printed d1\<rparr>"
proof -
  have s: "s1 = s2\<lparr>printed := printed s1\<rparr>"
    using assms(1) by (auto simp: net_versions_def setups_same)
  consider "o1 = old_stub_ops" "o2 = stub_ops" | "o1 = old_simple_ops" "o2 = simple_ops" | "o1 = old_lab_ops" "o2 = lab_ops"
    | "o1 = old_loop_ops" "o2 = loop_ops" | "o1 = old_protox_ops" "o2 = protox_ops"
    using assms(1) by (auto simp: net_versions_def)
  then show ?thesis
  proof cases
    case 1
    then show ?thesis
      using contract_agrees [OF old_stub.net_driver_axioms stub.net_driver_axioms refl rest_same(1)] assms(2,3) s by simp
  next
    case 2
    then show ?thesis
      using contract_agrees [OF old_simple.net_driver_axioms simple.net_driver_axioms refl rest_same(2)] assms(2,3) s by simp
  next
    case 3
    then show ?thesis
      using contract_agrees [OF old_transmit.net_driver_axioms transmit.net_driver_axioms _ rest_same(3)] assms(2,3) s by simp
  next
    case 4
    then show ?thesis
      using contract_agrees [OF old_receive.net_driver_axioms receive.net_driver_axioms refl rest_same(4)] assms(2,3) s by simp
  next
    case 5
    then show ?thesis
      using contract_agrees [OF old_protox.net_driver_axioms protox.net_driver_axioms refl rest_same(5)] assms(2,3) s by simp
  qed
qed

text \<open>They are loaded and unloaded in the same way.\<close>

lemma net_modules_agree:
  "old_stub_init = stub_init" "old_stub_exit = stub_exit" "old_simple_init = simple_init" "old_simple_exit = simple_exit"
  "old_lab_init = lab_init" "old_lab_exit = lab_exit" "old_loop_init = loop_init" "old_loop_exit = loop_exit"
  "old_protox_init = protox_init" "old_protox_exit = protox_exit" "old_protox_pack_rcv = protox_pack_rcv"
  by (simp_all add: old_stub_init_def stub_init_def old_stub_exit_def stub_exit_def old_simple_init_def simple_init_def
      old_simple_exit_def simple_exit_def old_lab_init_def lab_init_def old_lab_exit_def lab_exit_def old_loop_init_def
      loop_init_def old_loop_exit_def loop_exit_def old_protox_init_def protox_init_def old_protox_exit_def protox_exit_def
      old_protox_pack_rcv_def protox_pack_rcv_def setups_same fun_eq_iff)

end
