(* ===== verification/Virt_Methods.thy ===== *)
theory Virt_Methods
  imports Virt_Filter
begin

text \<open>
  The methods of the interfaces of \<open>Tasks/network/virt-proto\<close>: \<open>virt.c\<close> and \<open>virtl.c\<close>, whose handlers and
  loading are in \<open>Virt_Filter\<close>, with those of \<open>virt-full\<close>. With messages for debugging on, \<open>virtl.c\<close> looks at a
  frame after it gave it away.
\<close>

section \<open>virt.c\<close>

definition proto_strIP :: "32 word \<Rightarrow> char list" where
  "proto_strIP addr = show_nat (unat (addr AND 0xFF)) @ ''.'' @ show_nat (unat (drop_bit 8 addr AND 0xFF)) @ ''.''
     @ show_nat (unat (drop_bit 16 addr AND 0xFF)) @ ''.'' @ show_nat (unat (drop_bit 24 addr AND 0xFF))"

definition proto_open :: "(32 word \<times> 32 word) option \<Rightarrow> vfilter \<Rightarrow> int res \<times> vfilter" where
  "proto_open ifa s = (case ifa of
     None \<Rightarrow> (crash NullDeref, s)
   | Some (addr, netmask) \<Rightarrow>
       (let s1 = s\<lparr>child_ip := addr\<rparr> in
        if 40 \<le> length (proto_strIP addr @ '':'') \<or> 40 \<le> length (proto_strIP addr @ '':'' @ proto_strIP netmask)
        then (crash OutOfBounds, s1) else (Inr 0, s1\<lparr>fqueue_on := True\<rparr>)))"

definition proto_stop :: "vfilter \<Rightarrow> int \<times> vfilter" where
  "proto_stop s = (0, s\<lparr>fqueue_on := False\<rparr>)"

definition proto_get_stats :: "vfilter \<Rightarrow> net_stats" where
  "proto_get_stats s = fstats s"

text \<open>The texts of the message are made in arrays of \<open>MAX_ADDR_LEN\<close> bytes; \<open>ip_saddr\<close> is at offset 12.\<close>

definition MAX_ADDR_LEN :: nat where
  "MAX_ADDR_LEN = 32"

definition ip_saddr :: "frame \<Rightarrow> 32 word" where
  "ip_saddr f = u32 (chunk 12 4 (header f))"

definition proto_xmit :: "bool \<Rightarrow> frame \<Rightarrow> vfilter \<Rightarrow> int res \<times> frame \<times> vfilter" where
  "proto_xmit debug f s =
     (if debug \<and> (MAX_ADDR_LEN \<le> length (proto_strIP (ip_daddr f)) \<or> MAX_ADDR_LEN \<le> length (proto_strIP (ip_saddr f)))
      then (crash OutOfBounds, f, s)
      else (Inr 0, f\<lparr>skb_dev := Parent, priority := 1\<rparr>, s\<lparr>fstats := count_tx (sk_buff.truncate f) (fstats s)\<rparr>))"

section \<open>virtl.c\<close>

definition virtl_strIP :: "32 word \<Rightarrow> char list" where
  "virtl_strIP addr = show_nat (unat (addr AND 0xFF)) @ ''.'' @ show_nat (unat (drop_bit 8 addr AND 0xFF)) @ ''.''
     @ show_nat (unat (drop_bit 16 addr AND 0xFF)) @ ''.'' @ show_nat (unat (drop_bit 24 addr AND 0xFF))"

definition virtl_open :: "bool \<Rightarrow> (32 word \<times> 32 word) option \<Rightarrow> vfilter \<Rightarrow> int res \<times> vfilter" where
  "virtl_open debug ifa s = (case ifa of
     None \<Rightarrow> (crash NullDeref, s)
   | Some (addr, netmask) \<Rightarrow>
       (let s1 = s\<lparr>child_ip := addr, fqueue_on := True\<rparr> in
        if debug \<and> (40 \<le> length (virtl_strIP addr @ '':'') \<or> 40 \<le> length (virtl_strIP addr @ '':'' @ virtl_strIP netmask))
        then (crash OutOfBounds, s1) else (Inr 0, s1)))"

definition virtl_stop :: "vfilter \<Rightarrow> int \<times> vfilter" where
  "virtl_stop s = (0, s\<lparr>fqueue_on := False\<rparr>)"

definition virtl_get_stats :: "vfilter \<Rightarrow> net_stats" where
  "virtl_get_stats s = fstats s"

text \<open>\<open>consumed\<close>: the parent interface is done with the frame when \<open>dev_queue_xmit\<close> returns; the message then
  looks into a frame that was released.\<close>

definition virtl_xmit :: "bool \<Rightarrow> bool \<Rightarrow> frame \<Rightarrow> vfilter \<Rightarrow> int res \<times> frame \<times> vfilter" where
  "virtl_xmit debug consumed f s =
     (let f1 = f\<lparr>skb_dev := Parent, priority := 1\<rparr>; s1 = s\<lparr>fstats := count_tx (sk_buff.truncate f) (fstats s)\<rparr> in
      (if debug \<and> consumed then crash UseAfterFree else Inr 0, f1, s1))"

section \<open>The versions\<close>

lemma strIP_versions: "proto_strIP = strIP" "virtl_strIP = strIP"
  by (simp_all add: fun_eq_iff proto_strIP_def virtl_strIP_def strIP_def)

text \<open>The methods are those of \<open>virt-full\<close>, with messages on or off, for an interface with or without an address;
  only the transmission of \<open>virtl.c\<close> with messages on faults when the frame is gone.\<close>

lemma virt_methods_agree:
  "proto_open ifa s = vf_open ifa s" "virtl_open debug ifa s = vf_open ifa s"
  "proto_stop s = (0, vf_stop s)" "virtl_stop s = (0, vf_stop s)"
  "proto_xmit debug f s = (Inr 0, vf_xmit f s)"
  "virtl_xmit debug consumed f s = (if debug \<and> consumed then crash UseAfterFree else Inr 0, vf_xmit f s)"
proof -
  have l: "length (strIP ip) \<le> 15" for ip by (rule length_strIP)
  have t: "\<not> 39 \<le> length (strIP a) + length (strIP b)" "\<not> 39 \<le> length (strIP a)" "\<not> MAX_ADDR_LEN \<le> length (strIP a)" for a b
    using l [of a] l [of b] by (simp_all add: MAX_ADDR_LEN_def)
  show "proto_open ifa s = vf_open ifa s" "virtl_open debug ifa s = vf_open ifa s" "proto_xmit debug f s = (Inr 0, vf_xmit f s)"
    by (simp_all add: t proto_open_def virtl_open_def proto_xmit_def vf_open_def vf_xmit_def strIP_versions Let_def
        split: option.splits)
qed (simp_all add: proto_stop_def virtl_stop_def virtl_xmit_def vf_stop_def vf_xmit_def Let_def)

text \<open>The whole life of an interface, whatever is sent in between: the address is the one it was opened with,
  every frame went to the parent and was counted.\<close>

fun proto_send :: "bool \<Rightarrow> frame list \<Rightarrow> vfilter \<Rightarrow> frame list \<times> vfilter" where
  "proto_send debug [] s = ([], s)"
| "proto_send debug (f # fs) s = (case proto_xmit debug f s of (_, f', s') \<Rightarrow>
     case proto_send debug fs s' of (fs', s'') \<Rightarrow> (f' # fs', s''))"

lemma proto_send_counts:
  "proto_send debug fs s = (fs', s') \<Longrightarrow> fs' = map (\<lambda>f. f\<lparr>skb_dev := Parent, priority := 1\<rparr>) fs
    \<and> s' = s\<lparr>fstats := fold (\<lambda>f. count_tx (sk_buff.truncate f)) fs (fstats s)\<rparr>"
proof (induction fs arbitrary: s fs' s')
  case (Cons f fs)
  obtain gs s1 where g: "proto_send debug fs (snd (vf_xmit f s)) = (gs, s1)" by fastforce
  show ?case using Cons.prems Cons.IH [OF g] g by (auto simp: virt_methods_agree(5) vf_xmit_def)
qed simp

end
