(* ===== verification/Spec2Isabelle.thy ===== *)
theory Spec2Isabelle
  imports Queue_Device Char_Device Mopen Poll_Device Confm Sys_Class Proc_Modules Block_Request Sbull
    Dubfl Virt_Net Virt_Filter Net_Modules Search Irq_Counter Sys_Table Plugin Signal_Dev Mem_Tests Threads
    Fsel Cuse_Buffer Fuse_Listing Programs
    Thread_Modules Irq_Demos Udev_Monitor Old_Devices File_Access Hardware Mem_Timing Poll_Clients
    Simple_Modules Net_Drivers System_Calls Call_Clients Hidden_Calls Test_Programs Clocks Smp_Modules
    Previous_Nets Virt_Methods
begin

text \<open>
  Verification of the example drivers and modules of \<open>mylinuxprog\<close>, the examples of a course on Linux
  kernel modules. All paths below are under \<open>src/Tasks\<close>.

  \<^bold>\<open>The program.\<close> The repository is a collection of loadable kernel modules, each built on its own, and of
  the user programs that drive them. A module registers itself when it is loaded (its init function),
  serves calls of the kernel (read, write, ioctl, show, store, a request queue, a receive handler, an
  interrupt, a system call) from its static data, and gives everything back when it is unloaded.
  Modules interact with the kernel only, but modules of one directory share source files
  (\<open>blkdev/request.c\<close>, \<open>dev/dev.h\<close>, \<open>proc/proc/fops_rw.c\<close>, \<open>sys_call_table/find.c\<close>) and are variants of one
  another, and a client meets its driver in the format of a text, a path or an ioctl number.

  \<^bold>\<open>How the code is modelled.\<close> The static data of a module and what it holds of the kernel's (registrations,
  memory, files) is a record; each function is a definition from the state and its arguments to its
  result and the new state. A result is \<open>Inr\<close> of the value returned, \<open>fail e\<close> for a negative error code, or
  \<open>crash f\<close> where C leaves the behaviour undefined (a null pointer, an access outside an object, a use or
  release of released memory, a division by zero). What the kernel decides is a parameter: how many
  bytes a user copy leaves (\<open>ucopy\<close>), which allocation fails (\<open>allocator\<close>), what a registration returns
  (fields of an environment record). Integers are unbounded where the code cannot reach their width;
  where it can they are words (\<open>Search\<close>, \<open>Irq_Counter\<close>, \<open>Sys_Table\<close>, \<open>Virt_Filter\<close>, \<open>Block_Request\<close>,
  \<open>Udev_Monitor\<close>, \<open>Hardware\<close>, \<open>Mem_Timing\<close>, \<open>Simple_Modules\<close>, \<open>Net_Drivers\<close>, \<open>System_Calls\<close>, \<open>Hidden_Calls\<close>, \<open>Test_Programs\<close>,
  \<open>Clocks\<close>) or are wrapped explicitly (\<open>wrap_int\<close>, \<open>wrap_long\<close> of \<open>Decimal\<close>).

  \<^bold>\<open>The library.\<close> \<open>Prelude\<close> has the outcomes, byte arrays, C strings and user copies; \<open>Decimal\<close> decimal and
  other texts of numbers and the C library's readers; \<open>Interfaces\<close> the contracts that several components
  share, as locales: \<open>byte_stream\<close> (what is read is what was written, in order), \<open>eof_reader\<close> (a read loop
  delivers the message once and ends), \<open>sector_store\<close> (a disk), \<open>lifecycle\<close> (after any history of loads,
  failed loads, calls and unloads an unloaded module holds nothing), \<open>exclusive\<close> (one opener). Further
  locales state contracts of one subsystem: \<open>asu_backend\<close> (\<open>Asu\<close>), \<open>virt_version\<close> (\<open>Virt_Net\<close>) and
  \<open>net_driver\<close> (\<open>Net_Drivers\<close>: which packets a driver frees, loops back, counts and prints). Each is
  interpreted on the definitions of the components that keep it.

  \<^bold>\<open>The components.\<close>
  \<^item> \<open>Queue_Device\<close>: \<open>+TASKS/queue\<close> (\<open>common.c\<close>, \<open>queues.c\<close>, \<open>queuel.c\<close>), a byte queue in a fixed buffer or in
    a list of blocks. It refines a byte stream; errors on every branch are characterised.
  \<^item> \<open>Confm\<close>: \<open>+TASKS/confm/confm.c\<close>, queue devices named in a configuration file: the parser, what is
    registered and in which order, what a failed load leaves behind.
  \<^item> \<open>Char_Device\<close>, \<open>Mopen\<close>, \<open>Poll_Device\<close>, \<open>Signal_Dev\<close>: \<open>dev/dev.h\<close>, \<open>dev/cdev\<close>, \<open>dev/misc\<close>, \<open>dev/ioctl\<close>,
    \<open>dev/mopen\<close> with its client, \<open>dev/poll.le.3.14\<close>, \<open>signal\<close>: messages, visibility between openers,
    blocking reads, positions inside the device's memory. \<open>Old_Devices\<close>: \<open>mmopen.0.c\<close> and \<open>dyndev.old.c\<close>
    against their successors; \<open>Poll_Clients\<close>: \<open>pecho.c\<close> and \<open>pcat.c\<close> with the driver of \<open>Poll_Device\<close>.
  \<^item> \<open>Proc_Node\<close>, \<open>Proc_Modules\<close>, \<open>Sys_Node\<close>, \<open>Sys_Class\<close>: \<open>proc/proc\<close>, \<open>proc/variants.le.3.9\<close>, \<open>+TASKS/lproc\<close>,
    \<open>+TASKS/sys\<close>, \<open>sys\<close>: texts and numbers as nodes of /proc and attributes of /sys, their creation at a path
    and removal.
  \<^item> \<open>Asu\<close>: \<open>+TASKS/asu\<close>, a regulated value behind a local, a /proc and a /sys back end, and the client with
    its control loop: the back ends agree and the loop reaches the value.
  \<^item> \<open>Block_Request\<close>, \<open>Sbull\<close>, \<open>Dubfl\<close>: \<open>blkdev\<close>, RAM disks: the request functions refine a disk, the three
    modes agree, an image survives saving and loading.
  \<^item> \<open>Virt_Net\<close>, \<open>Virt_Filter\<close>, \<open>Virt_Methods\<close>, \<open>Net_Modules\<close>: \<open>network\<close>: interfaces on top of another,
    filters by address, numbered interfaces, protocol handlers. \<open>Net_Drivers\<close>: the six drivers with a table of operations
    (\<open>net/network.c\<close>, \<open>transmit_simple.c\<close>, \<open>transmit.c\<close>, \<open>receive.c\<close>, \<open>mulnet.c\<close>, \<open>netproto/net_protox.c\<close>):
    every packet is accounted for over any calls, and what is printed can be read back;
    \<open>Previous_Nets\<close>: the same drivers for older kernels (\<open>!previous/network.lt.3.17\<close>) give the same answers.
  \<^item> \<open>Irq_Counter\<close>: \<open>+TASKS/irq\<close>, interrupts counted in the handler, a tasklet or a work queue, and logged at
    intervals.
  \<^item> \<open>Sys_Table\<close>, \<open>Plugin\<close>: \<open>sys_call_table\<close>, \<open>load_module\<close>: the table of system calls is changed and
    restored, printed from a file of symbols; a system call that loads the module it needs. \<open>System_Calls\<close>: \<open>int80\<close> and
    \<open>+TASKS/jiffies/jifft.c\<close>, the same calls from assembly, by number, by the library and from modules.
    \<open>Call_Clients\<close>, \<open>Hidden_Calls\<close>: the programs that make the new calls, and the handlers of
    \<open>sys_call_table/hidden\<close>, whose returning instructions run on a model of the registers and the stack.
  \<^item> \<open>Mem_Tests\<close>, \<open>Search\<close>: \<open>memory\<close>, \<open>+TASKS/memmax\<close>: allocation tests that give back what they took, and
    searches for a limit.
  \<^item> \<open>Threads\<close>: \<open>+TASKS/synch\<close>, \<open>thread/mlock\<close>: threads and the module that stops them, as interleaved steps
    of a transition relation with its reachable states. \<open>Thread_Modules\<close>: \<open>thread/tcreat\<close>, \<open>thread/tfor\<close>,
    threads of a module that is released while they run: a chain in which each thread stops the next is
    safe and ends; threads that announce their end after it fault.
  \<^item> \<open>Fsel\<close>, \<open>Cuse_Buffer\<close>, \<open>Fuse_Mirror\<close>, \<open>Fuse_Listing\<close>: \<open>fuse\<close>: \<open>fsel.c\<close> and its client (no reader misses
    its wake-up, no poll handle is destroyed twice), \<open>cusexmp.c\<close> (reads, writes and the ioctls in parts
    refine a resizable buffer), \<open>xmp.c\<close>, \<open>fusexmp.c\<close>, \<open>fusexmp_fh.c\<close> (a session accounts for every
    descriptor; a listing resumes at any position) and \<open>hello.c\<close>, over a host that is a parameter.
  \<^item> \<open>Irq_Demos\<close>: \<open>IRQ\<close>: handlers that share a line, works that free themselves, a tasklet.
  \<^item> \<open>Udev_Monitor\<close>: \<open>udev\<close>: programs that take netlink messages apart.
  \<^item> \<open>File_Access\<close>: \<open>file\<close>: modules that read or write a file; \<open>Hardware\<close>: \<open>usb\<close>, \<open>pci\<close>, \<open>dma\<close>, \<open>user_io\<close>:
    what is allocated per device, references to devices, memory for transfers, ports; \<open>Mem_Timing\<close>:
    \<open>memory/mtest/memtim.c\<close>, the order of an allocation and the mean of its cycles.
  \<^item> \<open>Simple_Modules\<close>: \<open>simple-debug\<close>, \<open>parms\<close>, \<open>time/htick.c\<close>: an attribute in one file or two, module
    parameters and where their texts overflow, a timer; \<open>exec\<close>, a program that a module starts.
  \<^item> \<open>Clocks\<close>: \<open>time\<close>: the ticks of a second and how far the result is off, the worst latency of an interrupt,
    delays, intervals in a clock that wraps; \<open>Smp_Modules\<close>: \<open>+TASKS/smp\<close>: the processors in use, and four
    modules that wait for work, two of them not long enough.
  \<^item> \<open>Programs\<close>: \<open>load_module/umaster\<close>, \<open>blkdev/test_seq.c\<close>: loading and unloading a module from a program, a
    test of a disk and what its verdict says. \<open>Test_Programs\<close>: \<open>proc/variants.le.3.9/recho.c\<close> and \<open>rtest.c\<close>,
    \<open>dev/mopen/simple.c\<close>, \<open>blkdev/test_blk.c\<close>, \<open>blkdev/dubfl/ioctl-diag.c\<close>: test programs run against the
    models of their drivers.

  \<^bold>\<open>What the theorems show.\<close> For each component: what its calls return and do on every branch, errors
  included; that variants of one driver agree; that what is stored is what is read back; that loading and
  unloading balance, or exactly where they do not. Where the code has a defect the theorem states what
  happens in the affected case (a fault, a leak, a lost byte), and the surrounding lemmas name it.

  \<^bold>\<open>Bounds and fuel.\<close> Loops that may not end have a fuel argument and the value None: \<open>cat\<close> (one more than
  the characters that remain), the searches (66 steps, since a 64-bit word doubles at most 64 times and
  an interval of 2^63 is halved 63 times; beyond 2^63 no fuel suffices, which is proved), the control
  loop of \<open>Asu\<close>; the calls of a \<open>cusexmp\<close> ioctl (three suffice: two retries and the answer); the directory
  loops (one more than the entries); the order of \<open>memtim\<close> (52 rounds, as 2^12 doubles to 2^63); \<open>pcat\<close>
  (the rounds it waits, the characters, and a few for the end); the messages of \<open>monitor\<close> (one more than
  the messages; on a buffer of zeroes no fuel suffices, which is proved); \<open>rtest\<close> (one more than the bytes
  in the node) and \<open>simple\<close> (two reads); \<open>proc_hz\<close> (half the ticks of a second, as each round takes two). All other loops are total
  functions. Threads are transition relations whose runs are bounded by a measure.

  \<^bold>\<open>Not modelled.\<close> Logging; results in floating point (\<open>time\<close>); the copy of a kernel header \<open>file/fs.h\<close>;
  modules and programs that log, or call one service of the kernel, and return (\<open>first_hello\<close>,
  \<open>prog_sys_call\<close>, \<open>int80/mds.c\<close>, \<open>export-data\<close>, \<open>config\<close>, \<open>mobj\<close>, \<open>time/set_rt.c\<close>, \<open>network/net/devices.c\<close>); the
  other versions for older kernels in \<open>!previous\<close>, whose text is that of the modelled ones but for names of
  the kernel's interface.
\<close>

end
